(* ===== verification/Prelude.thy ===== *)
theory Prelude
  imports Main "HOL-Library.Word"
begin

text \<open>
  Shared vocabulary of the yxorp development: the outcome of a Rust computation, the machine
  integer types at their Rust widths, the lemma collections the component theories fill, and
  the generic list and word facts that their proofs share.

  Bytes and text. A Rust \<^verbatim>\<open>u8\<close> is a \<^typ>\<open>char\<close> (Isabelle characters are exactly
  the 256 byte values), so \<^verbatim>\<open>&[u8]\<close>, \<^verbatim>\<open>Vec<u8>\<close>, \<^verbatim>\<open>&str\<close> and \<^verbatim>\<open>String\<close> are all \<^typ>\<open>string\<close>; a \<^verbatim>\<open>str\<close>
  is its UTF-8 encoding, as in Rust, and \<^verbatim>\<open>len()\<close> counts bytes.
\<close>

section \<open>Outcomes of fallible code\<close>

text \<open>
  A Rust function that returns \<^verbatim>\<open>Result<T, E>\<close> and may also panic (\<^verbatim>\<open>expect\<close>, \<^verbatim>\<open>unwrap\<close>,
  an out-of-range slice) has three ways to end.
\<close>

datatype ('a, 'e) outcome = Ok 'a | Err 'e | Panic string

fun rbind :: "('a, 'e) outcome \<Rightarrow> ('a \<Rightarrow> ('b, 'e) outcome) \<Rightarrow> ('b, 'e) outcome" where
  "rbind (Ok x) f = f x"
| "rbind (Err e) f = Err e"
| "rbind (Panic p) f = Panic p"

fun ok_or :: "'a option \<Rightarrow> 'e \<Rightarrow> ('a, 'e) outcome" where
  "ok_or (Some x) e = Ok x"
| "ok_or None e = Err e"

fun expect :: "'a option \<Rightarrow> string \<Rightarrow> ('a, 'e) outcome" where
  "expect (Some x) msg = Ok x"
| "expect None msg = Panic msg"

text \<open>\<^verbatim>\<open>iter().map(f).collect::<Result<Vec<_>, _>>()\<close>: the first failure ends the traversal.\<close>

fun collect_results :: "('a \<Rightarrow> ('b, 'e) outcome) \<Rightarrow> 'a list \<Rightarrow> ('b list, 'e) outcome" where
  "collect_results f [] = Ok []"
| "collect_results f (x # xs) =
     rbind (f x) (\<lambda>y. rbind (collect_results f xs) (\<lambda>ys. Ok (y # ys)))"

named_theorems outcome_simps \<open>equations that take an outcome computation apart\<close>
named_theorems std_simps \<open>facts on the Rust standard library's string functions\<close>
named_theorems stream_simps \<open>facts on socket reads and buffers\<close>

lemma rbind_eq_Ok [outcome_simps]:
  "rbind r f = Ok y \<longleftrightarrow> (\<exists>x. r = Ok x \<and> f x = Ok y)"
  by (cases r) auto

lemma rbind_eq_Err [outcome_simps]:
  "rbind r f = Err e \<longleftrightarrow> r = Err e \<or> (\<exists>x. r = Ok x \<and> f x = Err e)"
  by (cases r) auto

lemma rbind_eq_Panic [outcome_simps]:
  "rbind r f = Panic p \<longleftrightarrow> r = Panic p \<or> (\<exists>x. r = Ok x \<and> f x = Panic p)"
  by (cases r) auto

lemma ok_or_eq_Ok [outcome_simps]: "ok_or v e = Ok x \<longleftrightarrow> v = Some x"
  by (cases v) auto

lemma ok_or_eq_Err [outcome_simps]: "ok_or v e = Err e' \<longleftrightarrow> v = None \<and> e' = e"
  by (cases v) auto

lemma ok_or_not_Panic [simp]: "ok_or v e \<noteq> Panic p"
  by (cases v) auto

lemma expect_eq_Ok [outcome_simps]: "expect v m = Ok x \<longleftrightarrow> v = Some x"
  by (cases v) auto

lemma expect_eq_Panic [outcome_simps]: "expect v m = Panic p \<longleftrightarrow> v = None \<and> p = m"
  by (cases v) auto

lemma expect_not_Err [simp]: "expect v m \<noteq> Err e"
  by (cases v) auto

lemma collect_results_Ok_iff:
  "collect_results f xs = Ok ys \<longleftrightarrow> list_all2 (\<lambda>x y. f x = Ok y) xs ys"
  by (induction xs arbitrary: ys) (auto simp: outcome_simps list_all2_Cons1)

lemma collect_results_Panic:
  "collect_results f xs = Panic p \<Longrightarrow> \<exists>x \<in> set xs. f x = Panic p"
  by (induction xs) (auto simp: outcome_simps)

lemma collect_results_Err:
  "collect_results f xs = Err e \<Longrightarrow> \<exists>x \<in> set xs. f x = Err e"
  by (induction xs) (auto simp: outcome_simps)

lemma collect_results_total:
  assumes "\<And>x. x \<in> set xs \<Longrightarrow> f x = Ok (g x)"
  shows "collect_results f xs = Ok (map g xs)"
  using assms by (induction xs) auto

section \<open>Machine integers\<close>

text \<open>The target is 64-bit Linux, so \<^verbatim>\<open>usize\<close> has 64 bits.\<close>

type_synonym u16 = "16 word"
type_synonym u32 = "32 word"
type_synonym u64 = "64 word"
type_synonym usize = "64 word"
type_synonym bytes = string

text \<open>\<^verbatim>\<open>usize::MAX + 1\<close>.\<close>

abbreviation usize_lim :: nat where
  "usize_lim \<equiv> 2 ^ 64"

definition checked_add :: "usize \<Rightarrow> usize \<Rightarrow> usize option" where
  "checked_add a b = (if unat a + unat b < usize_lim then Some (a + b) else None)"

lemma checked_add_Some:
  "checked_add a b = Some c \<longleftrightarrow> unat a + unat b < usize_lim \<and> c = a + b"
  by (auto simp: checked_add_def)

lemma unat_checked_add:
  "checked_add a b = Some c \<Longrightarrow> unat c = unat a + unat b"
  by (auto simp: checked_add_def unat_word_ariths split: if_splits)

section \<open>Lists\<close>

lemma take_min_append: "take (min n (length xs)) (xs @ ys) = take n xs"
  by (simp add: min_def)

lemma filter_ex_first:
  assumes "\<exists>x \<in> set xs. P x"
  obtains ys y zs where "xs = ys @ y # zs" "P y" "\<forall>x \<in> set ys. \<not> P x"
  using assms by (metis split_list_first_prop)

lemma find_Some_split:
  "List.find P xs = Some y \<longleftrightarrow>
     (\<exists>us vs. xs = us @ y # vs \<and> P y \<and> (\<forall>u \<in> set us. \<not> P u))"
proof
  assume "List.find P xs = Some y"
  then obtain i where i: "i < length xs" "P (xs ! i)" "y = xs ! i" "\<forall>j < i. \<not> P (xs ! j)"
    by (auto simp: find_Some_iff)
  have "xs = take i xs @ y # drop (Suc i) xs"
    using i by (simp add: id_take_nth_drop)
  moreover have "\<forall>u \<in> set (take i xs). \<not> P u"
    using i by (auto simp: in_set_conv_nth)
  ultimately show "\<exists>us vs. xs = us @ y # vs \<and> P y \<and> (\<forall>u \<in> set us. \<not> P u)"
    using i by blast
next
  assume "\<exists>us vs. xs = us @ y # vs \<and> P y \<and> (\<forall>u \<in> set us. \<not> P u)"
  then obtain us vs where "xs = us @ y # vs" "P y" "\<forall>u \<in> set us. \<not> P u"
    by blast
  then show "List.find P xs = Some y"
    by (induction us arbitrary: xs) auto
qed

lemma find_filter: "List.find P (filter Q xs) = List.find (\<lambda>x. Q x \<and> P x) xs"
  by (induction xs) auto

lemma sum_list_replicate_concat:
  "length (concat (map (\<lambda>(i, n). replicate n i) xs)) = sum_list (map snd xs)"
  by (induction xs) auto

lemma length_filter_update:
  assumes "i < length xs"
  shows "length (filter P (xs[i := c])) + of_bool (P (xs ! i)) = length (filter P xs) + of_bool (P c)"
proof -
  have "filter P xs = filter P (take i xs @ xs ! i # drop (Suc i) xs)" using id_take_nth_drop [OF assms] by simp
  then show ?thesis by (simp add: upd_conv_take_nth_drop [OF assms])
qed

end
