(* ===== verification/Rust_Std.thy ===== *)
theory Rust_Std
  imports Prelude "HOL-Library.Sublist"
begin

text \<open>
  What the source uses of Rust's standard library on bytes and text: ASCII case folding,
  prefixes, \<^verbatim>\<open>split\<close>, \<^verbatim>\<open>trim\<close>, UTF-8 validation, radix parsing and decimal printing. Each function
  is total; where the Rust one returns an \<^verbatim>\<open>Option\<close> or a \<^verbatim>\<open>Result\<close> whose error the callers
  discard, the model returns an \<open>option\<close>.
\<close>

section \<open>ASCII\<close>

definition byte :: "char \<Rightarrow> nat" where
  "byte c = of_char c"

definition is_ascii_digit :: "char \<Rightarrow> bool" where
  "is_ascii_digit c \<longleftrightarrow> 48 \<le> byte c \<and> byte c \<le> 57"

definition is_ascii_upper :: "char \<Rightarrow> bool" where
  "is_ascii_upper c \<longleftrightarrow> 65 \<le> byte c \<and> byte c \<le> 90"

definition is_ascii_lower :: "char \<Rightarrow> bool" where
  "is_ascii_lower c \<longleftrightarrow> 97 \<le> byte c \<and> byte c \<le> 122"

definition is_ascii_alphanumeric :: "char \<Rightarrow> bool" where
  "is_ascii_alphanumeric c \<longleftrightarrow> is_ascii_digit c \<or> is_ascii_upper c \<or> is_ascii_lower c"

definition ascii_lower :: "char \<Rightarrow> char" where
  "ascii_lower c = (if is_ascii_upper c then char_of (byte c + 32) else c)"

definition to_ascii_lowercase :: "string \<Rightarrow> string" where
  "to_ascii_lowercase s = map ascii_lower s"

definition eq_ignore_ascii_case :: "string \<Rightarrow> string \<Rightarrow> bool" where
  "eq_ignore_ascii_case s t \<longleftrightarrow> to_ascii_lowercase s = to_ascii_lowercase t"

lemma byte_less_256 [simp]: "byte c < 256"
  by (simp add: byte_def of_char_def)

lemma byte_char_of [simp]: "n < 256 \<Longrightarrow> byte (char_of n) = n"
  by (simp add: byte_def)

lemma char_of_byte [simp]: "char_of (byte c) = c"
  by (simp add: byte_def)

lemma byte_inject [simp]: "byte c = byte d \<longleftrightarrow> c = d"
  by (metis char_of_byte)

lemma ascii_lower_idem [simp]: "ascii_lower (ascii_lower c) = ascii_lower c"
  by (auto simp: ascii_lower_def is_ascii_upper_def)

lemma length_to_ascii_lowercase [simp]: "length (to_ascii_lowercase s) = length s"
  by (simp add: to_ascii_lowercase_def)

lemma to_ascii_lowercase_idem [simp]:
  "to_ascii_lowercase (to_ascii_lowercase s) = to_ascii_lowercase s"
  by (simp add: to_ascii_lowercase_def)

lemma eq_ignore_ascii_case_refl [simp]: "eq_ignore_ascii_case s s"
  by (simp add: eq_ignore_ascii_case_def)

lemma eq_ignore_ascii_case_sym: "eq_ignore_ascii_case s t \<longleftrightarrow> eq_ignore_ascii_case t s"
  by (auto simp: eq_ignore_ascii_case_def)

lemma eq_ignore_ascii_case_trans:
  "eq_ignore_ascii_case s t \<Longrightarrow> eq_ignore_ascii_case t u \<Longrightarrow> eq_ignore_ascii_case s u"
  by (auto simp: eq_ignore_ascii_case_def)

lemma eq_ignore_ascii_case_length:
  "eq_ignore_ascii_case s t \<Longrightarrow> length s = length t"
  by (metis eq_ignore_ascii_case_def length_to_ascii_lowercase)

lemma eq_ignore_ascii_case_lower [simp]:
  "eq_ignore_ascii_case (to_ascii_lowercase s) t = eq_ignore_ascii_case s t"
  by (simp add: eq_ignore_ascii_case_def)

section \<open>Prefixes, suffixes and splitting\<close>

definition starts_with :: "'a list \<Rightarrow> 'a list \<Rightarrow> bool" where
  "starts_with s p \<longleftrightarrow> take (length p) s = p"

definition strip_prefix :: "'a list \<Rightarrow> 'a list \<Rightarrow> 'a list option" where
  "strip_prefix s p = (if starts_with s p then Some (drop (length p) s) else None)"

definition trim_start_matches :: "char \<Rightarrow> string \<Rightarrow> string" where
  "trim_start_matches c s = dropWhile (\<lambda>x. x = c) s"

definition trim_end_matches :: "char \<Rightarrow> string \<Rightarrow> string" where
  "trim_end_matches c s = rev (dropWhile (\<lambda>x. x = c) (rev s))"

text \<open>\<^verbatim>\<open>str::split(c)\<close>: always at least one piece.\<close>

fun split_on :: "char \<Rightarrow> string \<Rightarrow> string list" where
  "split_on c [] = [[]]"
| "split_on c (x # xs) =
     (if x = c then [] # split_on c xs
      else (case split_on c xs of [] \<Rightarrow> [[x]] | y # ys \<Rightarrow> (x # y) # ys))"

fun join_with :: "string \<Rightarrow> string list \<Rightarrow> string" where
  "join_with sep [] = []"
| "join_with sep [x] = x"
| "join_with sep (x # y # ys) = x @ sep @ join_with sep (y # ys)"

lemma starts_with_iff: "starts_with s p \<longleftrightarrow> (\<exists>t. s = p @ t)"
  unfolding starts_with_def by (metis append_eq_conv_conj append_take_drop_id)

lemma starts_with_append [simp]: "starts_with (p @ t) p"
  by (simp add: starts_with_def)

lemma starts_with_Nil [simp]: "starts_with s []"
  by (simp add: starts_with_def)

lemma starts_with_single [simp]: "starts_with s [c] \<longleftrightarrow> (\<exists>t. s = c # t)"
  by (auto simp: starts_with_iff)

lemma starts_with_self [simp]: "starts_with s s"
  by (simp add: starts_with_def)

lemma starts_with_length: "starts_with s p \<Longrightarrow> length p \<le> length s"
  by (auto simp: starts_with_iff)

lemma strip_prefix_Some [simp]: "strip_prefix s p = Some t \<longleftrightarrow> s = p @ t"
  by (auto simp: strip_prefix_def starts_with_iff)

lemma strip_prefix_None [simp]: "strip_prefix s p = None \<longleftrightarrow> \<not> starts_with s p"
  by (auto simp: strip_prefix_def)

lemma split_on_nonempty [simp]: "split_on c s \<noteq> []"
  by (induction s) (auto split: list.splits)

lemma join_split_on: "join_with [c] (split_on c s) = s"
proof (induction s)
  case (Cons x xs)
  obtain y ys where ys: "split_on c xs = y # ys"
    by (meson neq_Nil_conv split_on_nonempty)
  with Cons show ?case by (cases ys) auto
qed simp

lemma split_on_pieces: "p \<in> set (split_on c s) \<Longrightarrow> c \<notin> set p"
  by (induction s arbitrary: p) (force split: list.splits if_splits)+

lemma split_on_no_sep: "c \<notin> set s \<Longrightarrow> split_on c s = [s]"
  by (induction s) auto

lemma split_on_append:
  "c \<notin> set p \<Longrightarrow> split_on c (p @ c # s) = p # split_on c s"
  by (induction p) auto

lemma split_on_join:
  "ps \<noteq> [] \<Longrightarrow> \<forall>p \<in> set ps. c \<notin> set p \<Longrightarrow> split_on c (join_with [c] ps) = ps"
  by (induction "[c]" ps rule: join_with.induct) (auto simp: split_on_no_sep split_on_append)


section \<open>UTF-8\<close>

definition cont_byte :: "char \<Rightarrow> bool" where
  "cont_byte c \<longleftrightarrow> 128 \<le> byte c \<and> byte c \<le> 191"

text \<open>The second-byte range that \<^verbatim>\<open>core::str::from_utf8\<close> accepts after a given first byte.\<close>

definition utf8_second :: "char \<Rightarrow> char \<Rightarrow> bool" where
  "utf8_second c d \<longleftrightarrow>
     (if byte c = 0xE0 then 0xA0 \<le> byte d \<and> byte d \<le> 0xBF
      else if byte c = 0xED then 0x80 \<le> byte d \<and> byte d \<le> 0x9F
      else if byte c = 0xF0 then 0x90 \<le> byte d \<and> byte d \<le> 0xBF
      else if byte c = 0xF4 then 0x80 \<le> byte d \<and> byte d \<le> 0x8F
      else cont_byte d)"

text \<open>The width of a character from its first byte; 0 for a byte that starts none.\<close>

definition utf8_char_width :: "char \<Rightarrow> nat" where
  "utf8_char_width c =
     (if byte c < 0x80 then 1
      else if 0xC2 \<le> byte c \<and> byte c \<le> 0xDF then 2
      else if 0xE0 \<le> byte c \<and> byte c \<le> 0xEF then 3
      else if 0xF0 \<le> byte c \<and> byte c \<le> 0xF4 then 4 else 0)"

text \<open>The characters of a byte string, each as its own bytes; \<open>None\<close> when it is not UTF-8.\<close>

fun utf8_chars :: "string \<Rightarrow> string list option" where
  "utf8_chars [] = Some []"
| "utf8_chars (a # s) =
     (if utf8_char_width a = 1 then map_option ((#) [a]) (utf8_chars s)
      else case s of
        [] \<Rightarrow> None
      | b # s2 \<Rightarrow>
          if utf8_char_width a = 0 \<or> \<not> utf8_second a b then None
          else if utf8_char_width a = 2 then map_option ((#) [a, b]) (utf8_chars s2)
          else (case s2 of
             [] \<Rightarrow> None
           | c # s3 \<Rightarrow>
               if \<not> cont_byte c then None
               else if utf8_char_width a = 3 then map_option ((#) [a, b, c]) (utf8_chars s3)
               else (case s3 of
                  [] \<Rightarrow> None
                | d # s4 \<Rightarrow>
                    if \<not> cont_byte d then None
                    else map_option ((#) [a, b, c, d]) (utf8_chars s4))))"

declare utf8_chars.simps(2) [simp del]

definition from_utf8 :: "bytes \<Rightarrow> string option" where
  "from_utf8 s = (if utf8_chars s = None then None else Some s)"

text \<open>The characters with Unicode property \<^verbatim>\<open>White_Space\<close>, as UTF-8.\<close>

definition white_space :: "string list" where
  "white_space =
     map (\<lambda>n. [char_of (n :: nat)]) [9, 10, 11, 12, 13, 32] @
     map (map (char_of :: nat \<Rightarrow> char))
       [[0xC2, 0x85], [0xC2, 0xA0], [0xE1, 0x9A, 0x80],
        [0xE2, 0x80, 0x80], [0xE2, 0x80, 0x81], [0xE2, 0x80, 0x82], [0xE2, 0x80, 0x83],
        [0xE2, 0x80, 0x84], [0xE2, 0x80, 0x85], [0xE2, 0x80, 0x86], [0xE2, 0x80, 0x87],
        [0xE2, 0x80, 0x88], [0xE2, 0x80, 0x89], [0xE2, 0x80, 0x8A], [0xE2, 0x80, 0xA8],
        [0xE2, 0x80, 0xA9], [0xE2, 0x80, 0xAF], [0xE2, 0x81, 0x9F], [0xE3, 0x80, 0x80]]"

definition is_whitespace :: "string \<Rightarrow> bool" where
  "is_whitespace ch \<longleftrightarrow> ch \<in> set white_space"

definition trim_chars :: "string list \<Rightarrow> string list" where
  "trim_chars cs = rev (dropWhile is_whitespace (rev (dropWhile is_whitespace cs)))"

text \<open>
  \<^verbatim>\<open>str::trim\<close>. A Rust \<^verbatim>\<open>str\<close> is always UTF-8, so the last case is for other byte strings,
  on which Rust code cannot call \<^verbatim>\<open>trim\<close>.
\<close>

definition str_trim :: "string \<Rightarrow> string" where
  "str_trim s = (case utf8_chars s of Some cs \<Rightarrow> concat (trim_chars cs) | None \<Rightarrow> s)"

text \<open>\<^verbatim>\<open>str::split_whitespace\<close>: the maximal runs of characters that are not white space.\<close>

fun words_of :: "string list \<Rightarrow> string \<Rightarrow> string list" where
  "words_of [] w = (if w = [] then [] else [w])"
| "words_of (c # cs) w =
     (if is_whitespace c then (if w = [] then words_of cs [] else w # words_of cs [])
      else words_of cs (w @ c))"

definition split_whitespace :: "string \<Rightarrow> string list" where
  "split_whitespace s = (case utf8_chars s of Some cs \<Rightarrow> words_of cs [] | None \<Rightarrow> [s])"

text \<open>\<^verbatim>\<open>str::lines\<close>: split at line feeds, an optional carriage return before each dropped, and no
  empty line after a final line feed.\<close>

definition strip_cr :: "string \<Rightarrow> string" where
  "strip_cr s = (if s \<noteq> [] \<and> last s = CHR 0x0D then butlast s else s)"

definition lines :: "string \<Rightarrow> string list" where
  "lines s =
     (let ps = split_on (CHR 0x0A) s;
          full = map strip_cr (butlast ps)
      in if last ps = [] then full else full @ [last ps])"

lemma utf8_chars_concat: "utf8_chars s = Some cs \<Longrightarrow> concat cs = s"
proof (induction s arbitrary: cs rule: length_induct)
  case (1 s)
  then have IH: "utf8_chars t = Some ds \<Longrightarrow> length t < length s \<Longrightarrow> concat ds = t" for t ds
    by blast
  show ?case
  proof (cases s)
    case (Cons a t)
    note eq = "1.prems" [unfolded Cons utf8_chars.simps(2)]
    from eq Cons show ?thesis
      by (auto split: if_splits list.splits dest: IH)
  qed (use "1.prems" in simp)
qed

lemma from_utf8_Some: "from_utf8 s = Some t \<longleftrightarrow> t = s \<and> utf8_chars s \<noteq> None"
  by (auto simp: from_utf8_def)

lemma utf8_chars_ascii:
  "\<forall>c \<in> set s. byte c < 128 \<Longrightarrow> utf8_chars s = Some (map (\<lambda>c. [c]) s)"
  by (induction s) (auto simp: utf8_chars.simps(2) utf8_char_width_def)

lemma dropWhile_none: "\<forall>x \<in> set xs. \<not> P x \<Longrightarrow> dropWhile P xs = xs"
  by (cases xs) auto

lemma is_whitespace_single:
  "is_whitespace [c] \<longleftrightarrow> byte c \<in> {9, 10, 11, 12, 13, 32}"
proof -
  have "c = char_of n \<longleftrightarrow> byte c = n" if "n < 256" for n :: nat
    using that by auto
  then show ?thesis by (auto simp: is_whitespace_def white_space_def)
qed

text \<open>Text with no white space in it, such as a number, is left alone by \<^verbatim>\<open>trim\<close>.\<close>

lemma str_trim_plain [std_simps]:
  assumes "\<forall>c \<in> set s. 32 < byte c \<and> byte c < 128"
  shows "str_trim s = s"
proof -
  have "\<forall>c \<in> set (map (\<lambda>c. [c]) s). \<not> is_whitespace c"
    using assms by (auto simp: is_whitespace_single)
  then have "trim_chars (map (\<lambda>c. [c]) s) = map (\<lambda>c. [c]) s"
    unfolding trim_chars_def by (subst (1 2) dropWhile_none) auto
  moreover have "utf8_chars s = Some (map (\<lambda>c. [c]) s)"
    using assms by (intro utf8_chars_ascii) auto
  ultimately show ?thesis by (simp add: str_trim_def)
qed

section \<open>Numbers\<close>

text \<open>\<^verbatim>\<open>char::to_digit(radix)\<close> for the radices the source uses (10 and 16).\<close>

definition to_digit :: "nat \<Rightarrow> char \<Rightarrow> nat option" where
  "to_digit radix c =
     (let d = (if is_ascii_digit c then byte c - 48
               else if is_ascii_lower c then byte c - 87
               else if is_ascii_upper c then byte c - 55 else 36)
      in if d < radix then Some d else None)"

text \<open>
  The digit loop of \<^verbatim>\<open>from_str_radix\<close> for an unsigned type whose values are below \<open>lim\<close>: every
  step multiplies and adds with an overflow check.
\<close>

fun radix_loop :: "nat \<Rightarrow> nat \<Rightarrow> nat \<Rightarrow> string \<Rightarrow> nat option" where
  "radix_loop lim radix acc [] = Some acc"
| "radix_loop lim radix acc (c # cs) =
     (case to_digit radix c of
        None \<Rightarrow> None
      | Some d \<Rightarrow>
          if acc * radix < lim \<and> acc * radix + d < lim
          then radix_loop lim radix (acc * radix + d) cs else None)"

definition from_str_radix :: "nat \<Rightarrow> nat \<Rightarrow> string \<Rightarrow> nat option" where
  "from_str_radix lim radix s =
     (case s of
        [] \<Rightarrow> None
      | c # cs \<Rightarrow>
          if cs = [] \<and> (c = CHR ''+'' \<or> c = CHR ''-'') then None
          else if c = CHR ''+'' then radix_loop lim radix 0 cs
          else radix_loop lim radix 0 s)"

definition parse_usize :: "string \<Rightarrow> usize option" where
  "parse_usize s = map_option of_nat (from_str_radix usize_lim 10 s)"

definition parse_hex_usize :: "string \<Rightarrow> usize option" where
  "parse_hex_usize s = map_option of_nat (from_str_radix usize_lim 16 s)"

text \<open>\<^verbatim>\<open>Display\<close> of an unsigned integer.\<close>

definition digit_char :: "nat \<Rightarrow> char" where
  "digit_char d = char_of (48 + d)"

fun show_nat :: "nat \<Rightarrow> string" where
  "show_nat n = (if n < 10 then [digit_char n] else show_nat (n div 10) @ [digit_char (n mod 10)])"

declare show_nat.simps [simp del]

lemma radix_loop_bound: "radix_loop lim radix acc s = Some n \<Longrightarrow> acc < lim \<Longrightarrow> n < lim"
  by (induction s arbitrary: acc) (auto split: option.splits if_splits)

lemma from_str_radix_bound: "from_str_radix lim radix s = Some n \<Longrightarrow> 0 < lim \<Longrightarrow> n < lim"
  by (auto simp: from_str_radix_def simp del: radix_loop.simps dest: radix_loop_bound
      split: list.splits if_splits)

lemma to_digit_digit_char [simp]: "d < 10 \<Longrightarrow> to_digit 10 (digit_char d) = Some d"
  by (simp add: to_digit_def digit_char_def is_ascii_digit_def)

lemma byte_digit_char: "d < 10 \<Longrightarrow> byte (digit_char d) = 48 + d"
  by (simp add: digit_char_def)

lemma show_nat_nonempty [simp]: "show_nat n \<noteq> []"
  by (subst show_nat.simps) simp

lemma show_nat_digits: "c \<in> set (show_nat n) \<Longrightarrow> is_ascii_digit c"
proof (induction n rule: show_nat.induct)
  case (1 n)
  then show ?case
    by (cases "n < 10") (auto simp: show_nat.simps [of n] is_ascii_digit_def byte_digit_char)
qed

lemma radix_loop_append:
  "radix_loop lim radix acc (s @ t) =
     (case radix_loop lim radix acc s of None \<Rightarrow> None | Some a \<Rightarrow> radix_loop lim radix a t)"
  by (induction s arbitrary: acc) (auto split: option.splits)

lemma radix_loop_show_nat: "n < lim \<Longrightarrow> radix_loop lim 10 0 (show_nat n) = Some n"
proof (induction n rule: show_nat.induct)
  case (1 n)
  show ?case
  proof (cases "n < 10")
    case True
    with "1.prems" show ?thesis by (simp add: show_nat.simps [of n])
  next
    case False
    with 1 have "radix_loop lim 10 0 (show_nat (n div 10)) = Some (n div 10)" by simp
    with False "1.prems" show ?thesis
      by (simp add: show_nat.simps [of n] radix_loop_append)
  qed
qed

text \<open>Printing and parsing are inverse on every value of the type.\<close>

lemma from_str_radix_show_nat [std_simps]:
  assumes "n < lim"
  shows "from_str_radix lim 10 (show_nat n) = Some n"
proof -
  obtain c cs where s: "show_nat n = c # cs"
    by (meson neq_Nil_conv show_nat_nonempty)
  with show_nat_digits [of c n] have "is_ascii_digit c" by simp
  then have "c \<noteq> CHR ''+''" "c \<noteq> CHR ''-''"
    by (auto simp: is_ascii_digit_def byte_def)
  with s radix_loop_show_nat [OF assms] show ?thesis
    by (simp add: from_str_radix_def)
qed

lemma parse_usize_show_nat [std_simps]: "parse_usize (show_nat (unat w)) = Some w"
proof -
  have "unat w < usize_lim" using unsigned_less [of w, where 'a = nat] by simp
  then show ?thesis by (simp add: parse_usize_def std_simps)
qed

lemma str_trim_show_nat [std_simps]: "str_trim (show_nat n) = show_nat n"
  by (rule str_trim_plain) (auto simp: is_ascii_digit_def dest: show_nat_digits)

section \<open>Messages\<close>

text \<open>\<^verbatim>\<open>'{}'\<close> in a format string.\<close>

definition quoted :: "string \<Rightarrow> string" where
  "quoted s = [CHR 0x27] @ s @ [CHR 0x27]"

end
