(* ===== verification/External.thy ===== *)
theory External
  imports Rust_Std
begin

text \<open>
  The third-party crates the modelled code calls, as parameters. Nothing is defined about them:
  a \<open>ext_lib\<close> holds one function per library entry point, every model function that uses one takes
  the library as its first argument, and a theorem that depends on what the library does states
  the documented behaviour as a hypothesis.

  \<^item> \<^verbatim>\<open>http\<close>: \<^verbatim>\<open>str::parse::<Uri>()\<close>, \<^verbatim>\<open>str::parse::<Authority>()\<close>, \<^verbatim>\<open>HeaderValue::from_str\<close>;
  \<^item> \<^verbatim>\<open>memchr\<close>: \<^verbatim>\<open>memmem::find(haystack, needle)\<close>;
  \<^item> \<^verbatim>\<open>httparse\<close>: \<^verbatim>\<open>Request::parse\<close> and \<^verbatim>\<open>Response::parse\<close>; \<open>None\<close> is a parse error, and the flag says
    whether the status is \<^verbatim>\<open>Complete\<close>.
\<close>

record authority =
  auth_text :: string
  auth_host :: string
  auth_port :: "u16 option"

record uri =
  uri_scheme :: "string option"
  uri_authority :: "authority option"
  uri_path :: string

text \<open>A header as \<^verbatim>\<open>httparse\<close> returns it: the name and the raw value.\<close>

type_synonym header = "string \<times> bytes"

record parsed_request =
  pq_method :: "string option"
  pq_path :: "string option"
  pq_version :: "nat option"
  pq_headers :: "header list"

record parsed_response =
  ps_code :: "nat option"
  ps_version :: "nat option"
  ps_headers :: "header list"

record ext_lib =
  lib_parse_uri :: "string \<Rightarrow> uri option"
  lib_parse_authority :: "string \<Rightarrow> authority option"
  lib_header_value :: "string \<Rightarrow> string option"
  lib_memmem_find :: "bytes \<Rightarrow> bytes \<Rightarrow> nat option"
  lib_parse_request :: "bytes \<Rightarrow> (bool \<times> parsed_request) option"
  lib_parse_response :: "bytes \<Rightarrow> (bool \<times> parsed_response) option"

section \<open>Documented behaviour, as named hypotheses\<close>

text \<open>\<^verbatim>\<open>memmem::find\<close> returns the index of the first occurrence of the needle.\<close>

definition occurs_at :: "'a list \<Rightarrow> 'a list \<Rightarrow> nat \<Rightarrow> bool" where
  "occurs_at h n i \<longleftrightarrow> take (length n) (drop i h) = n"

definition memmem_first :: "ext_lib \<Rightarrow> bool" where
  "memmem_first E \<longleftrightarrow>
     (\<forall>h n. case lib_memmem_find E h n of
        Some i \<Rightarrow> occurs_at h n i \<and> (\<forall>j < i. \<not> occurs_at h n j)
      | None \<Rightarrow> \<forall>j \<le> length h. \<not> occurs_at h n j)"

text \<open>A URI's authority is a string that \<^verbatim>\<open>HeaderValue::from_str\<close> accepts (visible ASCII).\<close>

definition authority_is_header :: "ext_lib \<Rightarrow> bool" where
  "authority_is_header E \<longleftrightarrow>
     (\<forall>s u a. lib_parse_uri E s = Some u \<longrightarrow> uri_authority u = Some a \<longrightarrow>
        lib_header_value E (auth_text a) = Some (auth_text a))"

lemma memmem_first_Some:
  assumes "memmem_first E" "lib_memmem_find E h n = Some i"
  shows "occurs_at h n i \<and> (\<forall>j < i. \<not> occurs_at h n j)"
  using assms(1) [unfolded memmem_first_def, rule_format, of h n] assms(2) by simp

lemma memmem_first_None:
  assumes "memmem_first E" "lib_memmem_find E h n = None" "j \<le> length h"
  shows "\<not> occurs_at h n j"
  using assms(1) [unfolded memmem_first_def, rule_format, of h n] assms(2,3) by simp

lemma occurs_at_iff: "occurs_at h n i \<longleftrightarrow> (\<exists>s. drop i h = n @ s)"
  unfolding occurs_at_def by (metis append_eq_conv_conj append_take_drop_id)

lemma occurs_at_bound:
  assumes "occurs_at h n i" "n \<noteq> []"
  shows "i + length n \<le> length h"
proof -
  from assms(1) obtain s where "drop i h = n @ s" by (auto simp: occurs_at_iff)
  then have "length h - i = length n + length s" by (metis length_append length_drop)
  with assms(2) show ?thesis by (cases "i \<le> length h") auto
qed

text \<open>The occurrence is unaffected by bytes that come after it.\<close>

lemma occurs_at_append:
  assumes "i + length n \<le> length h"
  shows "occurs_at (h @ t) n i = occurs_at h n i"
  using assms by (simp add: occurs_at_def)

end
