(* ===== verification/Sample_Lib.thy ===== *)
theory Sample_Lib
  imports External
begin

text \<open>
  One concrete \<^typ>\<open>ext_lib\<close>: small executable stand-ins for the crate functions, used only to
  show that the hypotheses of the theorems can hold and to evaluate the model on sample inputs.
  No theorem about the program depends on it.
\<close>

fun sample_find_from :: "nat \<Rightarrow> bytes \<Rightarrow> bytes \<Rightarrow> nat option" where
  "sample_find_from i h n =
     (if take (length n) h = n then Some i
      else (case h of [] \<Rightarrow> None | _ # t \<Rightarrow> sample_find_from (Suc i) t n))"

declare sample_find_from.simps [simp del]

definition sample_authority :: "string \<Rightarrow> authority" where
  "sample_authority s =
     (let host = takeWhile (\<lambda>c. c \<noteq> CHR '':'') s; rest = dropWhile (\<lambda>c. c \<noteq> CHR '':'') s
      in \<lparr>auth_text = s, auth_host = host, auth_port = (if rest = [] then None else Some 80)\<rparr>)"

definition sample_parse_authority :: "string \<Rightarrow> authority option" where
  "sample_parse_authority s =
     (if s = [] \<or> CHR ''/'' \<in> set s \<or> CHR '' '' \<in> set s then None else Some (sample_authority s))"

definition sample_parse_uri :: "string \<Rightarrow> uri option" where
  "sample_parse_uri s =
     (case strip_prefix s ''http://'' of
        None \<Rightarrow> None
      | Some rest \<Rightarrow>
          Some \<lparr>uri_scheme = Some ''http'',
                uri_authority = sample_parse_authority (takeWhile (\<lambda>c. c \<noteq> CHR ''/'') rest),
                uri_path = dropWhile (\<lambda>c. c \<noteq> CHR ''/'') rest\<rparr>)"

text \<open>Lines end with CR LF; the last piece is what follows the last CR LF.\<close>

fun crlf_lines :: "string \<Rightarrow> string \<Rightarrow> string list" where
  "crlf_lines cur [] = [rev cur]"
| "crlf_lines cur [c] = [rev (c # cur)]"
| "crlf_lines cur (c # d # s) =
     (if c = CHR 0x0D \<and> d = CHR 0x0A then rev cur # crlf_lines [] s
      else crlf_lines (c # cur) (d # s))"

definition sample_header :: "string \<Rightarrow> header" where
  "sample_header l =
     (takeWhile (\<lambda>c. c \<noteq> CHR '':'') l,
      dropWhile (\<lambda>c. c = CHR '' '') (drop 1 (dropWhile (\<lambda>c. c \<noteq> CHR '':'') l)))"

definition sample_headers :: "string list \<Rightarrow> header list" where
  "sample_headers ls = map sample_header (takeWhile (\<lambda>l. l \<noteq> []) ls)"

definition sample_version :: "string \<Rightarrow> nat option" where
  "sample_version s = (if s = ''HTTP/1.1'' then Some 1 else if s = ''HTTP/1.0'' then Some 0 else None)"

definition sample_parse_request :: "bytes \<Rightarrow> (bool \<times> parsed_request) option" where
  "sample_parse_request b =
     (case crlf_lines [] b of
        [] \<Rightarrow> None
      | l # ls \<Rightarrow>
          (case split_on (CHR '' '') l of
             [m, p, v] \<Rightarrow> Some (True, \<lparr>pq_method = Some m, pq_path = Some p,
               pq_version = sample_version v, pq_headers = sample_headers ls\<rparr>)
           | _ \<Rightarrow> None))"

definition sample_parse_response :: "bytes \<Rightarrow> (bool \<times> parsed_response) option" where
  "sample_parse_response b =
     (case crlf_lines [] b of
        [] \<Rightarrow> None
      | l # ls \<Rightarrow>
          (case split_on (CHR '' '') l of
             v # code # _ \<Rightarrow> Some (True, \<lparr>ps_code = map_option unat (parse_usize code),
               ps_version = sample_version v, ps_headers = sample_headers ls\<rparr>)
           | _ \<Rightarrow> None))"

definition sample_lib :: ext_lib where
  "sample_lib =
     \<lparr>lib_parse_uri = sample_parse_uri, lib_parse_authority = sample_parse_authority,
      lib_header_value = Some, lib_memmem_find = sample_find_from 0,
      lib_parse_request = sample_parse_request, lib_parse_response = sample_parse_response\<rparr>"

lemma sample_lib_simps [simp]:
  "lib_parse_uri sample_lib = sample_parse_uri"
  "lib_parse_authority sample_lib = sample_parse_authority"
  "lib_header_value sample_lib = Some"
  "lib_memmem_find sample_lib = sample_find_from 0"
  "lib_parse_request sample_lib = sample_parse_request"
  "lib_parse_response sample_lib = sample_parse_response"
  by (simp_all add: sample_lib_def)

lemma sample_find_spec:
  "case sample_find_from i h n of
     Some k \<Rightarrow> i \<le> k \<and> occurs_at h n (k - i) \<and> (\<forall>j < k - i. \<not> occurs_at h n j)
   | None \<Rightarrow> \<forall>j \<le> length h. \<not> occurs_at h n j"
proof (induction h arbitrary: i)
  case Nil
  then show ?case by (subst sample_find_from.simps) (simp add: occurs_at_def)
next
  case (Cons c h)
  show ?case
  proof (cases "take (length n) (c # h) = n")
    case True
    then show ?thesis by (subst sample_find_from.simps) (simp add: occurs_at_def)
  next
    case False
    then have eq: "sample_find_from i (c # h) n = sample_find_from (Suc i) h n"
      by (subst sample_find_from.simps) simp
    have shift: "occurs_at (c # h) n (Suc j) = occurs_at h n j" for j
      by (simp add: occurs_at_def)
    have zero: "\<not> occurs_at (c # h) n 0" using False by (simp add: occurs_at_def)
    show ?thesis
    proof (cases "sample_find_from (Suc i) h n")
      case None
      with Cons.IH [of "Suc i"] have "\<not> occurs_at (c # h) n j" if "j \<le> Suc (length h)" for j
        using that zero shift by (cases j) auto
      then show ?thesis by (simp add: eq None)
    next
      case (Some k)
      with Cons.IH [of "Suc i"] have k: "Suc i \<le> k" "occurs_at h n (k - Suc i)"
        "\<forall>j < k - Suc i. \<not> occurs_at h n j" by auto
      then have "\<not> occurs_at (c # h) n j" if "j < Suc (k - Suc i)" for j
        using that zero shift by (cases j) auto
      moreover have "k - i = Suc (k - Suc i)" using k(1) by simp
      ultimately show ?thesis using k shift by (simp add: eq Some)
    qed
  qed
qed

lemma sample_memmem_first: "memmem_first sample_lib"
  unfolding memmem_first_def
proof (intro allI)
  fix h n
  show "case lib_memmem_find sample_lib h n of
      Some i \<Rightarrow> occurs_at h n i \<and> (\<forall>j < i. \<not> occurs_at h n j)
    | None \<Rightarrow> \<forall>j \<le> length h. \<not> occurs_at h n j"
    using sample_find_spec [where i = 0 and h = h and n = n] by (auto split: option.splits)
qed

lemma sample_authority_is_header: "authority_is_header sample_lib"
  by (simp add: authority_is_header_def)

end
