(* ===== verification/Http1_Framing.thy ===== *)
theory Http1_Framing
  imports Sample_Lib
begin

text \<open>
  The message-level functions of the two HTTP/1 engines, \<^verbatim>\<open>src/src/proxy/h1_fast.rs\<close> and
  \<^verbatim>\<open>src/src/proxy/h1_uring.rs\<close>: body framing, hop-by-hop header removal, connection persistence,
  response heads, canned responses and the small buffer helpers. Where both files define a function,
  the io_uring version has the suffix \<open>_uring\<close>.

  Shown here: ambiguous framing is rejected and what is accepted is forwarded with one canonical
  framing header that means the same; the two header filters, the two static responses and the two
  buffer helpers agree; the hand-written decimal formatter prints the decimal representation.
\<close>

section \<open>Errors and heads\<close>

datatype io_error = UnexpectedEof | TimedOut string | OtherIo

text \<open>\<^verbatim>\<open>FastH1Error\<close> and \<^verbatim>\<open>UringError\<close> have the same three cases.\<close>

datatype h1_error = Io io_error | Parse string | UpstreamErr string

datatype body_framing = NoBody | ContentLength usize | Chunked | CloseDelimited

record request_head =
  rq_head_response :: bool
  rq_close_after_response :: bool
  rq_body :: body_framing

record response_head =
  rs_status :: nat
  rs_close_after_response :: bool
  rs_body :: body_framing

definition MAX_REQUEST_BODY_BYTES :: usize where
  "MAX_REQUEST_BODY_BYTES = 64 * 1024 * 1024"

abbreviation crlf :: bytes where
  "crlf \<equiv> [CHR 0x0D, CHR 0x0A]"

section \<open>Header lookup\<close>

definition named :: "string \<Rightarrow> header \<Rightarrow> bool" where
  "named n h \<longleftrightarrow> eq_ignore_ascii_case (fst h) n"

definition header_value :: "header list \<Rightarrow> string \<Rightarrow> bytes option" where
  "header_value headers name = map_option snd (List.find (named name) headers)"

definition header_to_str :: "bytes \<Rightarrow> string option" where
  "header_to_str value = from_utf8 value"

text \<open>\<^verbatim>\<open>windows(n)\<close>: every contiguous piece of length \<open>n\<close>, none when the slice is shorter.\<close>

definition windows :: "nat \<Rightarrow> bytes \<Rightarrow> bytes list" where
  "windows n h = map (\<lambda>i. take n (drop i h)) [0..<Suc (length h) - n]"

definition ascii_contains :: "bytes \<Rightarrow> bytes \<Rightarrow> bool" where
  "ascii_contains haystack needle =
     list_ex (\<lambda>w. eq_ignore_ascii_case w needle) (windows (length needle) haystack)"

definition connection_has :: "header list \<Rightarrow> bytes \<Rightarrow> bool" where
  "connection_has headers needle =
     (case header_value headers ''connection'' of
        Some value \<Rightarrow> ascii_contains value needle
      | None \<Rightarrow> False)"

definition request_wants_close :: "bool \<Rightarrow> header list \<Rightarrow> bool" where
  "request_wants_close http10 headers \<longleftrightarrow>
     connection_has headers ''close'' \<or> (http10 \<and> \<not> connection_has headers ''keep-alive'')"

definition response_wants_close :: "bool \<Rightarrow> header list \<Rightarrow> bool" where
  "response_wants_close http10 headers = request_wants_close http10 headers"

section \<open>Body framing\<close>

fun scan_framing ::
  "header list \<Rightarrow> bytes option \<Rightarrow> bytes option \<Rightarrow> (bytes option \<times> bytes option, h1_error) outcome"
where
  "scan_framing [] te cl = Ok (te, cl)"
| "scan_framing (h # hs) te cl =
     (if named ''transfer-encoding'' h then
        (if te \<noteq> None then Err (Parse ''duplicate transfer-encoding'')
         else scan_framing hs (Some (snd h)) cl)
      else if named ''content-length'' h then
        (if cl \<noteq> None then Err (Parse ''duplicate content-length'')
         else scan_framing hs te (Some (snd h)))
      else scan_framing hs te cl)"

definition parse_length :: "bytes \<Rightarrow> (usize, h1_error) outcome" where
  "parse_length value =
     rbind (ok_or (from_utf8 value) (Parse ''invalid content-length'')) (\<lambda>text.
       ok_or (parse_usize (str_trim text)) (Parse ''invalid content-length''))"

definition chunked_only :: "string \<Rightarrow> bool" where
  "chunked_only text =
     (case map str_trim (split_on (CHR '','') text) of
        [] \<Rightarrow> False
      | first # rest \<Rightarrow> eq_ignore_ascii_case first ''chunked'' \<and> list_all (\<lambda>c. c = []) rest)"

definition body_kind :: "header list \<Rightarrow> bool \<Rightarrow> (body_framing, h1_error) outcome" where
  "body_kind headers enforce_limit =
     rbind (scan_framing headers None None) (\<lambda>(transfer_encoding, content_length).
       case transfer_encoding of
         Some value \<Rightarrow>
           if content_length \<noteq> None then
             Err (Parse ''conflicting transfer-encoding and content-length'')
           else rbind (ok_or (from_utf8 value) (Parse ''invalid transfer-encoding'')) (\<lambda>text.
             if chunked_only text then Ok Chunked
             else Err (Parse ''unsupported transfer-encoding''))
       | None \<Rightarrow>
           (case content_length of
              Some value \<Rightarrow>
                rbind (parse_length value) (\<lambda>len.
                  if enforce_limit \<and> MAX_REQUEST_BODY_BYTES < len
                  then Err (Parse ''request body too large'')
                  else Ok (ContentLength len))
            | None \<Rightarrow> Ok NoBody))"

definition or_close_delimited :: "body_framing \<Rightarrow> body_framing" where
  "or_close_delimited b = (if b = NoBody then CloseDelimited else b)"

text \<open>The io_uring engine refuses every transfer encoding.\<close>

fun scan_length :: "header list \<Rightarrow> bytes option \<Rightarrow> (bytes option, h1_error) outcome" where
  "scan_length [] cl = Ok cl"
| "scan_length (h # hs) cl =
     (if named ''transfer-encoding'' h then
        Err (Parse ''transfer-encoding is not supported by io_uring engine yet'')
      else if named ''content-length'' h then
        (if cl \<noteq> None then Err (Parse ''duplicate content-length'')
         else scan_length hs (Some (snd h)))
      else scan_length hs cl)"

definition content_length :: "header list \<Rightarrow> bool \<Rightarrow> (usize, h1_error) outcome" where
  "content_length headers enforce_limit =
     rbind (scan_length headers None) (\<lambda>cl.
       case cl of
         Some value \<Rightarrow>
           rbind (parse_length value) (\<lambda>len.
             if enforce_limit \<and> MAX_REQUEST_BODY_BYTES < len
             then Err (Parse ''request body too large'')
             else Ok len)
       | None \<Rightarrow> Ok 0)"

fun scan_response_length :: "header list \<Rightarrow> usize option \<Rightarrow> (usize option, h1_error) outcome" where
  "scan_response_length [] found = Ok found"
| "scan_response_length (h # hs) found =
     (if named ''content-length'' h then
        (if found \<noteq> None then Err (Parse ''duplicate content-length'')
         else rbind (parse_length (snd h)) (\<lambda>n. scan_response_length hs (Some n)))
      else scan_response_length hs found)"

definition response_content_length :: "header list \<Rightarrow> (usize option, h1_error) outcome" where
  "response_content_length headers =
     (if list_ex (named ''transfer-encoding'') headers then
        Err (Parse ''transfer-encoding is not supported by io_uring engine yet'')
      else scan_response_length headers None)"

section \<open>Hop-by-hop headers\<close>

definition connection_tokens :: "header list \<Rightarrow> string list" where
  "connection_tokens headers =
     map str_trim (concat (map (split_on (CHR '',''))
       (List.map_filter (\<lambda>h. from_utf8 (snd h)) (filter (named ''connection'') headers))))"

definition should_skip_header :: "string \<Rightarrow> header list \<Rightarrow> bool" where
  "should_skip_header name headers =
     (let by_length =
        (if length name = 2 then eq_ignore_ascii_case name ''te''
         else if length name = 4 then eq_ignore_ascii_case name ''host''
         else if length name = 10 then
           eq_ignore_ascii_case name ''connection'' \<or> eq_ignore_ascii_case name ''keep-alive''
         else if length name = 7 then
           eq_ignore_ascii_case name ''trailer'' \<or> eq_ignore_ascii_case name ''upgrade''
         else if length name = 14 then eq_ignore_ascii_case name ''content-length''
         else if length name = 17 then eq_ignore_ascii_case name ''transfer-encoding''
         else if length name = 16 then eq_ignore_ascii_case name ''proxy-connection''
         else False)
      in by_length \<or> list_ex (\<lambda>token. eq_ignore_ascii_case token name) (connection_tokens headers))"

definition should_skip_header_uring :: "string \<Rightarrow> header list \<Rightarrow> bool" where
  "should_skip_header_uring name headers \<longleftrightarrow>
     eq_ignore_ascii_case name ''host'' \<or> eq_ignore_ascii_case name ''connection'' \<or>
     eq_ignore_ascii_case name ''proxy-connection'' \<or> eq_ignore_ascii_case name ''keep-alive'' \<or>
     eq_ignore_ascii_case name ''content-length'' \<or>
     eq_ignore_ascii_case name ''transfer-encoding'' \<or> eq_ignore_ascii_case name ''te'' \<or>
     eq_ignore_ascii_case name ''trailer'' \<or> eq_ignore_ascii_case name ''upgrade'' \<or>
     list_ex (\<lambda>token. eq_ignore_ascii_case token name) (connection_tokens headers)"

section \<open>Decimal formatting\<close>

text \<open>
  \<^verbatim>\<open>format_usize\<close> fills a 20-byte array from the end. \<^verbatim>\<open>pos -= 1\<close> below zero would panic.
\<close>

function format_loop :: "nat \<Rightarrow> nat \<Rightarrow> bytes \<Rightarrow> (bytes, unit) outcome" where
  "format_loop n pos buf =
     (if n = 0 then Ok (drop pos buf)
      else if pos = 0 then Panic ''attempt to subtract with overflow''
      else format_loop (n div 10) (pos - 1) (buf[pos - 1 := digit_char (n mod 10)]))"
  by auto
termination by (relation "measure fst") auto

declare format_loop.simps [simp del]

definition format_usize :: "usize \<Rightarrow> bytes \<Rightarrow> (bytes, unit) outcome" where
  "format_usize n buf =
     (if n = 0 then Ok (drop 19 (buf[19 := CHR ''0'']))
      else format_loop (unat n) 20 buf)"

definition zero_buf :: "nat \<Rightarrow> bytes" where
  "zero_buf n = replicate n (CHR 0x00)"

section \<open>Outgoing heads\<close>

definition render_header :: "header \<Rightarrow> bytes" where
  "render_header h = fst h @ '': '' @ snd h @ crlf"

text \<open>The panic case of the formatter is unreachable, see \<open>format_usize_Ok\<close> below.\<close>

definition append_forward_headers ::
  "bytes \<Rightarrow> header list \<Rightarrow> body_framing \<Rightarrow> (bytes, unit) outcome" where
  "append_forward_headers out headers body =
     (let out' = out @ concat (map render_header
        (filter (\<lambda>h. \<not> should_skip_header (fst h) headers) headers))
      in case body of
           ContentLength len \<Rightarrow>
             rbind (format_usize len (zero_buf 20)) (\<lambda>digits.
               Ok (out' @ ''Content-Length: '' @ digits @ crlf))
         | Chunked \<Rightarrow> Ok (out' @ ''Transfer-Encoding: chunked'' @ crlf)
         | _ \<Rightarrow> Ok out')"

definition append_forward_headers_uring :: "bytes \<Rightarrow> header list \<Rightarrow> usize \<Rightarrow> bytes" where
  "append_forward_headers_uring out headers body_len =
     out @ concat (map render_header
       (filter (\<lambda>h. \<not> should_skip_header_uring (fst h) headers) headers)) @
     (if 0 < body_len then ''Content-Length: '' @ show_nat (unat body_len) @ crlf else [])"

section \<open>Response heads\<close>

definition informational :: "nat \<Rightarrow> bool" where
  "informational code \<longleftrightarrow> 100 \<le> code \<and> code < 200"

definition parse_response ::
  "ext_lib \<Rightarrow> bytes \<Rightarrow> bool \<Rightarrow> (response_head, h1_error) outcome" where
  "parse_response E raw_headers head_response =
     rbind (ok_or (lib_parse_response E raw_headers) (Parse ''invalid response headers''))
     (\<lambda>(complete, parsed).
       if \<not> complete then Err (Parse ''incomplete response headers'')
       else rbind (ok_or (ps_code parsed) (Parse ''response status missing'')) (\<lambda>code.
         rbind
           (if head_response \<or> informational code \<or> code = 204 \<or> code = 304 then Ok NoBody
            else rbind (body_kind (ps_headers parsed) False) (\<lambda>b. Ok (or_close_delimited b)))
         (\<lambda>body.
           Ok \<lparr>rs_status = code,
               rs_close_after_response =
                 (\<not> informational code \<and>
                  (response_wants_close (ps_version parsed = Some 0) (ps_headers parsed) \<or>
                   body = CloseDelimited)),
               rs_body = body\<rparr>)))"

definition parse_response_uring ::
  "ext_lib \<Rightarrow> bytes \<Rightarrow> bool \<Rightarrow> (response_head, h1_error) outcome" where
  "parse_response_uring E raw_headers head_response =
     rbind (ok_or (lib_parse_response E raw_headers) (Parse ''invalid response headers''))
     (\<lambda>(complete, parsed).
       if \<not> complete then Err (Parse ''incomplete response headers'')
       else
         (let code = (case ps_code parsed of Some c \<Rightarrow> c | None \<Rightarrow> 0) in
          rbind
            (if head_response \<or> informational code \<or> code = 204 \<or> code = 304 then Ok NoBody
             else rbind (response_content_length (ps_headers parsed)) (\<lambda>l.
               case l of Some len \<Rightarrow> Ok (ContentLength len) | None \<Rightarrow> Ok CloseDelimited))
          (\<lambda>body.
            Ok \<lparr>rs_status = code,
                rs_close_after_response =
                  (request_wants_close (ps_version parsed = Some 0) (ps_headers parsed) \<or>
                   body = CloseDelimited),
                rs_body = body\<rparr>)))"

section \<open>Canned responses\<close>

text \<open>Status digits are computed in \<^verbatim>\<open>u8\<close>; the caller's statuses have three digits.\<close>

definition status_digit :: "nat \<Rightarrow> char" where
  "status_digit d = char_of ((48 + d mod 256) mod 256)"

definition static_response_fast :: "nat \<Rightarrow> string \<Rightarrow> bytes \<Rightarrow> (bytes, unit) outcome" where
  "static_response_fast status reason body =
     rbind (format_usize (of_nat (length body)) (zero_buf 20)) (\<lambda>len_str.
       Ok (''HTTP/1.1 '' @
           [status_digit (status div 100), status_digit ((status div 10) mod 10),
            status_digit (status mod 10)] @
           '' '' @ reason @ crlf @ ''Content-Type: text/plain; charset=utf-8'' @ crlf @
           ''Content-Length: '' @ len_str @ crlf @ ''Connection: close'' @ crlf @ crlf @ body))"

definition static_response :: "nat \<Rightarrow> string \<Rightarrow> bytes \<Rightarrow> bytes" where
  "static_response status reason body =
     ''HTTP/1.1 '' @ show_nat status @ '' '' @ reason @ crlf @
     ''Content-Type: text/plain; charset=utf-8'' @ crlf @
     ''Content-Length: '' @ show_nat (length body) @ crlf @ ''Connection: close'' @ crlf @ crlf @ body"

section \<open>Buffers\<close>

definition copy_within_front :: "bytes \<Rightarrow> nat \<Rightarrow> bytes" where
  "copy_within_front buf count = drop count buf @ drop (length buf - count) buf"

definition discard_buffer_prefix :: "bytes \<Rightarrow> nat \<Rightarrow> bytes" where
  "discard_buffer_prefix buf count =
     (if length buf \<le> count then []
      else take (length buf - count) (copy_within_front buf count))"

definition discard_buffer_prefix_uring :: "bytes \<Rightarrow> nat \<Rightarrow> bytes" where
  "discard_buffer_prefix_uring buf count = (if length buf \<le> count then [] else drop count buf)"

section \<open>Formatting\<close>

lemma format_loop_Ok:
  assumes "0 < n" "length (show_nat n) \<le> pos" "pos \<le> length buf"
  shows "format_loop n pos buf = Ok (show_nat n @ drop pos buf)"
  using assms
proof (induction n pos buf rule: format_loop.induct)
  case (1 n pos buf)
  have pos: "0 < pos" using "1.prems"(2) by (cases pos) auto
  let ?buf = "buf[pos - 1 := digit_char (n mod 10)]"
  have step: "format_loop n pos buf = format_loop (n div 10) (pos - 1) ?buf"
    using "1.prems"(1) pos by (subst format_loop.simps) simp
  have tail: "drop (pos - 1) ?buf = digit_char (n mod 10) # drop pos buf"
    using pos "1.prems"(3) by (simp add: Cons_nth_drop_Suc [symmetric])
  show ?case
  proof (cases "n < 10")
    case True
    then have "format_loop (n div 10) (pos - 1) ?buf = Ok (drop (pos - 1) ?buf)"
      by (subst format_loop.simps) simp
    then show ?thesis using True step tail by (simp add: show_nat.simps [of n])
  next
    case False
    then have sn: "show_nat n = show_nat (n div 10) @ [digit_char (n mod 10)]"
      by (simp add: show_nat.simps [of n])
    have "format_loop (n div 10) (pos - 1) ?buf = Ok (show_nat (n div 10) @ drop (pos - 1) ?buf)"
    proof (rule "1.IH")
      show "0 < n div 10" using False by simp
      show "length (show_nat (n div 10)) \<le> pos - 1" using "1.prems"(2) sn by simp
    qed (use "1.prems" pos in simp_all)
    then show ?thesis using step tail sn by simp
  qed
qed

lemma show_nat_length: "n < 10 ^ k \<Longrightarrow> 0 < k \<Longrightarrow> length (show_nat n) \<le> k"
proof (induction k arbitrary: n)
  case (Suc k)
  show ?case
  proof (cases "n < 10")
    case False
    then have "0 < k" using Suc.prems(1) by (cases k) auto
    moreover have "n div 10 < 10 ^ k" using Suc.prems(1) by (simp add: div_less_iff_less_mult mult.commute)
    ultimately show ?thesis using Suc.IH False by (simp add: show_nat.simps [of n])
  qed (simp add: show_nat.simps [of n])
qed simp

lemma digit_char_0: "digit_char 0 = CHR ''0''"
  by code_simp

lemma format_usize_Ok:
  assumes "length buf = 20"
  shows "format_usize n buf = Ok (show_nat (unat n))"
proof (cases "n = 0")
  case True
  have "drop 19 (buf[19 := CHR ''0'']) = [CHR ''0'']"
    using assms by (simp add: drop_update_swap length_Suc_conv nth_drop
        list_eq_iff_nth_eq)
  with True show ?thesis
    by (simp add: format_usize_def show_nat.simps [of 0] digit_char_0)
next
  case False
  have "unat n < 2 ^ 64" using unsigned_less [of n, where 'a = nat] by simp
  also have "\<dots> < (10 :: nat) ^ 20" by simp
  finally have "length (show_nat (unat n)) \<le> 20" by (rule show_nat_length) simp
  with False assms show ?thesis by (simp add: format_usize_def format_loop_Ok unat_gt_0)
qed

lemma length_zero_buf [simp]: "length (zero_buf n) = n"
  by (simp add: zero_buf_def)

section \<open>Buffers\<close>

lemma discard_buffer_prefix_drop: "discard_buffer_prefix buf n = drop n buf"
  by (simp add: discard_buffer_prefix_def copy_within_front_def)

lemma discard_buffer_prefix_uring_drop: "discard_buffer_prefix_uring buf n = drop n buf"
  by (simp add: discard_buffer_prefix_uring_def)

section \<open>Framing\<close>

lemma named_exclusive: "named ''transfer-encoding'' h \<Longrightarrow> \<not> named ''content-length'' h"
  unfolding named_def using eq_ignore_ascii_case_length [of "fst h" "''transfer-encoding''"]
    eq_ignore_ascii_case_length [of "fst h" "''content-length''"] by auto

text \<open>The values of all headers of a name.\<close>

definition values_of :: "string \<Rightarrow> header list \<Rightarrow> bytes list" where
  "values_of n hs = map snd (filter (named n) hs)"

lemma scan_framing_Ok:
  "scan_framing hs te cl = Ok (te', cl') \<longleftrightarrow>
     (case te of None \<Rightarrow> values_of ''transfer-encoding'' hs = (case te' of None \<Rightarrow> [] | Some v \<Rightarrow> [v])
      | Some v \<Rightarrow> te' = Some v \<and> values_of ''transfer-encoding'' hs = []) \<and>
     (case cl of None \<Rightarrow> values_of ''content-length'' hs = (case cl' of None \<Rightarrow> [] | Some v \<Rightarrow> [v])
      | Some v \<Rightarrow> cl' = Some v \<and> values_of ''content-length'' hs = [])"
proof (induction hs arbitrary: te cl)
  case Nil
  then show ?case by (auto simp: values_of_def split: option.splits)
next
  case (Cons h hs)
  then show ?case
    using named_exclusive [of h]
    by (auto simp: values_of_def split: option.splits)
qed

lemma body_kind_scan:
  assumes "body_kind hs lim = Ok b"
  obtains te cl where "scan_framing hs None None = Ok (te, cl)"
  using assms by (cases "scan_framing hs None None") (auto simp: body_kind_def)

lemma body_kind_Chunked:
  "body_kind hs lim = Ok Chunked \<longleftrightarrow>
     (\<exists>v. values_of ''transfer-encoding'' hs = [v] \<and> values_of ''content-length'' hs = [] \<and>
        from_utf8 v \<noteq> None \<and> chunked_only v)"
proof
  assume k: "body_kind hs lim = Ok Chunked"
  then obtain te cl where sc: "scan_framing hs None None = Ok (te, cl)" by (rule body_kind_scan)
  from sc k show "\<exists>v. values_of ''transfer-encoding'' hs = [v] \<and> values_of ''content-length'' hs = [] \<and>
        from_utf8 v \<noteq> None \<and> chunked_only v"
    by (cases te; cases cl)
       (auto simp: body_kind_def scan_framing_Ok rbind_eq_Ok ok_or_eq_Ok from_utf8_Some
          split: if_splits)
next
  assume "\<exists>v. values_of ''transfer-encoding'' hs = [v] \<and> values_of ''content-length'' hs = [] \<and>
        from_utf8 v \<noteq> None \<and> chunked_only v"
  then obtain v where "scan_framing hs None None = Ok (Some v, None)" "from_utf8 v = Some v"
    "chunked_only v" by (auto simp: scan_framing_Ok from_utf8_Some)
  then show "body_kind hs lim = Ok Chunked" by (simp add: body_kind_def)
qed

lemma body_kind_ContentLength:
  "body_kind hs lim = Ok (ContentLength n) \<longleftrightarrow>
     (\<exists>v. values_of ''transfer-encoding'' hs = [] \<and> values_of ''content-length'' hs = [v] \<and>
        parse_length v = Ok n \<and> (lim \<longrightarrow> n \<le> MAX_REQUEST_BODY_BYTES))"
proof
  assume k: "body_kind hs lim = Ok (ContentLength n)"
  then obtain te cl where sc: "scan_framing hs None None = Ok (te, cl)" by (rule body_kind_scan)
  from sc k show "\<exists>v. values_of ''transfer-encoding'' hs = [] \<and> values_of ''content-length'' hs = [v] \<and>
        parse_length v = Ok n \<and> (lim \<longrightarrow> n \<le> MAX_REQUEST_BODY_BYTES)"
    by (cases te; cases cl)
       (auto simp: body_kind_def scan_framing_Ok rbind_eq_Ok not_less split: if_splits)
next
  assume "\<exists>v. values_of ''transfer-encoding'' hs = [] \<and> values_of ''content-length'' hs = [v] \<and>
        parse_length v = Ok n \<and> (lim \<longrightarrow> n \<le> MAX_REQUEST_BODY_BYTES)"
  then obtain v where v: "scan_framing hs None None = Ok (None, Some v)" "parse_length v = Ok n"
    "lim \<longrightarrow> n \<le> MAX_REQUEST_BODY_BYTES" by (auto simp: scan_framing_Ok)
  then show "body_kind hs lim = Ok (ContentLength n)" by (auto simp: body_kind_def not_less)
qed

lemma body_kind_NoBody:
  "body_kind hs lim = Ok NoBody \<longleftrightarrow>
     values_of ''transfer-encoding'' hs = [] \<and> values_of ''content-length'' hs = []"
proof
  assume k: "body_kind hs lim = Ok NoBody"
  then obtain te cl where sc: "scan_framing hs None None = Ok (te, cl)" by (rule body_kind_scan)
  from sc k show "values_of ''transfer-encoding'' hs = [] \<and> values_of ''content-length'' hs = []"
    by (cases te; cases cl) (auto simp: body_kind_def scan_framing_Ok rbind_eq_Ok split: if_splits)
next
  assume "values_of ''transfer-encoding'' hs = [] \<and> values_of ''content-length'' hs = []"
  then have "scan_framing hs None None = Ok (None, None)" by (simp add: scan_framing_Ok)
  then show "body_kind hs lim = Ok NoBody" by (simp add: body_kind_def)
qed

lemma body_kind_not_CloseDelimited: "body_kind hs lim \<noteq> Ok CloseDelimited"
  by (auto simp: body_kind_def outcome_simps split: option.splits if_splits)

lemmas body_kind_Ok = body_kind_Chunked body_kind_ContentLength body_kind_NoBody

lemma scan_length_Ok:
  "scan_length hs cl = Ok cl' \<longleftrightarrow> values_of ''transfer-encoding'' hs = [] \<and>
     (case cl of None \<Rightarrow> values_of ''content-length'' hs = (case cl' of None \<Rightarrow> [] | Some v \<Rightarrow> [v])
      | Some v \<Rightarrow> cl' = Some v \<and> values_of ''content-length'' hs = [])"
proof (induction hs arbitrary: cl)
  case Nil
  then show ?case by (auto simp: values_of_def split: option.splits)
next
  case (Cons h hs)
  then show ?case
    using named_exclusive [of h] by (auto simp: values_of_def split: option.splits)
qed

lemma content_length_Ok:
  "content_length hs lim = Ok n \<longleftrightarrow>
     body_kind hs lim = Ok (ContentLength n) \<or> n = 0 \<and> body_kind hs lim = Ok NoBody"
proof -
  have "content_length hs lim = Ok n \<longleftrightarrow>
      (\<exists>cl. scan_length hs None = Ok cl \<and>
        (case cl of None \<Rightarrow> n = 0
         | Some v \<Rightarrow> parse_length v = Ok n \<and> (lim \<longrightarrow> n \<le> MAX_REQUEST_BODY_BYTES)))"
    by (simp add: content_length_def rbind_eq_Ok not_less if_bool_eq_conj split: option.split) auto
  also have "\<dots> \<longleftrightarrow> scan_length hs None = Ok None \<and> n = 0 \<or>
      (\<exists>v. scan_length hs None = Ok (Some v) \<and> parse_length v = Ok n \<and>
        (lim \<longrightarrow> n \<le> MAX_REQUEST_BODY_BYTES))"
    by (auto split: option.splits)
  finally show ?thesis
    unfolding body_kind_ContentLength body_kind_NoBody by (auto simp: scan_length_Ok)
qed

section \<open>Forwarded headers\<close>

text \<open>The dispatch on the name's length only saves comparisons that must fail.\<close>

lemma length_dispatch:
  assumes "te \<Longrightarrow> L = 2" "ho \<Longrightarrow> L = 4" "co \<Longrightarrow> L = 10" "ka \<Longrightarrow> L = 10" "tr \<Longrightarrow> L = 7"
    "ug \<Longrightarrow> L = 7" "cl \<Longrightarrow> L = 14" "tf \<Longrightarrow> L = 17" "pc \<Longrightarrow> L = (16 :: nat)"
  shows "((if L = 2 then te else if L = 4 then ho else if L = 10 then co \<or> ka
      else if L = 7 then tr \<or> ug else if L = 14 then cl else if L = 17 then tf
      else if L = 16 then pc else False) \<or> x) \<longleftrightarrow>
    ho \<or> co \<or> pc \<or> ka \<or> cl \<or> tf \<or> te \<or> tr \<or> ug \<or> x"
  using assms by auto

lemma should_skip_header_eq: "should_skip_header name hs = should_skip_header_uring name hs"
  unfolding should_skip_header_def should_skip_header_uring_def Let_def
  by (rule length_dispatch) (drule eq_ignore_ascii_case_length, simp)+

lemma should_skip_framing:
  "named ''content-length'' h \<Longrightarrow> should_skip_header (fst h) hs"
  "named ''transfer-encoding'' h \<Longrightarrow> should_skip_header (fst h) hs"
  "named ''host'' h \<Longrightarrow> should_skip_header (fst h) hs"
  "named ''connection'' h \<Longrightarrow> should_skip_header (fst h) hs"
  "list_ex (\<lambda>token. eq_ignore_ascii_case token (fst h)) (connection_tokens hs) \<Longrightarrow>
     should_skip_header (fst h) hs"
  unfolding should_skip_header_eq should_skip_header_uring_def named_def by blast+

fun framing_header :: "body_framing \<Rightarrow> header list" where
  "framing_header (ContentLength n) = [(''Content-Length'', show_nat (unat n))]"
| "framing_header Chunked = [(''Transfer-Encoding'', ''chunked'')]"
| "framing_header NoBody = []"
| "framing_header CloseDelimited = []"

definition forwarded :: "header list \<Rightarrow> body_framing \<Rightarrow> header list" where
  "forwarded hs body = filter (\<lambda>h. \<not> should_skip_header (fst h) hs) hs @ framing_header body"

lemma append_forward_headers_eq:
  "append_forward_headers out hs body = Ok (out @ concat (map render_header (forwarded hs body)))"
  by (cases body)
     (simp_all add: append_forward_headers_def forwarded_def format_usize_Ok render_header_def Let_def)

lemma values_of_append [simp]: "values_of n (xs @ ys) = values_of n xs @ values_of n ys"
  by (simp add: values_of_def)

lemma values_of_kept:
  "values_of ''content-length'' (filter (\<lambda>h. \<not> should_skip_header (fst h) hs) hs') = []"
  "values_of ''transfer-encoding'' (filter (\<lambda>h. \<not> should_skip_header (fst h) hs) hs') = []"
  using should_skip_framing by (auto simp: values_of_def filter_empty_conv)

lemma framing_names:
  "named ''content-length'' (''Content-Length'', v)" "\<not> named ''transfer-encoding'' (''Content-Length'', v)"
  "named ''transfer-encoding'' (''Transfer-Encoding'', v)" "\<not> named ''content-length'' (''Transfer-Encoding'', v)"
proof -
  have "eq_ignore_ascii_case ''Content-Length'' ''content-length''"
    "\<not> eq_ignore_ascii_case ''Content-Length'' ''transfer-encoding''"
    "eq_ignore_ascii_case ''Transfer-Encoding'' ''transfer-encoding''"
    "\<not> eq_ignore_ascii_case ''Transfer-Encoding'' ''content-length''" by code_simp+
  then show "named ''content-length'' (''Content-Length'', v)" "\<not> named ''transfer-encoding'' (''Content-Length'', v)"
    "named ''transfer-encoding'' (''Transfer-Encoding'', v)" "\<not> named ''content-length'' (''Transfer-Encoding'', v)"
    by (simp_all add: named_def)
qed

lemma from_utf8_show_nat [std_simps]: "from_utf8 (show_nat n) = Some (show_nat n)"
proof -
  have "\<forall>c \<in> set (show_nat n). byte c < 128"
    using show_nat_digits by (fastforce simp: is_ascii_digit_def)
  from utf8_chars_ascii [OF this] show ?thesis by (simp add: from_utf8_def)
qed

lemma parse_length_show_nat: "parse_length (show_nat (unat n)) = Ok n"
  by (simp add: parse_length_def std_simps)

lemma body_kind_forwarded:
  assumes "body_kind hs lim = Ok body"
  shows "body_kind (forwarded hs body) lim = Ok body"
proof (cases body)
  case NoBody
  then show ?thesis by (simp add: body_kind_NoBody forwarded_def values_of_kept values_of_def [of _ "[]"])
next
  case (ContentLength n)
  with assms show ?thesis
    by (auto simp: body_kind_ContentLength forwarded_def values_of_kept parse_length_show_nat)
       (simp_all add: values_of_def framing_names parse_length_show_nat)
next
  case Chunked
  have plain: "\<forall>c \<in> set ''chunked''. 32 < byte c \<and> byte c < 128" by (simp add: byte_def)
  then have "from_utf8 ''chunked'' \<noteq> None" "chunked_only ''chunked''"
    using utf8_chars_ascii [of "''chunked''"]
    by (simp_all add: from_utf8_def chunked_only_def str_trim_plain [OF plain])
  with Chunked show ?thesis
    by (simp add: body_kind_Chunked forwarded_def values_of_kept) (simp add: values_of_def framing_names)
next
  case CloseDelimited
  with assms show ?thesis by (simp add: body_kind_not_CloseDelimited)
qed

section \<open>Static responses\<close>

lemma show_three_digits:
  assumes "100 \<le> n" "n < 1000"
  shows "show_nat n = [digit_char (n div 100), digit_char ((n div 10) mod 10), digit_char (n mod 10)]"
proof -
  have "show_nat n = show_nat (n div 10) @ [digit_char (n mod 10)]"
    using assms by (simp add: show_nat.simps [of n])
  also have "show_nat (n div 10) = show_nat (n div 100) @ [digit_char ((n div 10) mod 10)]"
    using assms by (subst show_nat.simps) (simp add: div_mult2_eq [symmetric])
  also have "show_nat (n div 100) = [digit_char (n div 100)]"
    using assms by (subst show_nat.simps) simp
  finally show ?thesis by simp
qed

lemma status_digit_eq: "d < 10 \<Longrightarrow> status_digit d = digit_char d"
  by (simp add: status_digit_def digit_char_def)

lemma static_responses_agree:
  assumes "100 \<le> status" "status < 1000" "length body < usize_lim"
  shows "static_response_fast status reason body = Ok (static_response status reason body)"
proof -
  have "unat (of_nat (length body) :: usize) = length body"
    using assms(3) by (simp add: unat_of_nat take_bit_nat_eq_self_iff)
  moreover have "status div 100 < 10" using assms(2) by (simp add: div_less_iff_less_mult)
  ultimately show ?thesis
    using assms(1,2)
    by (simp add: static_response_fast_def static_response_def format_usize_Ok show_three_digits
        status_digit_eq)
qed

section \<open>Properties\<close>

text \<open>
  C12. Request framing is unambiguous. \<^verbatim>\<open>body_kind\<close> accepts a header list as chunked exactly if it
  has one Transfer-Encoding header, whose only coding is \<^verbatim>\<open>chunked\<close>, and no Content-Length; as a
  body of \<open>n\<close> bytes exactly if it has one Content-Length with that value (at most 64 MiB when the
  limit is enforced) and no Transfer-Encoding; as bodyless exactly if it has neither. Everything
  else, in particular duplicated or conflicting framing headers, is an error.
\<close>

theorem body_kind_unambiguous:
  "(body_kind hs lim = Ok Chunked \<longleftrightarrow>
     (\<exists>v. values_of ''transfer-encoding'' hs = [v] \<and> values_of ''content-length'' hs = [] \<and>
        from_utf8 v \<noteq> None \<and> chunked_only v)) \<and>
   (body_kind hs lim = Ok (ContentLength n) \<longleftrightarrow>
     (\<exists>v. values_of ''transfer-encoding'' hs = [] \<and> values_of ''content-length'' hs = [v] \<and>
        parse_length v = Ok n \<and> (lim \<longrightarrow> n \<le> MAX_REQUEST_BODY_BYTES))) \<and>
   (body_kind hs lim = Ok NoBody \<longleftrightarrow>
     values_of ''transfer-encoding'' hs = [] \<and> values_of ''content-length'' hs = []) \<and>
   body_kind hs lim \<noteq> Ok CloseDelimited"
  using body_kind_Ok body_kind_not_CloseDelimited by blast

definition sample_headers_cl :: "header list" where
  "sample_headers_cl = [(''Host'', ''x''), (''CONTENT-LENGTH'', ''5''), (''X-A'', ''1'')]"

lemma parse_length_sample: "parse_length ''5'' = Ok 5"
proof -
  have "show_nat 5 = ''5''" by code_simp
  then show ?thesis using parse_length_show_nat [of 5] by simp
qed

lemma sample_body_kind: "body_kind sample_headers_cl True = Ok (ContentLength 5)"
proof -
  have "values_of ''transfer-encoding'' sample_headers_cl = []"
    "values_of ''content-length'' sample_headers_cl = [''5'']" by code_simp+
  moreover have "(5 :: usize) \<le> MAX_REQUEST_BODY_BYTES" by (simp add: MAX_REQUEST_BODY_BYTES_def)
  ultimately show ?thesis unfolding body_kind_ContentLength using parse_length_sample by blast
qed

theorem body_kind_unambiguous_witness:
  "body_kind sample_headers_cl True = Ok (ContentLength 5) \<and>
   (\<exists>v. values_of ''transfer-encoding'' sample_headers_cl = [] \<and>
      values_of ''content-length'' sample_headers_cl = [v] \<and> parse_length v = Ok 5 \<and>
      (True \<longrightarrow> 5 \<le> MAX_REQUEST_BODY_BYTES))"
  using body_kind_unambiguous [of sample_headers_cl True 5] sample_body_kind by blast

text \<open>
  The headers that must not be passed on: the hop-by-hop headers of RFC 9110 (7.6.1) with the older
  \<^verbatim>\<open>Keep-Alive\<close> and \<^verbatim>\<open>Proxy-Connection\<close>, the framing headers, \<^verbatim>\<open>Host\<close>, which the proxy sets itself, and
  every header that a Connection header names.
\<close>

definition HOP_BY_HOP :: "string list" where
  "HOP_BY_HOP = [''connection'', ''keep-alive'', ''proxy-connection'', ''te'', ''trailer'', ''upgrade'',
     ''transfer-encoding'', ''content-length'', ''host'']"

definition end_to_end :: "header list \<Rightarrow> header \<Rightarrow> bool" where
  "end_to_end hs h \<longleftrightarrow>
     (\<forall>name \<in> set HOP_BY_HOP. \<not> named name h) \<and>
     (\<forall>token \<in> set (connection_tokens hs). \<not> eq_ignore_ascii_case token (fst h))"

lemma end_to_end_skip: "end_to_end hs h \<longleftrightarrow> \<not> should_skip_header (fst h) hs"
  by (auto simp: end_to_end_def HOP_BY_HOP_def should_skip_header_eq should_skip_header_uring_def named_def list_ex_iff)

lemma forwarded_eq: "forwarded hs body = filter (end_to_end hs) hs @ framing_header body"
proof -
  have "end_to_end hs = (\<lambda>h. \<not> should_skip_header (fst h) hs)" by (intro ext) (rule end_to_end_skip)
  then show ?thesis by (simp add: forwarded_def)
qed

text \<open>
  C28. No request smuggling by re-framing: the head the fast engine sends upstream carries exactly
  the client's end-to-end headers, in their order (none of \<^verbatim>\<open>Connection\<close>, \<^verbatim>\<open>Keep-Alive\<close>,
  \<^verbatim>\<open>Proxy-Connection\<close>, \<^verbatim>\<open>TE\<close>, \<^verbatim>\<open>Trailer\<close>, \<^verbatim>\<open>Upgrade\<close>, \<^verbatim>\<open>Transfer-Encoding\<close>, \<^verbatim>\<open>Content-Length\<close>, \<^verbatim>\<open>Host\<close> and no header
  that a Connection header names; every other header), followed by one canonical framing header;
  reading the framing of the forwarded head gives back the framing of the received one.
\<close>

theorem forwarded_framing_roundtrip:
  assumes "body_kind hs lim = Ok body"
  shows "\<exists>sent. append_forward_headers out hs body = Ok (out @ concat (map render_header sent)) \<and>
    body_kind sent lim = Ok body \<and>
    sent = filter (end_to_end hs) hs @
      (case body of
         ContentLength n \<Rightarrow> [(''Content-Length'', show_nat (unat n))]
       | Chunked \<Rightarrow> [(''Transfer-Encoding'', ''chunked'')]
       | _ \<Rightarrow> [])"
proof -
  have "forwarded hs body = filter (end_to_end hs) hs @ (case body of
      ContentLength n \<Rightarrow> [(''Content-Length'', show_nat (unat n))]
    | Chunked \<Rightarrow> [(''Transfer-Encoding'', ''chunked'')] | _ \<Rightarrow> [])"
    unfolding forwarded_eq by (cases body) simp_all
  moreover have "append_forward_headers out hs body = Ok (out @ concat (map render_header (forwarded hs body)))"
    by (rule append_forward_headers_eq)
  moreover have "body_kind (forwarded hs body) lim = Ok body" by (rule body_kind_forwarded [OF assms])
  ultimately show ?thesis by blast
qed

theorem forwarded_framing_roundtrip_witness:
  "\<exists>sent. append_forward_headers [] sample_headers_cl (ContentLength 5) = Ok (concat (map render_header sent)) \<and>
     body_kind sent True = Ok (ContentLength 5)"
proof -
  obtain sent where "append_forward_headers [] sample_headers_cl (ContentLength 5) = Ok ([] @ concat (map render_header sent))"
    "body_kind sent True = Ok (ContentLength 5)"
    using forwarded_framing_roundtrip [OF sample_body_kind, of "[]"] by blast
  then show ?thesis by auto
qed

text \<open>
  The two HTTP/1 engines agree on message handling: they skip the same headers, they compute
  the same buffer after discarding a prefix, and the io_uring engine reads a content length
  exactly where the fast engine reads a Content-Length body or no body at all.
\<close>

theorem engines_agree_on_heads:
  "should_skip_header name hs = should_skip_header_uring name hs \<and>
   discard_buffer_prefix buf k = discard_buffer_prefix_uring buf k \<and>
   (content_length hs lim = Ok n \<longleftrightarrow>
      body_kind hs lim = Ok (ContentLength n) \<or> n = 0 \<and> body_kind hs lim = Ok NoBody)"
  by (simp add: should_skip_header_eq discard_buffer_prefix_drop discard_buffer_prefix_uring_drop
      content_length_Ok)

text \<open>
  The hand-written response writer of the fast engine sends the same bytes as the formatted
  string of the io_uring engine, for every three-digit status, reason and body.
\<close>

theorem static_response_writers_agree:
  assumes "100 \<le> status" "status < 1000" "length body < usize_lim"
  shows "static_response_fast status reason body = Ok (static_response status reason body)"
  by (rule static_responses_agree [OF assms])

theorem static_response_writers_agree_witness:
  "static_response_fast 404 ''Not Found'' ''no'' = Ok (static_response 404 ''Not Found'' ''no'')"
  by (rule static_response_writers_agree) simp_all

text \<open>
  \<^verbatim>\<open>format_usize\<close> never leaves its 20-byte buffer and prints the decimal representation, which
  parses back to the same number.
\<close>

theorem format_usize_roundtrip:
  assumes "length buf = 20"
  shows "\<exists>digits. format_usize n buf = Ok digits \<and> digits = show_nat (unat n) \<and>
    parse_usize digits = Some n"
  using format_usize_Ok [OF assms, of n] by (simp add: std_simps)

theorem format_usize_roundtrip_witness:
  "\<exists>digits. format_usize 1200 (zero_buf 20) = Ok digits \<and> digits = show_nat (unat (1200 :: usize)) \<and>
    parse_usize digits = Some 1200"
  using format_usize_roundtrip [of "zero_buf 20" 1200] by simp

end
