(* ===== verification/Streams.thy ===== *)
theory Streams
  imports Http1_Framing
begin

text \<open>
  Moving bytes between sockets: the asynchronous helpers of \<^verbatim>\<open>src/src/proxy/h1_fast.rs\<close>
  (\<^verbatim>\<open>read_header_block\<close>, \<^verbatim>\<open>read_line\<close>, \<^verbatim>\<open>copy_exact_body\<close>, \<^verbatim>\<open>copy_chunked_body\<close>, \<^verbatim>\<open>copy_body\<close>,
  \<^verbatim>\<open>read_and_forward_response\<close>), the splice path of \<^verbatim>\<open>src/src/proxy/zerocopy.rs\<close> and the
  counterparts in \<^verbatim>\<open>src/src/proxy/h1_uring.rs\<close>.

  The network is explicit. What a peer will send is a script of events: segments of bytes, an I/O
  error, or silence until the enclosing timeout fires; an empty script is an orderly close. A read
  of at most \<open>n\<close> bytes returns a non-empty prefix of the next segment, so a theorem that
  quantifies over scripts quantifies over all segmentations. What a peer accepts is a sink that
  may fail or block after some number of bytes. Waiting is not modelled as time: a computation that
  would wait for ever ends with \<open>AStall\<close>, which the callers' timeouts turn into an error.
\<close>

section \<open>Sockets\<close>

datatype rx_event = RxData bytes | RxErr | RxStall

datatype read_result = Got bytes | Failed | Stalled

fun sock_read :: "nat \<Rightarrow> rx_event list \<Rightarrow> read_result \<times> rx_event list" where
  "sock_read n [] = (Got [], [])"
| "sock_read n (RxData bs # es) =
     (if bs = [] then sock_read n es
      else (Got (take n bs), if length bs \<le> n then es else RxData (drop n bs) # es))"
| "sock_read n (RxErr # es) = (Failed, es)"
| "sock_read n (RxStall # es) = (Stalled, es)"

datatype write_end = WriteFails | WriteStalls

record sink =
  sk_out :: bytes
  sk_limit :: "(nat \<times> write_end) option"

datatype write_result = WOk | WErr | WStall

definition write_all :: "bytes \<Rightarrow> sink \<Rightarrow> write_result \<times> sink" where
  "write_all bs s =
     (case sk_limit s of
        None \<Rightarrow> (WOk, s\<lparr>sk_out := sk_out s @ bs\<rparr>)
      | Some (k, e) \<Rightarrow>
          if length bs \<le> k
          then (WOk, s\<lparr>sk_out := sk_out s @ bs, sk_limit := Some (k - length bs, e)\<rparr>)
          else (case e of WriteFails \<Rightarrow> WErr | WriteStalls \<Rightarrow> WStall,
                s\<lparr>sk_out := sk_out s @ take k bs, sk_limit := Some (0, e)\<rparr>))"

text \<open>How many of the offered bytes a sink takes.\<close>

definition accepted :: "nat \<Rightarrow> sink \<Rightarrow> nat" where
  "accepted n s = (case sk_limit s of None \<Rightarrow> n | Some (k, _) \<Rightarrow> min n k)"

text \<open>The outcome of an \<^verbatim>\<open>async fn\<close> with this module's \<^verbatim>\<open>Result\<close>.\<close>

datatype 'a aresult = AOk 'a | AErr h1_error | AStall | APanic

text \<open>
  One transfer: the source's script and buffer, the destination, and the bytes in the worker
  thread's splice pipe.
\<close>

record xfer =
  xf_rx :: "rx_event list"
  xf_buf :: bytes
  xf_tx :: sink
  xf_pipe :: bytes

text \<open>
  The environment of a transfer: the \<^verbatim>\<open>zero_copy\<close> setting, the answer of \<^verbatim>\<open>splice_supported\<close>,
  whether \<^verbatim>\<open>pipe_fds\<close> succeeds, and the build's \<^verbatim>\<open>BODY_CHUNK_BYTES\<close>.
\<close>

record xfer_env =
  xe_zero_copy :: bool
  xe_splice_supported :: bool
  xe_pipe_ok :: bool
  xe_single_core :: bool

definition MAX_HEADER_BYTES :: nat where
  "MAX_HEADER_BYTES = 64 * 1024"

definition READ_CHUNK_BYTES :: nat where
  "READ_CHUNK_BYTES = 16 * 1024"

definition BODY_CHUNK_BYTES :: "bool \<Rightarrow> nat" where
  "BODY_CHUNK_BYTES single_core = (if single_core then 64 * 1024 else 16 * 1024)"

definition PIPE_CAPACITY :: nat where
  "PIPE_CAPACITY = 2 ^ 20"

abbreviation io_err :: "'a aresult" where
  "io_err \<equiv> AErr (Io OtherIo)"

abbreviation eof_err :: "'a aresult" where
  "eof_err \<equiv> AErr (Io UnexpectedEof)"

definition xwrite :: "bytes \<Rightarrow> xfer \<Rightarrow> unit aresult \<times> xfer" where
  "xwrite bs st =
     (let (r, tx) = write_all bs (xf_tx st) in
      (case r of WOk \<Rightarrow> AOk () | WErr \<Rightarrow> io_err | WStall \<Rightarrow> AStall, st\<lparr>xf_tx := tx\<rparr>))"

section \<open>Sizes and contents of scripts\<close>

fun rx_size :: "rx_event list \<Rightarrow> nat" where
  "rx_size [] = 0"
| "rx_size (RxData bs # es) = length bs + rx_size es"
| "rx_size (e # es) = rx_size es"

text \<open>The bytes that arrive before the first error or silence, and what comes then.\<close>

fun rx_data :: "rx_event list \<Rightarrow> bytes" where
  "rx_data [] = []"
| "rx_data (RxData bs # es) = bs @ rx_data es"
| "rx_data (e # es) = []"

fun rx_end :: "rx_event list \<Rightarrow> 'a aresult" where
  "rx_end [] = eof_err"
| "rx_end (RxData bs # es) = rx_end es"
| "rx_end (RxErr # es) = io_err"
| "rx_end (RxStall # es) = AStall"

lemma sock_read_Got:
  assumes "sock_read n rx = (Got d, rx')" "0 < n"
  shows "rx_data rx = d @ rx_data rx'" "rx_size rx = length d + rx_size rx'" "length d \<le> n"
    "d = [] \<longleftrightarrow> rx_data rx = [] \<and> (rx_end rx :: unit aresult) = eof_err"
    "d = [] \<Longrightarrow> rx' = []" "d \<noteq> [] \<Longrightarrow> rx_end rx' = (rx_end rx :: 'a aresult)"
  using assms by (induction n rx rule: sock_read.induct) (auto split: if_splits)

lemma sock_read_fails:
  "sock_read n rx = (Failed, rx') \<Longrightarrow> rx_data rx = [] \<and> rx_end rx = (io_err :: 'a aresult)"
  "sock_read n rx = (Stalled, rx') \<Longrightarrow> rx_data rx = [] \<and> rx_end rx = (AStall :: 'a aresult)"
  by (induction n rx rule: sock_read.induct) (auto split: if_splits)

lemma sock_read_size: "rx_size (snd (sock_read n rx)) \<le> rx_size rx"
  by (induction n rx rule: sock_read.induct) auto

lemma READ_CHUNK_pos [simp]: "0 < READ_CHUNK_BYTES"
  by (simp add: READ_CHUNK_BYTES_def)

lemma sock_read_less:
  assumes "(Got d, rx') = sock_read READ_CHUNK_BYTES rx" "d \<noteq> []"
  shows "rx_size rx' < rx_size rx"
  using sock_read_Got(2) [OF assms(1) [symmetric]] assms(2) by simp

text \<open>The unread input of a transfer, and its measure.\<close>

definition input :: "xfer \<Rightarrow> bytes" where
  "input st = xf_buf st @ rx_data (xf_rx st)"

definition in_size :: "xfer \<Rightarrow> nat" where
  "in_size st = length (xf_buf st) + rx_size (xf_rx st)"

abbreviation out :: "xfer \<Rightarrow> bytes" where
  "out st \<equiv> sk_out (xf_tx st)"

section \<open>Reading heads and lines\<close>

text \<open>
  \<^verbatim>\<open>read_header_block\<close> resizes the buffer before the read and truncates after it; when the read
  fails or the future is dropped by a timeout in between, the zero padding stays.
\<close>

function read_header_block :: "ext_lib \<Rightarrow> xfer \<Rightarrow> nat option aresult \<times> xfer" where
  "read_header_block E st =
     (case lib_memmem_find E (xf_buf st) (crlf @ crlf) of
        Some index \<Rightarrow> (AOk (Some (index + 4)), st)
      | None \<Rightarrow>
          if MAX_HEADER_BYTES \<le> length (xf_buf st) then (AErr (Parse ''headers too large''), st)
          else (case sock_read READ_CHUNK_BYTES (xf_rx st) of
             (Failed, rx) \<Rightarrow>
               (io_err, st\<lparr>xf_rx := rx, xf_buf := xf_buf st @ zero_buf READ_CHUNK_BYTES\<rparr>)
           | (Stalled, rx) \<Rightarrow>
               (AStall, st\<lparr>xf_rx := rx, xf_buf := xf_buf st @ zero_buf READ_CHUNK_BYTES\<rparr>)
           | (Got d, rx) \<Rightarrow>
               if d = [] then
                 (if xf_buf st = [] then (AOk None, st\<lparr>xf_rx := rx\<rparr>)
                  else (eof_err, st\<lparr>xf_rx := rx\<rparr>))
               else read_header_block E (st\<lparr>xf_rx := rx, xf_buf := xf_buf st @ d\<rparr>)))"
  by pat_completeness auto
termination
  by (relation "measure (\<lambda>(E, st). rx_size (xf_rx st))") (auto dest: sock_read_less)

declare read_header_block.simps [simp del]

function read_line :: "ext_lib \<Rightarrow> xfer \<Rightarrow> bytes aresult \<times> xfer" where
  "read_line E st =
     (case lib_memmem_find E (xf_buf st) crlf of
        Some index \<Rightarrow>
          if length (xf_buf st) < index + 2 then (APanic, st)
          else (AOk (take (index + 2) (xf_buf st)),
                st\<lparr>xf_buf := discard_buffer_prefix (xf_buf st) (index + 2)\<rparr>)
      | None \<Rightarrow>
          (case sock_read READ_CHUNK_BYTES (xf_rx st) of
             (Failed, rx) \<Rightarrow>
               (io_err, st\<lparr>xf_rx := rx, xf_buf := xf_buf st @ zero_buf READ_CHUNK_BYTES\<rparr>)
           | (Stalled, rx) \<Rightarrow>
               (AStall, st\<lparr>xf_rx := rx, xf_buf := xf_buf st @ zero_buf READ_CHUNK_BYTES\<rparr>)
           | (Got d, rx) \<Rightarrow>
               if d = [] then (eof_err, st\<lparr>xf_rx := rx\<rparr>)
               else read_line E (st\<lparr>xf_rx := rx, xf_buf := xf_buf st @ d\<rparr>)))"
  by pat_completeness auto
termination
  by (relation "measure (\<lambda>(E, st). rx_size (xf_rx st))") (auto dest: sock_read_less)

declare read_line.simps [simp del]

section \<open>Sequencing\<close>

text \<open>The \<^verbatim>\<open>?\<close> operator: continue with the value, or return the error with the state reached.\<close>

definition abind ::
  "'a aresult \<times> 's \<Rightarrow> ('a \<Rightarrow> 's \<Rightarrow> 'b aresult \<times> 's) \<Rightarrow> 'b aresult \<times> 's" where
  "abind p f =
     (case p of
        (AOk x, s) \<Rightarrow> f x s
      | (AErr e, s) \<Rightarrow> (AErr e, s)
      | (AStall, s) \<Rightarrow> (AStall, s)
      | (APanic, s) \<Rightarrow> (APanic, s))"

lemma abind_simps [simp]:
  "abind (AOk x, s) f = f x s" "abind (AErr e, s) f = (AErr e, s)"
  "abind (AStall, s) f = (AStall, s)" "abind (APanic, s) f = (APanic, s)"
  by (simp_all add: abind_def)

lemma abind_cong [fundef_cong]:
  "p = q \<Longrightarrow> (\<And>x s. q = (AOk x, s) \<Longrightarrow> f x s = g x s) \<Longrightarrow> abind p f = abind q g"
  by (auto simp: abind_def split: prod.splits aresult.splits)

lemma abind_AOk:
  "abind p f = (AOk y, s') \<longleftrightarrow> (\<exists>x s. p = (AOk x, s) \<and> f x s = (AOk y, s'))"
  by (auto simp: abind_def split: prod.splits aresult.splits)

section \<open>Copying bodies\<close>

text \<open>
  \<^verbatim>\<open>drain_pipe\<close> splices from the pipe to the socket until \<open>count\<close> bytes have moved. A sink that stops
  accepting leaves the rest in the pipe; with fewer than \<open>count\<close> bytes in the pipe the loop waits.
\<close>

definition drain_pipe :: "nat \<Rightarrow> xfer \<Rightarrow> unit aresult \<times> xfer" where
  "drain_pipe count st =
     (let data = take count (xf_pipe st);
          moved = accepted (length data) (xf_tx st);
          (r, tx) = write_all data (xf_tx st);
          st' = st\<lparr>xf_tx := tx, xf_pipe := drop moved (xf_pipe st)\<rparr>
      in case r of
           WErr \<Rightarrow> (io_err, st')
         | WStall \<Rightarrow> (AStall, st')
         | WOk \<Rightarrow> (if length data < count then AStall else AOk (), st'))"

lemma drain_pipe_frame [simp]:
  "xf_rx (snd (drain_pipe count st)) = xf_rx st" "xf_buf (snd (drain_pipe count st)) = xf_buf st"
  by (simp_all add: drain_pipe_def Let_def case_prod_beta split: write_result.splits)

lemma drain_pipe_frame_eq:
  assumes "drain_pipe count st = (r, st')"
  shows "xf_rx st' = xf_rx st" "xf_buf st' = xf_buf st"
  using drain_pipe_frame [of count st] assms by simp_all

function splice_exact :: "nat \<Rightarrow> xfer \<Rightarrow> unit aresult \<times> xfer" where
  "splice_exact remaining st =
     (if remaining = 0 then (AOk (), st)
      else (case sock_read (min remaining PIPE_CAPACITY) (xf_rx st) of
         (Failed, rx) \<Rightarrow> (io_err, st\<lparr>xf_rx := rx\<rparr>)
       | (Stalled, rx) \<Rightarrow> (AStall, st\<lparr>xf_rx := rx\<rparr>)
       | (Got d, rx) \<Rightarrow>
           if d = [] then (eof_err, st\<lparr>xf_rx := rx\<rparr>)
           else abind (drain_pipe (length d) (st\<lparr>xf_rx := rx, xf_pipe := xf_pipe st @ d\<rparr>))
             (\<lambda>_ st'. splice_exact (remaining - length d) st')))"
  by pat_completeness auto
termination by (relation "measure fst") auto

declare splice_exact.simps [simp del]

text \<open>The counter of \<^verbatim>\<open>splice_stream\<close> is only returned, its caller ignores it.\<close>

function splice_stream :: "u64 \<Rightarrow> xfer \<Rightarrow> u64 aresult \<times> xfer" where
  "splice_stream total_moved st =
     (case sock_read PIPE_CAPACITY (xf_rx st) of
        (Failed, rx) \<Rightarrow> (io_err, st\<lparr>xf_rx := rx\<rparr>)
      | (Stalled, rx) \<Rightarrow> (AStall, st\<lparr>xf_rx := rx\<rparr>)
      | (Got d, rx) \<Rightarrow>
          if d = [] then (AOk total_moved, st\<lparr>xf_rx := rx\<rparr>)
          else abind (drain_pipe (length d) (st\<lparr>xf_rx := rx, xf_pipe := xf_pipe st @ d\<rparr>))
            (\<lambda>_ st'. splice_stream (total_moved + of_nat (length d)) st'))"
  by pat_completeness auto
termination
proof (relation "measure (\<lambda>(t, st). rx_size (xf_rx st))")
  fix t :: u64 and st x1 x2 d u st'
  assume *: "(x1, x2) = sock_read PIPE_CAPACITY (xf_rx st)" "x1 = Got d" "d \<noteq> []"
    "drain_pipe (length d) (st\<lparr>xf_rx := x2, xf_pipe := xf_pipe st @ d\<rparr>) = (AOk u, st')"
  then have "xf_rx st' = x2" by (auto dest: drain_pipe_frame_eq)
  with * show "((t + of_nat (length d), st'), t, st) \<in> measure (\<lambda>(t, st). rx_size (xf_rx st))"
    using sock_read_Got(2) [of PIPE_CAPACITY "xf_rx st" d x2] by (simp add: PIPE_CAPACITY_def)
qed simp

declare splice_stream.simps [simp del]

function copy_loop :: "nat \<Rightarrow> nat \<Rightarrow> xfer \<Rightarrow> unit aresult \<times> xfer" where
  "copy_loop chunk remaining st =
     (if remaining = 0 then (AOk (), st)
      else (case sock_read (min chunk remaining) (xf_rx st) of
         (Failed, rx) \<Rightarrow> (io_err, st\<lparr>xf_rx := rx\<rparr>)
       | (Stalled, rx) \<Rightarrow> (AStall, st\<lparr>xf_rx := rx\<rparr>)
       | (Got d, rx) \<Rightarrow>
           if d = [] then (eof_err, st\<lparr>xf_rx := rx\<rparr>)
           else abind (xwrite d (st\<lparr>xf_rx := rx\<rparr>))
             (\<lambda>_ st'. copy_loop chunk (remaining - length d) st')))"
  by pat_completeness auto
termination by (relation "measure (\<lambda>(c, r, st). r)") auto

declare copy_loop.simps [simp del]

definition copy_buffered :: "nat \<Rightarrow> xfer \<Rightarrow> unit aresult \<times> xfer" where
  "copy_buffered buffered st =
     (if 0 < buffered then
        abind (xwrite (take buffered (xf_buf st)) st)
          (\<lambda>_ st'. (AOk (), st'\<lparr>xf_buf := discard_buffer_prefix (xf_buf st') buffered\<rparr>))
      else (AOk (), st))"

definition copy_exact_body :: "xfer_env \<Rightarrow> nat \<Rightarrow> xfer \<Rightarrow> unit aresult \<times> xfer" where
  "copy_exact_body env remaining st =
     (let buffered = min (length (xf_buf st)) remaining in
      abind (copy_buffered buffered st) (\<lambda>_ st'.
        if remaining - buffered = 0 then (AOk (), st')
        else if xe_zero_copy env \<and> xe_splice_supported env then
          (if xe_pipe_ok env then splice_exact (remaining - buffered) st' else (io_err, st'))
        else copy_loop (BODY_CHUNK_BYTES (xe_single_core env)) (remaining - buffered) st'))"

lemma xwrite_frame [simp]:
  "xf_rx (snd (xwrite bs st)) = xf_rx st" "xf_buf (snd (xwrite bs st)) = xf_buf st"
  "xf_pipe (snd (xwrite bs st)) = xf_pipe st"
  by (simp_all add: xwrite_def Let_def case_prod_beta)

lemma xwrite_frame_eq:
  assumes "xwrite bs st = (r, st')"
  shows "xf_rx st' = xf_rx st" "xf_buf st' = xf_buf st" "xf_pipe st' = xf_pipe st"
  using xwrite_frame [of bs st] assms by simp_all

text \<open>\<^verbatim>\<open>tokio::io::copy\<close>: read and write until the end of the stream.\<close>

function copy_stream :: "xfer \<Rightarrow> unit aresult \<times> xfer" where
  "copy_stream st =
     (case sock_read READ_CHUNK_BYTES (xf_rx st) of
        (Failed, rx) \<Rightarrow> (io_err, st\<lparr>xf_rx := rx\<rparr>)
      | (Stalled, rx) \<Rightarrow> (AStall, st\<lparr>xf_rx := rx\<rparr>)
      | (Got d, rx) \<Rightarrow>
          if d = [] then (AOk (), st\<lparr>xf_rx := rx\<rparr>)
          else abind (xwrite d (st\<lparr>xf_rx := rx\<rparr>)) (\<lambda>_ st'. copy_stream st'))"
  by pat_completeness auto
termination
  by (relation "measure (\<lambda>st. rx_size (xf_rx st))")
     (auto dest: sock_read_less dest!: xwrite_frame_eq(1))

declare copy_stream.simps [simp del]

section \<open>What reading does\<close>

text \<open>Induction over the reads that fill a buffer.\<close>

lemma fill_induct:
  assumes "\<And>st. (\<And>d rx. sock_read READ_CHUNK_BYTES (xf_rx st) = (Got d, rx) \<Longrightarrow> d \<noteq> [] \<Longrightarrow>
      P (st\<lparr>xf_rx := rx, xf_buf := xf_buf st @ d\<rparr>)) \<Longrightarrow> P st"
  shows "P (st :: xfer)"
proof (induction "rx_size (xf_rx st)" arbitrary: st rule: less_induct)
  case less
  show ?case
  proof (rule assms)
    fix d rx
    assume *: "sock_read READ_CHUNK_BYTES (xf_rx st) = (Got d, rx)" "d \<noteq> []"
    show "P (st\<lparr>xf_rx := rx, xf_buf := xf_buf st @ d\<rparr>)"
      using sock_read_less [OF *(1) [symmetric] *(2)] by (intro less) simp
  qed
qed

lemma fill_input:
  assumes "sock_read READ_CHUNK_BYTES (xf_rx st) = (Got d, rx)"
  shows "input (st\<lparr>xf_rx := rx, xf_buf := xf_buf st @ d\<rparr>) = input st"
    "in_size (st\<lparr>xf_rx := rx, xf_buf := xf_buf st @ d\<rparr>) = in_size st"
  using sock_read_Got(1,2) [OF assms] by (simp_all add: input_def in_size_def)

lemma read_line_cases:
  assumes "read_line E st = (AOk l, st')"
  obtains (found) i where "lib_memmem_find E (xf_buf st) crlf = Some i" "i + 2 \<le> length (xf_buf st)"
      "l = take (i + 2) (xf_buf st)" "st' = st\<lparr>xf_buf := drop (i + 2) (xf_buf st)\<rparr>"
  | (more) d rx where "lib_memmem_find E (xf_buf st) crlf = None"
      "sock_read READ_CHUNK_BYTES (xf_rx st) = (Got d, rx)" "d \<noteq> []"
      "read_line E (st\<lparr>xf_rx := rx, xf_buf := xf_buf st @ d\<rparr>) = (AOk l, st')"
  using assms
  by (auto simp: read_line.simps [of E st] discard_buffer_prefix_drop not_less
      split: option.splits prod.splits read_result.splits if_splits)

lemma read_line_Ok:
  assumes "read_line E st = (AOk l, st')"
  shows "input st = l @ input st'" "in_size st = length l + in_size st'" "2 \<le> length l"
    "xf_tx st' = xf_tx st" "xf_pipe st' = xf_pipe st"
proof -
  have "input st = l @ input st' \<and> in_size st = length l + in_size st' \<and> 2 \<le> length l \<and>
      xf_tx st' = xf_tx st \<and> xf_pipe st' = xf_pipe st"
    using assms
  proof (induction st rule: fill_induct)
    case (1 st)
    from "1.prems" show ?case
    proof (cases rule: read_line_cases)
      case (found i)
      then show ?thesis
        by (simp add: input_def in_size_def flip: append_assoc)
    next
      case (more d rx)
      with "1.IH" [OF more(2,3,4)] fill_input [OF more(2)] show ?thesis by simp
    qed
  qed
  then show "input st = l @ input st'" "in_size st = length l + in_size st'" "2 \<le> length l"
    "xf_tx st' = xf_tx st" "xf_pipe st' = xf_pipe st" by simp_all
qed

text \<open>The line ends at the first CR LF of the input.\<close>

lemma read_line_first:
  assumes "memmem_first E" "read_line E st = (AOk l, st')"
  shows "\<exists>i. length l = i + 2 \<and> occurs_at (input st) crlf i \<and> (\<forall>j < i. \<not> occurs_at (input st) crlf j)"
  using assms(2)
proof (induction st rule: fill_induct)
  case (1 st)
  from "1.prems" show ?case
  proof (cases rule: read_line_cases)
    case (found i)
    have "occurs_at (xf_buf st) crlf i" "\<forall>j < i. \<not> occurs_at (xf_buf st) crlf j"
      using memmem_first_Some [OF assms(1) found(1)] by simp_all
    moreover have "occurs_at (input st) crlf j = occurs_at (xf_buf st) crlf j" if "j \<le> i" for j
      unfolding input_def using that found(2) by (intro occurs_at_append) simp
    ultimately show ?thesis using found(2,3) by auto
  next
    case (more d rx)
    with "1.IH" [OF more(2,3,4)] fill_input(1) [OF more(2)] show ?thesis by simp
  qed
qed

text \<open>A line that is in the input is found, however it is segmented.\<close>

lemma sock_read_some:
  "rx_data rx \<noteq> [] \<Longrightarrow> 0 < n \<Longrightarrow> \<exists>d rx'. sock_read n rx = (Got d, rx') \<and> d \<noteq> []"
  by (induction n rx rule: sock_read.induct) auto

lemma sock_read_progress:
  assumes "rx_data rx \<noteq> []" "0 < n"
  obtains d rx' where "sock_read n rx = (Got d, rx')" "d \<noteq> []"
  using sock_read_some [OF assms] by blast

lemma read_line_complete:
  assumes "memmem_first E" "occurs_at (input st) crlf i" "\<forall>j < i. \<not> occurs_at (input st) crlf j"
  shows "\<exists>st'. read_line E st = (AOk (take (i + 2) (input st)), st')"
  using assms(2,3)
proof (induction st rule: fill_induct)
  case (1 st)
  have bound: "i + 2 \<le> length (input st)" using occurs_at_bound [OF "1.prems"(1)] by simp
  show ?case
  proof (cases "lib_memmem_find E (xf_buf st) crlf")
    case (Some k)
    have occ: "occurs_at (xf_buf st) crlf k" "\<forall>j < k. \<not> occurs_at (xf_buf st) crlf j"
      using memmem_first_Some [OF assms(1) Some] by simp_all
    have len: "k + 2 \<le> length (xf_buf st)" using occurs_at_bound [OF occ(1)] by simp
    have same: "occurs_at (input st) crlf j = occurs_at (xf_buf st) crlf j" if "j \<le> k" for j
      unfolding input_def using that len by (intro occurs_at_append) simp
    have "k = i"
    proof (rule antisym)
      show "k \<le> i" using same [of i] occ(2) "1.prems"(1) by (meson not_le less_imp_le)
      show "i \<le> k" using same [of k] occ(1) "1.prems"(2) by (meson not_le order_refl)
    qed
    with Some len show ?thesis by (simp add: read_line.simps [of E st] input_def)
  next
    case None
    have "rx_data (xf_rx st) \<noteq> []"
    proof
      assume "rx_data (xf_rx st) = []"
      then have "occurs_at (xf_buf st) crlf i" "i \<le> length (xf_buf st)"
        using "1.prems"(1) bound by (simp_all add: input_def)
      with memmem_first_None [OF assms(1) None] show False by blast
    qed
    then obtain d rx where d: "sock_read READ_CHUNK_BYTES (xf_rx st) = (Got d, rx)" "d \<noteq> []"
      using sock_read_progress READ_CHUNK_pos by blast
    from "1.IH" [OF d] "1.prems" fill_input(1) [OF d(1)] None d show ?thesis
      by (simp add: read_line.simps [of E st])
  qed
qed

lemma read_header_block_cases:
  assumes "read_header_block E st = (AOk h, st')"
  obtains (found) i where "lib_memmem_find E (xf_buf st) (crlf @ crlf) = Some i"
      "h = Some (i + 4)" "st' = st"
  | (closed) rx where "sock_read READ_CHUNK_BYTES (xf_rx st) = (Got [], rx)" "xf_buf st = []"
      "h = None" "st' = st\<lparr>xf_rx := rx\<rparr>"
  | (more) d rx where "lib_memmem_find E (xf_buf st) (crlf @ crlf) = None"
      "length (xf_buf st) < MAX_HEADER_BYTES"
      "sock_read READ_CHUNK_BYTES (xf_rx st) = (Got d, rx)" "d \<noteq> []"
      "read_header_block E (st\<lparr>xf_rx := rx, xf_buf := xf_buf st @ d\<rparr>) = (AOk h, st')"
proof (cases "lib_memmem_find E (xf_buf st) (crlf @ crlf)")
  case (Some i)
  with assms show thesis by (intro found) (auto simp: read_header_block.simps [of E st])
next
  case None
  with assms have len: "length (xf_buf st) < MAX_HEADER_BYTES"
    by (cases "MAX_HEADER_BYTES \<le> length (xf_buf st)") (simp_all add: read_header_block.simps [of E st])
  obtain r rx where r: "sock_read READ_CHUNK_BYTES (xf_rx st) = (r, rx)" by force
  show thesis
  proof (cases r)
    case (Got d)
    show thesis
    proof (cases "d = []")
      case True
      with assms None len r Got show thesis
        by (intro closed [of rx]) (auto simp: read_header_block.simps [of E st] split: if_splits)
    next
      case False
      with assms None len r Got show thesis
        by (intro more [of d rx]) (auto simp: read_header_block.simps [of E st])
    qed
  qed (use assms None len r in \<open>auto simp: read_header_block.simps [of E st]\<close>)
qed

lemma read_header_block_Ok:
  assumes "read_header_block E st = (AOk h, st')"
  shows "input st' = input st" "in_size st' = in_size st" "xf_tx st' = xf_tx st"
    "xf_pipe st' = xf_pipe st" "h = None \<Longrightarrow> input st = []" "h = Some k \<Longrightarrow> 4 \<le> k"
proof -
  have "input st' = input st \<and> in_size st' = in_size st \<and> xf_tx st' = xf_tx st \<and>
      xf_pipe st' = xf_pipe st \<and> (h = None \<longrightarrow> input st = []) \<and> (\<forall>k. h = Some k \<longrightarrow> 4 \<le> k)"
    using assms
  proof (induction st rule: fill_induct)
    case (1 st)
    from "1.prems" show ?case
    proof (cases rule: read_header_block_cases)
      case (closed rx)
      then show ?thesis using sock_read_Got(1,2,5) [OF closed(1)]
        by (simp add: input_def in_size_def)
    next
      case (more d rx)
      with "1.IH" [OF more(3,4,5)] fill_input [OF more(3)] show ?thesis by simp
    qed simp
  qed
  then show "input st' = input st" "in_size st' = in_size st" "xf_tx st' = xf_tx st"
    "xf_pipe st' = xf_pipe st" "h = None \<Longrightarrow> input st = []" "h = Some k \<Longrightarrow> 4 \<le> k" by auto
qed

text \<open>The head ends at the first blank line of the input, whatever the segmentation.\<close>

lemma read_header_block_first:
  assumes "memmem_first E" "read_header_block E st = (AOk (Some k), st')"
  shows "\<exists>i. k = i + 4 \<and> k \<le> length (xf_buf st') \<and> occurs_at (input st) (crlf @ crlf) i \<and>
    (\<forall>j < i. \<not> occurs_at (input st) (crlf @ crlf) j) \<and>
    (length (xf_buf st) < MAX_HEADER_BYTES + READ_CHUNK_BYTES \<longrightarrow>
     length (xf_buf st') < MAX_HEADER_BYTES + READ_CHUNK_BYTES)"
  using assms(2)
proof (induction st rule: fill_induct)
  case (1 st)
  from "1.prems" show ?case
  proof (cases rule: read_header_block_cases)
    case (found i)
    have occ: "occurs_at (xf_buf st) (crlf @ crlf) i" "\<forall>j < i. \<not> occurs_at (xf_buf st) (crlf @ crlf) j"
      using memmem_first_Some [OF assms(1) found(1)] by simp_all
    then have len: "i + 4 \<le> length (xf_buf st)" using occurs_at_bound [OF occ(1)] by simp
    have "occurs_at (input st) (crlf @ crlf) j = occurs_at (xf_buf st) (crlf @ crlf) j" if "j \<le> i" for j
      unfolding input_def using that len by (intro occurs_at_append) simp
    with occ len found show ?thesis by auto
  next
    case (more d rx)
    have "length d \<le> READ_CHUNK_BYTES" using sock_read_Got(3) [OF more(3)] by simp
    with more(2) have "length (xf_buf st @ d) < MAX_HEADER_BYTES + READ_CHUNK_BYTES" by simp
    with "1.IH" [OF more(3,4,5)] fill_input(1) [OF more(3)] show ?thesis by auto
  qed simp
qed

section \<open>What writing does\<close>

lemma write_all_WOk:
  assumes "write_all bs s = (WOk, s')"
  shows "sk_out s' = sk_out s @ bs" "accepted (length bs) s = length bs"
  using assms by (auto simp: write_all_def accepted_def split: option.splits if_splits write_end.splits)

lemma write_all_unlimited [simp]:
  "sk_limit s = None \<Longrightarrow> write_all bs s = (WOk, s\<lparr>sk_out := sk_out s @ bs\<rparr>)"
  by (simp add: write_all_def)

lemma xwrite_AOk:
  assumes "xwrite bs st = (AOk u, st')"
  shows "out st' = out st @ bs" "xf_rx st' = xf_rx st" "xf_buf st' = xf_buf st" "xf_pipe st' = xf_pipe st"
proof -
  from assms show "out st' = out st @ bs"
    by (auto simp: xwrite_def Let_def dest!: write_all_WOk(1) split: prod.splits write_result.splits)
qed (use xwrite_frame_eq [OF assms] in simp_all)

lemma xwrite_unlimited:
  "sk_limit (xf_tx st) = None \<Longrightarrow>
     xwrite bs st = (AOk (), st\<lparr>xf_tx := (xf_tx st)\<lparr>sk_out := out st @ bs\<rparr>\<rparr>)"
  by (simp add: xwrite_def)

lemma drain_pipe_AOk:
  assumes "drain_pipe n st = (AOk u, st')"
  shows "n \<le> length (xf_pipe st)" "out st' = out st @ take n (xf_pipe st)"
    "xf_pipe st' = drop n (xf_pipe st)" "xf_rx st' = xf_rx st" "xf_buf st' = xf_buf st"
proof -
  obtain r tx where w: "write_all (take n (xf_pipe st)) (xf_tx st) = (r, tx)" by force
  from assms w have r: "r = WOk" and n: "n \<le> length (xf_pipe st)"
    by (auto simp: drain_pipe_def Let_def split: write_result.splits if_splits)
  note w' = w [unfolded r]
  from n show "n \<le> length (xf_pipe st)" .
  show "out st' = out st @ take n (xf_pipe st)" "xf_pipe st' = drop n (xf_pipe st)"
    "xf_rx st' = xf_rx st" "xf_buf st' = xf_buf st"
    using assms w' write_all_WOk [OF w'] n by (auto simp: drain_pipe_def Let_def min_def)
qed

lemma drain_pipe_unlimited:
  assumes "sk_limit (xf_tx st) = None" "xf_pipe st = d"
  shows "drain_pipe (length d) st =
    (AOk (), st\<lparr>xf_tx := (xf_tx st)\<lparr>sk_out := out st @ d\<rparr>, xf_pipe := []\<rparr>)"
  using assms by (simp add: drain_pipe_def accepted_def)

section \<open>Copying an exact number of bytes\<close>

text \<open>
  What a successful exact copy guarantees, whatever the sink and the segmentation: \<open>n\<close> bytes of
  the source's data, in order, reach the destination, and nothing else happens.
\<close>

definition moved_exact :: "nat \<Rightarrow> xfer \<Rightarrow> xfer \<Rightarrow> bool" where
  "moved_exact n st st' \<longleftrightarrow>
     (\<exists>c. length c = n \<and> rx_data (xf_rx st) = c @ rx_data (xf_rx st') \<and> out st' = out st @ c \<and>
        rx_size (xf_rx st) = n + rx_size (xf_rx st') \<and> xf_buf st' = xf_buf st \<and>
        xf_pipe st' = xf_pipe st)"

lemma moved_exact_0 [simp]: "moved_exact 0 st st"
  by (simp add: moved_exact_def)

lemma moved_exact_step:
  assumes "sock_read k (xf_rx st) = (Got d, rx)" "0 < k" "length d \<le> n"
    and "xf_rx st1 = rx" "out st1 = out st @ d" "xf_buf st1 = xf_buf st" "xf_pipe st1 = xf_pipe st"
    and "moved_exact (n - length d) st1 st'"
  shows "moved_exact n st st'"
proof -
  from assms(8) obtain c where c: "length c = n - length d" "rx_data rx = c @ rx_data (xf_rx st')"
    "out st' = out st1 @ c" "rx_size rx = n - length d + rx_size (xf_rx st')"
    "xf_buf st' = xf_buf st1" "xf_pipe st' = xf_pipe st1"
    unfolding moved_exact_def assms(4) by blast
  with assms(3-7) sock_read_Got(1,2) [OF assms(1,2)] show ?thesis
    unfolding moved_exact_def by (intro exI [of _ "d @ c"]) simp
qed

lemma exact_0 [simp]:
  "copy_loop chunk 0 st = (AOk (), st)" "splice_exact 0 st = (AOk (), st)"
  by (simp_all add: copy_loop.simps [of chunk 0 st] splice_exact.simps [of 0 st])

lemma copy_loop_AOk:
  assumes "copy_loop chunk n st = (AOk u, st')" "0 < chunk"
  shows "moved_exact n st st'"
  using assms
proof (induction chunk n st rule: copy_loop.induct)
  case (1 chunk n st)
  show ?case
  proof (cases "n = 0")
    case True
    with "1.prems" show ?thesis by simp
  next
    case False
    with "1.prems" obtain d rx st1 where d: "sock_read (min chunk n) (xf_rx st) = (Got d, rx)" "d \<noteq> []"
      and w: "xwrite d (st\<lparr>xf_rx := rx\<rparr>) = (AOk (), st1)"
      and r: "copy_loop chunk (n - length d) st1 = (AOk u, st')"
      by (auto simp: copy_loop.simps [of chunk n st] abind_AOk
          split: prod.splits read_result.splits if_splits)
    have pos: "0 < min chunk n" using False "1.prems"(2) by simp
    have "length d \<le> n" using sock_read_Got(3) [OF d(1) pos] by simp
    moreover have "moved_exact (n - length d) st1 st'"
      by (rule "1.IH" [OF False d(1) [symmetric] refl d(2) w r "1.prems"(2)])
    ultimately show ?thesis
      using moved_exact_step [OF d(1) pos, of n st1 st'] xwrite_AOk [OF w] by simp
  qed
qed

lemma splice_exact_AOk:
  assumes "splice_exact n st = (AOk u, st')" "xf_pipe st = []"
  shows "moved_exact n st st'"
  using assms
proof (induction n st rule: splice_exact.induct)
  case (1 n st)
  show ?case
  proof (cases "n = 0")
    case True
    with "1.prems" show ?thesis by simp
  next
    case False
    with "1.prems" obtain d rx st1 where
      d: "sock_read (min n PIPE_CAPACITY) (xf_rx st) = (Got d, rx)" "d \<noteq> []"
      and w: "drain_pipe (length d) (st\<lparr>xf_rx := rx, xf_pipe := xf_pipe st @ d\<rparr>) = (AOk (), st1)"
      and r: "splice_exact (n - length d) st1 = (AOk u, st')"
      by (auto simp: splice_exact.simps [of n st] abind_AOk
          split: prod.splits read_result.splits if_splits)
    have pos: "0 < min n PIPE_CAPACITY" using False by (simp add: PIPE_CAPACITY_def)
    have st1: "out st1 = out st @ d" "xf_rx st1 = rx" "xf_buf st1 = xf_buf st" "xf_pipe st1 = []"
      using drain_pipe_AOk [OF w] "1.prems"(2) by simp_all
    have "length d \<le> n" using sock_read_Got(3) [OF d(1) pos] by simp
    moreover have "moved_exact (n - length d) st1 st'"
      by (rule "1.IH" [OF False d(1) [symmetric] refl d(2) w r st1(4)])
    ultimately show ?thesis
      using moved_exact_step [OF d(1) pos, of n st1 st'] st1 "1.prems"(2) by simp
  qed
qed

text \<open>With a sink that takes everything the two loops are determined by the source alone.\<close>

definition moves_or_ends :: "nat \<Rightarrow> xfer \<Rightarrow> unit aresult \<times> xfer \<Rightarrow> bool" where
  "moves_or_ends n st res \<longleftrightarrow>
     sk_limit (xf_tx (snd res)) = None \<and>
     (if n \<le> length (rx_data (xf_rx st))
      then fst res = AOk () \<and> out (snd res) = out st @ take n (rx_data (xf_rx st))
      else fst res = rx_end (xf_rx st) \<and> out (snd res) = out st @ rx_data (xf_rx st))"

lemma moves_or_ends_step:
  assumes "sock_read k (xf_rx st) = (Got d, rx)" "0 < k" "length d \<le> n" "d \<noteq> []"
    "xf_rx st1 = rx" "out st1 = out st @ d" "moves_or_ends (n - length d) st1 res"
  shows "moves_or_ends n st res"
  using assms(3-7) sock_read_Got(1) [OF assms(1,2)] sock_read_Got(6) [OF assms(1,2,4), where 'a = unit]
  by (auto simp: moves_or_ends_def split: if_splits)

lemma moves_or_ends_end:
  assumes "0 < n" "rx_data (xf_rx st) = []" "fst res = rx_end (xf_rx st)" "out (snd res) = out st"
    "sk_limit (xf_tx (snd res)) = None"
  shows "moves_or_ends n st res"
  using assms by (simp add: moves_or_ends_def)

lemma copy_loop_unlimited:
  assumes "sk_limit (xf_tx st) = None" "0 < chunk"
  shows "moves_or_ends n st (copy_loop chunk n st)"
  using assms
proof (induction chunk n st rule: copy_loop.induct)
  case (1 chunk n st)
  show ?case
  proof (cases "n = 0")
    case True
    then show ?thesis using "1.prems"(1) by (simp add: moves_or_ends_def)
  next
    case False
    then have pos: "0 < min chunk n" using "1.prems"(2) by simp
    obtain r rx where r: "sock_read (min chunk n) (xf_rx st) = (r, rx)" by force
    show ?thesis
    proof (cases r)
      case (Got d)
      note r = r [unfolded Got]
      show ?thesis
      proof (cases "d = []")
        case True
        have "copy_loop chunk n st = (eof_err, st\<lparr>xf_rx := rx\<rparr>)"
          using False r True by (simp add: copy_loop.simps [of chunk n st])
        then show ?thesis using False sock_read_Got(4) [OF r pos] True "1.prems"(1)
          by (intro moves_or_ends_end) simp_all
      next
        case dne: False
        let ?st = "(st\<lparr>xf_rx := rx\<rparr>)\<lparr>xf_tx := (xf_tx st)\<lparr>sk_out := out st @ d\<rparr>\<rparr>"
        have w: "xwrite d (st\<lparr>xf_rx := rx\<rparr>) = (AOk (), ?st)"
          using "1.prems"(1) by (simp add: xwrite_unlimited)
        have eq: "copy_loop chunk n st = copy_loop chunk (n - length d) ?st"
          using False r dne w by (subst copy_loop.simps) simp
        have "moves_or_ends (n - length d) ?st (copy_loop chunk (n - length d) ?st)"
          by (rule "1.IH" [OF False r [symmetric] refl dne w]) (use "1.prems" in simp_all)
        with eq moves_or_ends_step [OF r pos, of n ?st] sock_read_Got(3) [OF r pos] dne
        show ?thesis by simp
      qed
    qed (use False r "1.prems"(1) sock_read_fails [of "min chunk n" "xf_rx st" rx, where 'a = unit] in
        \<open>auto intro!: moves_or_ends_end simp: copy_loop.simps [of chunk n st]\<close>)
  qed
qed

lemma splice_exact_unlimited:
  assumes "sk_limit (xf_tx st) = None" "xf_pipe st = []"
  shows "moves_or_ends n st (splice_exact n st)"
  using assms
proof (induction n st rule: splice_exact.induct)
  case (1 n st)
  show ?case
  proof (cases "n = 0")
    case True
    then show ?thesis using "1.prems"(1) by (simp add: moves_or_ends_def)
  next
    case False
    then have pos: "0 < min n PIPE_CAPACITY" by (simp add: PIPE_CAPACITY_def)
    obtain r rx where r: "sock_read (min n PIPE_CAPACITY) (xf_rx st) = (r, rx)" by force
    show ?thesis
    proof (cases r)
      case (Got d)
      note r = r [unfolded Got]
      show ?thesis
      proof (cases "d = []")
        case True
        have "splice_exact n st = (eof_err, st\<lparr>xf_rx := rx\<rparr>)"
          using False r True by (simp add: splice_exact.simps [of n st])
        then show ?thesis using False sock_read_Got(4) [OF r pos] True "1.prems"(1)
          by (intro moves_or_ends_end) simp_all
      next
        case dne: False
        let ?st1 = "st\<lparr>xf_rx := rx, xf_pipe := xf_pipe st @ d\<rparr>"
        let ?st = "?st1\<lparr>xf_tx := (xf_tx ?st1)\<lparr>sk_out := out ?st1 @ d\<rparr>, xf_pipe := []\<rparr>"
        have w: "drain_pipe (length d) ?st1 = (AOk (), ?st)"
          using "1.prems" by (intro drain_pipe_unlimited) simp_all
        have eq: "splice_exact n st = splice_exact (n - length d) ?st"
          using False r dne w by (subst splice_exact.simps) simp
        have "moves_or_ends (n - length d) ?st (splice_exact (n - length d) ?st)"
          by (rule "1.IH" [OF False r [symmetric] refl dne w]) (use "1.prems" in simp_all)
        with eq moves_or_ends_step [OF r pos, of n ?st] sock_read_Got(3) [OF r pos] dne
        show ?thesis by simp
      qed
    qed (use False r "1.prems"(1) sock_read_fails [of "min n PIPE_CAPACITY" "xf_rx st" rx, where 'a = unit] in
        \<open>auto intro!: moves_or_ends_end simp: splice_exact.simps [of n st]\<close>)
  qed
qed

lemma BODY_CHUNK_pos [simp]: "0 < BODY_CHUNK_BYTES b"
  by (simp add: BODY_CHUNK_BYTES_def)

lemma copy_buffered_AOk:
  assumes "copy_buffered k st = (AOk u, st')" "k \<le> length (xf_buf st)"
  shows "out st' = out st @ take k (xf_buf st)" "xf_buf st' = drop k (xf_buf st)"
    "xf_rx st' = xf_rx st" "xf_pipe st' = xf_pipe st"
proof -
  have "out st' = out st @ take k (xf_buf st) \<and> xf_buf st' = drop k (xf_buf st) \<and>
      xf_rx st' = xf_rx st \<and> xf_pipe st' = xf_pipe st"
  proof (cases "k = 0")
    case True
    with assms show ?thesis by (simp add: copy_buffered_def)
  next
    case False
    with assms obtain st1 where w: "xwrite (take k (xf_buf st)) st = (AOk (), st1)"
      "st' = st1\<lparr>xf_buf := drop k (xf_buf st1)\<rparr>"
      by (auto simp: copy_buffered_def abind_AOk discard_buffer_prefix_drop)
    with xwrite_AOk [OF w(1)] show ?thesis by simp
  qed
  then show "out st' = out st @ take k (xf_buf st)" "xf_buf st' = drop k (xf_buf st)"
    "xf_rx st' = xf_rx st" "xf_pipe st' = xf_pipe st" by simp_all
qed

text \<open>A transfer that forwards its input verbatim: what left the source reached the sink.\<close>

definition relays :: "bytes \<Rightarrow> xfer \<Rightarrow> xfer \<Rightarrow> bool" where
  "relays c st st' \<longleftrightarrow>
     input st = c @ input st' \<and> out st' = out st @ c \<and> xf_pipe st' = [] \<and>
     in_size st = length c + in_size st'"

lemma relays_refl [simp]: "xf_pipe st = [] \<Longrightarrow> relays [] st st"
  by (simp add: relays_def)

lemma relays_trans: "relays c st st1 \<Longrightarrow> relays d st1 st' \<Longrightarrow> relays (c @ d) st st'"
  by (simp add: relays_def)

lemma copy_exact_body_AOk:
  assumes "copy_exact_body env n st = (AOk u, st')" "xf_pipe st = []"
  shows "\<exists>c. length c = n \<and> relays c st st'"
proof -
  let ?k = "min (length (xf_buf st)) n"
  from assms(1) obtain st1 where b: "copy_buffered ?k st = (AOk (), st1)"
    and r: "(if n - ?k = 0 then (AOk (), st1)
        else if xe_zero_copy env \<and> xe_splice_supported env then
          (if xe_pipe_ok env then splice_exact (n - ?k) st1 else (io_err, st1))
        else copy_loop (BODY_CHUNK_BYTES (xe_single_core env)) (n - ?k) st1) = (AOk (), st')"
    by (auto simp: copy_exact_body_def abind_AOk Let_def)
  note st1 = copy_buffered_AOk [OF b]
  have "moved_exact (n - ?k) st1 st'"
    using r copy_loop_AOk [of _ "n - ?k" st1 "()" st'] splice_exact_AOk [of "n - ?k" st1 "()" st']
      st1 assms(2) by (auto split: if_splits)
  then obtain c where c: "length c = n - ?k" "rx_data (xf_rx st1) = c @ rx_data (xf_rx st')"
    "out st' = out st1 @ c" "rx_size (xf_rx st1) = n - ?k + rx_size (xf_rx st')"
    "xf_buf st' = xf_buf st1" "xf_pipe st' = xf_pipe st1" by (auto simp: moved_exact_def)
  have empty: "drop ?k (xf_buf st) = [] \<or> c = []"
    using c(1) by (cases "length (xf_buf st) \<le> n") auto
  have "relays (take ?k (xf_buf st) @ c) st st'"
  proof (cases "c = []")
    case True
    with c st1 assms(2) show ?thesis by (simp add: relays_def input_def in_size_def)
  next
    case False
    then have "drop ?k (xf_buf st) = []" "?k = length (xf_buf st)" using empty by auto
    with c st1 assms(2) show ?thesis by (simp add: relays_def input_def in_size_def)
  qed
  moreover have "length (take ?k (xf_buf st) @ c) = n" using c(1) by simp
  ultimately show ?thesis by blast
qed

text \<open>
  With an unlimited sink: exactly the first \<open>n\<close> bytes of the input arrive, or, if the source ends
  early, all of them and the end of the source is reported. The answer depends neither on the
  segmentation nor on the buffered prefix nor on the copy mechanism.
\<close>

lemma copy_exact_body_unlimited:
  assumes "sk_limit (xf_tx st) = None" "xf_pipe st = []"
    "xe_zero_copy env \<and> xe_splice_supported env \<longrightarrow> xe_pipe_ok env"
  shows "sk_limit (xf_tx (snd (copy_exact_body env n st))) = None"
    and "if n \<le> length (input st)
    then fst (copy_exact_body env n st) = AOk () \<and>
      out (snd (copy_exact_body env n st)) = out st @ take n (input st)
    else fst (copy_exact_body env n st) = rx_end (xf_rx st) \<and>
      out (snd (copy_exact_body env n st)) = out st @ input st"
proof -
  let ?k = "min (length (xf_buf st)) n"
  define st1 where "st1 = st\<lparr>xf_tx := (xf_tx st)\<lparr>sk_out := out st @ take ?k (xf_buf st)\<rparr>,
      xf_buf := drop ?k (xf_buf st)\<rparr>"
  have b: "copy_buffered ?k st = (AOk (), st1)"
    using assms(1) by (auto simp: copy_buffered_def xwrite_unlimited discard_buffer_prefix_drop st1_def)
  define res where "res = copy_exact_body env n st"
  have res: "res = (if n - ?k = 0 then (AOk (), st1)
        else if xe_zero_copy env \<and> xe_splice_supported env then
          (if xe_pipe_ok env then splice_exact (n - ?k) st1 else (io_err, st1))
        else copy_loop (BODY_CHUNK_BYTES (xe_single_core env)) (n - ?k) st1)"
    unfolding res_def copy_exact_body_def Let_def b by simp
  have mv: "moves_or_ends (n - ?k) st1 res"
  proof (cases "n - ?k = 0")
    case True
    then show ?thesis unfolding res using assms(1) by (simp add: moves_or_ends_def st1_def)
  next
    case False
    have "sk_limit (xf_tx st1) = None" "xf_pipe st1 = []" using assms(1,2) by (simp_all add: st1_def)
    then show ?thesis
      unfolding res using False assms(3) copy_loop_unlimited [of st1] splice_exact_unlimited [of st1]
      by simp
  qed
  show "sk_limit (xf_tx (snd (copy_exact_body env n st))) = None"
    using mv unfolding res_def moves_or_ends_def by simp
  show "if n \<le> length (input st)
    then fst (copy_exact_body env n st) = AOk () \<and>
      out (snd (copy_exact_body env n st)) = out st @ take n (input st)
    else fst (copy_exact_body env n st) = rx_end (xf_rx st) \<and>
      out (snd (copy_exact_body env n st)) = out st @ input st"
    unfolding res_def [symmetric]
  proof (cases "length (xf_buf st) \<le> n")
    case True
    with mv show "if n \<le> length (input st)
    then fst res = AOk () \<and> out (snd res) = out st @ take n (input st)
    else fst res = rx_end (xf_rx st) \<and> out (snd res) = out st @ input st"
      by (auto simp: moves_or_ends_def st1_def input_def min_def split: if_splits)
  next
    case False
    with mv show "if n \<le> length (input st)
    then fst res = AOk () \<and> out (snd res) = out st @ take n (input st)
    else fst res = rx_end (xf_rx st) \<and> out (snd res) = out st @ input st"
      by (auto simp: moves_or_ends_def st1_def input_def min_def split: if_splits)
  qed
qed

section \<open>Copying to the end of the stream\<close>

lemma copy_stream_AOk:
  assumes "copy_stream st = (AOk u, st')"
  shows "rx_data (xf_rx st') = []" "out st' = out st @ rx_data (xf_rx st)" "xf_buf st' = xf_buf st"
    "xf_pipe st' = xf_pipe st" "rx_size (xf_rx st) = length (rx_data (xf_rx st)) + rx_size (xf_rx st')"
proof -
  have "rx_data (xf_rx st') = [] \<and> out st' = out st @ rx_data (xf_rx st) \<and> xf_buf st' = xf_buf st \<and>
      xf_pipe st' = xf_pipe st \<and> rx_size (xf_rx st) = length (rx_data (xf_rx st)) + rx_size (xf_rx st')"
    using assms
  proof (induction st rule: copy_stream.induct)
    case (1 st)
    from "1.prems" obtain d rx where d: "sock_read READ_CHUNK_BYTES (xf_rx st) = (Got d, rx)"
      by (auto simp: copy_stream.simps [of st] split: prod.splits read_result.splits)
    show ?case
    proof (cases "d = []")
      case True
      with "1.prems" d have "st' = st\<lparr>xf_rx := rx\<rparr>" by (simp add: copy_stream.simps [of st])
      with True sock_read_Got(1,2,5) [OF d] show ?thesis by simp
    next
      case False
      with "1.prems" d obtain st1 where w: "xwrite d (st\<lparr>xf_rx := rx\<rparr>) = (AOk (), st1)"
        and r: "copy_stream st1 = (AOk u, st')"
        by (auto simp: copy_stream.simps [of st] abind_AOk)
      from "1.IH" [OF d [symmetric] refl False w r] xwrite_AOk [OF w] sock_read_Got(1,2) [OF d]
      show ?thesis by simp
    qed
  qed
  then show "rx_data (xf_rx st') = []" "out st' = out st @ rx_data (xf_rx st)" "xf_buf st' = xf_buf st"
    "xf_pipe st' = xf_pipe st" "rx_size (xf_rx st) = length (rx_data (xf_rx st)) + rx_size (xf_rx st')"
    by simp_all
qed

lemma splice_stream_AOk:
  assumes "splice_stream t st = (AOk u, st')" "xf_pipe st = []"
  shows "rx_data (xf_rx st') = []" "out st' = out st @ rx_data (xf_rx st)" "xf_buf st' = xf_buf st"
    "xf_pipe st' = []" "rx_size (xf_rx st) = length (rx_data (xf_rx st)) + rx_size (xf_rx st')"
proof -
  have "rx_data (xf_rx st') = [] \<and> out st' = out st @ rx_data (xf_rx st) \<and> xf_buf st' = xf_buf st \<and>
      xf_pipe st' = [] \<and> rx_size (xf_rx st) = length (rx_data (xf_rx st)) + rx_size (xf_rx st')"
    using assms
  proof (induction t st rule: splice_stream.induct)
    case (1 t st)
    have pos: "0 < PIPE_CAPACITY" by (simp add: PIPE_CAPACITY_def)
    from "1.prems"(1) obtain d rx where d: "sock_read PIPE_CAPACITY (xf_rx st) = (Got d, rx)"
      by (auto simp: splice_stream.simps [of t st] split: prod.splits read_result.splits)
    show ?case
    proof (cases "d = []")
      case True
      with "1.prems" d have "st' = st\<lparr>xf_rx := rx\<rparr>" by (simp add: splice_stream.simps [of t st])
      with True sock_read_Got(1,2,5) [OF d pos] "1.prems"(2) show ?thesis by simp
    next
      case False
      with "1.prems" d obtain st1 where
        w: "drain_pipe (length d) (st\<lparr>xf_rx := rx, xf_pipe := xf_pipe st @ d\<rparr>) = (AOk (), st1)"
        and r: "splice_stream (t + of_nat (length d)) st1 = (AOk u, st')"
        by (auto simp: splice_stream.simps [of t st] abind_AOk)
      have st1: "out st1 = out st @ d" "xf_rx st1 = rx" "xf_buf st1 = xf_buf st" "xf_pipe st1 = []"
        using drain_pipe_AOk [OF w] "1.prems"(2) by simp_all
      from "1.IH" [OF d [symmetric] refl False w r st1(4)] st1 sock_read_Got(1,2) [OF d pos]
      show ?thesis by simp
    qed
  qed
  then show "rx_data (xf_rx st') = []" "out st' = out st @ rx_data (xf_rx st)" "xf_buf st' = xf_buf st"
    "xf_pipe st' = []" "rx_size (xf_rx st) = length (rx_data (xf_rx st)) + rx_size (xf_rx st')"
    by simp_all
qed

end
