(* ===== verification/Splice_Pipe.thy ===== *)
theory Splice_Pipe
  imports Streams
begin

text \<open>
  The splice path of \<^verbatim>\<open>src/src/proxy/zerocopy.rs\<close> as it runs on a worker thread: \<^verbatim>\<open>pipe_fds\<close> gives
  every task of the thread the same pipe, and the tasks interleave at each \<^verbatim>\<open>.await\<close>. One
  \<^verbatim>\<open>splice_raw\<close> call is atomic. A task is in \<^verbatim>\<open>splice_exact\<close> with \<open>tk_remaining\<close> bytes to take from its
  source and \<open>tk_count\<close> bytes still to drain to its destination; a timeout drops the future.

  As long as one transfer runs at a time and none is abandoned, each is exact. With two transfers on
  one thread the bytes of one connection can be delivered to the other.
\<close>

section \<open>Definitions\<close>

record task =
  tk_src :: bytes
  tk_remaining :: nat
  tk_count :: nat
  tk_dst :: bytes

record worker =
  wk_tasks :: "nat \<Rightarrow> task"
  wk_pipe :: bytes

text \<open>\<^verbatim>\<open>pipe_fds\<close>: the pipe is created once, later calls return the same one.\<close>

definition pipe_fds :: "(int \<times> int) option \<Rightarrow> (int \<times> int) option \<Rightarrow> (int \<times> int) option \<times> (int \<times> int) option"
where
  "pipe_fds created cell =
     (case cell of
        Some fds \<Rightarrow> (Some fds, cell)
      | None \<Rightarrow> (case created of None \<Rightarrow> (None, None) | Some fds \<Rightarrow> (Some fds, Some fds)))"

definition fill_task :: "nat \<Rightarrow> task \<Rightarrow> task" where
  "fill_task moved t =
     t\<lparr>tk_src := drop moved (tk_src t), tk_remaining := tk_remaining t - moved, tk_count := moved\<rparr>"

definition drain_task :: "bytes \<Rightarrow> task \<Rightarrow> task" where
  "drain_task d t = t\<lparr>tk_dst := tk_dst t @ d, tk_count := tk_count t - length d\<rparr>"

text \<open>
  The steps of one worker: task \<open>i\<close> fills the pipe from its source, drains the pipe into its
  destination, or is dropped by the timeout around it.
\<close>

inductive wstep :: "worker \<Rightarrow> worker \<Rightarrow> bool" where
  fill: "tk_count (wk_tasks w i) = 0 \<Longrightarrow> 0 < moved \<Longrightarrow>
    moved \<le> min (tk_remaining (wk_tasks w i)) PIPE_CAPACITY \<Longrightarrow>
    moved \<le> length (tk_src (wk_tasks w i)) \<Longrightarrow> length (wk_pipe w) + moved \<le> PIPE_CAPACITY \<Longrightarrow>
    wstep w (w\<lparr>wk_tasks := (wk_tasks w)(i := fill_task moved (wk_tasks w i)),
               wk_pipe := wk_pipe w @ take moved (tk_src (wk_tasks w i))\<rparr>)"
| drain: "0 < moved \<Longrightarrow> moved \<le> tk_count (wk_tasks w i) \<Longrightarrow> moved \<le> length (wk_pipe w) \<Longrightarrow>
    wstep w (w\<lparr>wk_tasks := (wk_tasks w)(i := drain_task (take moved (wk_pipe w)) (wk_tasks w i)),
               wk_pipe := drop moved (wk_pipe w)\<rparr>)"
| dropped: "wstep w (w\<lparr>wk_tasks := (wk_tasks w)(i := (wk_tasks w i)\<lparr>tk_remaining := 0, tk_count := 0\<rparr>)\<rparr>)"

inductive_simps wstep_simps: "wstep w w'"

text \<open>The steps of a single task \<open>i\<close> that is not dropped.\<close>

inductive solo_step :: "nat \<Rightarrow> worker \<Rightarrow> worker \<Rightarrow> bool" for i where
  solo_fill: "tk_count (wk_tasks w i) = 0 \<Longrightarrow> 0 < moved \<Longrightarrow>
    moved \<le> min (tk_remaining (wk_tasks w i)) PIPE_CAPACITY \<Longrightarrow>
    moved \<le> length (tk_src (wk_tasks w i)) \<Longrightarrow> length (wk_pipe w) + moved \<le> PIPE_CAPACITY \<Longrightarrow>
    solo_step i w (w\<lparr>wk_tasks := (wk_tasks w)(i := fill_task moved (wk_tasks w i)),
               wk_pipe := wk_pipe w @ take moved (tk_src (wk_tasks w i))\<rparr>)"
| solo_drain: "0 < moved \<Longrightarrow> moved \<le> tk_count (wk_tasks w i) \<Longrightarrow> moved \<le> length (wk_pipe w) \<Longrightarrow>
    solo_step i w (w\<lparr>wk_tasks := (wk_tasks w)(i := drain_task (take moved (wk_pipe w)) (wk_tasks w i)),
               wk_pipe := drop moved (wk_pipe w)\<rparr>)"

lemma solo_step_wstep: "solo_step i w w' \<Longrightarrow> wstep w w'"
  by (cases rule: solo_step.cases) (auto intro: wstep.fill wstep.drain)

section \<open>A transfer on its own\<close>

text \<open>
  The invariant of a transfer of \<open>n\<close> bytes of \<open>src\<close>: the pipe holds exactly what the task has yet to
  drain, and destination, pipe and source together are the source it started with.
\<close>

definition solo_inv :: "nat \<Rightarrow> bytes \<Rightarrow> bytes \<Rightarrow> nat \<Rightarrow> worker \<Rightarrow> bool" where
  "solo_inv i src dst n w \<longleftrightarrow>
     (let t = wk_tasks w i in
      length (wk_pipe w) = tk_count t \<and> n \<le> length src \<and>
      tk_dst t @ wk_pipe w @ tk_src t = dst @ src \<and>
      length (tk_dst t) + tk_count t + tk_remaining t = length dst + n)"

lemma solo_inv_step:
  assumes "solo_step i w w'" "solo_inv i src dst n w"
  shows "solo_inv i src dst n w'"
  using assms(1)
proof cases
  case (solo_fill moved)
  have "take moved (tk_src (wk_tasks w i)) @ drop moved (tk_src (wk_tasks w i)) = tk_src (wk_tasks w i)"
    by (rule append_take_drop_id)
  moreover from solo_fill assms(2) have "wk_pipe w = []" by (simp add: solo_inv_def Let_def)
  ultimately show ?thesis
    using solo_fill assms(2) by (simp add: solo_inv_def Let_def fill_task_def min_absorb2)
next
  case (solo_drain moved)
  have split: "take moved (wk_pipe w) @ drop moved (wk_pipe w) @ rest = wk_pipe w @ rest" for rest
    by (metis append_assoc append_take_drop_id)
  from solo_drain assms(2) show ?thesis
    by (simp add: solo_inv_def Let_def drain_task_def min_absorb2 split)
qed

lemma solo_inv_reachable:
  assumes "(solo_step i)\<^sup>*\<^sup>* w w'" "solo_inv i src dst n w"
  shows "solo_inv i src dst n w'"
  using assms by (induction rule: rtranclp_induct) (auto intro: solo_inv_step)

text \<open>While there is something left to move, the transfer can move on.\<close>

lemma solo_progress:
  assumes "solo_inv i src dst n w" "tk_count (wk_tasks w i) + tk_remaining (wk_tasks w i) \<noteq> 0"
  shows "\<exists>w'. solo_step i w w'"
proof (cases "tk_count (wk_tasks w i) = 0")
  case True
  let ?t = "wk_tasks w i"
  have src: "tk_dst ?t @ wk_pipe w @ tk_src ?t = dst @ src" "length (wk_pipe w) = tk_count ?t"
    "length (tk_dst ?t) + tk_count ?t + tk_remaining ?t = length dst + n" "n \<le> length src"
    using assms(1) by (simp_all add: solo_inv_def Let_def)
  from src(1) have "length (tk_dst ?t) + length (wk_pipe w) + length (tk_src ?t) = length dst + length src"
    by (metis add.assoc length_append)
  with src True assms(2) have "0 < length (tk_src ?t)" "0 < tk_remaining ?t" by linarith+
  with True src(2) have "solo_step i w (w\<lparr>wk_tasks := (wk_tasks w)(i := fill_task 1 ?t),
      wk_pipe := wk_pipe w @ take 1 (tk_src ?t)\<rparr>)"
    by (intro solo_fill) (simp_all add: PIPE_CAPACITY_def Suc_le_eq)
  then show ?thesis by blast
next
  case False
  with assms(1) have "length (wk_pipe w) = tk_count (wk_tasks w i)" by (simp add: solo_inv_def Let_def)
  with False solo_drain [of "tk_count (wk_tasks w i)" w i] show ?thesis by auto
qed

section \<open>Two transfers\<close>

definition start :: "bytes \<Rightarrow> bytes \<Rightarrow> worker" where
  "start a b =
     \<lparr>wk_tasks = (\<lambda>i. if i = 0 then \<lparr>tk_src = a, tk_remaining = length a, tk_count = 0, tk_dst = []\<rparr>
        else if i = 1 then \<lparr>tk_src = b, tk_remaining = length b, tk_count = 0, tk_dst = []\<rparr>
        else \<lparr>tk_src = [], tk_remaining = 0, tk_count = 0, tk_dst = []\<rparr>),
      wk_pipe = []\<rparr>"

lemma wstep_fill_eq:
  assumes "tk_count (wk_tasks w i) = 0" "tk_remaining (wk_tasks w i) = length (tk_src (wk_tasks w i))"
    "tk_src (wk_tasks w i) = d" "d \<noteq> []" "length (wk_pipe w) + length d \<le> PIPE_CAPACITY"
  shows "wstep w (w\<lparr>wk_tasks := (wk_tasks w)(i := fill_task (length d) (wk_tasks w i)), wk_pipe := wk_pipe w @ d\<rparr>)"
  using wstep.fill [of w i "length d"] assms by simp

lemma wstep_drain_eq:
  assumes "tk_count (wk_tasks w i) = length d" "wk_pipe w = d @ p" "d \<noteq> []"
  shows "wstep w (w\<lparr>wk_tasks := (wk_tasks w)(i := drain_task d (wk_tasks w i)), wk_pipe := p\<rparr>)"
  using wstep.drain [of "length d" w i] assms by simp

lemma pipe_crosses:
  assumes "length a = length b" "a \<noteq> []" "2 * length a \<le> PIPE_CAPACITY"
  shows "\<exists>w. wstep\<^sup>*\<^sup>* (start a b) w \<and> tk_dst (wk_tasks w 0) = b \<and> tk_dst (wk_tasks w 1) = a \<and>
    (\<forall>i. tk_remaining (wk_tasks w i) = 0 \<and> tk_count (wk_tasks w i) = 0) \<and> wk_pipe w = []"
proof -
  define w1 where "w1 = (start a b)\<lparr>wk_tasks := (wk_tasks (start a b))(0 := fill_task (length a) (wk_tasks (start a b) 0)), wk_pipe := a\<rparr>"
  define w2 where "w2 = w1\<lparr>wk_tasks := (wk_tasks w1)(1 := fill_task (length b) (wk_tasks w1 1)), wk_pipe := a @ b\<rparr>"
  define w3 where "w3 = w2\<lparr>wk_tasks := (wk_tasks w2)(1 := drain_task a (wk_tasks w2 1)), wk_pipe := b\<rparr>"
  define w4 where "w4 = w3\<lparr>wk_tasks := (wk_tasks w3)(0 := drain_task b (wk_tasks w3 0)), wk_pipe := []\<rparr>"
  have b: "b \<noteq> []" using assms(1,2) by auto
  have "wstep (start a b) w1"
    using wstep_fill_eq [of "start a b" 0 a] assms by (simp add: w1_def start_def)
  moreover have "wstep w1 w2"
    using wstep_fill_eq [of w1 1 b] assms b by (simp add: w2_def w1_def start_def)
  moreover have "wstep w2 w3"
    using wstep_drain_eq [of w2 1 a b] assms by (simp add: w3_def w2_def w1_def start_def fill_task_def)
  moreover have "wstep w3 w4"
    using wstep_drain_eq [of w3 0 b "[]"] assms b
    by (simp add: w4_def w3_def w2_def w1_def start_def fill_task_def drain_task_def)
  ultimately have "wstep\<^sup>*\<^sup>* (start a b) w4" by (meson rtranclp.rtrancl_into_rtrancl rtranclp.rtrancl_refl)
  moreover have "tk_dst (wk_tasks w4 0) = b" "tk_dst (wk_tasks w4 1) = a" "wk_pipe w4 = []"
    "\<forall>i. tk_remaining (wk_tasks w4 i) = 0 \<and> tk_count (wk_tasks w4 i) = 0"
    using assms(1) by (simp_all add: w4_def w3_def w2_def w1_def start_def fill_task_def drain_task_def)
  ultimately show ?thesis by blast
qed

section \<open>Properties\<close>

text \<open>
  A splice transfer that has the worker's pipe to itself is exact: in every state it reaches,
  the destination holds a prefix of the source, the pipe holds the bytes between destination and source, it can
  always move on until everything is moved, and then the destination has received exactly the
  first \<open>n\<close> bytes and the pipe is empty again.
\<close>

theorem splice_alone_is_exact:
  assumes "wk_tasks w i = \<lparr>tk_src = src, tk_remaining = n, tk_count = 0, tk_dst = dst\<rparr>"
    and "wk_pipe w = []" "n \<le> length src" "(solo_step i)\<^sup>*\<^sup>* w w'"
  shows "tk_dst (wk_tasks w' i) @ wk_pipe w' @ tk_src (wk_tasks w' i) = dst @ src \<and>
    (if tk_count (wk_tasks w' i) + tk_remaining (wk_tasks w' i) = 0
     then tk_dst (wk_tasks w' i) = dst @ take n src \<and> wk_pipe w' = []
     else \<exists>w''. solo_step i w' w'')"
proof -
  have "solo_inv i src dst n w" using assms(1-3) by (simp add: solo_inv_def)
  from solo_inv_reachable [OF assms(4) this] have inv: "solo_inv i src dst n w'" .
  let ?t = "wk_tasks w' i"
  have eq: "tk_dst ?t @ wk_pipe w' @ tk_src ?t = dst @ src" "length (wk_pipe w') = tk_count ?t"
    "length (tk_dst ?t) + tk_count ?t + tk_remaining ?t = length dst + n"
    using inv by (simp_all add: solo_inv_def Let_def)
  have "tk_dst ?t = dst @ take n src \<and> wk_pipe w' = []" if "tk_count ?t + tk_remaining ?t = 0"
  proof -
    have p: "wk_pipe w' = []" "length (tk_dst ?t) = length dst + n" using eq(2,3) that by simp_all
    then have "tk_dst ?t = take (length dst + n) (dst @ src)" using eq(1) by (metis append_Nil append_eq_conv_conj)
    with p(1) show ?thesis by simp
  qed
  with eq(1) solo_progress [OF inv] show ?thesis by auto
qed

theorem splice_alone_is_exact_witness:
  "\<exists>w'. (solo_step 0)\<^sup>*\<^sup>* (start ''ab'' []) w' \<and> tk_dst (wk_tasks w' 0) = ''ab'' \<and> wk_pipe w' = []"
proof -
  let ?w = "start ''ab'' []"
  let ?w1 = "?w\<lparr>wk_tasks := (wk_tasks ?w)(0 := fill_task 2 (wk_tasks ?w 0)), wk_pipe := ''ab''\<rparr>"
  let ?w2 = "?w1\<lparr>wk_tasks := (wk_tasks ?w1)(0 := drain_task ''ab'' (wk_tasks ?w1 0)), wk_pipe := []\<rparr>"
  have "solo_step 0 ?w ?w1"
    using solo_fill [of ?w 0 2] by (simp add: start_def PIPE_CAPACITY_def)
  moreover have "solo_step 0 ?w1 ?w2"
    using solo_drain [of 2 ?w1 0] by (simp add: start_def fill_task_def)
  ultimately have run: "(solo_step 0)\<^sup>*\<^sup>* ?w ?w2" by (rule converse_rtranclp_into_rtranclp [OF _ r_into_rtranclp])
  have "wk_tasks ?w 0 = \<lparr>tk_src = ''ab'', tk_remaining = 2, tk_count = 0, tk_dst = []\<rparr>" "wk_pipe ?w = []"
    by (simp_all add: start_def)
  from splice_alone_is_exact [OF this _ run] have "tk_dst (wk_tasks ?w2 0) = ''ab'' \<and> wk_pipe ?w2 = []"
    by (simp add: start_def fill_task_def drain_task_def)
  with run show ?thesis by blast
qed

text \<open>
  Two transfers on one worker thread are not isolated: for any two bodies of the same
  length (up to half the pipe's capacity) there is a schedule in which both transfers complete
  without any error and each connection has received the other's bytes.
\<close>

theorem shared_pipe_leaks:
  assumes "length a = length b" "a \<noteq> []" "2 * length a \<le> PIPE_CAPACITY"
  shows "\<exists>w. wstep\<^sup>*\<^sup>* (start a b) w \<and> tk_dst (wk_tasks w 0) = b \<and> tk_dst (wk_tasks w 1) = a \<and>
    (\<forall>i. tk_remaining (wk_tasks w i) = 0 \<and> tk_count (wk_tasks w i) = 0)"
  using pipe_crosses [OF assms] by blast

theorem shared_pipe_leaks_witness:
  "\<exists>w. wstep\<^sup>*\<^sup>* (start ''secret'' ''public'') w \<and> tk_dst (wk_tasks w 1) = ''secret''"
  using shared_pipe_leaks [of "''secret''" "''public''"] by (auto simp: PIPE_CAPACITY_def)

end
