(* ===== verification/Splice_Fds.thy ===== *)
theory Splice_Fds
  imports Splice_Pipe
begin

text \<open>
  The system-call layer of \<^verbatim>\<open>src/src/proxy/zerocopy.rs\<close>: the capability probe with its cached answer,
  the per-thread pipe with its \<^verbatim>\<open>Drop\<close>, and one non-blocking \<^verbatim>\<open>splice\<close>. The kernel's answers are
  parameters; what is modelled is the table of open descriptors. The rest of the process opens and
  closes descriptors of its own in between.
\<close>

section \<open>Definitions\<close>

text \<open>The return value of \<^verbatim>\<open>splice\<close>, with \<^verbatim>\<open>errno\<close> when it is negative.\<close>

datatype splice_answer = Moved nat | Errno int

definition EAGAIN :: int where "EAGAIN = 11"

text \<open>\<^verbatim>\<open>pipe2\<close> is given the number of the call and the open descriptors; \<open>None\<close> is a failure.\<close>

record splice_sys =
  sy_pipe2 :: "nat \<Rightarrow> int set \<Rightarrow> (int \<times> int) option"
  sy_splice :: "int \<Rightarrow> int \<Rightarrow> nat \<Rightarrow> splice_answer"

definition close_fd :: "int \<Rightarrow> int set \<Rightarrow> int set" where
  "close_fd fd open_fds = open_fds - {fd}"

definition probe_splice :: "splice_sys \<Rightarrow> int set \<Rightarrow> bool \<times> int set" where
  "probe_splice sys open_fds =
     (case sy_pipe2 sys 0 open_fds of
        None \<Rightarrow> (False, open_fds)
      | Some (a0, a1) \<Rightarrow>
          (let fds1 = open_fds \<union> {a0, a1} in
           case sy_pipe2 sys 1 fds1 of
             None \<Rightarrow> (False, close_fd a1 (close_fd a0 fds1))
           | Some (b0, b1) \<Rightarrow>
               (let fds2 = fds1 \<union> {b0, b1};
                    ok = (case sy_splice sys a0 b1 0 of Moved _ \<Rightarrow> True | Errno e \<Rightarrow> e = EAGAIN)
                in (ok, close_fd b1 (close_fd b0 (close_fd a1 (close_fd a0 fds2)))))))"

text \<open>
  The state: open descriptors, those that belong to the rest of the process, the cell of the
  \<^verbatim>\<open>OnceLock\<close>, how often the fallback was logged, and every thread's \<^verbatim>\<open>PIPE\<close>.
\<close>

record zc_state =
  zc_open :: "int set"
  zc_others :: "int set"
  zc_supported :: "bool option"
  zc_warnings :: nat
  zc_pipes :: "nat \<Rightarrow> (int \<times> int) option"

definition splice_supported :: "splice_sys \<Rightarrow> zc_state \<Rightarrow> bool \<times> zc_state" where
  "splice_supported sys st =
     (case zc_supported st of
        Some b \<Rightarrow> (b, st)
      | None \<Rightarrow>
          (let (ok, fds) = probe_splice sys (zc_open st) in
           (ok, st\<lparr>zc_open := fds, zc_supported := Some ok,
                   zc_warnings := zc_warnings st + (if ok then 0 else 1)\<rparr>)))"

text \<open>\<^verbatim>\<open>pipe_fds\<close> on a thread, with the descriptors; enlarging the pipe is best effort.\<close>

definition thread_pipe_fds :: "splice_sys \<Rightarrow> nat \<Rightarrow> zc_state \<Rightarrow> (int \<times> int) option \<times> zc_state" where
  "thread_pipe_fds sys thread st =
     (let created = sy_pipe2 sys 0 (zc_open st);
          (res, cell) = pipe_fds created (zc_pipes st thread)
      in (res, st\<lparr>zc_pipes := (zc_pipes st)(thread := cell),
            zc_open := (if zc_pipes st thread = None
              then (case created of Some (r, w) \<Rightarrow> zc_open st \<union> {r, w} | None \<Rightarrow> zc_open st)
              else zc_open st)\<rparr>))"

text \<open>The end of a thread runs \<^verbatim>\<open>PipePair::drop\<close> on what its cell holds.\<close>

definition drop_pipe :: "nat \<Rightarrow> zc_state \<Rightarrow> zc_state" where
  "drop_pipe thread st =
     (case zc_pipes st thread of
        None \<Rightarrow> st
      | Some (r, w) \<Rightarrow>
          st\<lparr>zc_open := close_fd w (close_fd r (zc_open st)), zc_pipes := (zc_pipes st)(thread := None)\<rparr>)"

text \<open>One \<^verbatim>\<open>splice\<close>; \<^verbatim>\<open>async_io\<close> calls it again on \<^verbatim>\<open>WouldBlock\<close>, over the answers the kernel gives.\<close>

datatype splice_error = WouldBlock | OsError int

definition splice_raw :: "splice_answer \<Rightarrow> splice_error + nat" where
  "splice_raw rc = (case rc of Errno e \<Rightarrow> Inl (if e = EAGAIN then WouldBlock else OsError e) | Moved n \<Rightarrow> Inr n)"

fun async_splice :: "splice_answer list \<Rightarrow> (splice_error + nat) option" where
  "async_splice [] = None"
| "async_splice (a # as) = (case splice_raw a of Inl WouldBlock \<Rightarrow> async_splice as | r \<Rightarrow> Some r)"

text \<open>What happens in the process, with the kernel's answers at that time.\<close>

datatype zc_event =
    AskSupported splice_sys
  | AskPipe splice_sys nat
  | ThreadExit nat
  | OthersOpen int
  | OthersClose int

definition zc_apply :: "zc_event \<Rightarrow> zc_state \<Rightarrow> zc_state" where
  "zc_apply ev st =
     (case ev of
        AskSupported sys \<Rightarrow> snd (splice_supported sys st)
      | AskPipe sys thread \<Rightarrow> snd (thread_pipe_fds sys thread st)
      | ThreadExit thread \<Rightarrow> drop_pipe thread st
      | OthersOpen fd \<Rightarrow>
          (if fd \<in> zc_open st then st else st\<lparr>zc_open := insert fd (zc_open st), zc_others := insert fd (zc_others st)\<rparr>)
      | OthersClose fd \<Rightarrow>
          (if fd \<in> zc_others st then st\<lparr>zc_open := close_fd fd (zc_open st), zc_others := zc_others st - {fd}\<rparr> else st))"

definition zc_start :: "int set \<Rightarrow> zc_state" where
  "zc_start fds = \<lparr>zc_open = fds, zc_others = fds, zc_supported = None, zc_warnings = 0, zc_pipes = (\<lambda>_. None)\<rparr>"

definition zc_run :: "zc_event list \<Rightarrow> zc_state \<Rightarrow> zc_state" where
  "zc_run evs st = fold zc_apply evs st"

text \<open>What \<^verbatim>\<open>pipe2\<close> promises: two new descriptors.\<close>

definition fresh_pipes :: "splice_sys \<Rightarrow> bool" where
  "fresh_pipes sys \<longleftrightarrow>
     (\<forall>n open_fds r w. sy_pipe2 sys n open_fds = Some (r, w) \<longrightarrow> r \<noteq> w \<and> r \<notin> open_fds \<and> w \<notin> open_fds)"

definition event_sys_ok :: "zc_event \<Rightarrow> bool" where
  "event_sys_ok ev = (case ev of AskSupported sys \<Rightarrow> fresh_pipes sys | AskPipe sys _ \<Rightarrow> fresh_pipes sys | _ \<Rightarrow> True)"

section \<open>The probe\<close>

lemma probe_splice_balanced:
  assumes "fresh_pipes sys"
  shows "snd (probe_splice sys fds) = fds"
  using assms by (auto simp: probe_splice_def fresh_pipes_def close_fd_def Let_def split: option.split)

text \<open>The answer is yes exactly if both pipes could be made and the call was not refused.\<close>

lemma probe_splice_answer:
  "fst (probe_splice sys fds) \<longleftrightarrow>
     (\<exists>a0 a1 b0 b1. sy_pipe2 sys 0 fds = Some (a0, a1) \<and> sy_pipe2 sys 1 (fds \<union> {a0, a1}) = Some (b0, b1) \<and>
        splice_raw (sy_splice sys a0 b1 0) \<in> insert (Inl WouldBlock) (range Inr))"
  by (auto simp: probe_splice_def splice_raw_def Let_def split: option.splits splice_answer.splits if_splits)

section \<open>The descriptors\<close>

definition pipe_ends :: "zc_state \<Rightarrow> nat \<Rightarrow> int set" where
  "pipe_ends st thread = (case zc_pipes st thread of Some (r, w) \<Rightarrow> {r, w} | None \<Rightarrow> {})"

definition zc_inv :: "zc_state \<Rightarrow> bool" where
  "zc_inv st \<longleftrightarrow>
     zc_open st = zc_others st \<union> (\<Union>thread. pipe_ends st thread) \<and>
     (\<forall>thread. pipe_ends st thread \<inter> zc_others st = {}) \<and>
     (\<forall>t t'. t \<noteq> t' \<longrightarrow> pipe_ends st t \<inter> pipe_ends st t' = {}) \<and>
     (\<forall>t r w. zc_pipes st t = Some (r, w) \<longrightarrow> r \<noteq> w) \<and>
     zc_warnings st = (if zc_supported st = Some False then 1 else 0)"

lemma pipe_ends_frame [simp]:
  "pipe_ends (st\<lparr>zc_open := fds, zc_supported := b, zc_warnings := n\<rparr>) = pipe_ends st"
  "pipe_ends (st\<lparr>zc_open := fds, zc_others := os\<rparr>) = pipe_ends st"
  by (simp_all add: pipe_ends_def fun_eq_iff)

lemma splice_supported_inv:
  assumes "zc_inv st" "fresh_pipes sys"
  shows "zc_inv (snd (splice_supported sys st))"
proof (cases "zc_supported st")
  case None
  obtain ok fds where p: "probe_splice sys (zc_open st) = (ok, fds)" by force
  have "fds = zc_open st" using probe_splice_balanced [OF assms(2), of "zc_open st"] p by simp
  with None p assms(1) show ?thesis by (simp add: splice_supported_def zc_inv_def)
qed (use assms in \<open>simp add: splice_supported_def\<close>)

definition ends_of :: "(int \<times> int) option \<Rightarrow> int set" where
  "ends_of cell = (case cell of Some (r, w) \<Rightarrow> {r, w} | None \<Rightarrow> {})"

lemma pipe_ends_of: "pipe_ends st t = ends_of (zc_pipes st t)"
  by (simp add: pipe_ends_def ends_of_def)

text \<open>One thread's cell changes: its old ends leave the table, its new ones enter it.\<close>

lemma zc_inv_change:
  assumes inv: "zc_inv st" and cells: "zc_pipes st' = (zc_pipes st)(t := cell)"
    and tab: "zc_open st' = (zc_open st - pipe_ends st t) \<union> ends_of cell"
    and new: "ends_of cell \<inter> (zc_open st - pipe_ends st t) = {}" "\<forall>r w. cell = Some (r, w) \<longrightarrow> r \<noteq> w"
    and same: "zc_others st' = zc_others st" "zc_supported st' = zc_supported st" "zc_warnings st' = zc_warnings st"
  shows "zc_inv st'"
proof -
  have I: "zc_open st = zc_others st \<union> (\<Union>k. pipe_ends st k)" "\<And>k. pipe_ends st k \<inter> zc_others st = {}"
    "\<And>k k'. k \<noteq> k' \<Longrightarrow> pipe_ends st k \<inter> pipe_ends st k' = {}" "\<And>k r w. zc_pipes st k = Some (r, w) \<Longrightarrow> r \<noteq> w"
    "zc_warnings st = (if zc_supported st = Some False then 1 else 0)"
    using inv unfolding zc_inv_def by simp_all
  have ends: "pipe_ends st' = (pipe_ends st)(t := ends_of cell)" by (simp add: fun_eq_iff pipe_ends_of cells)
  have others: "zc_others st \<subseteq> zc_open st - pipe_ends st t" using I(1) I(2) [of t] by auto
  have theirs: "pipe_ends st k \<subseteq> zc_open st - pipe_ends st t" if "k \<noteq> t" for k using I(1) I(3) [OF that] by auto
  have "zc_open st - pipe_ends st t = zc_others st \<union> (\<Union>k \<in> - {t}. pipe_ends st k)"
    using others theirs I(1) by auto
  then have "zc_open st' = zc_others st' \<union> (\<Union>k. pipe_ends st' k)"
    unfolding tab same ends by auto
  moreover have "pipe_ends st' k \<inter> zc_others st' = {}" for k using new(1) others I(2) [of k] by (auto simp: ends same)
  moreover have "pipe_ends st' k \<inter> pipe_ends st' k' = {}" if "k \<noteq> k'" for k k'
    using new(1) theirs [of k] theirs [of k'] I(3) [OF that] that by (auto simp: ends split: if_splits)
  moreover have "r \<noteq> w" if "zc_pipes st' k = Some (r, w)" for k r w
    using that new(2) I(4) by (auto simp: cells split: if_splits)
  ultimately show ?thesis using I(5) unfolding zc_inv_def by (simp add: same)
qed

lemma thread_pipe_inv:
  assumes "zc_inv st" "fresh_pipes sys"
  shows "zc_inv (snd (thread_pipe_fds sys t st))"
proof (cases "zc_pipes st t")
  case (Some fds)
  then have "(zc_pipes st)(t := Some fds) = zc_pipes st" by auto
  with Some assms(1) show ?thesis by (simp add: thread_pipe_fds_def pipe_fds_def)
next
  case None
  have fresh: "r \<noteq> w \<and> r \<notin> zc_open st \<and> w \<notin> zc_open st" if "sy_pipe2 sys 0 (zc_open st) = Some (r, w)" for r w
    using assms(2) that by (auto simp: fresh_pipes_def)
  with None show ?thesis
    by (intro zc_inv_change [OF assms(1), of _ t "sy_pipe2 sys 0 (zc_open st)"])
       (auto simp: thread_pipe_fds_def pipe_fds_def ends_of_def pipe_ends_def Let_def split: option.split)
qed

lemma drop_pipe_inv:
  assumes "zc_inv st"
  shows "zc_inv (drop_pipe t st)"
proof (cases "zc_pipes st t")
  case (Some fds)
  then show ?thesis
    by (intro zc_inv_change [OF assms, of _ t None])
       (auto simp: drop_pipe_def ends_of_def pipe_ends_def close_fd_def split: prod.split)
qed (use assms in \<open>simp add: drop_pipe_def\<close>)

lemma zc_apply_inv:
  assumes "zc_inv st" "event_sys_ok ev"
  shows "zc_inv (zc_apply ev st)"
proof (cases ev)
  case (OthersClose fd)
  have "fd \<notin> pipe_ends st t" if "fd \<in> zc_others st" for t using assms(1) that unfolding zc_inv_def by blast
  with OthersClose assms(1) show ?thesis by (auto simp: zc_apply_def zc_inv_def close_fd_def)
next
  case (OthersOpen fd)
  with assms(1) show ?thesis by (auto simp: zc_apply_def zc_inv_def)
qed (use assms in \<open>simp_all add: zc_apply_def event_sys_ok_def splice_supported_inv thread_pipe_inv drop_pipe_inv\<close>)

lemma zc_run_inv: "\<forall>ev \<in> set evs. event_sys_ok ev \<Longrightarrow> zc_inv st \<Longrightarrow> zc_inv (zc_run evs st)"
  unfolding zc_run_def by (induction evs arbitrary: st) (simp_all add: zc_apply_inv)

lemma zc_start_inv: "zc_inv (zc_start fds)"
  by (simp add: zc_inv_def zc_start_def pipe_ends_def)

text \<open>The cached answer is never asked for again.\<close>

lemma zc_apply_supported:
  "zc_supported st = Some b \<Longrightarrow> zc_supported (zc_apply ev st) = Some b"
  by (simp add: zc_apply_def splice_supported_def thread_pipe_fds_def drop_pipe_def Let_def case_prod_beta
      split: zc_event.split option.split)

lemma zc_run_supported:
  "zc_supported st = Some b \<Longrightarrow> zc_supported (zc_run evs st) = Some b"
  unfolding zc_run_def by (induction evs arbitrary: st) (simp_all add: zc_apply_supported)

lemma splice_supported_cached:
  assumes "splice_supported sys st = (b, st')"
  shows "splice_supported sys' (zc_run evs st') = (b, zc_run evs st')"
proof -
  have "zc_supported st' = Some b"
    using assms by (auto simp: splice_supported_def split: option.splits prod.splits)
  from zc_run_supported [OF this, of evs] show ?thesis by (simp add: splice_supported_def)
qed

text \<open>Readiness loops end at the first answer that is not \<^verbatim>\<open>EAGAIN\<close>.\<close>

lemma async_splice_eq:
  "async_splice as = map_option splice_raw (List.find (\<lambda>a. a \<noteq> Errno EAGAIN) as)"
  by (induction as) (auto simp: splice_raw_def split: splice_answer.split)

section \<open>Properties\<close>

text \<open>
  C39. The zero-copy path leaks no descriptor. However often support is asked for, whichever threads
  use or create their pipe and end, and whatever the rest of the process opens and closes in
  between, the open descriptors are those of the rest of the process and both ends of the pipe of
  each thread that has one, all different; the probe leaves nothing open on any of its paths; once
  no thread holds a pipe, only the descriptors of the rest of the process are open. The answer of
  the probe is decided once: every later call gives it, and its fallback is logged at most once.
\<close>

theorem splice_descriptors_balanced:
  assumes "\<forall>ev \<in> set evs. event_sys_ok ev" "st = zc_run evs (zc_start fds)"
  shows "zc_open st = zc_others st \<union> (\<Union>thread. pipe_ends st thread) \<and>
    (\<forall>thread. pipe_ends st thread \<inter> zc_others st = {}) \<and>
    (\<forall>t t'. t \<noteq> t' \<longrightarrow> pipe_ends st t \<inter> pipe_ends st t' = {}) \<and>
    ((\<forall>thread. zc_pipes st thread = None) \<longrightarrow> zc_open st = zc_others st) \<and>
    zc_warnings st \<le> 1 \<and>
    (\<forall>sys sys' more. fst (splice_supported sys' (zc_run more (snd (splice_supported sys st)))) =
       fst (splice_supported sys st))"
proof -
  have inv: "zc_inv st" unfolding assms(2) by (rule zc_run_inv [OF assms(1) zc_start_inv])
  have "fst (splice_supported sys' (zc_run more (snd (splice_supported sys st)))) = fst (splice_supported sys st)"
    for sys sys' more using splice_supported_cached by (metis fst_conv prod.collapse)
  moreover have "zc_open st = zc_others st" if "\<forall>thread. zc_pipes st thread = None"
    using inv that by (simp add: zc_inv_def pipe_ends_def)
  ultimately show ?thesis using inv by (simp add: zc_inv_def)
qed

text \<open>A kernel with two pipes to give.\<close>

definition sample_sys :: splice_sys where
  "sample_sys =
     \<lparr>sy_pipe2 = (\<lambda>_ fds. if 10 \<notin> fds \<and> 11 \<notin> fds then Some (10, 11)
        else if 12 \<notin> fds \<and> 13 \<notin> fds then Some (12, 13) else None),
      sy_splice = (\<lambda>_ _ _. Errno EAGAIN)\<rparr>"

lemma sample_sys_fresh: "fresh_pipes sample_sys"
  by (auto simp: fresh_pipes_def sample_sys_def)

lemma sample_run_steps:
  "zc_apply (AskSupported sample_sys) (zc_start {0, 1, 2}) = (zc_start {0, 1, 2})\<lparr>zc_supported := Some True\<rparr>"
  "zc_apply (AskPipe sample_sys 0) ((zc_start {0, 1, 2})\<lparr>zc_supported := Some True\<rparr>) =
     \<lparr>zc_open = {0, 1, 2, 10, 11}, zc_others = {0, 1, 2}, zc_supported = Some True, zc_warnings = 0, zc_pipes = [0 \<mapsto> (10, 11)]\<rparr>"
  "zc_apply (OthersOpen 9) \<lparr>zc_open = {0, 1, 2, 10, 11}, zc_others = {0, 1, 2}, zc_supported = Some True, zc_warnings = 0,
     zc_pipes = [0 \<mapsto> (10, 11)]\<rparr> =
     \<lparr>zc_open = {9, 0, 1, 2, 10, 11}, zc_others = {9, 0, 1, 2}, zc_supported = Some True, zc_warnings = 0,
      zc_pipes = [0 \<mapsto> (10, 11)]\<rparr>"
  by (simp_all add: zc_apply_def zc_start_def splice_supported_def probe_splice_def thread_pipe_fds_def pipe_fds_def
      sample_sys_def close_fd_def Let_def) auto

theorem splice_descriptors_balanced_witness:
  "zc_open (zc_run [AskSupported sample_sys, AskPipe sample_sys 0, OthersOpen 9, ThreadExit 0] (zc_start {0, 1, 2})) =
     {0, 1, 2, 9}"
proof -
  define st where "st = zc_run [AskSupported sample_sys, AskPipe sample_sys 0, OthersOpen 9, ThreadExit 0] (zc_start {0, 1, 2})"
  have ok: "\<forall>ev \<in> set [AskSupported sample_sys, AskPipe sample_sys 0, OthersOpen 9, ThreadExit 0]. event_sys_ok ev"
    using sample_sys_fresh by (simp add: event_sys_ok_def)
  have "zc_others st = {9, 0, 1, 2}" "zc_pipes st = Map.empty"
    by (simp_all add: st_def zc_run_def sample_run_steps zc_apply_def [of "ThreadExit 0"] drop_pipe_def)
  then have "\<forall>t. zc_pipes st t = None" "zc_others st = {0, 1, 2, 9}" by auto
  moreover have "(\<forall>t. zc_pipes st t = None) \<longrightarrow> zc_open st = zc_others st"
    by (rule splice_descriptors_balanced [OF ok st_def, THEN conjunct2, THEN conjunct2, THEN conjunct2, THEN conjunct1])
  ultimately show ?thesis unfolding st_def [symmetric] by simp
qed

end
