(* ===== verification/Net_Addr.thy ===== *)
theory Net_Addr
  imports Rust_Std
begin

text \<open>
  \<^verbatim>\<open>std::net\<close> addresses: \<^verbatim>\<open>IpAddr\<close> and \<^verbatim>\<open>SocketAddr\<close> with the accessors and the
  \<^verbatim>\<open>Display\<close> text the source uses. An IPv4 address is its four octets, an IPv6 address its eight
  16-bit segments.
\<close>

datatype ip_addr =
    V4 "8 word" "8 word" "8 word" "8 word"
  | V6 "16 word" "16 word" "16 word" "16 word" "16 word" "16 word" "16 word" "16 word"

text \<open>\<^verbatim>\<open>SocketAddrV6\<close> also carries a flow label and a scope id, which take part in equality.\<close>

datatype socket_addr =
    SockV4 ip_addr "16 word"
  | SockV6 ip_addr "16 word" "32 word" "32 word"

fun sock_ip :: "socket_addr \<Rightarrow> ip_addr" where
  "sock_ip (SockV4 ip p) = ip"
| "sock_ip (SockV6 ip p f s) = ip"

fun sock_port :: "socket_addr \<Rightarrow> u16" where
  "sock_port (SockV4 ip p) = p"
| "sock_port (SockV6 ip p f s) = p"

fun is_loopback :: "ip_addr \<Rightarrow> bool" where
  "is_loopback (V4 a b c d) = (a = 127)"
| "is_loopback (V6 s0 s1 s2 s3 s4 s5 s6 s7) =
     (s0 = 0 \<and> s1 = 0 \<and> s2 = 0 \<and> s3 = 0 \<and> s4 = 0 \<and> s5 = 0 \<and> s6 = 0 \<and> s7 = 1)"

section \<open>Display\<close>

definition hex_digit :: "nat \<Rightarrow> char" where
  "hex_digit d = (if d < 10 then char_of (48 + d) else char_of (87 + d))"

fun show_hex :: "nat \<Rightarrow> string" where
  "show_hex n = (if n < 16 then [hex_digit n] else show_hex (n div 16) @ [hex_digit (n mod 16)])"

declare show_hex.simps [simp del]

definition show_v4 :: "8 word \<Rightarrow> 8 word \<Rightarrow> 8 word \<Rightarrow> 8 word \<Rightarrow> string" where
  "show_v4 a b c d = join_with ''.'' (map (\<lambda>w. show_nat (unat w)) [a, b, c, d])"

text \<open>
  The first longest run of zero segments, as (start, length): the loop of \<^verbatim>\<open>Ipv6Addr\<close>'s
  \<^verbatim>\<open>Display\<close> over the segments with the current and the longest span.
\<close>

fun zero_span :: "nat \<Rightarrow> 16 word list \<Rightarrow> nat \<times> nat \<Rightarrow> nat \<times> nat \<Rightarrow> nat \<times> nat" where
  "zero_span i [] cur best = best"
| "zero_span i (s # ss) cur best =
     (if s = 0 then
        (let cur' = (if snd cur = 0 then (i, 1) else (fst cur, snd cur + 1))
         in zero_span (i + 1) ss cur' (if snd best < snd cur' then cur' else best))
      else zero_span (i + 1) ss (0, 0) best)"

definition show_segments :: "16 word list \<Rightarrow> string" where
  "show_segments ss = join_with '':'' (map (\<lambda>w. show_hex (unat w)) ss)"

definition show_v6 :: "16 word list \<Rightarrow> string" where
  "show_v6 ss =
     (let z = zero_span 0 ss (0, 0) (0, 0)
      in if 1 < snd z
         then show_segments (take (fst z) ss) @ ''::'' @
                show_segments (drop (fst z + snd z) ss)
         else show_segments ss)"

fun show_ip :: "ip_addr \<Rightarrow> string" where
  "show_ip (V4 a b c d) = show_v4 a b c d"
| "show_ip (V6 s0 s1 s2 s3 s4 s5 s6 s7) =
     (if s0 = 0 \<and> s1 = 0 \<and> s2 = 0 \<and> s3 = 0 \<and> s4 = 0 \<and> s5 = 0xFFFF
      then ''::ffff:'' @
             show_v4 (ucast (drop_bit 8 s6)) (ucast s6) (ucast (drop_bit 8 s7)) (ucast s7)
      else show_v6 [s0, s1, s2, s3, s4, s5, s6, s7])"

text \<open>The characters an address text is made of; none of them is special to a shell.\<close>

definition addr_char :: "char \<Rightarrow> bool" where
  "addr_char c \<longleftrightarrow> is_ascii_alphanumeric c \<or> c = CHR ''.'' \<or> c = CHR '':''"

lemma addr_char_digit: "is_ascii_digit c \<Longrightarrow> addr_char c"
  by (simp add: addr_char_def is_ascii_alphanumeric_def)

lemma set_join_with: "set (join_with sep ps) \<subseteq> set sep \<union> \<Union> (set ` set ps)"
  by (induction sep ps rule: join_with.induct) auto

lemma hex_digit_addr_char: "d < 16 \<Longrightarrow> addr_char (hex_digit d)"
  by (auto simp: hex_digit_def addr_char_def is_ascii_alphanumeric_def is_ascii_digit_def
      is_ascii_lower_def)

lemma show_hex_addr_char: "c \<in> set (show_hex n) \<Longrightarrow> addr_char c"
proof (induction n rule: show_hex.induct)
  case (1 n)
  then show ?case
    by (cases "n < 16") (auto simp: show_hex.simps [of n] hex_digit_addr_char)
qed

lemma show_v4_addr_char: "c \<in> set (show_v4 p q r s) \<Longrightarrow> addr_char c"
  unfolding show_v4_def
  using set_join_with [of "''.''" "map (\<lambda>w. show_nat (unat w)) [p, q, r, s]"]
  by (auto simp: addr_char_def is_ascii_alphanumeric_def dest: show_nat_digits)

lemma show_segments_addr_char: "c \<in> set (show_segments ss) \<Longrightarrow> addr_char c"
  unfolding show_segments_def
  using set_join_with [of "'':''" "map (\<lambda>w. show_hex (unat w)) ss"] show_hex_addr_char
  by (auto simp: addr_char_def)

lemma addr_char_colon [simp]: "addr_char (CHR '':'')"
  by (simp add: addr_char_def)

lemma addr_char_f [simp]: "addr_char (CHR ''f'')"
  by (simp add: addr_char_def is_ascii_alphanumeric_def is_ascii_lower_def byte_def)

lemma show_v6_addr_char: "c \<in> set (show_v6 ss) \<Longrightarrow> addr_char c"
  by (auto simp: show_v6_def Let_def split: if_splits dest: show_segments_addr_char)

lemma show_ip_addr_char: "c \<in> set (show_ip ip) \<Longrightarrow> addr_char c"
  by (cases ip) (auto split: if_splits dest: show_v4_addr_char show_v6_addr_char)

section \<open>Address texts are injective\<close>

lemma show_nat_inject: "show_nat m = show_nat n \<Longrightarrow> m = n"
  using radix_loop_show_nat [of m "max m n + 1"] radix_loop_show_nat [of n "max m n + 1"] by simp

lemma show_nat_no_dot: "CHR ''.'' \<notin> set (show_nat n)" "CHR '':'' \<notin> set (show_nat n)"
  using show_nat_digits [of "CHR ''.''" n] show_nat_digits [of "CHR '':''" n]
  by (auto simp: is_ascii_digit_def byte_def)

lemma show_v4_inject: "show_v4 a b c d = show_v4 a' b' c' d' \<Longrightarrow> V4 a b c d = V4 a' b' c' d'"
proof -
  let ?ps = "\<lambda>a b c d :: 8 word. map (\<lambda>w. show_nat (unat w)) [a, b, c, d]"
  assume "show_v4 a b c d = show_v4 a' b' c' d'"
  then have "split_on (CHR ''.'') (join_with ''.'' (?ps a b c d)) = split_on (CHR ''.'') (join_with ''.'' (?ps a' b' c' d'))"
    by (simp only: show_v4_def)
  moreover have "split_on (CHR ''.'') (join_with ''.'' (?ps p q r s)) = ?ps p q r s" for p q r s
    by (rule split_on_join) (auto simp: show_nat_no_dot)
  ultimately have "?ps a b c d = ?ps a' b' c' d'" by metis
  then show ?thesis by (auto dest!: show_nat_inject simp: word_unat_eq_iff)
qed

end
