(* ===== verification/F32.thy ===== *)
theory F32
  imports Complex_Main Prelude
begin

text \<open>
  Rust's \<^verbatim>\<open>f32\<close> (IEEE 754 binary32, round to nearest, ties to even) as far as the rate limiter
  and the configuration use it. A finite value is its exact rational value; the two zeros are
  identified, which no operation used by the source can tell apart. \<open>ulp k\<close> is the spacing of
  the floats in binade number \<open>k\<close>: binade 0 holds the subnormal numbers and the first normal
  binade, binade 253 the largest finite numbers.
\<close>

datatype f32 = Fin rat | PInf | NInf | NaN

definition ulp :: "nat \<Rightarrow> rat" where
  "ulp k = 2 ^ k / 2 ^ 149"

definition max_binade :: nat where
  "max_binade = 253"

definition binade :: "rat \<Rightarrow> nat" where
  "binade x =
     (case List.find (\<lambda>k. x < 2 ^ 24 * ulp k) [0..<max_binade] of
        Some k \<Rightarrow> k | None \<Rightarrow> max_binade)"

definition round_half_even :: "rat \<Rightarrow> int" where
  "round_half_even y =
     (let f = \<lfloor>y\<rfloor>; r = y - of_int f
      in if r < 1 / 2 then f else if 1 / 2 < r then f + 1 else if even f then f else f + 1)"

definition rnd :: "rat \<Rightarrow> rat" where
  "rnd x = of_int (round_half_even (x / ulp (binade x))) * ulp (binade x)"

definition f32_of_rat :: "rat \<Rightarrow> f32" where
  "f32_of_rat x =
     (if 0 \<le> x then (if 2 ^ 128 \<le> rnd x then PInf else Fin (rnd x))
      else (if 2 ^ 128 \<le> rnd (- x) then NInf else Fin (- rnd (- x))))"

section \<open>Operations\<close>

fun f32_add :: "f32 \<Rightarrow> f32 \<Rightarrow> f32" where
  "f32_add (Fin a) (Fin b) = f32_of_rat (a + b)"
| "f32_add NaN b = NaN"
| "f32_add a NaN = NaN"
| "f32_add PInf NInf = NaN"
| "f32_add NInf PInf = NaN"
| "f32_add PInf b = PInf"
| "f32_add NInf b = NInf"
| "f32_add a PInf = PInf"
| "f32_add a NInf = NInf"

fun f32_neg :: "f32 \<Rightarrow> f32" where
  "f32_neg (Fin a) = Fin (- a)"
| "f32_neg PInf = NInf"
| "f32_neg NInf = PInf"
| "f32_neg NaN = NaN"

definition f32_sub :: "f32 \<Rightarrow> f32 \<Rightarrow> f32" where
  "f32_sub a b = f32_add a (f32_neg b)"

text \<open>The sign of a value as -1, 0 or 1, and the infinity of a given sign.\<close>

fun f32_sgn :: "f32 \<Rightarrow> rat" where
  "f32_sgn (Fin a) = sgn a"
| "f32_sgn PInf = 1"
| "f32_sgn NInf = - 1"
| "f32_sgn NaN = 0"

definition inf_of_sign :: "rat \<Rightarrow> f32" where
  "inf_of_sign s = (if 0 < s then PInf else if s < 0 then NInf else NaN)"

fun f32_mul :: "f32 \<Rightarrow> f32 \<Rightarrow> f32" where
  "f32_mul (Fin a) (Fin b) = f32_of_rat (a * b)"
| "f32_mul a b =
     (if a = NaN \<or> b = NaN then NaN else inf_of_sign (f32_sgn a * f32_sgn b))"

fun f32_div :: "f32 \<Rightarrow> f32 \<Rightarrow> f32" where
  "f32_div (Fin a) (Fin b) = (if b = 0 then inf_of_sign (sgn a) else f32_of_rat (a / b))"
| "f32_div (Fin a) NaN = NaN"
| "f32_div (Fin a) b = Fin 0"
| "f32_div NaN b = NaN"
| "f32_div a (Fin b) = inf_of_sign (f32_sgn a * (if b < 0 then - 1 else 1))"
| "f32_div a b = NaN"

fun f32_less :: "f32 \<Rightarrow> f32 \<Rightarrow> bool" where
  "f32_less (Fin a) (Fin b) = (a < b)"
| "f32_less (Fin a) PInf = True"
| "f32_less NInf (Fin b) = True"
| "f32_less NInf PInf = True"
| "f32_less a b = False"

fun f32_eq :: "f32 \<Rightarrow> f32 \<Rightarrow> bool" where
  "f32_eq NaN b = False"
| "f32_eq a NaN = False"
| "f32_eq a b = (a = b)"

definition f32_le :: "f32 \<Rightarrow> f32 \<Rightarrow> bool" where
  "f32_le a b \<longleftrightarrow> f32_less a b \<or> f32_eq a b"

lemma f32_le_Fin [simp]: "f32_le (Fin a) (Fin b) \<longleftrightarrow> a \<le> b"
  by (auto simp: f32_le_def)

fun is_finite :: "f32 \<Rightarrow> bool" where
  "is_finite (Fin a) = True"
| "is_finite a = False"

text \<open>\<^verbatim>\<open>n as f32\<close> for an unsigned integer.\<close>

definition f32_of_nat :: "nat \<Rightarrow> f32" where
  "f32_of_nat n = f32_of_rat (of_nat n)"

section \<open>Rounding\<close>

text \<open>The rationals that are non-negative finite floats.\<close>

definition representable :: "rat \<Rightarrow> bool" where
  "representable c \<longleftrightarrow> 0 \<le> c \<and> c < 2 ^ 128 \<and> (\<exists>m::int. c = of_int m * ulp (binade c))"

lemma ulp_pos [simp]: "0 < ulp k" "ulp k \<noteq> 0" "0 \<le> ulp k"
  by (simp_all add: ulp_def)

lemma ulp_Suc: "ulp (Suc k) = 2 * ulp k"
  by (simp add: ulp_def)

lemma ulp_add: "ulp (k + d) = 2 ^ d * ulp k"
  by (simp add: ulp_def power_add)

lemma ulp_mono: "k \<le> l \<Longrightarrow> ulp k \<le> ulp l"
  by (simp add: ulp_def divide_right_mono power_increasing)

lemma ulp_multiple:
  assumes "k \<le> l"
  obtains d :: int where "ulp l = of_int d * ulp k" "0 < d"
proof -
  have "ulp l = of_int (2 ^ (l - k)) * ulp k"
    using assms ulp_add [of k "l - k"] by simp
  then show ?thesis using that by simp
qed

lemma find_upt_Some:
  "List.find P [0..<n] = Some k \<longleftrightarrow> k < n \<and> P k \<and> (\<forall>j < k. \<not> P j)"
  by (auto simp: find_Some_iff)

lemma find_upt_None: "List.find P [0..<n] = None \<longleftrightarrow> (\<forall>j < n. \<not> P j)"
  by (auto simp: find_None_iff)

lemma binade_le: "binade x \<le> max_binade"
  by (auto simp: binade_def find_upt_Some split: option.splits)

lemma binade_upper: "binade x < max_binade \<Longrightarrow> x < 2 ^ 24 * ulp (binade x)"
proof (cases "List.find (\<lambda>k. x < 2 ^ 24 * ulp k) [0..<max_binade]")
  case None
  then have "binade x = max_binade" unfolding binade_def by simp
  then show "binade x < max_binade \<Longrightarrow> ?thesis" by simp
next
  case (Some k)
  then have "binade x = k" unfolding binade_def by (simp only: option.case)
  with Some show ?thesis by (simp only: find_upt_Some)
qed

lemma binade_lower: "j < binade x \<Longrightarrow> 2 ^ 24 * ulp j \<le> x"
  by (auto simp: binade_def find_upt_Some find_upt_None not_less split: option.splits)

lemma binade_mono: "x \<le> y \<Longrightarrow> binade x \<le> binade y"
proof (rule ccontr)
  assume "x \<le> y" "\<not> binade x \<le> binade y"
  then have less: "binade y < binade x" by simp
  then have "binade y < max_binade" using binade_le [of x] by simp
  then have "y < 2 ^ 24 * ulp (binade y)" by (rule binade_upper)
  moreover have "2 ^ 24 * ulp (binade y) \<le> x" using less by (rule binade_lower)
  ultimately show False using \<open>x \<le> y\<close> by simp
qed

lemma binade_eqI:
  assumes "\<And>j. j < k \<Longrightarrow> 2 ^ 24 * ulp j \<le> x" "x < 2 ^ 24 * ulp k" "k < max_binade"
  shows "binade x = k"
proof -
  have "List.find (\<lambda>k. x < 2 ^ 24 * ulp k) [0..<max_binade] = Some k"
    using assms by (auto simp: find_upt_Some not_less)
  then show ?thesis by (simp add: binade_def)
qed

lemma round_half_even_le: "y \<le> of_int m \<Longrightarrow> round_half_even y \<le> m"
proof -
  assume le: "y \<le> of_int m"
  have "\<lfloor>y\<rfloor> \<le> m" using le by (simp add: floor_le_iff)
  moreover have "\<lfloor>y\<rfloor> + 1 \<le> m" if "y - of_int \<lfloor>y\<rfloor> > 0"
  proof -
    have "of_int \<lfloor>y\<rfloor> < (of_int m :: rat)" using that le by linarith
    then show ?thesis by simp
  qed
  ultimately show ?thesis by (auto simp: round_half_even_def Let_def)
qed

lemma round_half_even_ge: "of_int m \<le> y \<Longrightarrow> m \<le> round_half_even y"
proof -
  assume "of_int m \<le> y"
  then have "m \<le> \<lfloor>y\<rfloor>" by (simp add: le_floor_iff)
  then show ?thesis by (auto simp: round_half_even_def Let_def)
qed

lemma round_half_even_of_int [simp]: "round_half_even (of_int m) = m"
  by (simp add: round_half_even_def)

lemma round_half_even_error: "y - 1 / 2 \<le> of_int (round_half_even y)"
  by (auto simp: round_half_even_def Let_def) linarith+

lemma rnd_nonneg: "0 \<le> x \<Longrightarrow> 0 \<le> rnd x"
  using round_half_even_ge [of 0 "x / ulp (binade x)"] by (simp add: rnd_def)

lemma representable_0 [simp]: "representable 0"
  by (auto simp: representable_def intro!: exI [of _ 0])

lemma rnd_multiple: "x = of_int m * ulp (binade x) \<Longrightarrow> rnd x = x"
proof -
  assume eq: "x = of_int m * ulp (binade x)"
  then have "x / ulp (binade x) = of_int m" by (metis nonzero_mult_div_cancel_right ulp_pos(2))
  then show ?thesis unfolding rnd_def using eq by simp
qed

lemma rnd_representable: "representable c \<Longrightarrow> rnd c = c"
  unfolding representable_def using rnd_multiple by blast

text \<open>Rounding never passes a representable bound, from above or from below.\<close>

lemma rnd_le:
  assumes c: "representable c" and le: "x \<le> c"
  shows "rnd x \<le> c"
proof -
  from c obtain m :: int where m: "c = of_int m * ulp (binade c)"
    by (auto simp: representable_def)
  obtain d :: int where d: "ulp (binade c) = of_int d * ulp (binade x)"
    using binade_mono [OF le] by (rule ulp_multiple)
  have c_eq: "c = of_int (m * d) * ulp (binade x)" using m d by simp
  then have "x / ulp (binade x) \<le> of_int (m * d)"
    using le by (simp add: divide_le_eq)
  then have "round_half_even (x / ulp (binade x)) \<le> m * d"
    by (rule round_half_even_le)
  then have "rnd x \<le> of_int (m * d) * ulp (binade x)"
    unfolding rnd_def by (intro mult_right_mono) (simp_all del: of_int_mult)
  then show ?thesis using c_eq by simp
qed

lemma rnd_ge_int:
  assumes "of_int m * ulp (binade x) \<le> x"
  shows "of_int m * ulp (binade x) \<le> rnd x"
proof -
  have "of_int m \<le> x / ulp (binade x)" using assms by (simp add: le_divide_eq)
  then have "m \<le> round_half_even (x / ulp (binade x))" by (rule round_half_even_ge)
  then show ?thesis unfolding rnd_def by (intro mult_right_mono) simp_all
qed

lemma rnd_ge:
  assumes c: "representable c" and le: "c \<le> x"
  shows "c \<le> rnd x"
proof (cases "binade c = binade x")
  case True
  with c le show ?thesis using rnd_ge_int by (auto simp: representable_def)
next
  case False
  with binade_mono [OF le] have less: "binade c < binade x" by simp
  then obtain j where j: "binade x = Suc j" "binade c \<le> j"
    by (metis Suc_le_mono less_eq_Suc_le old.nat.exhaust not_less_zero)
  have "2 ^ 24 * ulp j \<le> x" using j by (intro binade_lower) simp
  then have "of_int (2 ^ 23) * ulp (binade x) \<le> x" using j by (simp add: ulp_Suc)
  then have "of_int (2 ^ 23) * ulp (binade x) \<le> rnd x" by (rule rnd_ge_int)
  moreover have "c < 2 ^ 24 * ulp (binade c)"
    using less binade_le [of x] by (intro binade_upper) simp
  moreover have "ulp (binade c) \<le> ulp j" using j by (intro ulp_mono)
  ultimately show ?thesis using j by (simp add: ulp_Suc)
qed

text \<open>The relative error of rounding down, outside the subnormal range and inside it.\<close>

lemma rnd_lower: "x - ulp (binade x) / 2 \<le> rnd x"
proof -
  have "x / ulp (binade x) - 1 / 2 \<le> of_int (round_half_even (x / ulp (binade x)))"
    by (rule round_half_even_error)
  then have "(x / ulp (binade x) - 1 / 2) * ulp (binade x) \<le> rnd x"
    unfolding rnd_def by (intro mult_right_mono) simp_all
  then show ?thesis by (simp add: left_diff_distrib)
qed

lemma rnd_lower_rel:
  assumes "1 / 2 ^ 129 \<le> x"
  shows "(7 / 8) * x \<le> rnd x"
proof -
  have "ulp (binade x) / 2 \<le> x / 8"
  proof (cases "binade x")
    case 0
    have "ulp 0 / 2 = 1 / 2 ^ 150" by (simp add: ulp_def)
    also have "\<dots> \<le> (1 / 2 ^ 129) / 8" by simp
    finally show ?thesis using assms 0 by simp
  next
    case (Suc j)
    then have "2 ^ 24 * ulp j \<le> x" by (intro binade_lower) simp
    moreover have "8 * ulp j \<le> 2 ^ 24 * ulp j" by (intro mult_right_mono) simp_all
    ultimately have "8 * ulp j \<le> x" by (rule order_trans [rotated])
    then show ?thesis using Suc by (simp add: ulp_Suc)
  qed
  with rnd_lower [of x] show ?thesis by linarith
qed

lemma f32_of_rat_representable: "representable c \<Longrightarrow> f32_of_rat c = Fin c"
  by (simp add: f32_of_rat_def rnd_representable) (auto simp: representable_def)

lemma f32_of_rat_le:
  assumes "representable c" "0 \<le> x" "x \<le> c"
  shows "f32_of_rat x = Fin (rnd x) \<and> 0 \<le> rnd x \<and> rnd x \<le> c"
proof -
  have "rnd x \<le> c" using assms by (intro rnd_le)
  with assms show ?thesis by (auto simp: f32_of_rat_def rnd_nonneg representable_def)
qed

text \<open>Every rounded value is a float again.\<close>

lemma representable_multiple:
  assumes "0 \<le> c" "c < 2 ^ 128" "c = of_int m * ulp k" "binade c \<le> k"
  shows "representable c"
proof -
  obtain d :: int where "ulp k = of_int d * ulp (binade c)"
    using assms(4) by (rule ulp_multiple)
  then have "c = of_int (m * d) * ulp (binade c)"
    using assms(3) by (simp only: of_int_mult mult.assoc)
  with assms(1,2) show ?thesis unfolding representable_def by blast
qed

lemma binade_power:
  assumes "k < max_binade"
  shows "binade (2 ^ 24 * ulp k) = Suc k"
proof -
  have "binade (2 ^ 24 * ulp k) \<le> Suc k"
  proof (rule ccontr)
    assume "\<not> binade (2 ^ 24 * ulp k) \<le> Suc k"
    then have "2 ^ 24 * ulp (Suc k) \<le> 2 ^ 24 * ulp k" by (intro binade_lower) simp
    then show False using ulp_pos(1) [of k] by (simp add: ulp_Suc)
  qed
  moreover have "\<not> binade (2 ^ 24 * ulp k) \<le> k"
  proof
    assume le: "binade (2 ^ 24 * ulp k) \<le> k"
    with assms have "2 ^ 24 * ulp k < 2 ^ 24 * ulp (binade (2 ^ 24 * ulp k))"
      by (intro binade_upper) simp
    moreover have "ulp (binade (2 ^ 24 * ulp k)) \<le> ulp k" using le by (rule ulp_mono)
    ultimately show False by simp
  qed
  ultimately show ?thesis by simp
qed

lemma rnd_is_representable:
  assumes "0 \<le> x" "rnd x < 2 ^ 128"
  shows "representable (rnd x)"
proof (cases "binade x < max_binade")
  case True
  then have "x \<le> 2 ^ 24 * ulp (binade x)" using binade_upper by (simp add: less_imp_le)
  then have "x / ulp (binade x) \<le> of_int (2 ^ 24)" by (simp add: divide_le_eq)
  then have "round_half_even (x / ulp (binade x)) \<le> 2 ^ 24" by (rule round_half_even_le)
  then consider "round_half_even (x / ulp (binade x)) = 2 ^ 24"
    | "round_half_even (x / ulp (binade x)) < 2 ^ 24" by linarith
  then show ?thesis
  proof cases
    case 1
    then have eq: "rnd x = 2 ^ 24 * ulp (binade x)" by (simp add: rnd_def)
    then have "rnd x = of_int (2 ^ 23) * ulp (Suc (binade x))" by (simp add: ulp_Suc)
    moreover have "binade (rnd x) = Suc (binade x)" unfolding eq by (rule binade_power) fact
    ultimately show ?thesis using rnd_nonneg [OF assms(1)] assms(2)
      by (intro representable_multiple [of _ "2 ^ 23" "Suc (binade x)"]) simp_all
  next
    case 2
    then have "of_int (round_half_even (x / ulp (binade x))) < (2 ^ 24 :: rat)"
      by (metis of_int_less_iff of_int_numeral of_int_power)
    then have "rnd x < 2 ^ 24 * ulp (binade x)"
      unfolding rnd_def by (intro mult_strict_right_mono) simp_all
    then have "binade (rnd x) \<le> binade x"
      using binade_lower [of "binade x" "rnd x"] by (meson not_less)
    then show ?thesis
      by (rule representable_multiple [OF rnd_nonneg [OF assms(1)] assms(2) rnd_def])
  qed
next
  case False
  then have "binade (rnd x) \<le> binade x" using binade_le [of x] binade_le [of "rnd x"] by simp
  then show ?thesis
    by (rule representable_multiple [OF rnd_nonneg [OF assms(1)] assms(2) rnd_def])
qed

text \<open>Integers up to \<open>2^24\<close> are floats.\<close>

lemma representable_of_nat: "n \<le> 2 ^ 24 \<Longrightarrow> representable (of_nat n)"
proof -
  assume n: "n \<le> 2 ^ 24"
  have u: "ulp 149 = 1" by (simp add: ulp_def)
  have eq: "(of_nat n :: rat) = of_int (int n) * ulp 149" by (simp add: u)
  have le: "(of_nat n :: rat) \<le> 2 ^ 24"
    using n of_nat_mono [of n "2 ^ 24", where 'a = rat] by simp
  show ?thesis
  proof (cases "binade (of_nat n) \<le> 149")
    case True
    show ?thesis by (rule representable_multiple [OF _ _ eq True]) (use le in simp_all)
  next
    case False
    then have "2 ^ 24 * ulp 149 \<le> (of_nat n :: rat)" by (intro binade_lower) simp
    with le have n24: "(of_nat n :: rat) = 2 ^ 24" by (simp add: u)
    then have "(of_nat n :: rat) = 2 ^ 24 * ulp 149" by (simp add: u)
    then have "binade (of_nat n) = 150"
      using binade_power [of 149] by (simp add: max_binade_def)
    moreover have "(of_nat n :: rat) = of_int (2 ^ 23) * ulp 150"
      using n24 ulp_Suc [of 149] by (simp add: u)
    ultimately show ?thesis
      by (intro representable_multiple [of _ "2 ^ 23" 150]) (use n24 in simp_all)
  qed
qed

lemma f32_of_nat_small: "n \<le> 2 ^ 24 \<Longrightarrow> f32_of_nat n = Fin (of_nat n)"
  by (simp add: f32_of_nat_def f32_of_rat_representable representable_of_nat)

text \<open>Rounding is monotone, and its relative error is bounded from above as well.\<close>

lemma round_half_even_mono: "x \<le> y \<Longrightarrow> round_half_even x \<le> round_half_even y"
proof -
  assume le: "x \<le> y"
  show ?thesis
  proof (cases "\<lfloor>x\<rfloor> = \<lfloor>y\<rfloor>")
    case True
    with le show ?thesis by (auto simp: round_half_even_def Let_def)
  next
    case False
    with floor_mono [OF le] have "\<lfloor>x\<rfloor> + 1 \<le> \<lfloor>y\<rfloor>" by linarith
    moreover have "x \<le> of_int (\<lfloor>x\<rfloor> + 1)" using floor_correct [of x] by linarith
    then have "round_half_even x \<le> \<lfloor>x\<rfloor> + 1" by (rule round_half_even_le)
    moreover have "\<lfloor>y\<rfloor> \<le> round_half_even y" by (rule round_half_even_ge) simp
    ultimately show ?thesis by linarith
  qed
qed

lemma representable_binade:
  assumes "k < max_binade" "2 ^ 24 * ulp k < 2 ^ 128"
  shows "representable (2 ^ 24 * ulp k)"
  using assms(2) binade_power [OF assms(1)]
  by (intro representable_multiple [of _ "2 ^ 23" "Suc k"]) (simp_all add: ulp_Suc)

lemma rnd_mono:
  assumes "x \<le> y"
  shows "rnd x \<le> rnd y"
proof (cases "binade x = binade y")
  case True
  have "x / ulp (binade y) \<le> y / ulp (binade y)" using assms by (simp add: divide_right_mono)
  then show ?thesis unfolding rnd_def True
    by (intro mult_right_mono) (simp_all add: round_half_even_mono)
next
  case False
  with binade_mono [OF assms] have less: "binade x < binade y" by simp
  then have bx: "binade x < max_binade" using binade_le [of y] by simp
  have "2 ^ 24 * ulp (binade x) \<le> 2 ^ 24 * ulp 252"
    using bx by (intro mult_left_mono ulp_mono) (simp_all add: max_binade_def)
  also have "\<dots> < 2 ^ 128" by (simp add: ulp_def)
  finally have rep: "representable (2 ^ 24 * ulp (binade x))" by (rule representable_binade [OF bx])
  have "rnd x \<le> 2 ^ 24 * ulp (binade x)"
    using binade_upper [OF bx] by (intro rnd_le [OF rep]) simp
  also have "\<dots> \<le> rnd y" using less by (intro rnd_ge [OF rep] binade_lower)
  finally show ?thesis .
qed

lemma round_half_even_error_up: "of_int (round_half_even y) \<le> y + 1 / 2"
  by (auto simp: round_half_even_def Let_def) linarith+

lemma rnd_upper: "rnd x \<le> x + ulp (binade x) / 2"
proof -
  have "rnd x \<le> (x / ulp (binade x) + 1 / 2) * ulp (binade x)"
    unfolding rnd_def by (intro mult_right_mono round_half_even_error_up) simp
  then show ?thesis by (simp add: distrib_right)
qed

lemma rnd_upper_rel:
  assumes "1 \<le> x"
  shows "rnd x \<le> (9 / 8) * x"
proof -
  have "ulp (binade x) / 2 \<le> x / 8"
  proof (cases "binade x")
    case 0
    then show ?thesis using assms by (simp add: ulp_def)
  next
    case (Suc j)
    then have "2 ^ 24 * ulp j \<le> x" by (intro binade_lower) simp
    moreover have "8 * ulp j \<le> 2 ^ 24 * ulp j" by (intro mult_right_mono) simp_all
    ultimately have "8 * ulp j \<le> x" by (rule order_trans [rotated])
    then show ?thesis using Suc by (simp add: ulp_Suc)
  qed
  with rnd_upper [of x] show ?thesis by linarith
qed

text \<open>Integer conversions in the range of \<^verbatim>\<open>u64\<close> never overflow.\<close>

lemma representable_power:
  assumes "k \<le> 100"
  shows "representable (2 ^ k)"
proof -
  have eq: "(2 ^ k :: rat) = 2 ^ 24 * ulp (k + 125)"
    by (simp add: ulp_def power_add)
  have "(2 :: rat) ^ k \<le> 2 ^ 100" using assms by (intro power_increasing) simp_all
  also have "\<dots> < 2 ^ 128" by simp
  finally show ?thesis
    unfolding eq using assms by (intro representable_binade) (simp_all add: max_binade_def)
qed

lemma f32_of_nat_bounded:
  assumes "n \<le> 2 ^ 64"
  shows "f32_of_nat n = Fin (rnd (of_nat n))" "representable (rnd (of_nat n))"
    "rnd (of_nat n) \<le> 2 ^ 64"
proof -
  have le: "(of_nat n :: rat) \<le> 2 ^ 64"
    using assms of_nat_mono [of n "2 ^ 64", where 'a = rat] by simp
  have rep: "representable (2 ^ 64)" by (rule representable_power) simp
  have *: "f32_of_rat (of_nat n) = Fin (rnd (of_nat n)) \<and> rnd (of_nat n) \<le> 2 ^ 64"
    using f32_of_rat_le [OF rep _ le] by simp
  then show "f32_of_nat n = Fin (rnd (of_nat n))" "rnd (of_nat n) \<le> 2 ^ 64"
    by (simp_all add: f32_of_nat_def)
  with * show "representable (rnd (of_nat n))" by (intro rnd_is_representable) simp_all
qed

lemma rnd_of_nat_ge_1: "1 \<le> n \<Longrightarrow> 1 \<le> rnd (of_nat n)"
  using representable_of_nat [of 1] by (intro rnd_ge) simp_all

end
