(* ===== verification/Config.thy ===== *)
theory Config
  imports Sample_Lib Net_Addr F32
begin

text \<open>
  The configuration data model of \<^verbatim>\<open>src/src/config/mod.rs\<close>: one record per struct, one datatype
  per enum, their \<^verbatim>\<open>Default\<close> values, \<^verbatim>\<open>ProxyConfig::validate\<close> with every early return, and
  \<^verbatim>\<open>ConfigSnapshot\<close>'s parsing up to the route table. A field is named after its Rust field with a
  short prefix for its struct. \<^verbatim>\<open>BTreeMap<String, UpstreamPoolConfig>\<close> is the list of its entries
  in key order, the order in which the source iterates over it.
\<close>

section \<open>Enums and structs\<close>

datatype config_error =
    ReadError string string
  | ParseError string string
  | Validation string

datatype listener_protocol = H1 | H2 | H3

datatype http1_engine = Hyper | Fast | Uring

fun show_http1_engine :: "http1_engine \<Rightarrow> string" where
  "show_http1_engine Hyper = ''hyper''"
| "show_http1_engine Fast = ''fast''"
| "show_http1_engine Uring = ''uring''"

datatype l4_protocol = Tcp | Udp

fun show_l4_protocol :: "l4_protocol \<Rightarrow> string" where
  "show_l4_protocol Tcp = ''tcp''"
| "show_l4_protocol Udp = ''udp''"

datatype l4_scheduler = Rr | Wrr | Sh

fun show_l4_scheduler :: "l4_scheduler \<Rightarrow> string" where
  "show_l4_scheduler Rr = ''rr''"
| "show_l4_scheduler Wrr = ''wrr''"
| "show_l4_scheduler Sh = ''sh''"

datatype l4_mode = IpvsDsr

datatype l4_health_check_kind = HcTcp | HcHttp

datatype upstream_protocol = UpH1 | UpH2 | UpH3

record listener_config =
  lc_name :: string
  lc_bind :: socket_addr
  lc_protocols :: "listener_protocol list"
  lc_http1_engine :: http1_engine
  lc_tls :: bool
  lc_reuse_port :: bool
  lc_accept_workers :: usize
  lc_backlog :: u32
  lc_interface :: "string option"

record l4_real_server_config =
  rs_address :: ip_addr
  rs_port :: u16
  rs_weight :: u32

record l4_health_check_config =
  lh_enabled :: bool
  lh_kind :: l4_health_check_kind
  lh_path :: string
  lh_interval_ms :: u64
  lh_timeout_ms :: u64

record l4_service_config =
  sv_name :: string
  sv_domains :: "string list"
  sv_vip :: ip_addr
  sv_port :: u16
  sv_protocol :: l4_protocol
  sv_scheduler :: l4_scheduler
  sv_mode :: l4_mode
  sv_real_servers :: "l4_real_server_config list"
  sv_health_check :: l4_health_check_config

record acme_config =
  ac_enabled :: bool
  ac_directory_url :: string
  ac_contact :: "string list"
  ac_storage_dir :: string
  ac_renew_before_days :: u64

record cert_config =
  cc_domains :: "string list"
  cc_cert_path :: string
  cc_key_path :: string

record tls_config =
  tls_acme :: acme_config
  tls_certs :: "cert_config list"
  tls_keylog :: bool
  tls_qlog_dir :: "string option"

record rate_limit_config =
  rl_enabled :: bool
  rl_capacity :: u32
  rl_fill_rate :: f32

record route_config =
  rt_name :: string
  rt_host :: string
  rt_path_prefix :: string
  rt_upstream_pool :: string
  rt_rate_limit :: rate_limit_config

record health_check_config =
  hc_enabled :: bool
  hc_path :: string
  hc_interval_ms :: u64
  hc_timeout_ms :: u64

record upstream_config =
  us_name :: string
  us_url :: string
  us_protocol :: upstream_protocol
  us_opt_in_h3 :: bool
  us_weight :: u32
  us_connect_timeout_ms :: u64
  us_request_timeout_ms :: u64
  us_health_check :: health_check_config

record upstream_pool_config =
  up_upstreams :: "upstream_config list"
  up_passive_failure_threshold :: u32

record admin_config =
  ad_bind :: socket_addr
  ad_enabled :: bool
  ad_auth_token :: "string option"

record telemetry_config =
  te_json_tracing :: bool
  te_prometheus :: bool
  te_access_log :: bool

record runtime_config =
  rc_drain_timeout_ms :: u64
  rc_zero_copy :: bool
  rc_liveness_probe_idle_ms :: u64

record proxy_config =
  pc_listeners :: "listener_config list"
  pc_l4_services :: "l4_service_config list"
  pc_tls :: tls_config
  pc_routes :: "route_config list"
  pc_upstream_pools :: "(string \<times> upstream_pool_config) list"
  pc_admin :: admin_config
  pc_telemetry :: telemetry_config
  pc_runtime :: runtime_config

section \<open>Default values\<close>

definition default_listener :: listener_config where
  "default_listener =
     \<lparr>lc_name = ''public'', lc_bind = SockV4 (V4 127 0 0 1) 8080, lc_protocols = [H1, H2],
      lc_http1_engine = Hyper, lc_tls = False, lc_reuse_port = False, lc_accept_workers = 1,
      lc_backlog = 4096, lc_interface = None\<rparr>"

definition default_l4_health_check :: l4_health_check_config where
  "default_l4_health_check =
     \<lparr>lh_enabled = False, lh_kind = HcTcp, lh_path = ''/healthz'', lh_interval_ms = 10000,
      lh_timeout_ms = 2000\<rparr>"

definition default_l4_real_server :: l4_real_server_config where
  "default_l4_real_server = \<lparr>rs_address = V4 127 0 0 1, rs_port = 80, rs_weight = 1\<rparr>"

definition default_l4_service :: l4_service_config where
  "default_l4_service =
     \<lparr>sv_name = ''l4-service'', sv_domains = [], sv_vip = V4 127 0 0 1, sv_port = 80,
      sv_protocol = Tcp, sv_scheduler = Wrr, sv_mode = IpvsDsr, sv_real_servers = [],
      sv_health_check = default_l4_health_check\<rparr>"

definition default_acme :: acme_config where
  "default_acme =
     \<lparr>ac_enabled = False,
      ac_directory_url = ''https://acme-staging-v02.api.letsencrypt.org/directory'',
      ac_contact = [], ac_storage_dir = ''/var/lib/yxorp/acme'', ac_renew_before_days = 30\<rparr>"

definition default_cert :: cert_config where
  "default_cert = \<lparr>cc_domains = [], cc_cert_path = [], cc_key_path = []\<rparr>"

definition default_tls :: tls_config where
  "default_tls =
     \<lparr>tls_acme = default_acme, tls_certs = [], tls_keylog = False, tls_qlog_dir = None\<rparr>"

definition default_rate_limit :: rate_limit_config where
  "default_rate_limit = \<lparr>rl_enabled = False, rl_capacity = 100, rl_fill_rate = Fin 10\<rparr>"

definition default_route :: route_config where
  "default_route =
     \<lparr>rt_name = ''default'', rt_host = ''*'', rt_path_prefix = ''/'',
      rt_upstream_pool = ''default'', rt_rate_limit = default_rate_limit\<rparr>"

definition default_health_check :: health_check_config where
  "default_health_check =
     \<lparr>hc_enabled = False, hc_path = ''/healthz'', hc_interval_ms = 10000, hc_timeout_ms = 2000\<rparr>"

definition default_upstream :: upstream_config where
  "default_upstream =
     \<lparr>us_name = ''upstream'', us_url = ''http://127.0.0.1:8081'', us_protocol = UpH1,
      us_opt_in_h3 = False, us_weight = 1, us_connect_timeout_ms = 2000,
      us_request_timeout_ms = 30000, us_health_check = default_health_check\<rparr>"

definition default_upstream_pool :: upstream_pool_config where
  "default_upstream_pool = \<lparr>up_upstreams = [], up_passive_failure_threshold = 3\<rparr>"

definition default_admin :: admin_config where
  "default_admin =
     \<lparr>ad_bind = SockV4 (V4 127 0 0 1) 9080, ad_enabled = True, ad_auth_token = None\<rparr>"

definition default_telemetry :: telemetry_config where
  "default_telemetry = \<lparr>te_json_tracing = False, te_prometheus = True, te_access_log = False\<rparr>"

text \<open>\<open>single_core\<close> is the cargo feature of the build.\<close>

definition default_runtime :: "bool \<Rightarrow> runtime_config" where
  "default_runtime single_core =
     \<lparr>rc_drain_timeout_ms = 30000, rc_zero_copy = (\<not> single_core),
      rc_liveness_probe_idle_ms = 250\<rparr>"

definition default_proxy_config :: "bool \<Rightarrow> proxy_config" where
  "default_proxy_config single_core =
     \<lparr>pc_listeners = [default_listener], pc_l4_services = [], pc_tls = default_tls,
      pc_routes = [], pc_upstream_pools = [], pc_admin = default_admin,
      pc_telemetry = default_telemetry, pc_runtime = default_runtime single_core\<rparr>"

text \<open>Durations are in nanoseconds; the two accessors convert from milliseconds.\<close>

definition duration_from_millis :: "u64 \<Rightarrow> nat" where
  "duration_from_millis ms = unat ms * 1000000"

definition drain_timeout :: "runtime_config \<Rightarrow> nat" where
  "drain_timeout r = duration_from_millis (rc_drain_timeout_ms r)"

definition liveness_probe_idle :: "runtime_config \<Rightarrow> nat" where
  "liveness_probe_idle r = duration_from_millis (rc_liveness_probe_idle_ms r)"

section \<open>Hosts\<close>

definition parse_authority_host :: "ext_lib \<Rightarrow> string \<Rightarrow> string option" where
  "parse_authority_host E host =
     (case lib_parse_authority E host of
        None \<Rightarrow> None
      | Some a \<Rightarrow>
          if CHR ''@'' \<in> set (auth_text a) then None
          else if auth_host a = [] then None
          else (case strip_prefix (auth_text a) (auth_host a) of
             None \<Rightarrow> None
           | Some after_host \<Rightarrow>
               if after_host \<noteq> [] \<and> (\<not> starts_with after_host '':'' \<or> auth_port a = None)
               then None
               else Some (to_ascii_lowercase (auth_host a))))"

section \<open>Validation\<close>

definition MAX_UPSTREAM_WEIGHT :: u32 where
  "MAX_UPSTREAM_WEIGHT = 10000"

definition MAX_TOTAL_POOL_WEIGHT :: u64 where
  "MAX_TOTAL_POOL_WEIGHT = 100000"

type_synonym checked = "(unit, config_error) outcome"

definition invalid :: "string \<Rightarrow> ('a, config_error) outcome" where
  "invalid msg = Err (Validation msg)"

definition check_listener :: "listener_config \<Rightarrow> checked" where
  "check_listener l =
     (if lc_protocols l = [] then
        invalid (''listener '' @ quoted (lc_name l) @ '' must enable at least one protocol'')
      else if lc_http1_engine l \<in> {Fast, Uring} \<and> lc_tls l then
        invalid (''listener '' @ quoted (lc_name l) @ '' http1_engine = '' @
          show_http1_engine (lc_http1_engine l) @ '' requires tls = false'')
      else if lc_http1_engine l \<in> {Fast, Uring} \<and> lc_protocols l \<noteq> [H1] then
        invalid (''listener '' @ quoted (lc_name l) @ '' http1_engine = '' @
          show_http1_engine (lc_http1_engine l) @ '' requires protocols = ['' @
          [CHR 0x22] @ ''h1'' @ [CHR 0x22] @ '']'')
      else if 1 < lc_accept_workers l \<and> \<not> lc_reuse_port l then
        invalid (''listener '' @ quoted (lc_name l) @
          '' must enable reuse_port when accept_workers > 1'')
      else if lc_backlog l = 0 then
        invalid (''listener '' @ quoted (lc_name l) @ '' backlog must be > 0'')
      else Ok ())"

text \<open>\<open>seen\<close> is the \<^verbatim>\<open>HashSet\<close> of names inserted so far.\<close>

fun validate_listeners :: "string list \<Rightarrow> listener_config list \<Rightarrow> checked" where
  "validate_listeners seen [] = Ok ()"
| "validate_listeners seen (l # ls) =
     (if lc_name l \<in> set seen then invalid (''duplicate listener name '' @ quoted (lc_name l))
      else rbind (check_listener l) (\<lambda>_. validate_listeners (lc_name l # seen) ls))"

definition server_text :: "l4_real_server_config \<Rightarrow> string" where
  "server_text r = show_ip (rs_address r) @ '':'' @ show_nat (unat (rs_port r))"

fun check_real_servers :: "string \<Rightarrow> l4_real_server_config list \<Rightarrow> checked" where
  "check_real_servers sname [] = Ok ()"
| "check_real_servers sname (r # rs) =
     (if rs_port r = 0 then
        invalid (''real_server '' @ quoted (server_text r) @ '' in l4_service '' @ quoted sname @
          '' port must be > 0'')
      else if rs_weight r = 0 then
        invalid (''real_server '' @ quoted (server_text r) @ '' in l4_service '' @ quoted sname @
          '' weight must be > 0'')
      else check_real_servers sname rs)"

fun check_bind_conflict :: "l4_service_config \<Rightarrow> listener_config list \<Rightarrow> checked" where
  "check_bind_conflict s [] = Ok ()"
| "check_bind_conflict s (l # ls) =
     (if sock_ip (lc_bind l) = sv_vip s \<and> sock_port (lc_bind l) = sv_port s then
        invalid (''l4_service '' @ quoted (sv_name s) @ '' conflicts with listener '' @
          quoted (lc_name l) @ '' on '' @ show_ip (sv_vip s) @ '':'' @
          show_nat (unat (sv_port s)))
      else check_bind_conflict s ls)"

type_synonym vip_key = "ip_addr \<times> u16 \<times> l4_protocol"

fun validate_l4_services ::
  "listener_config list \<Rightarrow> string list \<Rightarrow> vip_key list \<Rightarrow> l4_service_config list \<Rightarrow> checked" where
  "validate_l4_services ls ids vips [] = Ok ()"
| "validate_l4_services ls ids vips (s # ss) =
     (if sv_name s \<in> set ids then
        invalid (''duplicate l4_service name '' @ quoted (sv_name s))
      else if sv_domains s = [] then
        invalid (''l4_service '' @ quoted (sv_name s) @ '' must list at least one domain'')
      else if sv_port s = 0 then
        invalid (''l4_service '' @ quoted (sv_name s) @ '' port must be > 0'')
      else if (sv_vip s, sv_port s, sv_protocol s) \<in> set vips then
        invalid (''duplicate l4_service vip/port/protocol '' @
          quoted (show_ip (sv_vip s) @ '':'' @ show_nat (unat (sv_port s)) @ '' '' @
            show_l4_protocol (sv_protocol s)))
      else rbind (check_bind_conflict s ls) (\<lambda>_.
        if sv_real_servers s = [] then
          invalid (''l4_service '' @ quoted (sv_name s) @
            '' must contain at least one real_server'')
        else rbind (check_real_servers (sv_name s) (sv_real_servers s)) (\<lambda>_.
          validate_l4_services ls (sv_name s # ids)
            ((sv_vip s, sv_port s, sv_protocol s) # vips) ss)))"

definition check_route :: "ext_lib \<Rightarrow> string list \<Rightarrow> route_config \<Rightarrow> checked" where
  "check_route E pools r =
     (if \<not> starts_with (rt_path_prefix r) ''/'' then
        invalid (''route '' @ quoted (rt_name r) @ '' path_prefix must start with /'')
      else if rt_host r \<noteq> ''*'' \<and> parse_authority_host E (rt_host r) = None then
        invalid (''route '' @ quoted (rt_name r) @ '' host '' @ quoted (rt_host r) @
          '' must be a valid HTTP authority host'')
      else if rt_upstream_pool r \<notin> set pools then
        invalid (''route '' @ quoted (rt_name r) @ '' references missing upstream_pool '' @
          quoted (rt_upstream_pool r))
      else if rl_enabled (rt_rate_limit r) \<and> rl_capacity (rt_rate_limit r) = 0 then
        invalid (''route '' @ quoted (rt_name r) @ '' rate_limit capacity must be > 0'')
      else if rl_enabled (rt_rate_limit r) \<and>
          (\<not> is_finite (rl_fill_rate (rt_rate_limit r)) \<or>
           f32_le (rl_fill_rate (rt_rate_limit r)) (Fin 0)) then
        invalid (''route '' @ quoted (rt_name r) @
          '' rate_limit fill_rate must be finite and > 0'')
      else Ok ())"

fun validate_routes :: "ext_lib \<Rightarrow> string list \<Rightarrow> string list \<Rightarrow> route_config list \<Rightarrow> checked" where
  "validate_routes E pools seen [] = Ok ()"
| "validate_routes E pools seen (r # rs) =
     (if rt_name r \<in> set seen then invalid (''duplicate route name '' @ quoted (rt_name r))
      else rbind (check_route E pools r) (\<lambda>_. validate_routes E pools (rt_name r # seen) rs))"

definition in_pool :: "upstream_config \<Rightarrow> string \<Rightarrow> string" where
  "in_pool u pool_name = ''upstream '' @ quoted (us_name u) @ '' in pool '' @ quoted pool_name"

text \<open>The URL half of the upstream checks, after the weight was added to the total.\<close>

definition check_upstream_url :: "ext_lib \<Rightarrow> string \<Rightarrow> upstream_config \<Rightarrow> checked" where
  "check_upstream_url E pool_name u =
     (case lib_parse_uri E (us_url u) of
        None \<Rightarrow> invalid (in_pool u pool_name @ '' has invalid url '' @ quoted (us_url u))
      | Some uri \<Rightarrow>
          if uri_scheme uri = None \<or> uri_authority uri = None then
            invalid (in_pool u pool_name @ '' url must include scheme and authority'')
          else if uri_scheme uri \<noteq> Some ''http'' then
            invalid (in_pool u pool_name @
              '' url scheme must be http until upstream TLS is implemented'')
          else if us_protocol u = UpH3 \<and> \<not> us_opt_in_h3 u then
            invalid (''upstream '' @ quoted (us_name u) @
              '' uses protocol h3 but opt_in_h3 is not true'')
          else Ok ())"

fun validate_upstreams ::
  "ext_lib \<Rightarrow> string \<Rightarrow> u64 \<Rightarrow> upstream_config list \<Rightarrow> (u64, config_error) outcome" where
  "validate_upstreams E pool_name total_w [] = Ok total_w"
| "validate_upstreams E pool_name total_w (u # us) =
     (if us_weight u = 0 then
        invalid (in_pool u pool_name @ '' must have weight > 0'')
      else if MAX_UPSTREAM_WEIGHT < us_weight u then
        invalid (in_pool u pool_name @ '' weight must be <= '' @
          show_nat (unat MAX_UPSTREAM_WEIGHT))
      else rbind (check_upstream_url E pool_name u) (\<lambda>_.
        validate_upstreams E pool_name (total_w + ucast (us_weight u)) us))"

fun validate_pools :: "ext_lib \<Rightarrow> (string \<times> upstream_pool_config) list \<Rightarrow> checked" where
  "validate_pools E [] = Ok ()"
| "validate_pools E ((pool_name, pool) # ps) =
     (if up_upstreams pool = [] then
        invalid (''upstream pool '' @ quoted pool_name @ '' must contain at least one upstream'')
      else rbind (validate_upstreams E pool_name 0 (up_upstreams pool)) (\<lambda>total_weight.
        if MAX_TOTAL_POOL_WEIGHT < total_weight then
          invalid (''upstream pool '' @ quoted pool_name @ '' total weight must be <= '' @
            show_nat (unat MAX_TOTAL_POOL_WEIGHT))
        else validate_pools E ps))"

definition validate_admin :: "admin_config \<Rightarrow> checked" where
  "validate_admin a =
     (if ad_auth_token a = Some [] then
        invalid ''admin auth_token must not be empty when configured''
      else Ok ())"

definition validate :: "ext_lib \<Rightarrow> proxy_config \<Rightarrow> checked" where
  "validate E c =
     (if pc_listeners c = [] \<and> pc_l4_services c = [] then
        invalid ''at least one listener or l4_service must be configured''
      else if pc_listeners c \<noteq> [] \<and> pc_routes c = [] then
        invalid ''at least one route must be configured when listeners are configured''
      else rbind (validate_listeners [] (pc_listeners c)) (\<lambda>_.
        rbind (validate_l4_services (pc_listeners c) [] [] (pc_l4_services c)) (\<lambda>_.
        rbind (validate_routes E (map fst (pc_upstream_pools c)) [] (pc_routes c)) (\<lambda>_.
        rbind (validate_pools E (pc_upstream_pools c)) (\<lambda>_.
        validate_admin (pc_admin c))))))"

section \<open>What a valid configuration is\<close>

text \<open>
  The specification: the conditions, stated independently of the order in which the code
  checks them and of the messages.
\<close>

definition listener_ok :: "listener_config \<Rightarrow> bool" where
  "listener_ok l \<longleftrightarrow>
     lc_protocols l \<noteq> [] \<and>
     (lc_http1_engine l \<noteq> Hyper \<longrightarrow> \<not> lc_tls l \<and> lc_protocols l = [H1]) \<and>
     (1 < unat (lc_accept_workers l) \<longrightarrow> lc_reuse_port l) \<and>
     lc_backlog l \<noteq> 0"

definition vip_key_of :: "l4_service_config \<Rightarrow> vip_key" where
  "vip_key_of s = (sv_vip s, sv_port s, sv_protocol s)"

definition l4_service_ok :: "listener_config list \<Rightarrow> l4_service_config \<Rightarrow> bool" where
  "l4_service_ok ls s \<longleftrightarrow>
     sv_domains s \<noteq> [] \<and> sv_port s \<noteq> 0 \<and>
     (\<forall>l \<in> set ls. \<not> (sock_ip (lc_bind l) = sv_vip s \<and> sock_port (lc_bind l) = sv_port s)) \<and>
     sv_real_servers s \<noteq> [] \<and>
     (\<forall>r \<in> set (sv_real_servers s). rs_port r \<noteq> 0 \<and> rs_weight r \<noteq> 0)"

definition route_ok :: "ext_lib \<Rightarrow> string set \<Rightarrow> route_config \<Rightarrow> bool" where
  "route_ok E pools r \<longleftrightarrow>
     starts_with (rt_path_prefix r) ''/'' \<and>
     (rt_host r = ''*'' \<or> parse_authority_host E (rt_host r) \<noteq> None) \<and>
     rt_upstream_pool r \<in> pools \<and>
     (rl_enabled (rt_rate_limit r) \<longrightarrow>
        rl_capacity (rt_rate_limit r) \<noteq> 0 \<and>
        (\<exists>q > 0. rl_fill_rate (rt_rate_limit r) = Fin q))"

definition upstream_ok :: "ext_lib \<Rightarrow> upstream_config \<Rightarrow> bool" where
  "upstream_ok E u \<longleftrightarrow>
     0 < unat (us_weight u) \<and> unat (us_weight u) \<le> 10000 \<and>
     (\<exists>uri. lib_parse_uri E (us_url u) = Some uri \<and> uri_scheme uri = Some ''http'' \<and>
        uri_authority uri \<noteq> None) \<and>
     (us_protocol u = UpH3 \<longrightarrow> us_opt_in_h3 u)"

definition pool_weight :: "upstream_pool_config \<Rightarrow> nat" where
  "pool_weight p = sum_list (map (\<lambda>u. unat (us_weight u)) (up_upstreams p))"

definition pool_ok :: "ext_lib \<Rightarrow> upstream_pool_config \<Rightarrow> bool" where
  "pool_ok E p \<longleftrightarrow>
     up_upstreams p \<noteq> [] \<and> (\<forall>u \<in> set (up_upstreams p). upstream_ok E u) \<and>
     pool_weight p \<le> 100000"

definition config_ok :: "ext_lib \<Rightarrow> proxy_config \<Rightarrow> bool" where
  "config_ok E c \<longleftrightarrow>
     (pc_listeners c \<noteq> [] \<or> pc_l4_services c \<noteq> []) \<and>
     (pc_listeners c \<noteq> [] \<longrightarrow> pc_routes c \<noteq> []) \<and>
     distinct (map lc_name (pc_listeners c)) \<and>
     (\<forall>l \<in> set (pc_listeners c). listener_ok l) \<and>
     distinct (map sv_name (pc_l4_services c)) \<and>
     distinct (map vip_key_of (pc_l4_services c)) \<and>
     (\<forall>s \<in> set (pc_l4_services c). l4_service_ok (pc_listeners c) s) \<and>
     distinct (map rt_name (pc_routes c)) \<and>
     (\<forall>r \<in> set (pc_routes c). route_ok E (fst ` set (pc_upstream_pools c)) r) \<and>
     (\<forall>p \<in> snd ` set (pc_upstream_pools c). pool_ok E p) \<and>
     ad_auth_token (pc_admin c) \<noteq> Some []"

text \<open>
  A \<^verbatim>\<open>Vec\<close> holds at most \<^verbatim>\<open>isize::MAX\<close> bytes and an \<^verbatim>\<open>UpstreamConfig\<close> is far larger than 16
  bytes, so a pool has fewer than \<open>2^50\<close> upstreams and the 64-bit weight sum cannot wrap.
\<close>

definition pools_fit :: "proxy_config \<Rightarrow> bool" where
  "pools_fit c \<longleftrightarrow> (\<forall>p \<in> snd ` set (pc_upstream_pools c). length (up_upstreams p) < 2 ^ 50)"

section \<open>The validator decides the specification\<close>

lemma invalid_not_Ok [simp]: "invalid m \<noteq> Ok x" "invalid m \<noteq> Panic p"
  by (simp_all add: invalid_def)

lemma check_listener_Ok: "check_listener l = Ok () \<longleftrightarrow> listener_ok l"
proof -
  have "lc_http1_engine l \<in> {Fast, Uring} \<longleftrightarrow> lc_http1_engine l \<noteq> Hyper"
    by (cases "lc_http1_engine l") auto
  moreover have "1 < lc_accept_workers l \<longleftrightarrow> 1 < unat (lc_accept_workers l)"
    by (simp add: word_less_nat_alt)
  ultimately show ?thesis by (auto simp: check_listener_def listener_ok_def)
qed

lemma validate_listeners_Ok:
  "validate_listeners seen ls = Ok () \<longleftrightarrow>
     distinct (map lc_name ls) \<and> set (map lc_name ls) \<inter> set seen = {} \<and>
     (\<forall>l \<in> set ls. listener_ok l)"
  by (induction ls arbitrary: seen) (auto simp: outcome_simps check_listener_Ok)

lemma check_real_servers_Ok:
  "check_real_servers n rs = Ok () \<longleftrightarrow> (\<forall>r \<in> set rs. rs_port r \<noteq> 0 \<and> rs_weight r \<noteq> 0)"
  by (induction rs) auto

lemma check_bind_conflict_Ok:
  "check_bind_conflict s ls = Ok () \<longleftrightarrow>
     (\<forall>l \<in> set ls. \<not> (sock_ip (lc_bind l) = sv_vip s \<and> sock_port (lc_bind l) = sv_port s))"
  by (induction ls) auto

lemma validate_l4_services_Ok:
  "validate_l4_services ls ids vips ss = Ok () \<longleftrightarrow>
     distinct (map sv_name ss) \<and> set (map sv_name ss) \<inter> set ids = {} \<and>
     distinct (map vip_key_of ss) \<and> set (map vip_key_of ss) \<inter> set vips = {} \<and>
     (\<forall>s \<in> set ss. l4_service_ok ls s)"
  by (induction ss arbitrary: ids vips)
     (auto simp: outcome_simps check_real_servers_Ok check_bind_conflict_Ok l4_service_ok_def
        vip_key_of_def)

lemma fill_rate_ok:
  "is_finite x \<and> \<not> f32_le x (Fin 0) \<longleftrightarrow> (\<exists>q > 0. x = Fin q)"
  by (cases x) (auto simp: f32_le_def)

lemma check_route_Ok: "check_route E pools r = Ok () \<longleftrightarrow> route_ok E (set pools) r"
  using fill_rate_ok [of "rl_fill_rate (rt_rate_limit r)"]
  by (auto simp: check_route_def route_ok_def simp del: starts_with_single)

lemma validate_routes_Ok:
  "validate_routes E pools seen rs = Ok () \<longleftrightarrow>
     distinct (map rt_name rs) \<and> set (map rt_name rs) \<inter> set seen = {} \<and>
     (\<forall>r \<in> set rs. route_ok E (set pools) r)"
  by (induction rs arbitrary: seen) (auto simp: outcome_simps check_route_Ok)

lemma check_upstream_url_Ok:
  "check_upstream_url E n u = Ok () \<longleftrightarrow>
     (\<exists>uri. lib_parse_uri E (us_url u) = Some uri \<and> uri_scheme uri = Some ''http'' \<and>
        uri_authority uri \<noteq> None) \<and> (us_protocol u = UpH3 \<longrightarrow> us_opt_in_h3 u)"
  by (auto simp: check_upstream_url_def split: option.splits)

lemma weight_checks:
  "w \<noteq> 0 \<and> \<not> MAX_UPSTREAM_WEIGHT < w \<longleftrightarrow> 0 < unat w \<and> unat w \<le> 10000" for w :: u32
  by (auto simp: MAX_UPSTREAM_WEIGHT_def word_less_nat_alt unat_gt_0)

lemma unat_add_weight:
  fixes total_w :: u64 and w :: u32
  assumes "unat total_w + unat w < usize_lim"
  shows "unat (total_w + ucast w) = unat total_w + unat w"
proof -
  have "unat w < 2 ^ 32" using unsigned_less [of w, where 'a = nat] by simp
  then have "unat (ucast w :: u64) = unat w"
    by (simp add: unsigned_ucast_eq take_bit_nat_eq_self_iff)
  with assms show ?thesis by (simp add: unat_word_ariths)
qed

lemma validate_upstreams_Ok:
  assumes "unat total_w + 10000 * length us < usize_lim"
  shows "validate_upstreams E n total_w us = Ok t \<longleftrightarrow>
     (\<forall>u \<in> set us. upstream_ok E u) \<and>
     unat t = unat total_w + sum_list (map (\<lambda>u. unat (us_weight u)) us)"
  using assms
proof (induction us arbitrary: total_w)
  case Nil
  then show ?case by (auto simp: word_unat_eq_iff)
next
  case (Cons u us)
  show ?case
  proof (cases "0 < unat (us_weight u) \<and> unat (us_weight u) \<le> 10000")
    case True
    with Cons.prems have add: "unat (total_w + ucast (us_weight u)) = unat total_w + unat (us_weight u)"
      by (intro unat_add_weight) simp
    with True Cons.prems have "unat (total_w + ucast (us_weight u)) + 10000 * length us < usize_lim"
      by simp
    from Cons.IH [OF this] True add show ?thesis
      using weight_checks [of "us_weight u"]
      by (auto simp: outcome_simps check_upstream_url_Ok upstream_ok_def)
  next
    case False
    then show ?thesis using weight_checks [of "us_weight u"] by (auto simp: upstream_ok_def)
  qed
qed

lemma validate_pools_Ok:
  assumes "\<forall>p \<in> snd ` set ps. length (up_upstreams p) < 2 ^ 50"
  shows "validate_pools E ps = Ok () \<longleftrightarrow> (\<forall>p \<in> snd ` set ps. pool_ok E p)"
  using assms
proof (induction ps)
  case (Cons np ps)
  obtain n p where np: "np = (n, p)" by force
  have fit: "unat (0 :: u64) + 10000 * length (up_upstreams p) < usize_lim"
    using Cons.prems np by simp
  have max: "\<not> MAX_TOTAL_POOL_WEIGHT < t \<longleftrightarrow> unat t \<le> 100000" for t :: u64
    by (auto simp: MAX_TOTAL_POOL_WEIGHT_def word_less_nat_alt)
  have sum: "\<exists>t :: u64. unat t = pool_weight p" if "pool_weight p \<le> 100000"
    using that by (intro exI [of _ "of_nat (pool_weight p)"])
      (simp add: unat_of_nat take_bit_nat_eq_self_iff)
  have total: "(\<exists>t. validate_upstreams E n 0 (up_upstreams p) = Ok t \<and>
      \<not> MAX_TOTAL_POOL_WEIGHT < t) \<longleftrightarrow>
      (\<forall>u \<in> set (up_upstreams p). upstream_ok E u) \<and> pool_weight p \<le> 100000"
    unfolding validate_upstreams_Ok [OF fit] max using sum
    by (simp flip: pool_weight_def) metis
  have "validate_pools E (np # ps) = Ok () \<longleftrightarrow>
      up_upstreams p \<noteq> [] \<and> (\<exists>t. validate_upstreams E n 0 (up_upstreams p) = Ok t \<and>
        \<not> MAX_TOTAL_POOL_WEIGHT < t) \<and> validate_pools E ps = Ok ()"
    by (auto simp: np outcome_simps)
  with total Cons np show ?case by (auto simp: pool_ok_def)
qed simp

lemma validate_admin_Ok: "validate_admin a = Ok () \<longleftrightarrow> ad_auth_token a \<noteq> Some []"
  by (simp add: validate_admin_def)

lemmas validators_Ok = validate_listeners_Ok validate_l4_services_Ok validate_routes_Ok
  validate_pools_Ok validate_admin_Ok

lemma validate_Ok:
  assumes "pools_fit c"
  shows "validate E c = Ok () \<longleftrightarrow> config_ok E c"
proof -
  have "validate_pools E (pc_upstream_pools c) = Ok () \<longleftrightarrow>
      (\<forall>p \<in> snd ` set (pc_upstream_pools c). pool_ok E p)"
    using assms by (intro validate_pools_Ok) (simp add: pools_fit_def)
  then show ?thesis
    by (auto simp: validate_def config_ok_def outcome_simps validate_listeners_Ok
        validate_l4_services_Ok validate_routes_Ok validate_admin_Ok)
qed

text \<open>Validation only ever returns or reports a message: it has no panic and no other error.\<close>

definition reports :: "('a, config_error) outcome \<Rightarrow> bool" where
  "reports r = (case r of Ok _ \<Rightarrow> True | Err (Validation _) \<Rightarrow> True | _ \<Rightarrow> False)"

lemma reports_simps [simp]: "reports (Ok x)" "reports (invalid m)"
  by (simp_all add: reports_def invalid_def)

lemma reports_rbind: "reports r \<Longrightarrow> (\<And>x. reports (f x)) \<Longrightarrow> reports (rbind r f)"
  by (cases r) (auto simp: reports_def)

lemma check_reports:
  "reports (check_listener l)" "reports (check_real_servers n rs)"
  "reports (check_bind_conflict s ls)" "reports (check_route E pools r)"
  "reports (check_upstream_url E n u)" "reports (validate_admin a)"
proof -
  show "reports (check_listener l)" by (simp add: check_listener_def)
  show "reports (check_real_servers n rs)" by (induction rs) auto
  show "reports (check_bind_conflict s ls)" by (induction ls) auto
  show "reports (check_route E pools r)" by (simp add: check_route_def)
  show "reports (check_upstream_url E n u)"
    by (simp add: check_upstream_url_def split: option.splits)
  show "reports (validate_admin a)" by (simp add: validate_admin_def)
qed

lemma validators_report:
  "reports (validate_listeners seen ls)" "reports (validate_l4_services ls ids vips ss)"
  "reports (validate_routes E pools seen rs)" "reports (validate_upstreams E n w us)"
  "reports (validate_pools E ps)"
proof -
  show "reports (validate_listeners seen ls)"
    by (induction ls arbitrary: seen) (auto intro!: reports_rbind check_reports)
  show "reports (validate_l4_services ls ids vips ss)"
    by (induction ss arbitrary: ids vips) (auto intro!: reports_rbind check_reports)
  show "reports (validate_routes E pools seen rs)"
    by (induction rs arbitrary: seen) (auto intro!: reports_rbind check_reports)
  have us: "reports (validate_upstreams E n w us)" for n w us
    by (induction us arbitrary: w) (auto intro!: reports_rbind check_reports)
  then show "reports (validate_upstreams E n w us)" .
  show "reports (validate_pools E ps)"
  proof (induction ps)
    case (Cons np ps)
    then show ?case by (cases np) (auto intro!: reports_rbind us)
  qed simp
qed

lemma validate_reports: "reports (validate E c)"
  unfolding validate_def by (auto intro!: reports_rbind check_reports validators_report)

section \<open>Properties\<close>

definition sample_config :: proxy_config where
  "sample_config = (default_proxy_config False)
     \<lparr>pc_routes := [default_route],
      pc_upstream_pools := [(''default'', default_upstream_pool\<lparr>up_upstreams := [default_upstream]\<rparr>)]\<rparr>"

text \<open>
  C3. \<^verbatim>\<open>ProxyConfig::validate\<close> accepts exactly the configurations that satisfy the declarative
  \<open>config_ok\<close>, and rejects every other one with a \<^verbatim>\<open>ConfigError::Validation\<close>; it never panics,
  whatever the URI and authority parsers answer.
\<close>

theorem validate_decides_config_ok:
  assumes "pools_fit c"
  shows "(validate E c = Ok () \<longleftrightarrow> config_ok E c) \<and>
    (\<not> config_ok E c \<longrightarrow> (\<exists>msg. validate E c = Err (Validation msg)))"
proof -
  have "(\<exists>msg. validate E c = Err (Validation msg)) \<or> validate E c = Ok ()"
    using validate_reports [of E c]
    by (cases "validate E c") (auto simp: reports_def split: config_error.splits)
  then show ?thesis using validate_Ok [OF assms] by metis
qed

lemma sample_config_pools:
  "pc_upstream_pools sample_config =
     [(''default'', default_upstream_pool\<lparr>up_upstreams := [default_upstream]\<rparr>)]"
  by (simp add: sample_config_def)

lemma sample_validates: "validate sample_lib sample_config = Ok ()"
  by code_simp

theorem validate_decides_config_ok_witness:
  "pools_fit sample_config \<and> validate sample_lib sample_config = Ok () \<and>
   config_ok sample_lib sample_config"
proof -
  have fit: "pools_fit sample_config"
    by (simp add: pools_fit_def sample_config_pools default_upstream_pool_def)
  from validate_decides_config_ok [OF fit, of sample_lib] sample_validates fit show ?thesis by simp
qed

end
