(* ===== verification/Upstream.thy ===== *)
theory Upstream
  imports Config "HOL-Library.Multiset"
begin

text \<open>
  Upstream servers and pools of \<^verbatim>\<open>src/src/config/mod.rs\<close>: \<^verbatim>\<open>UpstreamUriBase\<close>, \<^verbatim>\<open>UpstreamState\<close>
  with its passive and active health, and \<^verbatim>\<open>UpstreamPool\<close> with weighted round-robin selection.
  Atomics become fields of a state that each operation returns updated; an upstream handed out by
  a pool is its index in the pool, the identity that the \<^verbatim>\<open>Arc\<close> has in the code. \<^verbatim>\<open>fetch_add\<close>
  wraps, so counters are 64-bit words.
\<close>

section \<open>URI base\<close>

record upstream_uri_base =
  ub_scheme :: string
  ub_authority :: authority
  ub_host_header :: string
  ub_base_path :: string

definition uri_base_parse :: "ext_lib \<Rightarrow> string \<Rightarrow> (upstream_uri_base, unit) outcome" where
  "uri_base_parse E url =
     (case lib_parse_uri E url of
        None \<Rightarrow> Err ()
      | Some u \<Rightarrow>
          rbind (expect (uri_authority u) ''validated URI authority'') (\<lambda>a.
          rbind (expect (lib_header_value E (auth_text a)) ''validated URI authority'') (\<lambda>h.
          Ok \<lparr>ub_scheme = (case uri_scheme u of Some s \<Rightarrow> s | None \<Rightarrow> ''http''),
              ub_authority = a, ub_host_header = h,
              ub_base_path = trim_end_matches (CHR ''/'') (uri_path u)\<rparr>)))"

definition path_for_upstream :: "string \<Rightarrow> string \<Rightarrow> string" where
  "path_for_upstream base_path path_and_query =
     (if base_path = [] \<and> starts_with path_and_query ''/'' then path_and_query
      else
        (let request_path = trim_start_matches (CHR ''/'') path_and_query
         in if base_path = [] then ''/'' @ request_path
            else if request_path = [] then base_path
            else base_path @ ''/'' @ request_path))"

text \<open>\<open>None\<close> is the \<^verbatim>\<open>http::Error\<close> of a string that is no URI.\<close>

definition build_uri :: "ext_lib \<Rightarrow> upstream_uri_base \<Rightarrow> string \<Rightarrow> uri option" where
  "build_uri E b path_and_query =
     lib_parse_uri E (ub_scheme b @ ''://'' @ auth_text (ub_authority b) @
       path_for_upstream (ub_base_path b) path_and_query)"

section \<open>One upstream\<close>

record upstream_state =
  st_config :: upstream_config
  st_uri_base :: upstream_uri_base
  st_id :: usize
  st_connect_addr :: "socket_addr option"
  st_passive_failures :: usize
  st_active_healthy :: bool

text \<open>\<open>next_id\<close> is the process-wide counter \<^verbatim>\<open>NEXT_UPSTREAM_ID\<close>.\<close>

definition upstream_new ::
  "ext_lib \<Rightarrow> usize \<Rightarrow> upstream_config \<Rightarrow> (upstream_state \<times> usize, config_error) outcome" where
  "upstream_new E next_id cfg =
     (case uri_base_parse E (us_url cfg) of
        Err _ \<Rightarrow> Panic ''validated upstream URL''
      | Panic p \<Rightarrow> Panic p
      | Ok b \<Rightarrow>
          Ok (\<lparr>st_config = cfg, st_uri_base = b, st_id = next_id, st_connect_addr = None,
               st_passive_failures = 0, st_active_healthy = True\<rparr>, next_id + 1))"

definition mark_success :: "upstream_state \<Rightarrow> upstream_state" where
  "mark_success s =
     (if st_passive_failures s \<noteq> 0 then s\<lparr>st_passive_failures := 0\<rparr> else s)"

definition mark_failure :: "upstream_state \<Rightarrow> upstream_state" where
  "mark_failure s = s\<lparr>st_passive_failures := st_passive_failures s + 1\<rparr>"

definition set_active_healthy :: "upstream_state \<Rightarrow> bool \<Rightarrow> upstream_state" where
  "set_active_healthy s healthy = s\<lparr>st_active_healthy := healthy\<rparr>"

definition is_available :: "upstream_state \<Rightarrow> u32 \<Rightarrow> bool" where
  "is_available s threshold \<longleftrightarrow>
     st_active_healthy s \<and> st_passive_failures s < ucast threshold"

text \<open>
  \<open>resolve\<close> is \<^verbatim>\<open>ToSocketAddrs\<close> on the authority text: \<open>None\<close> for an I/O error, else the
  addresses found. The first one is cached in the \<^verbatim>\<open>OnceLock\<close>.
\<close>

definition resolve_socket_addr ::
  "(string \<Rightarrow> socket_addr list option) \<Rightarrow> string \<Rightarrow> socket_addr option" where
  "resolve_socket_addr resolve authority =
     (case resolve authority of Some (a # _) \<Rightarrow> Some a | _ \<Rightarrow> None)"

definition connect_addr ::
  "(string \<Rightarrow> socket_addr list option) \<Rightarrow> upstream_state \<Rightarrow> socket_addr option \<times> upstream_state"
where
  "connect_addr resolve s =
     (case st_connect_addr s of
        Some a \<Rightarrow> (Some a, s)
      | None \<Rightarrow>
          (case resolve_socket_addr resolve (auth_text (ub_authority (st_uri_base s))) of
             None \<Rightarrow> (None, s)
           | Some a \<Rightarrow> (Some a, s\<lparr>st_connect_addr := Some a\<rparr>)))"

section \<open>Pools\<close>

record upstream_pool =
  pl_upstreams :: "upstream_state list"
  pl_expanded :: "nat list"
  pl_cursor :: usize
  pl_threshold :: u32

fun upstreams_new ::
  "ext_lib \<Rightarrow> usize \<Rightarrow> upstream_config list \<Rightarrow> (upstream_state list \<times> usize, config_error) outcome"
where
  "upstreams_new E i [] = Ok ([], i)"
| "upstreams_new E i (c # cs) =
     rbind (upstream_new E i c) (\<lambda>(s, j). rbind (upstreams_new E j cs) (\<lambda>(ss, k). Ok (s # ss, k)))"

definition expand_weights :: "upstream_state list \<Rightarrow> nat list" where
  "expand_weights ss =
     concat (map (\<lambda>(idx, s). replicate (unat (us_weight (st_config s))) idx) (enumerate 0 ss))"

definition pool_new ::
  "ext_lib \<Rightarrow> usize \<Rightarrow> upstream_pool_config \<Rightarrow> (upstream_pool \<times> usize, config_error) outcome" where
  "pool_new E i cfg =
     rbind (upstreams_new E i (up_upstreams cfg)) (\<lambda>(ss, j).
       Ok (\<lparr>pl_upstreams = ss, pl_expanded = expand_weights ss, pl_cursor = 0,
            pl_threshold = up_passive_failure_threshold cfg\<rparr>, j))"

text \<open>
  The loop of \<^verbatim>\<open>select\<close>: \<open>n\<close> is the number of attempts left; each one takes a ticket from the
  cursor and looks at the upstream of that slot.
\<close>

fun select_loop :: "nat \<Rightarrow> upstream_pool \<Rightarrow> nat option \<times> upstream_pool" where
  "select_loop 0 p = (None, p)"
| "select_loop (Suc n) p =
     (let idx = unat (pl_cursor p) mod length (pl_expanded p);
          p' = p\<lparr>pl_cursor := pl_cursor p + 1\<rparr>;
          u = pl_expanded p ! idx
      in if is_available (pl_upstreams p ! u) (pl_threshold p) then (Some u, p')
         else select_loop n p')"

definition select :: "upstream_pool \<Rightarrow> nat option \<times> upstream_pool" where
  "select p =
     (if pl_expanded p = [] then (None, p)
      else if length (pl_upstreams p) = 1 then (Some 0, p)
      else (case select_loop (length (pl_expanded p)) p of
         (Some u, p') \<Rightarrow> (Some u, p')
       | (None, p') \<Rightarrow> (Some (pl_expanded p' ! 0), p')))"

text \<open>\<^verbatim>\<open>select_arc\<close> repeats the loop with \<^verbatim>\<open>Arc::clone\<close> before the availability check.\<close>

fun select_arc_loop :: "nat \<Rightarrow> upstream_pool \<Rightarrow> nat option \<times> upstream_pool" where
  "select_arc_loop 0 p = (Some (pl_expanded p ! 0), p)"
| "select_arc_loop (Suc n) p =
     (let idx = unat (pl_cursor p) mod length (pl_expanded p);
          p' = p\<lparr>pl_cursor := pl_cursor p + 1\<rparr>;
          upstream = pl_expanded p ! idx
      in if is_available (pl_upstreams p ! upstream) (pl_threshold p)
         then (Some upstream, p') else select_arc_loop n p')"

definition select_arc :: "upstream_pool \<Rightarrow> nat option \<times> upstream_pool" where
  "select_arc p =
     (if pl_expanded p = [] then (None, p)
      else if length (pl_upstreams p) = 1 then (Some 0, p)
      else select_arc_loop (length (pl_expanded p)) p)"

text \<open>What a pool looks like between operations, and repeated selection.\<close>

definition pool_inv :: "upstream_pool \<Rightarrow> bool" where
  "pool_inv p \<longleftrightarrow> pl_expanded p = expand_weights (pl_upstreams p)"

fun select_run ::
  "(upstream_pool \<Rightarrow> nat option \<times> upstream_pool) \<Rightarrow> nat \<Rightarrow> upstream_pool \<Rightarrow>
   nat option list \<times> upstream_pool" where
  "select_run sel 0 p = ([], p)"
| "select_run sel (Suc n) p =
     (let (r, p') = sel p; (rs, p'') = select_run sel n p' in (r # rs, p''))"

text \<open>Replacing the state of one upstream, as \<^verbatim>\<open>mark_failure\<close> on a shared \<^verbatim>\<open>Arc\<close> does.\<close>

definition pool_update :: "(upstream_state \<Rightarrow> upstream_state) \<Rightarrow> nat \<Rightarrow> upstream_pool \<Rightarrow> upstream_pool"
where
  "pool_update f i p =
     (if i < length (pl_upstreams p)
      then p\<lparr>pl_upstreams := (pl_upstreams p)[i := f (pl_upstreams p ! i)]\<rparr> else p)"

section \<open>Paths\<close>

lemma trim_start_matches_no: "\<not> starts_with (trim_start_matches c s) [c]"
  by (induction s) (auto simp: trim_start_matches_def)

lemma trim_end_matches_last: "s = trim_end_matches c s @ replicate (length s - length (trim_end_matches c s)) c"
proof -
  have "takeWhile (\<lambda>x. x = c) t = replicate (length t - length (dropWhile (\<lambda>x. x = c) t)) c" for t
    by (induction t) (auto simp: Suc_diff_le length_dropWhile_le)
  then have "rev s = replicate (length s - length (trim_end_matches c s)) c @ rev (trim_end_matches c s)"
    unfolding trim_end_matches_def by (metis length_rev rev_rev_ident takeWhile_dropWhile_id)
  then show ?thesis by (metis rev_append rev_replicate rev_rev_ident)
qed

lemma path_for_upstream_split:
  assumes "pq = replicate n (CHR ''/'') @ r" "\<not> starts_with r ''/''" "base \<noteq> []"
  shows "path_for_upstream base pq = (if r = [] then base else base @ ''/'' @ r)"
proof -
  have "trim_start_matches (CHR ''/'') pq = r"
    using assms(1,2) by (cases r) (auto simp: trim_start_matches_def dropWhile_append3)
  with assms(3) show ?thesis by (simp add: path_for_upstream_def)
qed

lemma path_for_upstream_absolute:
  assumes "base = [] \<or> starts_with base ''/''"
  shows "starts_with (path_for_upstream base pq) ''/''"
  using assms by (auto simp: path_for_upstream_def Let_def)

section \<open>Health\<close>

lemma mark_success_failures [simp]: "st_passive_failures (mark_success s) = 0"
  by (simp add: mark_success_def)

lemma mark_failure_failures [simp]:
  "st_passive_failures (mark_failure s) = st_passive_failures s + 1"
  by (simp add: mark_failure_def)

lemma mark_simps [simp]:
  "st_config (mark_success s) = st_config s" "st_config (mark_failure s) = st_config s"
  "st_active_healthy (mark_success s) = st_active_healthy s"
  "st_active_healthy (mark_failure s) = st_active_healthy s"
  "st_id (mark_success s) = st_id s" "st_id (mark_failure s) = st_id s"
  "st_uri_base (mark_success s) = st_uri_base s" "st_uri_base (mark_failure s) = st_uri_base s"
  by (simp_all add: mark_success_def mark_failure_def)

lemma is_available_iff:
  "is_available s t \<longleftrightarrow> st_active_healthy s \<and> unat (st_passive_failures s) < unat t"
proof -
  have "unat t < 2 ^ 32" using unsigned_less [of t, where 'a = nat] by simp
  then have "unat (ucast t :: usize) = unat t"
    by (simp add: unsigned_ucast_eq take_bit_nat_eq_self_iff)
  then show ?thesis by (simp add: is_available_def word_less_nat_alt)
qed

lemma failures_after:
  "st_passive_failures ((mark_failure ^^ n) s) = st_passive_failures s + of_nat n"
  by (induction n) simp_all

lemma active_after: "st_active_healthy ((mark_failure ^^ n) s) = st_active_healthy s"
  by (induction n) simp_all

section \<open>Selection\<close>

lemma expand_weights_range: "u \<in> set (expand_weights ss) \<Longrightarrow> u < length ss"
  by (auto simp: expand_weights_def in_set_enumerate_eq split: if_splits)

lemma length_expand_weights:
  "length (expand_weights ss) = sum_list (map (\<lambda>s. unat (us_weight (st_config s))) ss)"
proof -
  have "length (concat (map (\<lambda>(idx, s). replicate (unat (us_weight (st_config s))) idx)
      (enumerate k ss))) = sum_list (map (\<lambda>s. unat (us_weight (st_config s))) ss)" for k
    by (induction ss arbitrary: k) auto
  then show ?thesis by (simp add: expand_weights_def)
qed

lemma count_expand_weights:
  assumes "u < length ss"
  shows "count (mset (expand_weights ss)) u = unat (us_weight (st_config (ss ! u)))"
proof -
  have "count (mset (concat (map (\<lambda>(idx, s). replicate (unat (us_weight (st_config s))) idx)
      (enumerate k ss)))) u =
      (if k \<le> u \<and> u < k + length ss then unat (us_weight (st_config (ss ! (u - k)))) else 0)" for k
  proof (induction ss arbitrary: k)
    case (Cons s ss)
    then show ?case by (auto simp: nth_Cons' Suc_diff_le)
  qed simp
  from this [of 0] assms show ?thesis by (simp add: expand_weights_def)
qed

text \<open>The upstream that ticket number \<open>j\<close> from now refers to.\<close>

definition slot :: "upstream_pool \<Rightarrow> nat \<Rightarrow> nat" where
  "slot p j = pl_expanded p ! (unat (pl_cursor p + of_nat j) mod length (pl_expanded p))"

definition slot_available :: "upstream_pool \<Rightarrow> nat \<Rightarrow> bool" where
  "slot_available p j \<longleftrightarrow> is_available (pl_upstreams p ! slot p j) (pl_threshold p)"

lemma slot_advance: "slot (p\<lparr>pl_cursor := pl_cursor p + 1\<rparr>) j = slot p (Suc j)"
  by (simp add: slot_def add.assoc add.commute [of 1])

lemma select_loop_spec:
  "(\<exists>j < n. slot_available p j \<and> (\<forall>i < j. \<not> slot_available p i) \<and>
      select_loop n p = (Some (slot p j), p\<lparr>pl_cursor := pl_cursor p + of_nat (Suc j)\<rparr>)) \<or>
   (\<forall>j < n. \<not> slot_available p j) \<and>
      select_loop n p = (None, p\<lparr>pl_cursor := pl_cursor p + of_nat n\<rparr>)"
proof (induction n arbitrary: p)
  case (Suc n)
  let ?p = "p\<lparr>pl_cursor := pl_cursor p + 1\<rparr>"
  have step: "select_loop (Suc n) p =
      (if slot_available p 0 then (Some (slot p 0), ?p) else select_loop n ?p)"
    by (simp add: slot_available_def slot_def Let_def)
  have shift: "slot_available ?p j = slot_available p (Suc j)" for j
    by (simp add: slot_available_def slot_advance)
  show ?case
  proof (cases "slot_available p 0")
    case True
    then show ?thesis using step by auto
  next
    case False
    with step have eq: "select_loop (Suc n) p = select_loop n ?p" by simp
    from Suc [of ?p] show ?thesis
    proof (elim disjE exE conjE)
      fix j
      assume j: "j < n" "slot_available ?p j" "\<forall>i < j. \<not> slot_available ?p i"
        and r: "select_loop n ?p =
          (Some (slot ?p j), ?p\<lparr>pl_cursor := pl_cursor ?p + of_nat (Suc j)\<rparr>)"
      have "\<not> slot_available p i" if "i < Suc j" for i
        using that j(3) False by (cases i) (auto simp: shift)
      with j r eq show ?thesis
        by (intro disjI1 exI [of _ "Suc j"]) (simp add: shift slot_advance add.assoc)
    next
      assume n: "\<forall>j < n. \<not> slot_available ?p j"
        and r: "select_loop n ?p = (None, ?p\<lparr>pl_cursor := pl_cursor ?p + of_nat n\<rparr>)"
      have "\<not> slot_available p i" if "i < Suc n" for i
        using that n False by (cases i) (auto simp: shift)
      with r eq show ?thesis by (intro disjI2) (simp add: add.assoc)
    qed
  qed
qed simp

lemma select_arc_loop_eq:
  "select_arc_loop n p =
     (case select_loop n p of (Some u, p') \<Rightarrow> (Some u, p')
      | (None, p') \<Rightarrow> (Some (pl_expanded p' ! 0), p'))"
  by (induction n arbitrary: p) (auto simp: Let_def)

lemma select_arc_eq_select: "select_arc p = select p"
  by (simp add: select_arc_def select_def select_arc_loop_eq)

lemma select_frame:
  "pl_upstreams (snd (select p)) = pl_upstreams p"
  "pl_expanded (snd (select p)) = pl_expanded p"
  "pl_threshold (snd (select p)) = pl_threshold p"
  using select_loop_spec [of "length (pl_expanded p)" p]
  by (auto simp: select_def)

lemma slot_in_range:
  assumes "pool_inv p" "pl_expanded p \<noteq> []"
  shows "slot p j < length (pl_upstreams p)"
proof -
  have "slot p j \<in> set (pl_expanded p)"
    using assms(2) unfolding slot_def by (intro nth_mem) simp
  with assms(1) show ?thesis by (auto simp: pool_inv_def dest: expand_weights_range)
qed

lemma select_moves_cursor:
  assumes "select p = (r, p')"
  obtains c where "p' = p\<lparr>pl_cursor := c\<rparr>"
proof -
  have "p' = p\<lparr>pl_cursor := pl_cursor p'\<rparr>"
    using assms select_loop_spec [of "length (pl_expanded p)" p] by (auto simp: select_def split: if_splits)
  then show thesis by (rule that)
qed

lemma select_in_range:
  assumes "pool_inv p" "select p = (Some u, p')"
  shows "u < length (pl_upstreams p)"
proof -
  have ne: "pl_expanded p \<noteq> []" using assms(2) by (auto simp: select_def)
  have "pl_expanded p ! 0 < length (pl_upstreams p)"
    using assms(1) ne by (auto simp: pool_inv_def intro!: expand_weights_range)
  then show ?thesis
    using assms ne slot_in_range [OF assms(1) ne] select_loop_spec [of "length (pl_expanded p)" p]
    by (auto simp: select_def split: if_splits)
qed

lemma select_Some: "pl_expanded p \<noteq> [] \<Longrightarrow> \<exists>u. fst (select p) = Some u"
  by (auto simp: select_def split: prod.splits option.splits)

text \<open>
  While the cursor does not wrap during the call, the tickets of one call visit every slot, so a
  usable upstream is found when there is one.
\<close>

lemma unat_cursor_add:
  fixes w :: usize
  assumes "unat w + j < usize_lim"
  shows "unat (w + of_nat j) = unat w + j"
proof -
  have "unat (of_nat j :: usize) = j"
    using assms by (simp add: unat_of_nat take_bit_nat_eq_self_iff)
  with assms show ?thesis by (simp add: unat_word_ariths)
qed

lemma slot_no_wrap:
  assumes "unat (pl_cursor p) + j < usize_lim"
  shows "slot p j = pl_expanded p ! ((unat (pl_cursor p) + j) mod length (pl_expanded p))"
  using assms by (simp add: slot_def unat_cursor_add)

lemma slots_no_wrap:
  assumes "unat (pl_cursor p) + length (pl_expanded p) \<le> usize_lim"
  shows "map (slot p) [0..<length (pl_expanded p)] = rotate (unat (pl_cursor p)) (pl_expanded p)"
proof (rule nth_equalityI)
  fix j assume "j < length (map (slot p) [0..<length (pl_expanded p)])"
  then have j: "j < length (pl_expanded p)" by simp
  with assms have "unat (pl_cursor p) + j < usize_lim" by simp
  with j show "map (slot p) [0..<length (pl_expanded p)] ! j =
      rotate (unat (pl_cursor p)) (pl_expanded p) ! j"
    by (simp add: slot_no_wrap nth_rotate)
qed simp

lemma select_finds_available:
  assumes inv: "pool_inv p" and many: "length (pl_upstreams p) \<noteq> 1"
    and nowrap: "unat (pl_cursor p) + length (pl_expanded p) \<le> usize_lim"
    and u: "u < length (pl_upstreams p)" "us_weight (st_config (pl_upstreams p ! u)) \<noteq> 0"
    and av: "is_available (pl_upstreams p ! u) (pl_threshold p)"
  shows "\<exists>v p'. select p = (Some v, p') \<and> is_available (pl_upstreams p ! v) (pl_threshold p)"
proof -
  have "0 < count (mset (pl_expanded p)) u"
    using inv u count_expand_weights [of u "pl_upstreams p"]
    by (simp add: pool_inv_def unat_gt_0)
  then have "u \<in> set (pl_expanded p)" by simp
  then have "u \<in> set (map (slot p) [0..<length (pl_expanded p)])" and ne: "pl_expanded p \<noteq> []"
    using slots_no_wrap [OF nowrap] by (auto simp del: set_map)
  then obtain j where "j < length (pl_expanded p)" "slot p j = u" by auto
  with av have "\<exists>j < length (pl_expanded p). slot_available p j"
    by (auto simp: slot_available_def)
  then show ?thesis
    using select_loop_spec [of "length (pl_expanded p)" p] ne many
    by (auto simp: select_def slot_available_def)
qed

text \<open>The same for pools of every size; a pool of one always yields its only member.\<close>

definition usable_member :: "upstream_pool \<Rightarrow> nat \<Rightarrow> bool" where
  "usable_member p u \<longleftrightarrow>
     u < length (pl_upstreams p) \<and> us_weight (st_config (pl_upstreams p ! u)) \<noteq> 0 \<and>
     is_available (pl_upstreams p ! u) (pl_threshold p)"

lemma select_prefers_available:
  assumes "pool_inv p" "select p = (Some i, p')"
    "unat (pl_cursor p) + length (pl_expanded p) \<le> usize_lim" "usable_member p u"
  shows "is_available (pl_upstreams p ! i) (pl_threshold p)"
proof (cases "length (pl_upstreams p) = 1")
  case True
  with select_in_range [OF assms(1,2)] assms(4) show ?thesis by (auto simp: usable_member_def)
next
  case False
  with select_finds_available [OF assms(1) False assms(3)] assms(2,4) show ?thesis by (auto simp: usable_member_def)
qed

lemma select_none_available:
  assumes "pl_expanded p \<noteq> []" "length (pl_upstreams p) \<noteq> 1"
    "\<forall>u \<in> set (pl_expanded p). \<not> is_available (pl_upstreams p ! u) (pl_threshold p)"
  shows "fst (select p) = Some (pl_expanded p ! 0)"
proof -
  have "\<not> slot_available p j" for j
    using assms by (simp add: slot_available_def slot_def)
  then show ?thesis
    using select_loop_spec [of "length (pl_expanded p)" p] assms(1,2)
    by (auto simp: select_def)
qed

text \<open>With every upstream usable, each call takes exactly one ticket.\<close>

definition all_available :: "upstream_pool \<Rightarrow> bool" where
  "all_available p \<longleftrightarrow>
     (\<forall>u \<in> set (pl_expanded p). is_available (pl_upstreams p ! u) (pl_threshold p))"

lemma select_all_available:
  assumes "all_available p" "pl_expanded p \<noteq> []" "length (pl_upstreams p) \<noteq> 1"
  shows "select p = (Some (slot p 0), p\<lparr>pl_cursor := pl_cursor p + 1\<rparr>)"
proof -
  obtain n where "length (pl_expanded p) = Suc n" using assms(2) by (cases "pl_expanded p") auto
  then show ?thesis using assms by (simp add: select_def all_available_def slot_def Let_def)
qed

lemma select_run_all_available:
  assumes "all_available p" "pl_expanded p \<noteq> []" "length (pl_upstreams p) \<noteq> 1"
  shows "fst (select_run select n p) = map (\<lambda>j. Some (slot p j)) [0..<n]"
  using assms
proof (induction n arbitrary: p)
  case (Suc n)
  let ?p = "p\<lparr>pl_cursor := pl_cursor p + 1\<rparr>"
  have "fst (select_run select n ?p) = map (\<lambda>j. Some (slot p (Suc j))) [0..<n]"
    using Suc.IH [of ?p] Suc.prems by (simp add: all_available_def slot_advance)
  moreover have "[0..<Suc n] = 0 # map Suc [0..<n]"
    by (simp add: map_Suc_upt upt_conv_Cons)
  ultimately show ?case using select_all_available [OF Suc.prems]
    by (simp add: Let_def case_prod_beta comp_def del: upt_Suc)
qed simp

lemma count_map_Some: "count (mset (map Some xs)) (Some u) = count (mset xs) u"
  by (induction xs) auto

lemma mset_rotate: "mset (rotate n xs) = mset xs"
proof (induction n)
  case (Suc n)
  have "mset (rotate1 ys) = mset ys" for ys :: "'a list" by (cases ys) auto
  with Suc show ?case by simp
qed simp

lemma weighted_round:
  assumes inv: "pool_inv p" and av: "all_available p" and many: "length (pl_upstreams p) \<noteq> 1"
    and nowrap: "unat (pl_cursor p) + length (pl_expanded p) \<le> usize_lim"
    and u: "u < length (pl_upstreams p)"
  shows "count (mset (fst (select_run select (length (pl_expanded p)) p))) (Some u) =
     unat (us_weight (st_config (pl_upstreams p ! u)))"
proof (cases "pl_expanded p = []")
  case True
  then show ?thesis using count_expand_weights [OF u] inv by (simp add: pool_inv_def)
next
  case False
  have "fst (select_run select (length (pl_expanded p)) p) =
      map Some (rotate (unat (pl_cursor p)) (pl_expanded p))"
    unfolding select_run_all_available [OF av False many] slots_no_wrap [OF nowrap, symmetric]
    by simp
  then have "count (mset (fst (select_run select (length (pl_expanded p)) p))) (Some u) =
      count (mset (rotate (unat (pl_cursor p)) (pl_expanded p))) u"
    by (simp only: count_map_Some)
  also have "\<dots> = count (mset (pl_expanded p)) u" by (simp only: mset_rotate)
  finally show ?thesis using count_expand_weights [OF u] inv by (simp add: pool_inv_def)
qed

section \<open>The interface the proxy engines use\<close>

text \<open>
  An engine only relies on this much of a selector: it answers with an upstream of the pool
  whenever the pool has a positive weight, and leaves everything but the cursor alone.
\<close>

locale selector =
  fixes sel :: "upstream_pool \<Rightarrow> nat option \<times> upstream_pool"
  assumes sel_range: "pool_inv p \<Longrightarrow> sel p = (Some u, p') \<Longrightarrow> u < length (pl_upstreams p)"
    and sel_total: "pl_expanded p \<noteq> [] \<Longrightarrow> \<exists>u. fst (sel p) = Some u"
    and sel_upstreams: "pl_upstreams (snd (sel p)) = pl_upstreams p"
    and sel_expanded: "pl_expanded (snd (sel p)) = pl_expanded p"
    and sel_threshold: "pl_threshold (snd (sel p)) = pl_threshold p"
begin

lemma sel_inv: "pool_inv p \<Longrightarrow> pool_inv (snd (sel p))"
  by (simp add: pool_inv_def sel_upstreams sel_expanded)

lemma run_frame: "pl_upstreams (snd (select_run sel n p)) = pl_upstreams p"
proof (induction n arbitrary: p)
  case (Suc n)
  then show ?case
    using sel_upstreams [of p] by (simp add: Let_def split: prod.splits) (metis snd_conv)
qed simp

lemma run_in_range:
  assumes "pool_inv p" "Some u \<in> set (fst (select_run sel n p))"
  shows "u < length (pl_upstreams p)"
  using assms
proof (induction n arbitrary: p)
  case (Suc n)
  obtain r p' where r: "sel p = (r, p')" by force
  then have p': "pool_inv p'" "pl_upstreams p' = pl_upstreams p"
    using sel_inv [OF Suc.prems(1)] sel_upstreams [of p] by simp_all
  from Suc.prems(2) r consider "r = Some u" | "Some u \<in> set (fst (select_run sel n p'))"
    by (auto simp: Let_def case_prod_beta)
  then show ?case
  proof cases
    case 1
    with r show ?thesis by (simp add: sel_range [OF Suc.prems(1)])
  next
    case 2
    with Suc.IH [OF p'(1)] p'(2) show ?thesis by simp
  qed
qed simp

end

interpretation by_ref: selector select
  by unfold_locales (auto simp: select_frame intro: select_in_range select_Some)

interpretation by_arc: selector select_arc
  unfolding select_arc_eq_select [abs_def]
  by unfold_locales (auto simp: select_frame intro: select_in_range select_Some)

section \<open>Construction\<close>

lemma uri_base_parse_Ok:
  assumes "authority_is_header E" "lib_parse_uri E url = Some u" "uri_authority u = Some a"
  shows "\<exists>b. uri_base_parse E url = Ok b \<and> auth_text (ub_authority b) = auth_text a \<and>
    ub_host_header b = auth_text a"
  using assms by (auto simp: uri_base_parse_def authority_is_header_def)

lemma upstream_new_Ok:
  assumes "authority_is_header E" "upstream_ok E c"
  shows "\<exists>s. upstream_new E i c = Ok (s, i + 1) \<and> st_config s = c \<and> st_id s = i \<and>
    st_active_healthy s \<and> st_passive_failures s = 0"
proof -
  from assms(2) obtain u a where "lib_parse_uri E (us_url c) = Some u" "uri_authority u = Some a"
    by (auto simp: upstream_ok_def)
  from uri_base_parse_Ok [OF assms(1) this] show ?thesis by (auto simp: upstream_new_def)
qed

lemma upstreams_new_Ok:
  assumes "authority_is_header E" "\<forall>c \<in> set cs. upstream_ok E c"
  shows "\<exists>ss. upstreams_new E i cs = Ok (ss, i + of_nat (length cs)) \<and> map st_config ss = cs \<and>
    map st_id ss = map (\<lambda>k. i + of_nat k) [0..<length cs]"
  using assms(2)
proof (induction cs arbitrary: i)
  case (Cons c cs)
  obtain s where s: "upstream_new E i c = Ok (s, i + 1)" "st_config s = c" "st_id s = i"
    using upstream_new_Ok [OF assms(1), of c i] Cons.prems by auto
  obtain ss where ss: "upstreams_new E (i + 1) cs = Ok (ss, i + 1 + of_nat (length cs))"
      "map st_config ss = cs" "map st_id ss = map (\<lambda>k. i + 1 + of_nat k) [0..<length cs]"
    using Cons.IH [of "i + 1"] Cons.prems by auto
  have "map (\<lambda>k. i + of_nat k) [0..<Suc (length cs)] =
      i # map (\<lambda>k. i + 1 + of_nat k) [0..<length cs]"
    by (subst upt_conv_Cons) (simp_all add: map_Suc_upt [symmetric] add.assoc del: upt_Suc)
  with s ss show ?case by (simp add: add.assoc)
qed simp

lemma pool_new_Ok:
  assumes "authority_is_header E" "pool_ok E cfg"
  shows "\<exists>p. pool_new E i cfg = Ok (p, i + of_nat (length (up_upstreams cfg))) \<and> pool_inv p \<and>
    map st_config (pl_upstreams p) = up_upstreams cfg \<and> pl_cursor p = 0 \<and>
    length (pl_expanded p) = pool_weight cfg \<and> pl_expanded p \<noteq> [] \<and>
    map st_id (pl_upstreams p) = map (\<lambda>k. i + of_nat k) [0..<length (up_upstreams cfg)]"
proof -
  obtain ss where ss: "upstreams_new E i (up_upstreams cfg) =
      Ok (ss, i + of_nat (length (up_upstreams cfg)))" "map st_config ss = up_upstreams cfg"
      "map st_id ss = map (\<lambda>k. i + of_nat k) [0..<length (up_upstreams cfg)]"
    using upstreams_new_Ok [OF assms(1), of "up_upstreams cfg" i] assms(2)
    by (auto simp: pool_ok_def)
  have len: "length (expand_weights ss) = pool_weight cfg"
    using ss(2) by (auto simp: length_expand_weights pool_weight_def simp flip: ss(2)
        intro!: arg_cong [of _ _ sum_list])
  obtain c cs where c: "up_upstreams cfg = c # cs" "upstream_ok E c"
    using assms(2) by (cases "up_upstreams cfg") (auto simp: pool_ok_def)
  then have "0 < pool_weight cfg" by (simp add: pool_weight_def upstream_ok_def)
  with len ss show ?thesis by (auto simp: pool_new_def pool_inv_def)
qed

section \<open>Properties\<close>

text \<open>Two upstreams of weights 2 and 1, the first one marked down, as built by \<^verbatim>\<open>UpstreamPool::new\<close>.\<close>

definition sample_pool_config :: upstream_pool_config where
  "sample_pool_config = default_upstream_pool
     \<lparr>up_upstreams := [default_upstream\<lparr>us_weight := 2\<rparr>, default_upstream]\<rparr>"

definition sample_pool :: upstream_pool where
  "sample_pool =
     (case pool_new sample_lib 0 sample_pool_config of
        Ok (p, _) \<Rightarrow> p
      | _ \<Rightarrow> \<lparr>pl_upstreams = [], pl_expanded = [], pl_cursor = 0, pl_threshold = 0\<rparr>)"

definition sample_pool_down :: upstream_pool where
  "sample_pool_down = pool_update (mark_failure \<circ> mark_failure \<circ> mark_failure) 0 sample_pool"

lemma sample_pool_facts:
  "pool_inv sample_pool" "pl_expanded sample_pool = [0, 0, 1]" "length (pl_upstreams sample_pool) = 2"
  "unat (pl_cursor sample_pool) = 0" "list_all (\<lambda>u. is_available u (pl_threshold sample_pool)) (pl_upstreams sample_pool)"
  "us_weight (st_config (pl_upstreams sample_pool ! 0)) = 2"
  by code_simp+

lemma sample_pool_down_facts:
  "pool_inv sample_pool_down" "pl_expanded sample_pool_down = [0, 0, 1]"
  "length (pl_upstreams sample_pool_down) = 2" "unat (pl_cursor sample_pool_down) = 0"
  "us_weight (st_config (pl_upstreams sample_pool_down ! 1)) \<noteq> 0"
  "is_available (pl_upstreams sample_pool_down ! 1) (pl_threshold sample_pool_down)"
  "\<not> is_available (pl_upstreams sample_pool_down ! 0) (pl_threshold sample_pool_down)"
  by code_simp+

text \<open>
  C13. Weighted round robin is exact. When every upstream of a pool is available and the cursor
  does not wrap around during the round, any round of as many selections as the total weight
  hands out each upstream exactly as often as its configured weight says, wherever the cursor stands.
\<close>

theorem select_weighted_round:
  assumes "pool_inv p" "all_available p" "length (pl_upstreams p) \<noteq> 1"
    "unat (pl_cursor p) + length (pl_expanded p) \<le> usize_lim" "u < length (pl_upstreams p)"
  shows "count (mset (fst (select_run select (length (pl_expanded p)) p))) (Some u) =
    unat (us_weight (st_config (pl_upstreams p ! u)))"
  by (rule weighted_round [OF assms])

theorem select_weighted_round_witness:
  "count (mset (fst (select_run select (length (pl_expanded sample_pool)) sample_pool))) (Some 0) = 2"
proof -
  have av: "all_available sample_pool"
    using sample_pool_facts(2,3,5) by (auto simp: all_available_def list_all_length)
  show ?thesis
    using select_weighted_round [OF sample_pool_facts(1) av, of 0] sample_pool_facts(2,3,4,6)
    by (simp del: select_run.simps)
qed

text \<open>
  Selection avoids failed upstreams: if some upstream of a pool with several members has a
  positive weight and is available, then \<^verbatim>\<open>select\<close> returns an available upstream (provided the
  cursor does not wrap around during the call). With no upstream available it falls back to the
  first slot instead of refusing the request.
\<close>

theorem select_returns_available:
  assumes "pool_inv p" "length (pl_upstreams p) \<noteq> 1"
    "unat (pl_cursor p) + length (pl_expanded p) \<le> usize_lim" "pl_expanded p \<noteq> []"
  shows "(\<forall>u < length (pl_upstreams p). us_weight (st_config (pl_upstreams p ! u)) \<noteq> 0 \<longrightarrow>
      is_available (pl_upstreams p ! u) (pl_threshold p) \<longrightarrow>
      (\<exists>v p'. select p = (Some v, p') \<and> is_available (pl_upstreams p ! v) (pl_threshold p))) \<and>
    ((\<forall>u \<in> set (pl_expanded p). \<not> is_available (pl_upstreams p ! u) (pl_threshold p)) \<longrightarrow>
      fst (select p) = Some (pl_expanded p ! 0))"
  using select_finds_available [OF assms(1-3)] select_none_available [OF assms(4,2)] by blast

theorem select_returns_available_witness:
  "\<exists>p'. select sample_pool_down = (Some 1, p')"
proof -
  have "\<exists>v p'. select sample_pool_down = (Some v, p') \<and>
      is_available (pl_upstreams sample_pool_down ! v) (pl_threshold sample_pool_down)"
    using select_returns_available [of sample_pool_down, THEN conjunct1, rule_format, of 1]
      sample_pool_down_facts by simp
  then obtain v p' where v: "select sample_pool_down = (Some v, p')"
    "is_available (pl_upstreams sample_pool_down ! v) (pl_threshold sample_pool_down)" by blast
  have "v < 2" using select_in_range [OF sample_pool_down_facts(1) v(1)] sample_pool_down_facts(3) by simp
  moreover have "v \<noteq> 0" using v(2) sample_pool_down_facts(7) by metis
  ultimately have "v = 1" by simp
  with v(1) show ?thesis by blast
qed

text \<open>
  The two selection entry points agree: \<^verbatim>\<open>select_arc\<close> returns the same upstream and leaves
  the same cursor as \<^verbatim>\<open>select\<close>, in every state, including the fallback.
\<close>

theorem select_arc_is_select: "select_arc p = select p"
  by (rule select_arc_eq_select)

text \<open>
  Passive health: starting from a healthy upstream, fewer consecutive failures than the
  threshold leave it available, and the failure that reaches the threshold takes it out of
  rotation; one success makes it available again if the threshold is positive.
\<close>

theorem passive_failure_threshold:
  assumes "st_active_healthy s" "st_passive_failures s = 0" "n < usize_lim"
  shows "(is_available ((mark_failure ^^ n) s) t \<longleftrightarrow> n < unat t) \<and>
    (is_available (mark_success ((mark_failure ^^ n) s)) t \<longleftrightarrow> t \<noteq> 0)"
proof -
  have "unat (of_nat n :: usize) = n"
    using assms(3) by (simp add: unat_of_nat take_bit_nat_eq_self_iff)
  then show ?thesis
    using assms by (simp add: is_available_iff failures_after active_after unat_gt_0)
qed

theorem passive_failure_threshold_witness:
  "\<not> is_available ((mark_failure ^^ 3) (pl_upstreams sample_pool ! 0)) 3 \<and>
   is_available (mark_success ((mark_failure ^^ 3) (pl_upstreams sample_pool ! 0))) 3"
proof -
  have s: "st_active_healthy (pl_upstreams sample_pool ! 0)"
    "st_passive_failures (pl_upstreams sample_pool ! 0) = 0" by code_simp+
  show ?thesis using passive_failure_threshold [OF s, of 3 3] by simp
qed

text \<open>
  Path rewriting: an upstream with base path \<open>base\<close> receives \<open>base\<close> followed by the request
  path with its leading slashes reduced to one, and the result is always an absolute path.
\<close>

theorem path_for_upstream_joins:
  assumes "pq = replicate n (CHR ''/'') @ r" "\<not> starts_with r ''/''" "base \<noteq> []" "starts_with base ''/''"
  shows "path_for_upstream base pq = (if r = [] then base else base @ ''/'' @ r) \<and>
    starts_with (path_for_upstream base pq) ''/''"
  using path_for_upstream_split [OF assms(1-3)] path_for_upstream_absolute [of base pq] assms(4)
  by simp

theorem path_for_upstream_joins_witness:
  "path_for_upstream ''/api'' ''//v1/users'' = ''/api/v1/users''"
  using path_for_upstream_joins [of "''//v1/users''" 2 "''v1/users''" "''/api''"]
  by (simp add: numeral_2_eq_2)

end
