(* ===== verification/Rate_Limit.thy ===== *)
theory Rate_Limit
  imports Config "HOL-Library.AList"
begin

text \<open>
  The per-client token bucket of \<^verbatim>\<open>src/src/proxy/rate_limit.rs\<close>, in the single-precision arithmetic
  of the source. A shard (\<^verbatim>\<open>Mutex<HashMap<IpAddr, TokenBucket>>\<close>) is an association list with
  distinct keys; the lock makes every call of \<^verbatim>\<open>acquire\<close> one atomic step. Instants are nanoseconds,
  passed in as \<open>now\<close>. The hash of \<^verbatim>\<open>DefaultHasher\<close> is unspecified by its documentation and is the
  parameter \<open>hash\<close>.

  Shown here: the stored tokens stay between 0 and the capacity, a shard never exceeds 2049 entries,
  a client can take exactly its capacity in a burst, and forgetting a client whose bucket has
  refilled is invisible: the bounded, sharded limiter answers like an unbounded map of buckets.
\<close>

section \<open>Definitions\<close>

definition RATE_LIMIT_SHARDS :: nat where
  "RATE_LIMIT_SHARDS = 32"

record token_bucket =
  tb_tokens :: f32
  tb_last_update :: nat

type_synonym shard = "(ip_addr \<times> token_bucket) list"

record rate_limiter =
  lim_capacity :: f32
  lim_fill_rate :: f32
  lim_shards :: "shard list"

definition rate_limiter_new :: "u32 \<Rightarrow> f32 \<Rightarrow> rate_limiter" where
  "rate_limiter_new capacity fill_rate =
     \<lparr>lim_capacity = f32_of_nat (unat capacity), lim_fill_rate = fill_rate,
      lim_shards = replicate RATE_LIMIT_SHARDS []\<rparr>"

definition shard_idx :: "(ip_addr \<Rightarrow> u64) \<Rightarrow> ip_addr \<Rightarrow> nat" where
  "shard_idx hash ip = unat (hash ip) mod RATE_LIMIT_SHARDS"

text \<open>\<^verbatim>\<open>Instant::duration_since\<close> saturates at zero; \<^verbatim>\<open>Duration::as_secs_f32\<close> adds seconds and fraction.\<close>

definition duration_since :: "nat \<Rightarrow> nat \<Rightarrow> nat" where
  "duration_since now earlier = now - earlier"

definition as_secs_f32 :: "nat \<Rightarrow> f32" where
  "as_secs_f32 d =
     f32_add (f32_of_nat (d div 10 ^ 9))
       (f32_div (f32_of_nat (d mod 10 ^ 9)) (f32_of_nat (10 ^ 9)))"

definition retained :: "rate_limiter \<Rightarrow> nat \<Rightarrow> token_bucket \<Rightarrow> bool" where
  "retained L now b \<longleftrightarrow>
     f32_less (as_secs_f32 (duration_since now (tb_last_update b)))
       (f32_mul (f32_div (lim_capacity L) (lim_fill_rate L)) (Fin 2))"

definition prune_shard :: "rate_limiter \<Rightarrow> nat \<Rightarrow> shard \<Rightarrow> shard" where
  "prune_shard L now g =
     (if 1024 < length g then
        (let g' = filter (\<lambda>(_, b). retained L now b) g
         in if 2048 < length g' then [] else g')
      else g)"

definition entry_or_insert :: "rate_limiter \<Rightarrow> nat \<Rightarrow> token_bucket option \<Rightarrow> token_bucket" where
  "entry_or_insert L now e =
     (case e of Some b \<Rightarrow> b
      | None \<Rightarrow> \<lparr>tb_tokens = lim_capacity L, tb_last_update = now\<rparr>)"

definition refill :: "rate_limiter \<Rightarrow> nat \<Rightarrow> token_bucket \<Rightarrow> f32" where
  "refill L now b =
     (let elapsed = as_secs_f32 (duration_since now (tb_last_update b));
          tokens = f32_add (tb_tokens b) (f32_mul elapsed (lim_fill_rate L))
      in if f32_less (lim_capacity L) tokens then lim_capacity L else tokens)"

definition take_token :: "rate_limiter \<Rightarrow> nat \<Rightarrow> token_bucket \<Rightarrow> bool \<times> token_bucket" where
  "take_token L now b =
     (let tokens = refill L now b
      in if f32_le (Fin 1) tokens
         then (True, \<lparr>tb_tokens = f32_sub tokens (Fin 1), tb_last_update = now\<rparr>)
         else (False, \<lparr>tb_tokens = tokens, tb_last_update = now\<rparr>))"

definition acquire ::
  "(ip_addr \<Rightarrow> u64) \<Rightarrow> nat \<Rightarrow> ip_addr \<Rightarrow> rate_limiter \<Rightarrow> bool \<times> rate_limiter" where
  "acquire hash now ip L =
     (let idx = shard_idx hash ip;
          guard = prune_shard L now (lim_shards L ! idx);
          (admitted, bucket) = take_token L now (entry_or_insert L now (map_of guard ip))
      in (admitted, L\<lparr>lim_shards := (lim_shards L)[idx := AList.update ip bucket guard]\<rparr>))"

text \<open>The reference: one unbounded map from clients to buckets, with the same bucket arithmetic.\<close>

type_synonym bucket_map = "ip_addr \<Rightarrow> token_bucket option"

definition ref_acquire ::
  "rate_limiter \<Rightarrow> nat \<Rightarrow> ip_addr \<Rightarrow> bucket_map \<Rightarrow> bool \<times> bucket_map" where
  "ref_acquire L now ip m =
     (let (admitted, bucket) = take_token L now (entry_or_insert L now (m ip))
      in (admitted, m(ip \<mapsto> bucket)))"

definition lookup_bucket :: "(ip_addr \<Rightarrow> u64) \<Rightarrow> rate_limiter \<Rightarrow> bucket_map" where
  "lookup_bucket hash L ip = map_of (lim_shards L ! shard_idx hash ip) ip"

section \<open>The limits a validated configuration gives\<close>

text \<open>Capacity at least one, a positive finite fill rate; both are floats.\<close>

definition limits_ok :: "rate_limiter \<Rightarrow> bool" where
  "limits_ok L \<longleftrightarrow>
     (\<exists>c q. lim_capacity L = Fin c \<and> representable c \<and> 1 \<le> c \<and>
        lim_fill_rate L = Fin q \<and> representable q \<and> 0 < q)"

definition bucket_ok :: "rate_limiter \<Rightarrow> token_bucket \<Rightarrow> bool" where
  "bucket_ok L b \<longleftrightarrow>
     (\<exists>t. tb_tokens b = Fin t \<and> 0 \<le> t \<and> f32_le (Fin t) (lim_capacity L))"

definition limiter_inv :: "(ip_addr \<Rightarrow> u64) \<Rightarrow> rate_limiter \<Rightarrow> bool" where
  "limiter_inv hash L \<longleftrightarrow>
     length (lim_shards L) = RATE_LIMIT_SHARDS \<and>
     (\<forall>i < RATE_LIMIT_SHARDS.
        length (lim_shards L ! i) \<le> 2049 \<and> distinct (map fst (lim_shards L ! i)) \<and>
        (\<forall>(ip, b) \<in> set (lim_shards L ! i). shard_idx hash ip = i \<and> bucket_ok L b))"

lemma shard_idx_less [simp]: "shard_idx hash ip < RATE_LIMIT_SHARDS"
  by (simp add: shard_idx_def RATE_LIMIT_SHARDS_def)

lemma limits_ok_new:
  assumes "cap \<noteq> 0" "representable q" "0 < q"
  shows "limits_ok (rate_limiter_new cap (Fin q))"
proof -
  have "unat cap < 2 ^ 32" using unsigned_less [of cap, where 'a = nat] by simp
  then have le: "unat cap \<le> 2 ^ 64" by simp
  have "1 \<le> unat cap" using assms(1) by (simp add: Suc_leI unat_gt_0)
  then show ?thesis using assms(2,3) f32_of_nat_bounded(1,2) [OF le] rnd_of_nat_ge_1 [of "unat cap"]
    by (simp add: limits_ok_def rate_limiter_new_def)
qed

lemma limiter_inv_new: "limiter_inv hash (rate_limiter_new cap fill)"
  by (simp add: limiter_inv_def rate_limiter_new_def)

section \<open>Elapsed time\<close>

definition secs :: "nat \<Rightarrow> rat" where
  "secs d = rnd (rnd (of_nat (d div 10 ^ 9)) + rnd (rnd (of_nat (d mod 10 ^ 9)) / 10 ^ 9))"

lemma representable_billion: "representable (10 ^ 9)"
proof (rule representable_multiple [of _ 1953125 158])
  show "binade (10 ^ 9) \<le> 158"
  proof (rule ccontr)
    assume "\<not> binade (10 ^ 9) \<le> 158"
    then have "2 ^ 24 * ulp 158 \<le> (10 ^ 9 :: rat)" by (intro binade_lower) simp
    then show False by (simp add: ulp_def)
  qed
qed (simp_all add: ulp_def)

lemma billion_f32: "f32_of_nat (10 ^ 9) = Fin (10 ^ 9)"
  using f32_of_rat_representable [OF representable_billion] by (simp add: f32_of_nat_def)

text \<open>The fraction of a second is at most one.\<close>

lemma fraction_le:
  assumes "n < 10 ^ 9"
  shows "rnd (of_nat n) / 10 ^ 9 \<le> 1" "rnd (rnd (of_nat n) / 10 ^ 9) \<le> 1"
proof -
  have "(of_nat n :: rat) \<le> 10 ^ 9"
    using assms of_nat_mono [of n "10 ^ 9", where 'a = rat] by simp
  then have "rnd (of_nat n) \<le> 10 ^ 9" by (rule rnd_le [OF representable_billion])
  then show le: "rnd (of_nat n) / 10 ^ 9 \<le> 1" by simp
  show "rnd (rnd (of_nat n) / 10 ^ 9) \<le> 1"
    using representable_of_nat [of 1] le by (intro rnd_le) simp_all
qed

lemma as_secs_f32_eq:
  assumes "d div 10 ^ 9 < 2 ^ 64"
  shows "as_secs_f32 d = Fin (secs d)"
proof -
  let ?n = "d mod 10 ^ 9" and ?s = "d div 10 ^ 9"
  have n: "f32_of_nat ?n = Fin (rnd (of_nat ?n))"
    by (rule f32_of_nat_bounded) (simp add: less_imp_le [OF order_less_trans [of _ "10 ^ 9"]])
  have one: "representable 1" using representable_of_nat [of 1] by simp
  have frac: "0 \<le> rnd (of_nat ?n) / (10 ^ 9 :: rat)" by (simp add: rnd_nonneg)
  have q: "f32_div (f32_of_nat ?n) (f32_of_nat (10 ^ 9)) = Fin (rnd (rnd (of_nat ?n) / 10 ^ 9))"
    using f32_of_rat_le [OF one frac fraction_le(1)] unfolding n billion_f32 by simp
  have s: "f32_of_nat ?s = Fin (rnd (of_nat ?s))" "rnd (of_nat ?s) \<le> 2 ^ 64"
    using assms by (intro f32_of_nat_bounded; simp)+
  have "rnd (of_nat ?s) + rnd (rnd (of_nat ?n) / 10 ^ 9) \<le> 2 ^ 64 + 1"
    using s(2) fraction_le(2) [of ?n] by (intro add_mono) simp_all
  also have "\<dots> \<le> (2 ^ 65 :: rat)" by simp
  finally have le: "rnd (of_nat ?s) + rnd (rnd (of_nat ?n) / 10 ^ 9) \<le> (2 ^ 65 :: rat)" .
  have "0 \<le> rnd (of_nat ?s) + rnd (rnd (of_nat ?n) / 10 ^ 9)"
    using frac by (simp add: rnd_nonneg)
  from f32_of_rat_le [OF representable_power this le] show ?thesis
    unfolding as_secs_f32_def q s(1) by (simp add: secs_def)
qed

lemma secs_nonneg: "0 \<le> secs d"
  unfolding secs_def by (intro rnd_nonneg add_nonneg_nonneg divide_nonneg_nonneg) simp_all

lemma secs_0 [simp]: "secs 0 = 0"
  using rnd_representable [OF representable_0] by (simp add: secs_def)

text \<open>Rounding can make a later reading smaller, but never by more than an eighth.\<close>

lemma secs_almost_mono:
  assumes le: "d \<le> d'" and bound: "d' div 10 ^ 9 < 2 ^ 64"
  shows "(7 / 8) * secs d \<le> secs d'"
proof (cases "d div 10 ^ 9 = d' div 10 ^ 9")
  case True
  then have "d mod 10 ^ 9 \<le> d' mod 10 ^ 9"
    using le by (metis add_le_cancel_left mult_div_mod_eq)
  then have "rnd (of_nat (d mod 10 ^ 9)) / 10 ^ 9 \<le> rnd (of_nat (d' mod 10 ^ 9)) / (10 ^ 9 :: rat)"
    by (intro divide_right_mono rnd_mono of_nat_mono) simp_all
  then have "secs d \<le> secs d'"
    unfolding secs_def True by (intro rnd_mono add_left_mono) simp
  with secs_nonneg [of d] show ?thesis by linarith
next
  case False
  let ?s = "d div 10 ^ 9"
  have s: "?s < d' div 10 ^ 9" using False div_le_mono [OF le] by (metis le_neq_implies_less)
  then have s64: "?s + 1 \<le> 2 ^ 64" using bound by simp
  have rep: "representable (rnd (of_nat (?s + 1)))" using s64 by (rule f32_of_nat_bounded)
  have "rnd (of_nat (?s + 1)) \<le> rnd (of_nat (d' div 10 ^ 9))"
    using s by (intro rnd_mono of_nat_mono) simp
  also have "\<dots> \<le> rnd (of_nat (d' div 10 ^ 9)) + rnd (rnd (of_nat (d' mod 10 ^ 9)) / 10 ^ 9)"
    by (simp add: rnd_nonneg)
  finally have lower: "rnd (of_nat (?s + 1)) \<le> secs d'"
    unfolding secs_def by (rule rnd_ge [OF rep])
  have upper: "secs d \<le> rnd (rnd (of_nat ?s) + 1)"
    unfolding secs_def by (intro rnd_mono add_left_mono fraction_le(2)) simp
  show ?thesis
  proof (cases "?s \<le> 2 ^ 24")
    case True
    then have "rnd (of_nat ?s) = of_nat ?s" by (intro rnd_representable representable_of_nat)
    with upper have "secs d \<le> rnd (of_nat (?s + 1))" by (simp add: add.commute)
    with lower secs_nonneg [of d] show ?thesis by linarith
  next
    case False
    have arith: "(7 / 8) * a \<le> e"
      if "a \<le> p" "p \<le> (9 / 8) * (R + 1)" "R \<le> R1" "R1 \<le> e" "64 \<le> R" for a p R R1 e :: rat
    proof -
      have "7 * a \<le> 7 * ((9 / 8) * (R + 1))" using that(1,2) by linarith
      also have "\<dots> \<le> 8 * R" using that(5) by (simp add: field_simps)
      finally show ?thesis using that(3,4) by (simp add: field_simps)
    qed
    have big: "64 \<le> rnd (of_nat ?s)"
      using False representable_of_nat [of 64] by (intro rnd_ge) simp_all
    then have err: "rnd (rnd (of_nat ?s) + 1) \<le> (9 / 8) * (rnd (of_nat ?s) + 1)"
      by (intro rnd_upper_rel) simp
    have "rnd (of_nat ?s) \<le> rnd (of_nat (?s + 1))"
      by (intro rnd_mono of_nat_mono) simp
    from arith [OF upper err this lower big] show ?thesis .
  qed
qed

section \<open>One bucket\<close>

lemma refill_ok:
  assumes L: "limits_ok L" and b: "bucket_ok L b" and d: "now div 10 ^ 9 < 2 ^ 64"
  obtains r where "refill L now b = Fin r" "0 \<le> r" "f32_le (Fin r) (lim_capacity L)"
proof -
  let ?d = "duration_since now (tb_last_update b)"
  obtain c q where c: "lim_capacity L = Fin c" "representable c" "1 \<le> c"
    and q: "lim_fill_rate L = Fin q" "0 < q" using L by (auto simp: limits_ok_def)
  obtain t where t: "tb_tokens b = Fin t" "0 \<le> t" using b by (auto simp: bucket_ok_def)
  have "?d div 10 ^ 9 \<le> now div 10 ^ 9" by (rule div_le_mono) (simp add: duration_since_def)
  with d have e: "as_secs_f32 ?d = Fin (secs ?d)" by (intro as_secs_f32_eq) simp
  have mul: "0 \<le> secs ?d * q" using q(2) secs_nonneg by simp
  define M where "M = f32_mul (Fin (secs ?d)) (Fin q)"
  have refill: "refill L now b =
      (if f32_less (Fin c) (f32_add (Fin t) M) then Fin c else f32_add (Fin t) M)"
    by (simp only: refill_def e q c(1) t(1) Let_def M_def)
  consider "M = PInf"
    | m where "M = Fin m" "0 \<le> m"
    using mul by (cases "2 ^ 128 \<le> rnd (secs ?d * q)") (auto simp: M_def f32_of_rat_def rnd_nonneg)
  then obtain r where "refill L now b = Fin r" "0 \<le> r" "r \<le> c"
  proof cases
    case 1
    with that [of c] c show ?thesis by (simp add: refill)
  next
    case 2
    have "0 \<le> rnd (t + m)" using t 2 by (intro rnd_nonneg) simp
    then show ?thesis
      using that [of c] that [of "rnd (t + m)"] c t 2(2)
      by (cases "c < rnd (t + m)"; cases "2 ^ 128 \<le> rnd (t + m)")
         (auto simp: refill 2(1) f32_of_rat_def not_less)
  qed
  with that [of r] c(1) show thesis by simp
qed

lemma take_token_ok:
  assumes L: "limits_ok L" and b: "bucket_ok L b" and d: "now div 10 ^ 9 < 2 ^ 64"
  shows "bucket_ok L (snd (take_token L now b))"
proof -
  obtain r where r: "refill L now b = Fin r" "0 \<le> r" "f32_le (Fin r) (lim_capacity L)"
    by (rule refill_ok [OF L b d])
  obtain c where c: "lim_capacity L = Fin c" "representable c"
    using L by (auto simp: limits_ok_def)
  have "bucket_ok L \<lparr>tb_tokens = f32_sub (Fin r) (Fin 1), tb_last_update = now\<rparr>"
    if "1 \<le> r"
  proof -
    have "r - 1 \<le> c" using r(3) c(1) by simp
    with f32_of_rat_le [OF c(2), of "r - 1"] that show ?thesis
      by (simp add: bucket_ok_def f32_sub_def c(1))
  qed
  moreover have "bucket_ok L \<lparr>tb_tokens = Fin r, tb_last_update = now\<rparr>"
    using r by (simp add: bucket_ok_def)
  moreover have "f32_le (Fin 1) (Fin r) \<longleftrightarrow> 1 \<le> r" by (auto simp: f32_le_def)
  ultimately show ?thesis by (simp add: take_token_def r(1) Let_def)
qed

lemma fresh_bucket_ok:
  "limits_ok L \<Longrightarrow> bucket_ok L \<lparr>tb_tokens = lim_capacity L, tb_last_update = now\<rparr>"
  by (auto simp: bucket_ok_def limits_ok_def f32_le_def)

lemma fresh_refill:
  assumes "limits_ok L"
  shows "refill L now \<lparr>tb_tokens = lim_capacity L, tb_last_update = now\<rparr> = lim_capacity L"
proof -
  obtain c q where c: "lim_capacity L = Fin c" "representable c" and q: "lim_fill_rate L = Fin q"
    using assms by (auto simp: limits_ok_def)
  have "as_secs_f32 0 = Fin 0" using as_secs_f32_eq [of 0] by simp
  then show ?thesis
    by (simp add: refill_def duration_since_def c q f32_of_rat_representable)
qed

text \<open>
  A bucket that \<^verbatim>\<open>retain\<close> drops has refilled by then, and stays full at every later instant.
\<close>

definition full_from :: "rate_limiter \<Rightarrow> token_bucket \<Rightarrow> nat \<Rightarrow> bool" where
  "full_from L b now \<longleftrightarrow>
     (\<forall>now' \<ge> now. now' div 10 ^ 9 < 2 ^ 64 \<longrightarrow> refill L now' b = lim_capacity L)"

lemma refill_full:
  assumes c: "lim_capacity L = Fin c" "representable c" and q: "lim_fill_rate L = Fin q"
    and t: "tb_tokens b = Fin t" "0 \<le> t"
    and e: "as_secs_f32 (duration_since now (tb_last_update b)) = Fin e"
    and enough: "1 \<le> e * q" "c \<le> (7 / 8) * (e * q)"
  shows "refill L now b = Fin c"
proof -
  have "(7 / 8) * (e * q) \<le> rnd (e * q)"
    using enough(1) by (intro rnd_lower_rel) (rule order_trans [rotated], assumption, simp)
  then have "c \<le> rnd (e * q)" using enough(2) by (rule order_trans [rotated])
  then have "c \<le> t + rnd (e * q)" using t(2) by simp
  then have le: "c \<le> rnd (t + rnd (e * q))" by (rule rnd_ge [OF c(2)])
  have nn: "0 \<le> e * q" "0 \<le> t + rnd (e * q)"
    using enough(1) t(2) by (auto intro!: add_nonneg_nonneg rnd_nonneg)
  show ?thesis
    by (cases "2 ^ 128 \<le> rnd (e * q)"; cases "2 ^ 128 \<le> rnd (t + rnd (e * q))")
       (use le nn in \<open>simp_all add: refill_def Let_def e q t(1) c(1) f32_of_rat_def not_less
          del: power_numeral\<close>)
qed

lemma threshold_finite:
  assumes "1 \<le> c" "0 < q" "q < 2 ^ 128"
    and fin: "f32_mul (f32_div (Fin c) (Fin q)) (Fin 2) = Fin h"
  shows "(49 / 32) * (c / q) \<le> h"
proof -
  have "1 / 2 ^ 128 \<le> 1 / q" using assms(2,3) by (simp add: field_simps)
  also have "\<dots> \<le> c / q" using assms(1,2) by (simp add: divide_right_mono)
  finally have x: "1 / 2 ^ 128 \<le> c / q" .
  then have r: "(7 / 8) * (c / q) \<le> rnd (c / q)"
    by (intro rnd_lower_rel) (rule order_trans [rotated], assumption, simp)
  define y where "y = rnd (c / q)"
  have y: "(7 / 8) * (c / q) \<le> y" "1 / 2 ^ 129 \<le> 2 * y"
    using r x by (simp_all add: y_def)
  have "0 \<le> c / q" using assms(1,2) by simp
  moreover from this have "0 \<le> y" unfolding y_def by (rule rnd_nonneg)
  ultimately have "h = rnd (2 * y)"
    using fin assms(2) by (auto simp: f32_of_rat_def inf_of_sign_def mult.commute
        simp flip: y_def split: if_splits)
  with rnd_lower_rel [OF y(2)] y(1) show ?thesis by linarith
qed

lemma not_retained_full:
  assumes L: "limits_ok L" and b: "bucket_ok L b" and now: "now div 10 ^ 9 < 2 ^ 64"
    and gone: "\<not> retained L now b"
  shows "full_from L b now"
  unfolding full_from_def
proof (intro allI impI)
  fix now' assume now': "now \<le> now'" "now' div 10 ^ 9 < 2 ^ 64"
  obtain c q where c: "lim_capacity L = Fin c" "representable c" "1 \<le> c"
    and q: "lim_fill_rate L = Fin q" "0 < q" "q < 2 ^ 128"
    using L by (auto simp: limits_ok_def representable_def)
  obtain t where t: "tb_tokens b = Fin t" "0 \<le> t" using b by (auto simp: bucket_ok_def)
  let ?d = "duration_since now (tb_last_update b)"
    and ?d' = "duration_since now' (tb_last_update b)"
  have "?d div 10 ^ 9 \<le> now div 10 ^ 9" "?d' div 10 ^ 9 \<le> now' div 10 ^ 9"
    by (auto intro!: div_le_mono simp: duration_since_def)
  then have d: "?d div 10 ^ 9 < 2 ^ 64" "?d' div 10 ^ 9 < 2 ^ 64" using now now'(2) by simp_all
  have "\<not> f32_less (Fin (secs ?d)) (f32_mul (f32_div (Fin c) (Fin q)) (Fin 2))"
    using gone as_secs_f32_eq [OF d(1)] by (simp add: retained_def c(1) q(1))
  moreover have "f32_mul (f32_div (Fin c) (Fin q)) (Fin 2) = PInf \<or>
      (\<exists>h. f32_mul (f32_div (Fin c) (Fin q)) (Fin 2) = Fin h)"
    using c(3) q(2) by (auto simp: f32_of_rat_def inf_of_sign_def rnd_nonneg)
  ultimately obtain h where h: "f32_mul (f32_div (Fin c) (Fin q)) (Fin 2) = Fin h" "h \<le> secs ?d"
    by (auto simp: not_less)
  have "(7 / 8) * secs ?d \<le> secs ?d'"
    using now'(1) d(2) by (intro secs_almost_mono) (simp_all add: duration_since_def)
  with h(2) threshold_finite [OF c(3) q(2,3) h(1)] have "(343 / 256) * (c / q) \<le> secs ?d'"
    by linarith
  then have "(343 / 256) * c \<le> secs ?d' * q"
    using q(2) by (simp add: field_simps)
  with c(3) have "1 \<le> secs ?d' * q" "c \<le> (7 / 8) * (secs ?d' * q)" by linarith+
  then show "refill L now' b = lim_capacity L"
    unfolding c(1) by (rule refill_full [OF c(1,2) q(1) t as_secs_f32_eq [OF d(2)]])
qed

section \<open>The invariant\<close>

lemma length_alist_update: "length (AList.update k v xs) \<le> Suc (length xs)"
  by (induction xs) auto

lemma set_alist_update: "set (AList.update k v xs) \<subseteq> insert (k, v) (set xs)"
  by (induction xs) auto

lemma prune_shard_length: "length (prune_shard L now g) \<le> 2048"
  if "length g \<le> 2049"
  using that by (auto simp: prune_shard_def Let_def)

lemma prune_shard_subset: "set (prune_shard L now g) \<subseteq> set g"
  by (auto simp: prune_shard_def Let_def)

lemma prune_shard_distinct:
  "distinct (map fst g) \<Longrightarrow> distinct (map fst (prune_shard L now g))"
  by (auto simp: prune_shard_def Let_def distinct_map_filter)

lemma acquire_limits [simp]:
  "lim_capacity (snd (acquire hash now ip L)) = lim_capacity L"
  "lim_fill_rate (snd (acquire hash now ip L)) = lim_fill_rate L"
  by (simp_all add: acquire_def Let_def case_prod_beta)

lemma acquire_shards:
  "lim_shards (snd (acquire hash now ip L)) =
     (let guard = prune_shard L now (lim_shards L ! shard_idx hash ip) in
      (lim_shards L)[shard_idx hash ip := AList.update ip
        (snd (take_token L now (entry_or_insert L now (map_of guard ip)))) guard])"
  by (simp add: acquire_def Let_def case_prod_beta)

lemma limits_cong:
  assumes "lim_capacity L' = lim_capacity L" "lim_fill_rate L' = lim_fill_rate L"
  shows "limits_ok L' = limits_ok L" "bucket_ok L' b = bucket_ok L b"
    "full_from L' b now = full_from L b now" "take_token L' now b = take_token L now b"
    "entry_or_insert L' now e = entry_or_insert L now e"
  unfolding limits_ok_def bucket_ok_def full_from_def refill_def take_token_def
    entry_or_insert_def assms by (rule refl)+

lemma limiter_inv_shard:
  assumes "limiter_inv hash L" "i < RATE_LIMIT_SHARDS"
  shows "length (lim_shards L ! i) \<le> 2049" "distinct (map fst (lim_shards L ! i))"
    "(ip, b) \<in> set (lim_shards L ! i) \<Longrightarrow> shard_idx hash ip = i \<and> bucket_ok L b"
  using assms unfolding limiter_inv_def by fastforce+

lemma guard_entry_ok:
  assumes "limits_ok L" "limiter_inv hash L"
  shows "bucket_ok L (entry_or_insert L now
    (map_of (prune_shard L now (lim_shards L ! shard_idx hash ip)) ip))"
proof -
  have "bucket_ok L b" if "map_of (prune_shard L now (lim_shards L ! shard_idx hash ip)) ip = Some b" for b
  proof -
    have "(ip, b) \<in> set (lim_shards L ! shard_idx hash ip)"
      using map_of_SomeD [OF that] prune_shard_subset by blast
    then show ?thesis using limiter_inv_shard(3) [OF assms(2) shard_idx_less] by blast
  qed
  then show ?thesis
    using fresh_bucket_ok [OF assms(1)] by (auto simp: entry_or_insert_def split: option.splits)
qed

lemma acquire_inv:
  assumes L: "limits_ok L" and inv: "limiter_inv hash L" and now: "now div 10 ^ 9 < 2 ^ 64"
  shows "limiter_inv hash (snd (acquire hash now ip L))"
proof -
  let ?i = "shard_idx hash ip" and ?L = "snd (acquire hash now ip L)"
  let ?g = "prune_shard L now (lim_shards L ! ?i)"
  let ?b = "snd (take_token L now (entry_or_insert L now (map_of ?g ip)))"
  have sh: "lim_shards ?L = (lim_shards L)[?i := AList.update ip ?b ?g]"
    by (simp add: acquire_shards Let_def)
  have len: "length (lim_shards L) = RATE_LIMIT_SHARDS" using inv by (simp add: limiter_inv_def)
  note old = limiter_inv_shard [OF inv]
  have b: "bucket_ok L ?b" using take_token_ok [OF L guard_entry_ok [OF L inv] now] .
  have "length (AList.update ip ?b ?g) \<le> 2049"
    using length_alist_update [of ip ?b ?g] prune_shard_length [OF old(1), of ?i L now] by simp
  moreover have "distinct (map fst (AList.update ip ?b ?g))"
    by (intro distinct_update prune_shard_distinct old(2)) simp
  moreover have "\<forall>(a, b) \<in> set (AList.update ip ?b ?g). shard_idx hash a = ?i \<and> bucket_ok L b"
  proof -
    have "set (AList.update ip ?b ?g) \<subseteq> insert (ip, ?b) (set (lim_shards L ! ?i))"
      using set_alist_update [of ip ?b ?g] prune_shard_subset [of L now "lim_shards L ! ?i"] by blast
    with old(3) [of ?i] b show ?thesis by fastforce
  qed
  ultimately show ?thesis
    unfolding limiter_inv_def sh using len old limits_cong(2) [of ?L L]
    by (auto simp: nth_list_update)
qed

section \<open>Refinement of the unbounded limiter\<close>

text \<open>
  The bounded limiter may have forgotten a client, but only one whose bucket the reference
  would refill to the brim.
\<close>

definition sim :: "(ip_addr \<Rightarrow> u64) \<Rightarrow> nat \<Rightarrow> rate_limiter \<Rightarrow> bucket_map \<Rightarrow> bool" where
  "sim hash now L m \<longleftrightarrow>
     (\<forall>ip. lookup_bucket hash L ip = m ip \<or>
        lookup_bucket hash L ip = None \<and> (\<exists>b. m ip = Some b \<and> full_from L b now))"

text \<open>The last resort of the source, clearing a shard of more than 2048 active clients.\<close>

definition overflows :: "(ip_addr \<Rightarrow> u64) \<Rightarrow> nat \<Rightarrow> ip_addr \<Rightarrow> rate_limiter \<Rightarrow> bool" where
  "overflows hash now ip L \<longleftrightarrow>
     2048 < length (filter (\<lambda>(_, b). retained L now b) (lim_shards L ! shard_idx hash ip))"

lemma map_of_filter_snd:
  assumes "distinct (map fst g)"
  shows "map_of (filter (\<lambda>(_, b). P b) g) k =
    (case map_of g k of Some b \<Rightarrow> if P b then Some b else None | None \<Rightarrow> None)"
  using assms
proof (induction g)
  case (Cons a g)
  moreover have "map_of g (fst a) = None" using Cons.prems by (simp add: map_of_eq_None_iff)
  ultimately show ?case by (auto split: option.splits)
qed simp

lemma map_of_prune_shard:
  assumes "\<not> overflows hash now ip L" "distinct (map fst (lim_shards L ! shard_idx hash ip))"
  shows "map_of (prune_shard L now (lim_shards L ! shard_idx hash ip)) k =
      map_of (lim_shards L ! shard_idx hash ip) k \<or>
    map_of (prune_shard L now (lim_shards L ! shard_idx hash ip)) k = None \<and>
      (\<exists>b. map_of (lim_shards L ! shard_idx hash ip) k = Some b \<and> \<not> retained L now b)"
  using assms
  by (auto simp: prune_shard_def overflows_def Let_def map_of_filter_snd split: option.splits)

lemma take_token_full:
  assumes "limits_ok L" "full_from L b now" "now div 10 ^ 9 < 2 ^ 64"
  shows "take_token L now (entry_or_insert L now None) = take_token L now b"
proof -
  have "refill L now b = lim_capacity L" using assms(2,3) by (auto simp: full_from_def)
  then show ?thesis using fresh_refill [OF assms(1)] by (simp add: take_token_def entry_or_insert_def)
qed

lemma full_from_mono: "full_from L b now \<Longrightarrow> now \<le> now' \<Longrightarrow> full_from L b now'"
  by (auto simp: full_from_def)

lemma prune_sim:
  assumes L: "limits_ok L" "limiter_inv hash L" and now: "now div 10 ^ 9 < 2 ^ 64" "now0 \<le> now"
    and sim: "sim hash now0 L m" and ov: "\<not> overflows hash now ip L"
    and k: "shard_idx hash k = shard_idx hash ip"
  shows "map_of (prune_shard L now (lim_shards L ! shard_idx hash ip)) k = m k \<or>
    map_of (prune_shard L now (lim_shards L ! shard_idx hash ip)) k = None \<and>
      (\<exists>b. m k = Some b \<and> full_from L b now)"
proof -
  let ?s = "lim_shards L ! shard_idx hash ip"
  have dist: "distinct (map fst ?s)" using limiter_inv_shard(2) [OF L(2)] by simp
  have full: "full_from L b now" if "map_of ?s k = Some b" "\<not> retained L now b" for b
  proof (rule not_retained_full [OF L(1) _ now(1) that(2)])
    show "bucket_ok L b"
      using map_of_SomeD [OF that(1)] limiter_inv_shard(3) [OF L(2) shard_idx_less] by blast
  qed
  have "map_of ?s k = m k \<or> map_of ?s k = None \<and> (\<exists>b. m k = Some b \<and> full_from L b now0)"
    using sim [unfolded sim_def, rule_format, of k] k by (simp add: lookup_bucket_def)
  with map_of_prune_shard [OF ov dist, of k] full full_from_mono [OF _ now(2)]
  show ?thesis by metis
qed

lemma acquire_refines:
  assumes L: "limits_ok L" "limiter_inv hash L" and now: "now div 10 ^ 9 < 2 ^ 64" "now0 \<le> now"
    and sim: "sim hash now0 L m" and ov: "\<not> overflows hash now ip L"
  shows "fst (acquire hash now ip L) = fst (ref_acquire L now ip m) \<and>
    sim hash now (snd (acquire hash now ip L)) (snd (ref_acquire L now ip m))"
proof -
  let ?i = "shard_idx hash ip" and ?L = "snd (acquire hash now ip L)"
  let ?g = "prune_shard L now (lim_shards L ! ?i)"
  note guard = prune_sim [OF L now sim ov]
  have step: "take_token L now (entry_or_insert L now (map_of ?g ip)) =
      take_token L now (entry_or_insert L now (m ip))"
  proof -
    have "take_token L now (entry_or_insert L now None) =
        take_token L now (entry_or_insert L now (Some b))" if "full_from L b now" for b
      using take_token_full [OF L(1) that now(1)] by (simp add: entry_or_insert_def)
    with guard [of ip] show ?thesis by metis
  qed
  have len: "length (lim_shards L) = RATE_LIMIT_SHARDS" using L(2) by (simp add: limiter_inv_def)
  have look: "lookup_bucket hash ?L k =
      (if shard_idx hash k = ?i
       then ((map_of ?g)(ip \<mapsto> snd (take_token L now (entry_or_insert L now (m ip))))) k
       else lookup_bucket hash L k)" for k
    using len step
    by (simp add: lookup_bucket_def acquire_shards Let_def nth_list_update update_conv')
  have "sim hash now ?L (snd (ref_acquire L now ip m))"
    unfolding sim_def
  proof
    fix k
    have ref: "snd (ref_acquire L now ip m) =
        m(ip \<mapsto> snd (take_token L now (entry_or_insert L now (m ip))))"
      by (simp add: ref_acquire_def Let_def case_prod_beta)
    have "lookup_bucket hash L k = m k \<or>
        lookup_bucket hash L k = None \<and> (\<exists>b. m k = Some b \<and> full_from L b now)"
      using sim [unfolded sim_def, rule_format, of k] full_from_mono [OF _ now(2)] by blast
    with guard [of k] show "lookup_bucket hash ?L k = snd (ref_acquire L now ip m) k \<or>
        lookup_bucket hash ?L k = None \<and>
        (\<exists>b. snd (ref_acquire L now ip m) k = Some b \<and> full_from ?L b now)"
      unfolding look ref using limits_cong(3) [of ?L L] by auto
  qed
  moreover have "fst (acquire hash now ip L) = fst (ref_acquire L now ip m)"
    using step by (simp add: acquire_def ref_acquire_def Let_def case_prod_beta)
  ultimately show ?thesis by (intro conjI)
qed

text \<open>A whole sequence of requests, each with its instant and client.\<close>

fun acquire_run ::
  "(ip_addr \<Rightarrow> u64) \<Rightarrow> rate_limiter \<Rightarrow> (nat \<times> ip_addr) list \<Rightarrow> bool list \<times> rate_limiter" where
  "acquire_run hash L [] = ([], L)"
| "acquire_run hash L ((now, ip) # rs) =
     (let (a, L') = acquire hash now ip L; (as, L'') = acquire_run hash L' rs in (a # as, L''))"

fun ref_run :: "rate_limiter \<Rightarrow> bucket_map \<Rightarrow> (nat \<times> ip_addr) list \<Rightarrow> bool list" where
  "ref_run L m [] = []"
| "ref_run L m ((now, ip) # rs) =
     (let (a, m') = ref_acquire L now ip m in a # ref_run L m' rs)"

fun never_overflows ::
  "(ip_addr \<Rightarrow> u64) \<Rightarrow> rate_limiter \<Rightarrow> (nat \<times> ip_addr) list \<Rightarrow> bool" where
  "never_overflows hash L [] = True"
| "never_overflows hash L ((now, ip) # rs) =
     (\<not> overflows hash now ip L \<and> never_overflows hash (snd (acquire hash now ip L)) rs)"

lemma ref_run_cong:
  assumes "lim_capacity L' = lim_capacity L" "lim_fill_rate L' = lim_fill_rate L"
  shows "ref_run L' m rs = ref_run L m rs"
proof (induction rs arbitrary: m)
  case (Cons r rs)
  then show ?case
    by (cases r) (simp add: ref_acquire_def limits_cong [OF assms] Let_def case_prod_beta)
qed simp

lemma acquire_run_refines:
  assumes "limits_ok L" "limiter_inv hash L" "sim hash now0 L m"
    "sorted (now0 # map fst rs)" "\<forall>(now, ip) \<in> set rs. now div 10 ^ 9 < 2 ^ 64"
    "never_overflows hash L rs"
  shows "fst (acquire_run hash L rs) = ref_run L m rs"
  using assms
proof (induction rs arbitrary: L m now0)
  case (Cons r rs)
  obtain now ip where r: "r = (now, ip)" by force
  let ?L = "snd (acquire hash now ip L)" and ?m = "snd (ref_acquire L now ip m)"
  have now: "now div 10 ^ 9 < 2 ^ 64" "now0 \<le> now" using Cons.prems(4,5) r by auto
  have step: "fst (acquire hash now ip L) = fst (ref_acquire L now ip m)" "sim hash now ?L ?m"
    using acquire_refines [OF Cons.prems(1,2) now Cons.prems(3), of ip] Cons.prems(6) r by auto
  have "fst (acquire_run hash ?L rs) = ref_run ?L ?m rs"
  proof (rule Cons.IH)
    show "limits_ok ?L" using Cons.prems(1) limits_cong(1) [of ?L L] by simp
    show "limiter_inv hash ?L" by (rule acquire_inv [OF Cons.prems(1,2) now(1)])
    show "sorted (now # map fst rs)" using Cons.prems(4) r by simp
  qed (use Cons.prems step r in auto)
  then show ?case
    using step(1) by (simp add: r Let_def case_prod_beta ref_run_cong [of ?L L])
qed simp

section \<open>Bursts\<close>

text \<open>A bucket touched twice at the same instant gains nothing in between.\<close>

lemma take_token_now:
  assumes c: "lim_capacity L = Fin c" "t \<le> c" and q: "lim_fill_rate L = Fin q"
    and t: "representable t"
  shows "take_token L now \<lparr>tb_tokens = Fin t, tb_last_update = now\<rparr> =
    (if 1 \<le> t then (True, \<lparr>tb_tokens = f32_of_rat (t - 1), tb_last_update = now\<rparr>)
     else (False, \<lparr>tb_tokens = Fin t, tb_last_update = now\<rparr>))"
proof -
  have "as_secs_f32 0 = Fin 0" using as_secs_f32_eq [of 0] by simp
  then have "refill L now \<lparr>tb_tokens = Fin t, tb_last_update = now\<rparr> = Fin t"
    using c t by (simp add: refill_def duration_since_def q f32_of_rat_representable)
  then show ?thesis by (simp add: take_token_def f32_sub_def)
qed

text \<open>A limiter that knows only this client, with \<open>t\<close> tokens left at this instant.\<close>

definition only_client ::
  "(ip_addr \<Rightarrow> u64) \<Rightarrow> nat \<Rightarrow> ip_addr \<Rightarrow> rat \<Rightarrow> rate_limiter \<Rightarrow> bool" where
  "only_client hash now ip t L \<longleftrightarrow>
     length (lim_shards L) = RATE_LIMIT_SHARDS \<and>
     (lim_shards L ! shard_idx hash ip = [(ip, \<lparr>tb_tokens = Fin t, tb_last_update = now\<rparr>)] \<or>
      lim_shards L ! shard_idx hash ip = [] \<and> Fin t = lim_capacity L)"

lemma acquire_only_client:
  assumes L: "only_client hash now ip t L" "lim_capacity L = Fin c" "t \<le> c" "representable t"
      "lim_fill_rate L = Fin q"
    and dec: "1 \<le> t \<Longrightarrow> f32_of_rat (t - 1) = Fin t'" "\<not> 1 \<le> t \<Longrightarrow> t' = t"
  shows "fst (acquire hash now ip L) = (1 \<le> t)" "only_client hash now ip t' (snd (acquire hash now ip L))"
proof -
  let ?g = "lim_shards L ! shard_idx hash ip"
  have g: "prune_shard L now ?g = ?g" using L(1) by (auto simp: only_client_def prune_shard_def)
  have e: "entry_or_insert L now (map_of ?g ip) = \<lparr>tb_tokens = Fin t, tb_last_update = now\<rparr>"
    using L(1) by (auto simp: only_client_def entry_or_insert_def)
  note tt = take_token_now [OF L(2,3,5,4), of now]
  show "fst (acquire hash now ip L) = (1 \<le> t)"
    by (simp add: acquire_def Let_def g e tt)
  have "AList.update ip b ?g = [(ip, b)]" for b using L(1) by (auto simp: only_client_def)
  moreover have "snd (take_token L now \<lparr>tb_tokens = Fin t, tb_last_update = now\<rparr>) =
      \<lparr>tb_tokens = Fin t', tb_last_update = now\<rparr>"
    using dec by (simp add: tt)
  ultimately show "only_client hash now ip t' (snd (acquire hash now ip L))"
    using L(1) by (simp add: only_client_def acquire_shards Let_def g e)
qed

lemma burst_only_client:
  assumes "only_client hash now ip (of_nat k) L" "lim_capacity L = Fin (of_nat c)" "k \<le> c"
    "c \<le> 2 ^ 24" "lim_fill_rate L = Fin q"
  shows "fst (acquire_run hash L (replicate n (now, ip))) =
    replicate (min n k) True @ replicate (n - k) False"
  using assms
proof (induction n arbitrary: k L)
  case (Suc n)
  let ?L = "snd (acquire hash now ip L)"
  have rep: "representable (of_nat k)" using Suc.prems by (intro representable_of_nat) simp
  have le: "(of_nat k :: rat) \<le> of_nat c" using Suc.prems(3) by (rule of_nat_mono)
  have dec: "f32_of_rat (of_nat k - 1) = Fin (of_nat (k - 1))" if "1 \<le> (of_nat k :: rat)"
  proof -
    have eq: "(of_nat k - 1 :: rat) = of_nat (k - 1)" using that by (cases k) simp_all
    have "representable (of_nat (k - 1))" using Suc.prems(3,4) by (intro representable_of_nat) simp
    then show ?thesis unfolding eq by (rule f32_of_rat_representable)
  qed
  have zero: "(of_nat (k - 1) :: rat) = of_nat k" if "\<not> 1 \<le> (of_nat k :: rat)"
    using that by (cases k) simp_all
  note acq = acquire_only_client [OF Suc.prems(1,2) le rep Suc.prems(5) dec zero]
  have IH: "fst (acquire_run hash ?L (replicate n (now, ip))) =
      replicate (min n (k - 1)) True @ replicate (n - (k - 1)) False"
    using Suc.prems acq(2) by (intro Suc.IH) simp_all
  have "fst (acquire hash now ip L) = (0 < k)" using acq(1) by (cases k) simp_all
  with IH show ?case by (cases k) (simp_all add: Let_def case_prod_beta)
qed simp

lemma only_client_new:
  assumes "f32_of_nat (unat cap) = Fin t"
  shows "only_client hash now ip t (rate_limiter_new cap fill)"
  using assms by (simp add: only_client_def rate_limiter_new_def)

text \<open>Above \<open>2^24\<close> a single token is below the rounding of the counter: nothing is taken.\<close>

lemma huge_not_decremented: "f32_of_rat (2 ^ 25 - 1) = Fin (2 ^ 25)"
proof -
  have b: "binade (2 ^ 25 - 1) = 150"
  proof (rule binade_eqI)
    fix j :: nat assume "j < 150"
    then have "2 ^ 24 * ulp j \<le> 2 ^ 24 * ulp 149" by (intro mult_left_mono ulp_mono) simp_all
    also have "\<dots> = 2 ^ 24" by (simp add: ulp_def)
    also have "\<dots> \<le> 2 ^ 25 - 1" by simp
    finally show "2 ^ 24 * ulp j \<le> (2 ^ 25 - 1 :: rat)" .
  qed (simp_all add: ulp_def max_binade_def)
  have u: "ulp 150 = 2" by (simp add: ulp_def)
  have "\<lfloor>(33554431 :: rat) / 2\<rfloor> = 16777215" by (rule floor_unique) simp_all
  then have "round_half_even ((2 ^ 25 - 1) / 2) = 2 ^ 24"
    by (simp add: round_half_even_def Let_def)
  then have "rnd (2 ^ 25 - 1) = 2 ^ 25" unfolding rnd_def b u by simp
  then show ?thesis by (simp add: f32_of_rat_def)
qed

lemma burst_huge:
  assumes "only_client hash now ip (2 ^ 25) L" "lim_capacity L = Fin (2 ^ 25)"
    "lim_fill_rate L = Fin q"
  shows "fst (acquire_run hash L (replicate n (now, ip))) = replicate n True"
  using assms
proof (induction n arbitrary: L)
  case (Suc n)
  have rep: "representable (2 ^ 25)" by (rule representable_power) simp
  have "fst (acquire hash now ip L)" "only_client hash now ip (2 ^ 25) (snd (acquire hash now ip L))"
    using acquire_only_client [OF Suc.prems(1,2) order_refl rep Suc.prems(3)
        huge_not_decremented] by simp_all
  with Suc.IH [of "snd (acquire hash now ip L)"] Suc.prems(2,3) show ?case
    by (simp add: Let_def case_prod_beta)
qed simp

section \<open>Properties\<close>

definition sample_limiter :: rate_limiter where
  "sample_limiter = rate_limiter_new 2 (Fin 10)"

lemma sample_limits: "limits_ok sample_limiter" "limiter_inv hash sample_limiter"
  unfolding sample_limiter_def using representable_of_nat [of 10]
  by (auto intro!: limits_ok_new limiter_inv_new)

text \<open>
  C26. The limiter's invariant: every call of \<^verbatim>\<open>acquire\<close> keeps each stored token count a finite
  number between 0 and the capacity (in single precision, with all its rounding), each client in
  its own shard with one entry, and no shard above 2049 entries, whatever the hash function.
\<close>

theorem acquire_preserves_inv:
  assumes "limits_ok L" "limiter_inv hash L" "now div 10 ^ 9 < 2 ^ 64"
  shows "limiter_inv hash (snd (acquire hash now ip L)) \<and> limits_ok (snd (acquire hash now ip L))"
  using acquire_inv [OF assms] limits_cong(1) [of "snd (acquire hash now ip L)" L] assms(1) by simp

theorem acquire_preserves_inv_witness:
  "limiter_inv (\<lambda>_. 7) (snd (acquire (\<lambda>_. 7) 0 (V4 10 0 0 1) sample_limiter))"
  using acquire_preserves_inv [OF sample_limits, of 0] by simp

text \<open>
  C5. The bounded limiter refines the unbounded one: over any sequence of requests in time order
  in which no shard has to be cleared as a last resort, the answers are those of a limiter that
  keeps every client's bucket for ever in one map. Sharding and the pruning of idle buckets are
  invisible: a pruned bucket would have been full again, despite rounding.
\<close>

theorem acquire_refines_unbounded:
  assumes "limits_ok L" "limiter_inv hash L" "sorted (map fst rs)"
    "\<forall>(now, ip) \<in> set rs. now div 10 ^ 9 < 2 ^ 64" "never_overflows hash L rs"
  shows "fst (acquire_run hash L rs) = ref_run L (lookup_bucket hash L) rs"
proof (rule acquire_run_refines [OF assms(1,2) _ _ assms(4,5)])
  show "sim hash 0 L (lookup_bucket hash L)" by (simp add: sim_def)
  show "sorted (0 # map fst rs)" using assms(3) by simp
qed

lemma sample_shards: "lim_shards sample_limiter ! shard_idx hash ip = []"
  by (simp add: sample_limiter_def rate_limiter_new_def)

theorem acquire_refines_unbounded_witness:
  "fst (acquire_run (\<lambda>_. 7) sample_limiter [(5, V4 10 0 0 1)]) =
   ref_run sample_limiter (lookup_bucket (\<lambda>_. 7) sample_limiter) [(5, V4 10 0 0 1)]"
  by (rule acquire_refines_unbounded [OF sample_limits])
     (simp_all add: overflows_def sample_shards)

text \<open>
  A client unknown to the limiter that sends a burst at one instant gets exactly as many
  requests through as the configured capacity, for every capacity up to \<open>2^24\<close>.
\<close>

theorem burst_is_capacity:
  assumes "unat cap \<le> 2 ^ 24"
  shows "fst (acquire_run hash (rate_limiter_new cap (Fin q)) (replicate n (now, ip))) =
    replicate (min n (unat cap)) True @ replicate (n - unat cap) False"
proof (rule burst_only_client [OF only_client_new])
  show "f32_of_nat (unat cap) = Fin (of_nat (unat cap))" using assms by (rule f32_of_nat_small)
  then show "lim_capacity (rate_limiter_new cap (Fin q)) = Fin (of_nat (unat cap))"
    by (simp add: rate_limiter_new_def)
  show "lim_fill_rate (rate_limiter_new cap (Fin q)) = Fin q" by (simp add: rate_limiter_new_def)
qed (use assms in simp_all)

theorem burst_is_capacity_witness:
  "fst (acquire_run (\<lambda>_. 0) (rate_limiter_new 2 (Fin 10)) (replicate 3 (1, V4 10 0 0 1))) =
   replicate 2 True @ [False]"
  using burst_is_capacity [of 2 "\<lambda>_. 0" 10 3 1 "V4 10 0 0 1"]
  by (simp del: acquire_run.simps)

text \<open>
  C27. Beyond single precision the limiter stops limiting: with the accepted capacity \<open>2^25\<close> the
  subtraction of one token is lost to rounding and every request of a burst is admitted.
\<close>

theorem burst_unlimited_at_2_25:
  "fst (acquire_run hash (rate_limiter_new (2 ^ 25) (Fin q)) (replicate n (now, ip))) =
    replicate n True"
proof -
  have rep: "representable (2 ^ 25)" by (rule representable_power) simp
  have c: "f32_of_nat (unat (2 ^ 25 :: u32)) = Fin (2 ^ 25)"
    using f32_of_rat_representable [OF rep] by (simp add: f32_of_nat_def)
  have "lim_capacity (rate_limiter_new (2 ^ 25) (Fin q)) = Fin (2 ^ 25)"
    unfolding rate_limiter_new_def rate_limiter.simps by (rule c)
  then show ?thesis
    by (rule burst_huge [OF only_client_new [OF c]]) (simp add: rate_limiter_new_def)
qed

end
