(* ===== verification/Routes.thy ===== *)
theory Routes
  imports Upstream Rate_Limit
begin

text \<open>
  The compiled routing table of \<^verbatim>\<open>src/src/config/mod.rs\<close> (\<^verbatim>\<open>RouteTable\<close>, \<^verbatim>\<open>CompiledRoute\<close>,
  \<^verbatim>\<open>ConfigSnapshot\<close>). Compiled routes share their pool and their limiter through \<^verbatim>\<open>Arc\<close>s: a pool is
  referred to by its name in \<open>tb_pools\<close>, a limiter by its index in \<open>tb_limiters\<close>, so that cloning
  a compiled route copies the reference and an update through one clone is seen by all.
  \<^verbatim>\<open>sort_by\<close> is the stable \<open>sort_key\<close>; the order of \<^verbatim>\<open>host_routes\<close> is never observed, so the
  \<^verbatim>\<open>BTreeMap\<close> is a map.
\<close>

section \<open>Definitions\<close>

definition path_matches_prefix :: "string \<Rightarrow> string \<Rightarrow> bool" where
  "path_matches_prefix path pre =
     (if pre = ''/'' then starts_with path ''/''
      else if path = pre then True
      else (case strip_prefix path pre of
         None \<Rightarrow> False
       | Some rest \<Rightarrow> starts_with rest ''/'' \<or> starts_with rest ''?''))"

record compiled_route =
  cr_route :: route_config
  cr_pool :: string
  cr_limiter :: "nat option"

record route_table =
  tb_routes :: "compiled_route list"
  tb_host_routes :: "string \<Rightarrow> compiled_route list option"
  tb_wildcard_routes :: "compiled_route list"
  tb_single_wildcard_root :: bool
  tb_requires_host_match :: bool
  tb_pools :: "(string \<times> upstream_pool) list"
  tb_limiters :: "rate_limiter list"

fun pools_new ::
  "ext_lib \<Rightarrow> usize \<Rightarrow> (string \<times> upstream_pool_config) list \<Rightarrow>
   ((string \<times> upstream_pool) list \<times> usize, config_error) outcome" where
  "pools_new E i [] = Ok ([], i)"
| "pools_new E i ((name, cfg) # ps) =
     rbind (pool_new E i cfg) (\<lambda>(p, j). rbind (pools_new E j ps) (\<lambda>(qs, k). Ok ((name, p) # qs, k)))"

definition alloc_limiter ::
  "rate_limiter list \<Rightarrow> rate_limit_config \<Rightarrow> nat option \<times> rate_limiter list" where
  "alloc_limiter lims cfg =
     (if rl_enabled cfg
      then (Some (length lims), lims @ [rate_limiter_new (rl_capacity cfg) (rl_fill_rate cfg)])
      else (None, lims))"

fun compile_routes ::
  "string list \<Rightarrow> rate_limiter list \<Rightarrow> route_config list \<Rightarrow>
   (compiled_route list \<times> rate_limiter list, config_error) outcome" where
  "compile_routes pools lims [] = Ok ([], lims)"
| "compile_routes pools lims (r # rs) =
     (if rt_upstream_pool r \<notin> set pools then
        invalid (''route '' @ quoted (rt_name r) @ '' references missing upstream_pool '' @
          quoted (rt_upstream_pool r))
      else
        rbind (compile_routes pools (snd (alloc_limiter lims (rt_rate_limit r))) rs)
          (\<lambda>(cs, lims').
            Ok (\<lparr>cr_route = r, cr_pool = rt_upstream_pool r,
                 cr_limiter = fst (alloc_limiter lims (rt_rate_limit r))\<rparr> # cs, lims')))"

definition prefix_len :: "compiled_route \<Rightarrow> nat" where
  "prefix_len c = length (rt_path_prefix (cr_route c))"

text \<open>Longest prefix first; routes of equal length keep the order of the configuration.\<close>

definition sort_routes :: "compiled_route list \<Rightarrow> compiled_route list" where
  "sort_routes = sort_key (\<lambda>c. - int (prefix_len c))"

fun group_routes ::
  "ext_lib \<Rightarrow> (string \<Rightarrow> compiled_route list option) \<Rightarrow> compiled_route list \<Rightarrow>
   compiled_route list \<Rightarrow>
   ((string \<Rightarrow> compiled_route list option) \<times> compiled_route list, config_error) outcome" where
  "group_routes E hosts wild [] = Ok (hosts, wild)"
| "group_routes E hosts wild (c # cs) =
     (if rt_host (cr_route c) = ''*'' then group_routes E hosts (wild @ [c]) cs
      else rbind (expect (parse_authority_host E (rt_host (cr_route c))) ''validated route host'')
        (\<lambda>key. group_routes E
           (hosts(key \<mapsto> (case hosts key of Some rs \<Rightarrow> rs | None \<Rightarrow> []) @ [c])) wild cs))"

definition route_table_new ::
  "ext_lib \<Rightarrow> usize \<Rightarrow> proxy_config \<Rightarrow> (route_table \<times> usize, config_error) outcome" where
  "route_table_new E next_id config =
     rbind (pools_new E next_id (pc_upstream_pools config)) (\<lambda>(pools, next_id').
     rbind (compile_routes (map fst pools) [] (pc_routes config)) (\<lambda>(compiled, lims).
     let routes = sort_routes compiled in
     rbind (group_routes E Map.empty [] routes) (\<lambda>(hosts, wild).
     Ok (\<lparr>tb_routes = routes, tb_host_routes = hosts, tb_wildcard_routes = wild,
          tb_single_wildcard_root =
            (length routes = 1 \<and> rt_host (cr_route (routes ! 0)) = ''*'' \<and>
             rt_path_prefix (cr_route (routes ! 0)) = ''/''),
          tb_requires_host_match = list_ex (\<lambda>c. rt_host (cr_route c) \<noteq> ''*'') routes,
          tb_pools = pools, tb_limiters = lims\<rparr>, next_id'))))"

definition hit :: "string \<Rightarrow> compiled_route \<Rightarrow> bool" where
  "hit path c = path_matches_prefix path (rt_path_prefix (cr_route c))"

definition match_route ::
  "ext_lib \<Rightarrow> route_table \<Rightarrow> string option \<Rightarrow> string \<Rightarrow> compiled_route option" where
  "match_route E t host path =
     (if tb_single_wildcard_root t then Some (tb_routes t ! 0)
      else
        (case host of
           None \<Rightarrow> List.find (hit path) (tb_wildcard_routes t)
         | Some host_str \<Rightarrow>
             (case parse_authority_host E host_str of
                None \<Rightarrow> None
              | Some cleaned_host \<Rightarrow>
                  (case tb_host_routes t cleaned_host of
                     None \<Rightarrow> List.find (hit path) (tb_wildcard_routes t)
                   | Some rs \<Rightarrow>
                       (case List.find (hit path) rs of
                          Some c \<Rightarrow> Some c
                        | None \<Rightarrow> List.find (hit path) (tb_wildcard_routes t))))))"

text \<open>
  \<^verbatim>\<open>all_upstreams\<close> sorts and deduplicates by the address of the \<^verbatim>\<open>Arc\<close>; \<open>addr\<close> gives the address of
  the upstream with an id. \<^verbatim>\<open>dedup_by_key\<close> drops an element whose key equals its predecessor's.
\<close>

fun dedup_by_key :: "('a \<Rightarrow> 'k) \<Rightarrow> 'a list \<Rightarrow> 'a list" where
  "dedup_by_key f [] = []"
| "dedup_by_key f [x] = [x]"
| "dedup_by_key f (x # y # ys) =
     (if f x = f y then dedup_by_key f (x # ys) else x # dedup_by_key f (y # ys))"

definition all_upstreams :: "(usize \<Rightarrow> nat) \<Rightarrow> route_table \<Rightarrow> upstream_state list" where
  "all_upstreams addr t =
     dedup_by_key (\<lambda>s. addr (st_id s)) (sort_key (\<lambda>s. addr (st_id s))
       (concat (map (\<lambda>c. case map_of (tb_pools t) (cr_pool c) of
                       Some p \<Rightarrow> pl_upstreams p | None \<Rightarrow> []) (tb_routes t))))"

definition debug_routes :: "route_table \<Rightarrow> route_config list" where
  "debug_routes t = map cr_route (tb_routes t)"

text \<open>\<open>from_str\<close> is \<^verbatim>\<open>toml::from_str\<close>, \<open>file\<close> the result of \<^verbatim>\<open>std::fs::read_to_string\<close>.\<close>

record config_snapshot =
  sn_config :: proxy_config
  sn_routes :: route_table

definition snapshot_parse ::
  "ext_lib \<Rightarrow> (string \<Rightarrow> string + proxy_config) \<Rightarrow> usize \<Rightarrow> string \<Rightarrow> string \<Rightarrow>
   (config_snapshot \<times> usize, config_error) outcome" where
  "snapshot_parse E from_str next_id text path =
     (case from_str text of
        Inl source \<Rightarrow> Err (ParseError path source)
      | Inr config \<Rightarrow>
          rbind (validate E config) (\<lambda>_.
          rbind (route_table_new E next_id config) (\<lambda>(routes, next_id').
          Ok (\<lparr>sn_config = config, sn_routes = routes\<rparr>, next_id'))))"

definition snapshot_load ::
  "ext_lib \<Rightarrow> (string \<Rightarrow> string + proxy_config) \<Rightarrow> usize \<Rightarrow> string \<Rightarrow> string + string \<Rightarrow>
   (config_snapshot \<times> usize, config_error) outcome" where
  "snapshot_load E from_str next_id path file =
     (case file of
        Inl source \<Rightarrow> Err (ReadError path source)
      | Inr text \<Rightarrow> snapshot_parse E from_str next_id text path)"

section \<open>The specification of matching\<close>

text \<open>The first route of maximal prefix length.\<close>

fun pick_longest :: "compiled_route list \<Rightarrow> compiled_route option" where
  "pick_longest [] = None"
| "pick_longest (c # cs) =
     (case pick_longest cs of
        None \<Rightarrow> Some c
      | Some d \<Rightarrow> if prefix_len c < prefix_len d then Some d else Some c)"

definition for_host :: "ext_lib \<Rightarrow> string \<Rightarrow> compiled_route \<Rightarrow> bool" where
  "for_host E key c \<longleftrightarrow>
     rt_host (cr_route c) \<noteq> ''*'' \<and> parse_authority_host E (rt_host (cr_route c)) = Some key"

definition for_any :: "compiled_route \<Rightarrow> bool" where
  "for_any c \<longleftrightarrow> rt_host (cr_route c) = ''*''"

definition spec_match ::
  "ext_lib \<Rightarrow> compiled_route list \<Rightarrow> string option \<Rightarrow> string \<Rightarrow> compiled_route option" where
  "spec_match E rs host path =
     (let wildcard = pick_longest (filter (\<lambda>c. for_any c \<and> hit path c) rs) in
      case host of
        None \<Rightarrow> wildcard
      | Some h \<Rightarrow>
          (case parse_authority_host E h of
             None \<Rightarrow> None
           | Some key \<Rightarrow>
               (case pick_longest (filter (\<lambda>c. for_host E key c \<and> hit path c) rs) of
                  Some c \<Rightarrow> Some c
                | None \<Rightarrow> wildcard)))"

lemma pick_longest_None [simp]: "pick_longest cs = None \<longleftrightarrow> cs = []"
  by (cases cs) (auto split: option.splits)

lemma pick_longest_Some:
  assumes "pick_longest cs = Some c"
  shows "\<exists>us vs. cs = us @ c # vs \<and> (\<forall>u \<in> set us. prefix_len u < prefix_len c) \<and>
    (\<forall>v \<in> set vs. prefix_len v \<le> prefix_len c)"
  using assms
proof (induction cs arbitrary: c)
  case (Cons d ds)
  show ?case
  proof (cases "pick_longest ds")
    case None
    then show ?thesis using Cons.prems by (intro exI [of _ "[]"]) auto
  next
    case (Some e)
    then obtain us vs where ds: "ds = us @ e # vs" "\<forall>u \<in> set us. prefix_len u < prefix_len e"
      "\<forall>v \<in> set vs. prefix_len v \<le> prefix_len e" using Cons.IH by blast
    show ?thesis
    proof (cases "prefix_len d < prefix_len e")
      case True
      then show ?thesis using Cons.prems Some ds
        by (intro exI [of _ "d # us"] exI [of _ vs]) auto
    next
      case False
      then show ?thesis using Cons.prems Some ds
        by (intro exI [of _ "[]"] exI [of _ ds]) (auto simp: less_imp_le)
    qed
  qed
qed simp

lemma find_sort_routes: "List.find P (sort_routes rs) = pick_longest (filter P rs)"
proof -
  let ?k = "\<lambda>c. - int (prefix_len c)"
  have hd: "(case sort_key ?k cs of [] \<Rightarrow> None | c # _ \<Rightarrow> Some c) = pick_longest cs" for cs
  proof (induction cs)
    case (Cons c cs)
    then show ?case by (cases "sort_key ?k cs") (auto split: option.splits)
  qed simp
  have "List.find P xs = (case filter P xs of [] \<Rightarrow> None | c # _ \<Rightarrow> Some c)" for xs
    by (induction xs) auto
  then show ?thesis
    unfolding sort_routes_def by (simp add: filter_sort hd)
qed

section \<open>What the table holds\<close>

definition table_inv :: "ext_lib \<Rightarrow> compiled_route list \<Rightarrow> route_table \<Rightarrow> bool" where
  "table_inv E compiled t \<longleftrightarrow>
     tb_routes t = sort_routes compiled \<and>
     tb_wildcard_routes t = filter for_any (tb_routes t) \<and>
     (\<forall>key. tb_host_routes t key =
        (case filter (for_host E key) (tb_routes t) of [] \<Rightarrow> None | rs \<Rightarrow> Some rs)) \<and>
     tb_single_wildcard_root t =
       (\<exists>c. compiled = [c] \<and> for_any c \<and> rt_path_prefix (cr_route c) = ''/'') \<and>
     tb_requires_host_match t = (\<exists>c \<in> set compiled. \<not> for_any c)"

definition lookup_hosts ::
  "(string \<Rightarrow> compiled_route list option) \<Rightarrow> string \<Rightarrow> compiled_route list" where
  "lookup_hosts hosts key = (case hosts key of Some rs \<Rightarrow> rs | None \<Rightarrow> [])"

lemma group_routes_Ok:
  assumes "group_routes E hosts wild cs = Ok (hosts', wild')"
  shows "wild' = wild @ filter for_any cs \<and>
    lookup_hosts hosts' key = lookup_hosts hosts key @ filter (for_host E key) cs \<and>
    (hosts' key = None \<longleftrightarrow> hosts key = None \<and> filter (for_host E key) cs = [])"
  using assms
proof (induction cs arbitrary: hosts wild)
  case (Cons c cs)
  show ?case
  proof (cases "rt_host (cr_route c) = ''*''")
    case True
    with Cons.IH [of hosts "wild @ [c]"] Cons.prems show ?thesis
      by (simp add: for_any_def for_host_def)
  next
    case False
    with Cons.prems obtain k where k: "parse_authority_host E (rt_host (cr_route c)) = Some k"
      and g: "group_routes E (hosts(k \<mapsto> lookup_hosts hosts k @ [c])) wild cs = Ok (hosts', wild')"
      by (auto simp: outcome_simps lookup_hosts_def)
    from Cons.IH [OF g] k False show ?thesis
      by (auto simp: for_any_def for_host_def lookup_hosts_def)
  qed
qed (simp add: lookup_hosts_def)

lemma group_routes_total:
  assumes "\<forall>c \<in> set cs. rt_host (cr_route c) = ''*'' \<or> parse_authority_host E (rt_host (cr_route c)) \<noteq> None"
  shows "\<exists>hosts' wild'. group_routes E hosts wild cs = Ok (hosts', wild')"
  using assms by (induction cs arbitrary: hosts wild) auto

lemma compile_routes_Cons:
  assumes "compile_routes pools lims (r # rs) = Ok (cs, lims')"
  obtains ds where "compile_routes pools (snd (alloc_limiter lims (rt_rate_limit r))) rs = Ok (ds, lims')"
    "cs = \<lparr>cr_route = r, cr_pool = rt_upstream_pool r,
           cr_limiter = fst (alloc_limiter lims (rt_rate_limit r))\<rparr> # ds"
    "rt_upstream_pool r \<in> set pools"
  using assms by (auto simp: outcome_simps split: if_splits)

lemma compile_routes_Ok:
  assumes "compile_routes pools lims rs = Ok (cs, lims')"
  shows "map cr_route cs = rs" "\<forall>c \<in> set cs. cr_pool c = rt_upstream_pool (cr_route c)"
    "\<forall>c \<in> set cs. cr_pool c \<in> set pools" "\<exists>new. lims' = lims @ new"
proof -
  have "map cr_route cs = rs \<and> (\<forall>c \<in> set cs. cr_pool c = rt_upstream_pool (cr_route c)) \<and>
      (\<forall>c \<in> set cs. cr_pool c \<in> set pools) \<and> (\<exists>new. lims' = lims @ new)"
    using assms
  proof (induction rs arbitrary: lims cs)
    case (Cons r rs)
    from Cons.prems obtain ds where
      "compile_routes pools (snd (alloc_limiter lims (rt_rate_limit r))) rs = Ok (ds, lims')"
      "cs = \<lparr>cr_route = r, cr_pool = rt_upstream_pool r,
           cr_limiter = fst (alloc_limiter lims (rt_rate_limit r))\<rparr> # ds"
      "rt_upstream_pool r \<in> set pools" by (rule compile_routes_Cons)
    with Cons.IH [of "snd (alloc_limiter lims (rt_rate_limit r))" ds] show ?case
      by (auto simp: alloc_limiter_def)
  qed simp
  then show "map cr_route cs = rs" "\<forall>c \<in> set cs. cr_pool c = rt_upstream_pool (cr_route c)"
    "\<forall>c \<in> set cs. cr_pool c \<in> set pools" "\<exists>new. lims' = lims @ new" by blast+
qed

lemma compile_routes_total:
  assumes "\<forall>r \<in> set rs. rt_upstream_pool r \<in> set pools"
  shows "\<exists>cs lims'. compile_routes pools lims rs = Ok (cs, lims')"
  using assms
proof (induction rs arbitrary: lims)
  case (Cons r rs)
  obtain cs lims' where
    "compile_routes pools (snd (alloc_limiter lims (rt_rate_limit r))) rs = Ok (cs, lims')"
    using Cons.IH [of "snd (alloc_limiter lims (rt_rate_limit r))"] Cons.prems by auto
  then show ?case using Cons.prems by simp
qed simp

text \<open>Each enabled route has a limiter of its own, built from that route's limits.\<close>

definition limiter_of_route :: "rate_limiter list \<Rightarrow> compiled_route \<Rightarrow> bool" where
  "limiter_of_route lims c \<longleftrightarrow>
     (case cr_limiter c of
        None \<Rightarrow> \<not> rl_enabled (rt_rate_limit (cr_route c))
      | Some i \<Rightarrow> rl_enabled (rt_rate_limit (cr_route c)) \<and> i < length lims \<and>
          lims ! i = rate_limiter_new (rl_capacity (rt_rate_limit (cr_route c)))
            (rl_fill_rate (rt_rate_limit (cr_route c))))"

lemma compile_routes_limiter:
  assumes "compile_routes pools lims rs = Ok (cs, lims')"
  shows "\<forall>c \<in> set cs. limiter_of_route lims' c"
  using assms
proof (induction rs arbitrary: lims cs)
  case (Cons r rs)
  from Cons.prems obtain ds where
    ds: "compile_routes pools (snd (alloc_limiter lims (rt_rate_limit r))) rs = Ok (ds, lims')"
    and cs: "cs = \<lparr>cr_route = r, cr_pool = rt_upstream_pool r,
           cr_limiter = fst (alloc_limiter lims (rt_rate_limit r))\<rparr> # ds"
    by (rule compile_routes_Cons)
  obtain new where "lims' = snd (alloc_limiter lims (rt_rate_limit r)) @ new"
    using compile_routes_Ok(4) [OF ds] by blast
  then have "limiter_of_route lims' (hd cs)"
    by (simp add: cs limiter_of_route_def alloc_limiter_def nth_append)
  with Cons.IH [OF ds] show ?case by (simp add: cs)
qed simp

section \<open>Construction\<close>

lemma set_sort_routes [simp]: "set (sort_routes cs) = set cs"
  by (simp add: sort_routes_def)

lemma length_sort_routes [simp]: "length (sort_routes cs) = length cs"
  by (simp add: sort_routes_def)

lemma route_table_new_inv:
  assumes "route_table_new E i config = Ok (t, i')"
  obtains compiled where "table_inv E compiled t" "map cr_route compiled = pc_routes config"
    "compile_routes (map fst (tb_pools t)) [] (pc_routes config) = Ok (compiled, tb_limiters t)"
    "pools_new E i (pc_upstream_pools config) = Ok (tb_pools t, i')"
proof -
  from assms obtain pools compiled lims hosts wild where
    p: "pools_new E i (pc_upstream_pools config) = Ok (pools, i')"
    and c: "compile_routes (map fst pools) [] (pc_routes config) = Ok (compiled, lims)"
    and g: "group_routes E Map.empty [] (sort_routes compiled) = Ok (hosts, wild)"
    and t: "t = \<lparr>tb_routes = sort_routes compiled, tb_host_routes = hosts,
      tb_wildcard_routes = wild,
      tb_single_wildcard_root =
        (length (sort_routes compiled) = 1 \<and> rt_host (cr_route (sort_routes compiled ! 0)) = ''*'' \<and>
         rt_path_prefix (cr_route (sort_routes compiled ! 0)) = ''/''),
      tb_requires_host_match = list_ex (\<lambda>c. rt_host (cr_route c) \<noteq> ''*'') (sort_routes compiled),
      tb_pools = pools, tb_limiters = lims\<rparr>"
    by (auto simp: route_table_new_def outcome_simps Let_def)
  have hosts: "hosts key = (case filter (for_host E key) (sort_routes compiled) of
      [] \<Rightarrow> None | rs \<Rightarrow> Some rs)" for key
    using group_routes_Ok [OF g, of key]
    by (auto simp: lookup_hosts_def split: list.splits option.splits)
  have single: "(length (sort_routes compiled) = 1 \<and>
      rt_host (cr_route (sort_routes compiled ! 0)) = ''*'' \<and>
      rt_path_prefix (cr_route (sort_routes compiled ! 0)) = ''/'') \<longleftrightarrow>
      (\<exists>c. compiled = [c] \<and> for_any c \<and> rt_path_prefix (cr_route c) = ''/'')"
    by (auto simp: for_any_def sort_routes_def length_Suc_conv)
  have "table_inv E compiled t"
    using group_routes_Ok [OF g] hosts
    by (simp add: t table_inv_def single [simplified]) (auto simp: list_ex_iff for_any_def)
  then show thesis using that p c t compile_routes_Ok(1) [OF c] by simp
qed

lemma pools_new_total:
  assumes "authority_is_header E" "\<forall>p \<in> snd ` set ps. pool_ok E p"
  shows "\<exists>qs j. pools_new E i ps = Ok (qs, j)"
  using assms(2)
proof (induction ps arbitrary: i)
  case (Cons np ps)
  obtain n cfg where np: "np = (n, cfg)" by force
  obtain p j where "pool_new E i cfg = Ok (p, j)"
    using pool_new_Ok [OF assms(1), of cfg i] Cons.prems np by auto
  moreover obtain qs k where "pools_new E j ps = Ok (qs, k)" using Cons.IH [of j] Cons.prems by auto
  ultimately show ?case by (simp add: np)
qed simp

lemma pools_new_Ok:
  assumes "pools_new E i ps = Ok (qs, j)" "authority_is_header E" "\<forall>p \<in> snd ` set ps. pool_ok E p"
  shows "map fst qs = map fst ps \<and> (\<forall>q \<in> snd ` set qs. pool_inv q \<and> pl_expanded q \<noteq> []) \<and>
    list_all2 (\<lambda>q p. map st_config (pl_upstreams (snd q)) = up_upstreams (snd p)) qs ps \<and>
    concat (map (\<lambda>q. map st_id (pl_upstreams (snd q))) qs) =
      map (\<lambda>k. i + of_nat k) [0..<sum_list (map (\<lambda>p. length (up_upstreams (snd p))) ps)]"
  using assms(1,3)
proof (induction ps arbitrary: i qs)
  case (Cons np ps)
  obtain n cfg where np: "np = (n, cfg)" by force
  have "pool_ok E cfg" using Cons.prems(2) np by auto
  from pool_new_Ok [OF assms(2) this, of i] obtain p where
    p: "pool_new E i cfg = Ok (p, i + of_nat (length (up_upstreams cfg)))" "pool_inv p"
      "map st_config (pl_upstreams p) = up_upstreams cfg" "pl_expanded p \<noteq> []"
      "map st_id (pl_upstreams p) = map (\<lambda>k. i + of_nat k) [0..<length (up_upstreams cfg)]"
    by blast
  from Cons.prems(1) p(1) obtain rs where
    rs: "pools_new E (i + of_nat (length (up_upstreams cfg))) ps = Ok (rs, j)" "qs = (n, p) # rs"
    by (auto simp: np outcome_simps)
  have shift: "map (\<lambda>k. i + of_nat k) [0..<a + b] = map (\<lambda>k. i + of_nat k) [0..<a] @
      map (\<lambda>k. (i + of_nat a) + of_nat k) [0..<b]" for a b
  proof -
    have "[0..<a + b] = [0..<a] @ map (\<lambda>k. k + a) [0..<b]"
      by (simp add: map_add_upt upt_add_eq_append [of 0 a b] add.commute)
    then show ?thesis by (simp add: comp_def ac_simps)
  qed
  from Cons.IH [OF rs(1)] Cons.prems(2) p(2-5) show ?case
    by (auto simp: rs(2) np shift)
qed simp

lemma route_table_new_total:
  assumes "authority_is_header E" "config_ok E config"
  shows "\<exists>t j. route_table_new E i config = Ok (t, j)"
proof -
  have pools: "\<forall>p \<in> snd ` set (pc_upstream_pools config). pool_ok E p"
    and routes: "\<forall>r \<in> set (pc_routes config). route_ok E (fst ` set (pc_upstream_pools config)) r"
    using assms(2) by (simp_all add: config_ok_def)
  obtain ps j where ps: "pools_new E i (pc_upstream_pools config) = Ok (ps, j)"
    using pools_new_total [OF assms(1) pools] by blast
  have names: "set (map fst ps) = fst ` set (pc_upstream_pools config)"
    using pools_new_Ok [OF ps assms(1) pools] by (metis set_map)
  obtain cs lims where cs: "compile_routes (map fst ps) [] (pc_routes config) = Ok (cs, lims)"
    using compile_routes_total [of "pc_routes config" "map fst ps" "[]"] routes names
    by (auto simp: route_ok_def)
  have "\<forall>c \<in> set (sort_routes cs). rt_host (cr_route c) = ''*'' \<or>
      parse_authority_host E (rt_host (cr_route c)) \<noteq> None"
  proof
    fix c assume "c \<in> set (sort_routes cs)"
    then have "cr_route c \<in> set (map cr_route cs)" by simp
    then have "cr_route c \<in> set (pc_routes config)" by (simp only: compile_routes_Ok(1) [OF cs])
    with routes show "rt_host (cr_route c) = ''*'' \<or>
        parse_authority_host E (rt_host (cr_route c)) \<noteq> None" by (auto simp: route_ok_def)
  qed
  from group_routes_total [OF this] obtain hosts wild where
    "group_routes E Map.empty [] (sort_routes cs) = Ok (hosts, wild)" by blast
  with ps cs show ?thesis by (simp add: route_table_new_def Let_def)
qed

section \<open>Matching\<close>

lemma find_host_routes:
  assumes "table_inv E compiled t"
  shows "(case tb_host_routes t key of None \<Rightarrow> None | Some rs \<Rightarrow> List.find (hit path) rs) =
    pick_longest (filter (\<lambda>c. for_host E key c \<and> hit path c) compiled)"
proof -
  have "(case tb_host_routes t key of None \<Rightarrow> None | Some rs \<Rightarrow> List.find (hit path) rs) =
      List.find (hit path) (filter (for_host E key) (tb_routes t))"
    using assms by (auto simp: table_inv_def split: list.splits)
  also have "\<dots> = pick_longest (filter (\<lambda>c. for_host E key c \<and> hit path c) compiled)"
    using assms by (simp add: table_inv_def find_filter find_sort_routes)
  finally show ?thesis .
qed

lemma find_wildcard_routes:
  assumes "table_inv E compiled t"
  shows "List.find (hit path) (tb_wildcard_routes t) =
    pick_longest (filter (\<lambda>c. for_any c \<and> hit path c) compiled)"
  using assms by (simp add: table_inv_def find_filter find_sort_routes)

lemma match_route_general:
  assumes inv: "table_inv E compiled t" and multi: "\<not> tb_single_wildcard_root t"
  shows "match_route E t host path = spec_match E compiled host path"
proof (cases host)
  case None
  then show ?thesis
    using multi by (simp add: match_route_def spec_match_def find_wildcard_routes [OF inv])
next
  case (Some h)
  show ?thesis
  proof (cases "parse_authority_host E h")
    case None
    with Some multi show ?thesis by (simp add: match_route_def spec_match_def)
  next
    case (Some key)
    have "match_route E t host path =
        (case (case tb_host_routes t key of None \<Rightarrow> None | Some rs \<Rightarrow> List.find (hit path) rs) of
           Some c \<Rightarrow> Some c | None \<Rightarrow> List.find (hit path) (tb_wildcard_routes t))"
      using multi Some \<open>host = Some h\<close>
      by (cases "tb_host_routes t key") (simp_all add: match_route_def)
    then show ?thesis
      using Some \<open>host = Some h\<close>
      unfolding find_host_routes [OF inv] find_wildcard_routes [OF inv] spec_match_def Let_def
      by simp
  qed
qed

lemma match_route_single:
  assumes inv: "table_inv E compiled t" and single: "tb_single_wildcard_root t"
    and path: "starts_with path ''/''" and host: "\<forall>h. host = Some h \<longrightarrow> parse_authority_host E h \<noteq> None"
  shows "match_route E t host path = spec_match E compiled host path"
proof -
  obtain c where c: "compiled = [c]" "for_any c" "rt_path_prefix (cr_route c) = ''/''"
    using inv single by (auto simp: table_inv_def)
  then have "tb_routes t = [c]" using inv by (simp add: table_inv_def sort_routes_def)
  moreover have "hit path c" using c(3) path by (simp add: hit_def path_matches_prefix_def)
  moreover have "\<not> for_host E key c" for key using c(2) by (simp add: for_any_def for_host_def)
  ultimately show ?thesis
    using single host c by (auto simp: match_route_def spec_match_def Let_def split: option.splits)
qed

lemma path_matches_prefix_iff:
  assumes "pre \<noteq> ''/''"
  shows "path_matches_prefix path pre \<longleftrightarrow>
    path = pre \<or> (\<exists>rest. path = pre @ ''/'' @ rest) \<or> (\<exists>rest. path = pre @ ''?'' @ rest)"
  using assms by (auto simp: path_matches_prefix_def split: option.splits)

lemma spec_match_no_host:
  assumes "\<forall>c \<in> set compiled. for_any c" "parse_authority_host E h \<noteq> None"
  shows "spec_match E compiled (Some h) path = spec_match E compiled None path"
proof -
  have "filter (\<lambda>c. for_host E key c \<and> hit path c) compiled = []" for key
    using assms(1) by (auto simp: for_host_def for_any_def filter_empty_conv)
  then show ?thesis using assms(2) by (auto simp: spec_match_def Let_def)
qed

section \<open>Distinct upstreams\<close>

lemma dedup_by_key_sorted:
  assumes "sorted (map f xs)"
  shows "distinct (map f (dedup_by_key f xs)) \<and> f ` set (dedup_by_key f xs) = f ` set xs \<and>
    set (dedup_by_key f xs) \<subseteq> set xs"
  using assms
proof (induction f xs rule: dedup_by_key.induct)
  case (3 f x y ys)
  show ?case
  proof (cases "f x = f y")
    case True
    with 3 show ?thesis by auto
  next
    case False
    with 3 have IH: "distinct (map f (dedup_by_key f (y # ys)))"
      "f ` set (dedup_by_key f (y # ys)) = f ` set (y # ys)"
      "set (dedup_by_key f (y # ys)) \<subseteq> set (y # ys)" by auto
    have "f x \<notin> f ` set (y # ys)" using False "3.prems" by force
    with IH False show ?thesis by auto
  qed
qed simp_all

section \<open>Properties\<close>

lemma sample_config_ok: "config_ok sample_lib sample_config" "pools_fit sample_config"
proof -
  show fit: "pools_fit sample_config"
    by (simp add: pools_fit_def sample_config_pools default_upstream_pool_def)
  show "config_ok sample_lib sample_config"
    using validate_Ok [OF fit, of sample_lib] sample_validates by simp
qed

text \<open>What \<^verbatim>\<open>ConfigSnapshot::parse\<close> establishes.\<close>

lemma snapshot_parse_inv:
  assumes "authority_is_header E" "\<forall>c. from_str text = Inr c \<longrightarrow> pools_fit c"
  shows "case snapshot_parse E from_str i text path of
      Panic _ \<Rightarrow> False
    | Err _ \<Rightarrow> True
    | Ok (s, _) \<Rightarrow> config_ok E (sn_config s) \<and>
        (\<exists>compiled. table_inv E compiled (sn_routes s) \<and>
           map cr_route compiled = pc_routes (sn_config s)) \<and>
        (\<forall>c \<in> set (tb_routes (sn_routes s)).
           \<exists>p. map_of (tb_pools (sn_routes s)) (cr_pool c) = Some p \<and> pool_inv p \<and> pl_expanded p \<noteq> [])"
proof (cases "from_str text")
  case (Inl e)
  then show ?thesis by (simp add: snapshot_parse_def)
next
  case (Inr config)
  have fit: "pools_fit config" using assms(2) Inr by simp
  show ?thesis
  proof (cases "config_ok E config")
    case False
    then have "\<exists>e. validate E config = Err e"
      using validate_Ok [OF fit, of E] validate_reports [of E config]
      by (cases "validate E config") (auto simp: reports_def)
    with Inr show ?thesis by (auto simp: snapshot_parse_def)
  next
    case True
    then have v: "validate E config = Ok ()" using validate_Ok [OF fit, of E] by simp
    obtain t j where t: "route_table_new E i config = Ok (t, j)"
      using route_table_new_total [OF assms(1) True] by blast
    then obtain compiled where c: "table_inv E compiled t" "map cr_route compiled = pc_routes config"
      "compile_routes (map fst (tb_pools t)) [] (pc_routes config) = Ok (compiled, tb_limiters t)"
      "pools_new E i (pc_upstream_pools config) = Ok (tb_pools t, j)"
      by (rule route_table_new_inv)
    have pools: "\<forall>p \<in> snd ` set (pc_upstream_pools config). pool_ok E p"
      using True by (simp add: config_ok_def)
    have "\<exists>p. map_of (tb_pools t) (cr_pool r) = Some p \<and> pool_inv p \<and> pl_expanded p \<noteq> []"
      if "r \<in> set (tb_routes t)" for r
    proof -
      have "cr_pool r \<in> fst ` set (tb_pools t)"
        using that c(1) compile_routes_Ok(3) [OF c(3)] by (simp add: table_inv_def)
      then obtain p where p: "map_of (tb_pools t) (cr_pool r) = Some p"
        using map_of_eq_None_iff [of "tb_pools t" "cr_pool r"] by fastforce
      then have "p \<in> snd ` set (tb_pools t)" by (metis image_eqI map_of_SomeD snd_conv)
      with pools_new_Ok [OF c(4) assms(1) pools] p show ?thesis by blast
    qed
    with Inr v t c(1,2) True show ?thesis by (auto simp: snapshot_parse_def)
  qed
qed

text \<open>
  C25. Loading a configuration never panics: for every text and every result of the TOML parser,
  \<^verbatim>\<open>ConfigSnapshot::parse\<close> returns a snapshot or an error. When it returns a snapshot, the
  configuration is valid, the route table lists exactly its routes sorted by decreasing prefix
  length, and each of its routes points to an existing pool with a selectable upstream.
\<close>

theorem snapshot_parse_safe:
  assumes "authority_is_header E" "\<forall>c. from_str text = Inr c \<longrightarrow> pools_fit c"
  shows "case snapshot_parse E from_str i text path of
      Panic _ \<Rightarrow> False
    | Err _ \<Rightarrow> True
    | Ok (s, _) \<Rightarrow> config_ok E (sn_config s) \<and>
        (\<exists>compiled. table_inv E compiled (sn_routes s) \<and>
           map cr_route compiled = pc_routes (sn_config s)) \<and>
        (\<forall>c \<in> set (tb_routes (sn_routes s)).
           \<exists>p. map_of (tb_pools (sn_routes s)) (cr_pool c) = Some p \<and> pool_inv p \<and> pl_expanded p \<noteq> [])"
  using assms by (rule snapshot_parse_inv)

theorem snapshot_parse_safe_witness:
  "snapshot_parse sample_lib (\<lambda>_. Inr sample_config) 0 ''toml'' ''inline'' \<noteq> Panic ''x''"
  using snapshot_parse_safe [OF sample_authority_is_header,
      of "\<lambda>_. Inr sample_config" "''toml''" 0 "''inline''"] sample_config_ok(2)
  by (auto split: outcome.splits)

lemma match_route_spec:
  assumes "table_inv E compiled t" "starts_with path ''/''" "\<forall>h. host = Some h \<longrightarrow> parse_authority_host E h \<noteq> None"
  shows "match_route E t host path = spec_match E compiled host path"
  using match_route_general [OF assms(1)] match_route_single [OF assms(1) _ assms(2,3)] by blast

text \<open>
  C1. Route matching is longest-prefix matching. For every table built by \<^verbatim>\<open>RouteTable::new\<close>, a
  well-formed request (absolute path, host absent or parseable) gets the route whose host is the
  request's host and whose prefix matches with the greatest length, or if there is none the
  longest matching wildcard route; among routes of equal prefix length the first configured one
  wins. The lookup structures and the single-route shortcut do not change the answer.
\<close>

theorem match_route_is_longest_prefix:
  assumes "route_table_new E i config = Ok (t, j)" "starts_with path ''/''"
    "\<forall>h. host = Some h \<longrightarrow> parse_authority_host E h \<noteq> None"
  shows "\<exists>compiled. map cr_route compiled = pc_routes config \<and>
    match_route E t host path = spec_match E compiled host path"
proof -
  obtain compiled where c: "table_inv E compiled t" "map cr_route compiled = pc_routes config"
    using assms(1) by (rule route_table_new_inv)
  from match_route_spec [OF c(1) assms(2,3)] c(2) show ?thesis by blast
qed

definition sample_table :: route_table where
  "sample_table =
     (case route_table_new sample_lib 0 sample_config of
        Ok (t, _) \<Rightarrow> t
      | _ \<Rightarrow> \<lparr>tb_routes = [], tb_host_routes = Map.empty, tb_wildcard_routes = [],
             tb_single_wildcard_root = False, tb_requires_host_match = False, tb_pools = [],
             tb_limiters = []\<rparr>)"

lemma sample_table_new: "\<exists>j. route_table_new sample_lib 0 sample_config = Ok (sample_table, j)"
  using route_table_new_total [OF sample_authority_is_header sample_config_ok(1), of 0]
  by (auto simp: sample_table_def)

theorem match_route_is_longest_prefix_witness:
  "\<exists>compiled. map cr_route compiled = pc_routes sample_config \<and>
    match_route sample_lib sample_table (Some ''example.org'') ''/index'' =
      spec_match sample_lib compiled (Some ''example.org'') ''/index''"
proof -
  obtain j where j: "route_table_new sample_lib 0 sample_config = Ok (sample_table, j)"
    using sample_table_new by blast
  have h: "parse_authority_host sample_lib ''example.org'' \<noteq> None" by code_simp
  show ?thesis
    using match_route_is_longest_prefix [OF j, of "''/index''" "Some ''example.org''"] h by simp
qed

text \<open>
  Prefixes match whole path segments: a prefix other than the root matches exactly itself,
  itself followed by a slash, or itself followed by a query.
\<close>

theorem prefix_matches_segments:
  assumes "pre \<noteq> ''/''"
  shows "path_matches_prefix path pre \<longleftrightarrow>
    path = pre \<or> (\<exists>rest. path = pre @ ''/'' @ rest) \<or> (\<exists>rest. path = pre @ ''?'' @ rest)"
  by (rule path_matches_prefix_iff [OF assms])

theorem prefix_matches_segments_witness:
  "path_matches_prefix ''/api/v1'' ''/api'' \<and> \<not> path_matches_prefix ''/apiary'' ''/api'' \<and>
   \<not> path_matches_prefix ''/api/v1'' ''/api/''"
  using prefix_matches_segments [of "''/api''" "''/api/v1''"]
    prefix_matches_segments [of "''/api''" "''/apiary''"]
    prefix_matches_segments [of "''/api/''" "''/api/v1''"] by simp

text \<open>
  The engines skip host parsing when \<^verbatim>\<open>requires_host_match\<close> is false. That is sound: in such
  a table the route chosen without a host is the one chosen with any parseable host.
\<close>

theorem skipping_host_is_sound:
  assumes "route_table_new E i config = Ok (t, j)" "\<not> tb_requires_host_match t"
    "parse_authority_host E h \<noteq> None" "starts_with path ''/''"
  shows "match_route E t (Some h) path = match_route E t None path"
proof -
  obtain compiled where c: "table_inv E compiled t" using assms(1) by (rule route_table_new_inv)
  have any: "\<forall>c \<in> set compiled. for_any c" using c assms(2) by (auto simp: table_inv_def)
  have "match_route E t host path = spec_match E compiled host path"
    if "\<forall>h. host = Some h \<longrightarrow> parse_authority_host E h \<noteq> None" for host
    using match_route_general [OF c] match_route_single [OF c _ assms(4) that] by blast
  then show ?thesis using assms(3) spec_match_no_host [OF any assms(3)] by simp
qed

theorem skipping_host_is_sound_witness:
  "match_route sample_lib sample_table (Some ''example.org'') ''/index'' =
   match_route sample_lib sample_table None ''/index''"
proof -
  obtain j where j: "route_table_new sample_lib 0 sample_config = Ok (sample_table, j)"
    using sample_table_new by blast
  have h: "parse_authority_host sample_lib ''example.org'' \<noteq> None" by code_simp
  have r: "\<not> tb_requires_host_match sample_table" by code_simp
  show ?thesis using skipping_host_is_sound [OF j r h, of "''/index''"] by simp
qed

text \<open>
  \<^verbatim>\<open>all_upstreams\<close> lists every upstream that some route can reach exactly once, wherever the
  allocator placed them.
\<close>

theorem all_upstreams_once:
  assumes "inj addr"
  shows "distinct (map st_id (all_upstreams addr t)) \<and>
    st_id ` set (all_upstreams addr t) =
      {st_id s |s c p. c \<in> set (tb_routes t) \<and> map_of (tb_pools t) (cr_pool c) = Some p \<and>
         s \<in> set (pl_upstreams p)}"
proof -
  let ?f = "\<lambda>s. addr (st_id s)"
  define us where "us = concat (map (\<lambda>c. case map_of (tb_pools t) (cr_pool c) of
                       Some p \<Rightarrow> pl_upstreams p | None \<Rightarrow> []) (tb_routes t))"
  have sorted: "sorted (map ?f (sort_key ?f us))" by (rule sorted_sort_key)
  have d: "distinct (map ?f (all_upstreams addr t))"
    "?f ` set (all_upstreams addr t) = ?f ` set us"
    using dedup_by_key_sorted [OF sorted] by (simp_all add: all_upstreams_def us_def)
  have "distinct (map addr (map st_id (all_upstreams addr t)))" using d(1) by (simp add: comp_def)
  then have "distinct (map st_id (all_upstreams addr t))" by (simp only: distinct_map)
  moreover have "st_id ` set (all_upstreams addr t) = st_id ` set us"
  proof -
    have "addr ` (st_id ` set (all_upstreams addr t)) = addr ` (st_id ` set us)"
      using d(2) by (simp only: image_image)
    then show ?thesis by (simp only: inj_image_eq_iff [OF assms])
  qed
  moreover have "st_id ` set us = {st_id s |s c p. c \<in> set (tb_routes t) \<and>
      map_of (tb_pools t) (cr_pool c) = Some p \<and> s \<in> set (pl_upstreams p)}"
  proof -
    have "s \<in> set us \<longleftrightarrow> (\<exists>c p. c \<in> set (tb_routes t) \<and>
        map_of (tb_pools t) (cr_pool c) = Some p \<and> s \<in> set (pl_upstreams p))" for s
      by (auto simp: us_def split: option.splits) (metis+)
    then show ?thesis by blast
  qed
  ultimately show ?thesis by simp
qed

theorem all_upstreams_once_witness: "distinct (map st_id (all_upstreams unat sample_table))"
proof -
  have "inj (unat :: usize \<Rightarrow> nat)" by (rule injI) (simp add: word_unat_eq_iff)
  from all_upstreams_once [OF this, of sample_table] show ?thesis by blast
qed

end
