(* ===== verification/Requests.thy ===== *)
theory Requests
  imports Routes Http1_Framing
begin

text \<open>
  From a request head to an upstream request: \<^verbatim>\<open>build_request\<close> of \<^verbatim>\<open>src/src/proxy/h1_fast.rs\<close> and
  \<^verbatim>\<open>src/src/proxy/h1_uring.rs\<close>, with the types \<^verbatim>\<open>SelectedUpstream\<close> and \<^verbatim>\<open>MatchedRequest\<close>. Selecting an
  upstream advances the cursor of a shared pool, so the functions return the snapshot updated; the
  \<^verbatim>\<open>Arc\<close> to the selected upstream is its pool's name and its index there.

  Shown here: a request built on a snapshot that \<^verbatim>\<open>ConfigSnapshot::parse\<close> returned goes to an
  upstream of the pool of the matched route, its head has the form the upstream expects, nothing of
  the snapshot but one cursor changes, and nothing panics; the two engines build the same request
  wherever both accept it, but for an explicit Content-Length of zero.
\<close>

section \<open>Definitions\<close>

type_synonym upstream_ref = "string \<times> nat"

record selected_upstream =
  su_ref :: upstream_ref
  su_protocol :: upstream_protocol
  su_connect_timeout_ms :: u64
  su_request_timeout_ms :: u64
  su_id :: usize
  su_authority :: string
  su_host_header :: string

record matched_request =
  mr_head :: request_head
  mr_upstream :: selected_upstream
  mr_limiter :: "nat option"
  mr_access_log :: "(string \<times> string) option"

text \<open>Access to the shared state behind the \<^verbatim>\<open>Arc\<close>s of a snapshot.\<close>

definition snap_pool :: "config_snapshot \<Rightarrow> string \<Rightarrow> upstream_pool option" where
  "snap_pool sn name = map_of (tb_pools (sn_routes sn)) name"

definition set_pool :: "string \<Rightarrow> upstream_pool \<Rightarrow> config_snapshot \<Rightarrow> config_snapshot" where
  "set_pool name p sn =
     sn\<lparr>sn_routes := (sn_routes sn)\<lparr>tb_pools := AList.update name p (tb_pools (sn_routes sn))\<rparr>\<rparr>"

definition update_upstream ::
  "(upstream_state \<Rightarrow> upstream_state) \<Rightarrow> upstream_ref \<Rightarrow> config_snapshot \<Rightarrow> config_snapshot" where
  "update_upstream f r sn =
     (case snap_pool sn (fst r) of
        None \<Rightarrow> sn
      | Some p \<Rightarrow> set_pool (fst r) (pool_update f (snd r) p) sn)"

text \<open>A parsed head: method, target, whether the version is 1.0, and the headers.\<close>

definition request_line ::
  "ext_lib \<Rightarrow> bytes \<Rightarrow> (string \<times> string \<times> bool \<times> header list, h1_error) outcome" where
  "request_line E raw_headers =
     rbind (ok_or (lib_parse_request E raw_headers) (Parse ''invalid request headers''))
     (\<lambda>(complete, parsed).
       if \<not> complete then Err (Parse ''incomplete request headers'')
       else
         rbind (ok_or (pq_method parsed) (Parse ''request method missing'')) (\<lambda>meth.
         rbind (ok_or (pq_path parsed) (Parse ''request target missing'')) (\<lambda>path_and_query.
         Ok (meth, path_and_query, pq_version parsed = Some 0, pq_headers parsed))))"

definition request_host :: "config_snapshot \<Rightarrow> header list \<Rightarrow> string option" where
  "request_host sn headers =
     (if tb_requires_host_match (sn_routes sn)
      then Option.bind (header_value headers ''host'') header_to_str
      else None)"

definition outbound_head :: "string \<Rightarrow> string \<Rightarrow> string \<Rightarrow> bytes" where
  "outbound_head meth upstream_path host_header =
     meth @ '' '' @ upstream_path @ '' HTTP/1.1'' @ crlf @ ''Host: '' @ host_header @ crlf @
     ''Connection: keep-alive'' @ crlf"

definition select_upstream :: "upstream_ref \<Rightarrow> upstream_state \<Rightarrow> selected_upstream" where
  "select_upstream r s =
     \<lparr>su_ref = r, su_protocol = us_protocol (st_config s),
      su_connect_timeout_ms = us_connect_timeout_ms (st_config s),
      su_request_timeout_ms = us_request_timeout_ms (st_config s), su_id = st_id s,
      su_authority = auth_text (ub_authority (st_uri_base s)),
      su_host_header = ub_host_header (st_uri_base s)\<rparr>"

text \<open>
  The route's pool and its next upstream. The pool of a compiled route always exists
  (\<open>snap_inv\<close> below); a dangling name would be a dangling \<^verbatim>\<open>Arc\<close>.
\<close>

definition route_upstream ::
  "config_snapshot \<Rightarrow> compiled_route \<Rightarrow>
   ((upstream_ref \<times> upstream_state) option, h1_error) outcome \<times> config_snapshot" where
  "route_upstream sn route =
     (case snap_pool sn (cr_pool route) of
        None \<Rightarrow> (Panic ''dangling pool'', sn)
      | Some p \<Rightarrow>
          (let (sel, p') = select_arc p; sn' = set_pool (cr_pool route) p' sn in
           case sel of
             None \<Rightarrow> (Ok None, sn')
           | Some i \<Rightarrow> (Ok (Some ((cr_pool route, i), pl_upstreams p' ! i)), sn')))"

definition fast_request ::
  "config_snapshot \<Rightarrow> compiled_route \<Rightarrow> upstream_ref \<Rightarrow> upstream_state \<Rightarrow>
   string \<times> string \<times> bool \<times> header list \<Rightarrow> (matched_request \<times> bytes, h1_error) outcome" where
  "fast_request sn route r s line =
     (case line of (meth, path_and_query, http10, headers) \<Rightarrow>
        let upstream_path = path_for_upstream (ub_base_path (st_uri_base s)) path_and_query;
            selected = select_upstream r s;
            close_after_response = request_wants_close http10 headers
        in rbind (body_kind headers True) (\<lambda>body.
           (case append_forward_headers
              (outbound_head meth upstream_path (su_host_header selected)) headers body of
              Panic p \<Rightarrow> Panic p
            | Err u \<Rightarrow> Panic ''unreachable''
            | Ok outbound \<Rightarrow>
                Ok (\<lparr>mr_head = \<lparr>rq_head_response = eq_ignore_ascii_case meth ''HEAD'',
                                rq_close_after_response = close_after_response, rq_body = body\<rparr>,
                     mr_upstream = selected, mr_limiter = cr_limiter route,
                     mr_access_log =
                       (if te_access_log (pc_telemetry (sn_config sn))
                        then Some (meth, path_and_query) else None)\<rparr>,
                    outbound @ crlf))))"

text \<open>The fast engine. The outbound buffer is empty at the call.\<close>

definition build_request ::
  "ext_lib \<Rightarrow> config_snapshot \<Rightarrow> bytes \<Rightarrow>
   ((matched_request \<times> bytes) option, h1_error) outcome \<times> config_snapshot" where
  "build_request E sn raw_headers =
     (case request_line E raw_headers of
        Err e \<Rightarrow> (Err e, sn)
      | Panic p \<Rightarrow> (Panic p, sn)
      | Ok (meth, path_and_query, http10, headers) \<Rightarrow>
          (case match_route E (sn_routes sn) (map_option str_trim (request_host sn headers)) path_and_query of
             None \<Rightarrow> (Ok None, sn)
           | Some route \<Rightarrow>
               (case route_upstream sn route of
                  (Panic p, sn') \<Rightarrow> (Panic p, sn')
                | (Err e, sn') \<Rightarrow> (Err e, sn')
                | (Ok None, sn') \<Rightarrow> (Err (UpstreamErr ''no available upstream''), sn')
                | (Ok (Some (r, s)), sn') \<Rightarrow>
                    (rbind (fast_request sn' route r s (meth, path_and_query, http10, headers))
                       (\<lambda>m. Ok (Some m)), sn'))))"

record uring_request =
  uq_head_response :: bool
  uq_close_after_response :: bool
  uq_body_len :: usize
  uq_outbound :: bytes
  uq_connect_addr :: socket_addr
  uq_upstream :: selected_upstream
  uq_limiter :: "nat option"

definition uring_request_of ::
  "compiled_route \<Rightarrow> upstream_ref \<Rightarrow> upstream_state \<Rightarrow> socket_addr \<Rightarrow>
   string \<times> string \<times> bool \<times> header list \<Rightarrow> (uring_request, h1_error) outcome" where
  "uring_request_of route r s addr line =
     (case line of (meth, path_and_query, http10, headers) \<Rightarrow>
        let upstream_path = path_for_upstream (ub_base_path (st_uri_base s)) path_and_query;
            selected = select_upstream r s
        in rbind (content_length headers True) (\<lambda>body_len.
           Ok \<lparr>uq_head_response = eq_ignore_ascii_case meth ''HEAD'',
               uq_close_after_response = request_wants_close http10 headers,
               uq_body_len = body_len,
               uq_outbound = append_forward_headers_uring
                 (outbound_head meth upstream_path (su_host_header selected)) headers body_len @ crlf,
               uq_connect_addr = addr, uq_upstream = selected, uq_limiter = cr_limiter route\<rparr>))"

text \<open>The io\_uring engine resolves the upstream's address, which is cached in the upstream.\<close>

definition build_request_uring ::
  "ext_lib \<Rightarrow> (string \<Rightarrow> socket_addr list option) \<Rightarrow> config_snapshot \<Rightarrow> bytes \<Rightarrow>
   (uring_request option, h1_error) outcome \<times> config_snapshot" where
  "build_request_uring E resolve sn raw_headers =
     (case request_line E raw_headers of
        Err e \<Rightarrow> (Err e, sn)
      | Panic p \<Rightarrow> (Panic p, sn)
      | Ok (meth, path_and_query, http10, headers) \<Rightarrow>
          (case match_route E (sn_routes sn) (map_option str_trim (request_host sn headers)) path_and_query of
             None \<Rightarrow> (Ok None, sn)
           | Some route \<Rightarrow>
               (case route_upstream sn route of
                  (Panic p, sn') \<Rightarrow> (Panic p, sn')
                | (Err e, sn') \<Rightarrow> (Err e, sn')
                | (Ok None, sn') \<Rightarrow> (Err (UpstreamErr ''no available upstream''), sn')
                | (Ok (Some (r, s)), sn') \<Rightarrow>
                    (let sn'' = update_upstream (\<lambda>u. snd (connect_addr resolve u)) r sn' in
                     case fst (connect_addr resolve s) of
                       None \<Rightarrow> (Err (Io OtherIo), sn'')
                     | Some addr \<Rightarrow>
                         (rbind (uring_request_of route r s addr (meth, path_and_query, http10, headers))
                            (\<lambda>m. Ok (Some m)), sn'')))))"

section \<open>Snapshots in use\<close>

text \<open>
  What every operation on a snapshot keeps: the table's structure, a selectable pool behind every
  route, and a limiter behind every reference to one.
\<close>

definition snap_inv :: "ext_lib \<Rightarrow> config_snapshot \<Rightarrow> bool" where
  "snap_inv E sn \<longleftrightarrow>
     (\<exists>compiled. table_inv E compiled (sn_routes sn)) \<and>
     (\<forall>c \<in> set (tb_routes (sn_routes sn)).
        (\<exists>p. snap_pool sn (cr_pool c) = Some p \<and> pool_inv p \<and> pl_expanded p \<noteq> []) \<and>
        (\<forall>k. cr_limiter c = Some k \<longrightarrow> k < length (tb_limiters (sn_routes sn))))"

lemma snap_pool_set_pool [simp]:
  "snap_pool (set_pool name p sn) n = (if n = name then Some p else snap_pool sn n)"
  by (simp add: snap_pool_def set_pool_def update_conv')

lemma match_route_pools [simp]: "match_route E (t\<lparr>tb_pools := ps\<rparr>) = match_route E t"
  by (intro ext) (simp add: match_route_def cong: option.case_cong if_cong)

lemma set_pool_frame [simp]:
  "sn_config (set_pool name p sn) = sn_config sn"
  "tb_routes (sn_routes (set_pool name p sn)) = tb_routes (sn_routes sn)"
  "tb_limiters (sn_routes (set_pool name p sn)) = tb_limiters (sn_routes sn)"
  "tb_requires_host_match (sn_routes (set_pool name p sn)) = tb_requires_host_match (sn_routes sn)"
  "table_inv E compiled (sn_routes (set_pool name p sn)) = table_inv E compiled (sn_routes sn)"
  "match_route E (sn_routes (set_pool name p sn)) = match_route E (sn_routes sn)"
  by (simp_all add: set_pool_def table_inv_def)

lemma snap_inv_set_pool:
  assumes "snap_inv E sn" "pool_inv p" "pl_expanded p \<noteq> []"
  shows "snap_inv E (set_pool name p sn)"
  using assms by (auto simp: snap_inv_def)

lemma expand_weights_cong:
  assumes "map (\<lambda>s. us_weight (st_config s)) ss = map (\<lambda>s. us_weight (st_config s)) ss'"
  shows "expand_weights ss = expand_weights ss'"
proof -
  have "concat (map (\<lambda>(idx, s). replicate (unat (us_weight (st_config s))) idx) (enumerate k ss)) =
      concat (map (\<lambda>(idx, s). replicate (unat (us_weight (st_config s))) idx) (enumerate k ss'))" for k
    using assms
  proof (induction ss arbitrary: ss' k)
    case (Cons s ss)
    from Cons.prems obtain t ts where ss': "ss' = t # ts" "us_weight (st_config s) = us_weight (st_config t)"
      "map (\<lambda>s. us_weight (st_config s)) ss = map (\<lambda>s. us_weight (st_config s)) ts"
      by (metis (no_types, lifting) list.simps(9) map_eq_Cons_conv)
    from Cons.IH [OF ss'(3), of "Suc k"] ss'(1,2) show ?case by simp
  qed simp
  then show ?thesis by (simp add: expand_weights_def)
qed

lemma pool_inv_update:
  assumes "pool_inv p" "\<And>s. st_config (f s) = st_config s"
  shows "pool_inv (pool_update f i p)" "pl_expanded (pool_update f i p) = pl_expanded p"
proof -
  have "map (\<lambda>s. us_weight (st_config s)) ((pl_upstreams p)[i := f (pl_upstreams p ! i)]) =
      map (\<lambda>s. us_weight (st_config s)) (pl_upstreams p)" if "i < length (pl_upstreams p)"
    using that assms(2) by (simp add: map_update list_update_same_conv)
  then show "pool_inv (pool_update f i p)" "pl_expanded (pool_update f i p) = pl_expanded p"
    using assms(1) by (auto simp: pool_update_def pool_inv_def dest!: expand_weights_cong [OF sym])
qed

lemma update_upstream_frame [simp]:
  "sn_config (update_upstream f r sn) = sn_config sn"
  "tb_routes (sn_routes (update_upstream f r sn)) = tb_routes (sn_routes sn)"
  "tb_limiters (sn_routes (update_upstream f r sn)) = tb_limiters (sn_routes sn)"
  "match_route E (sn_routes (update_upstream f r sn)) = match_route E (sn_routes sn)"
  by (simp_all add: update_upstream_def split: option.split)

lemma snap_inv_update_upstream:
  assumes "snap_inv E sn" "\<And>s. st_config (f s) = st_config s"
  shows "snap_inv E (update_upstream f r sn)"
proof (cases "snap_pool sn (fst r)")
  case (Some p)
  show ?thesis
    unfolding snap_inv_def
  proof (intro conjI ballI allI impI)
    show "\<exists>compiled. table_inv E compiled (sn_routes (update_upstream f r sn))"
      using assms(1) Some by (auto simp: snap_inv_def update_upstream_def)
    fix c
    assume c: "c \<in> set (tb_routes (sn_routes (update_upstream f r sn)))"
    then obtain q where q: "snap_pool sn (cr_pool c) = Some q" "pool_inv q" "pl_expanded q \<noteq> []"
      using assms(1) by (auto simp: snap_inv_def)
    show "\<exists>p. snap_pool (update_upstream f r sn) (cr_pool c) = Some p \<and> pool_inv p \<and> pl_expanded p \<noteq> []"
      using Some q pool_inv_update [of q f "snd r"] assms(2) by (auto simp: update_upstream_def)
    show "k < length (tb_limiters (sn_routes (update_upstream f r sn)))" if "cr_limiter c = Some k" for k
      using assms(1) c that by (auto simp: snap_inv_def)
  qed
qed (use assms in \<open>simp add: update_upstream_def\<close>)

lemma snapshot_parse_snap_inv:
  assumes "authority_is_header E" "\<forall>c. from_str text = Inr c \<longrightarrow> pools_fit c"
    and ok: "snapshot_parse E from_str i text path = Ok (sn, j)"
  shows "snap_inv E sn"
proof -
  have inv: "\<exists>compiled. table_inv E compiled (sn_routes sn)"
    "\<forall>c \<in> set (tb_routes (sn_routes sn)).
       \<exists>p. map_of (tb_pools (sn_routes sn)) (cr_pool c) = Some p \<and> pool_inv p \<and> pl_expanded p \<noteq> []"
    using snapshot_parse_inv [of E from_str "text" i path] assms(1,2) ok by auto
  from ok obtain config j' where "route_table_new E i config = Ok (sn_routes sn, j')"
    by (auto simp: snapshot_parse_def outcome_simps split: sum.splits)
  then obtain compiled where c: "table_inv E compiled (sn_routes sn)"
    "compile_routes (map fst (tb_pools (sn_routes sn))) [] (pc_routes config) =
       Ok (compiled, tb_limiters (sn_routes sn))"
    by (rule route_table_new_inv)
  have "\<forall>c \<in> set (tb_routes (sn_routes sn)). \<forall>k. cr_limiter c = Some k \<longrightarrow>
      k < length (tb_limiters (sn_routes sn))"
    using compile_routes_limiter [OF c(2)] c(1) by (auto simp: table_inv_def limiter_of_route_def)
  with inv show ?thesis by (simp add: snap_inv_def snap_pool_def)
qed

section \<open>Selecting an upstream\<close>

lemma find_mem: "List.find P xs = Some x \<Longrightarrow> x \<in> set xs"
  by (auto simp: find_Some_iff)

lemma match_route_mem:
  assumes "table_inv E compiled t" "match_route E t host path = Some c"
  shows "c \<in> set (tb_routes t)"
proof -
  have hosts: "set rs \<subseteq> set (tb_routes t)" if "tb_host_routes t key = Some rs" for key rs
    using assms(1) that by (auto simp: table_inv_def split: list.splits)
  have wild: "set (tb_wildcard_routes t) \<subseteq> set (tb_routes t)"
    using assms(1) by (auto simp: table_inv_def)
  have single: "tb_single_wildcard_root t \<Longrightarrow> length (tb_routes t) = 1"
    using assms(1) by (auto simp: table_inv_def)
  from assms(2) hosts wild single show ?thesis
    unfolding match_route_def
    by (auto split: if_splits option.splits dest!: find_mem)
qed

lemma route_upstream_Ok:
  assumes "snap_inv E sn" "match_route E (sn_routes sn) host path = Some route"
  shows "\<exists>p i p'. snap_pool sn (cr_pool route) = Some p \<and> select p = (Some i, p') \<and>
    i < length (pl_upstreams p) \<and> snap_inv E (set_pool (cr_pool route) p' sn) \<and>
    route_upstream sn route =
      (Ok (Some ((cr_pool route, i), pl_upstreams p ! i)), set_pool (cr_pool route) p' sn)"
proof -
  have "route \<in> set (tb_routes (sn_routes sn))"
    using assms match_route_mem unfolding snap_inv_def by blast
  then obtain p where p: "snap_pool sn (cr_pool route) = Some p" "pool_inv p" "pl_expanded p \<noteq> []"
    using assms(1) by (auto simp: snap_inv_def)
  obtain i p' where sel: "select p = (Some i, p')" using select_Some [OF p(3)] by (cases "select p") auto
  have fr: "pl_upstreams p' = pl_upstreams p" "pl_expanded p' = pl_expanded p"
    using select_frame [of p] sel by simp_all
  then have "pool_inv p'" "pl_expanded p' \<noteq> []" using p(2,3) by (simp_all add: pool_inv_def)
  from snap_inv_set_pool [OF assms(1) this] select_in_range [OF p(2) sel] p(1) sel fr
  show ?thesis by (auto simp: route_upstream_def select_arc_eq_select)
qed

lemma request_line_no_panic: "request_line E raw \<noteq> Panic p"
  by (auto simp: request_line_def outcome_simps)

section \<open>What is built\<close>

lemma fast_request_Ok:
  "fast_request sn route r s (meth, path, http10, hs) = Ok (m, outb) \<longleftrightarrow>
     (\<exists>body. body_kind hs True = Ok body \<and>
        outb = outbound_head meth (path_for_upstream (ub_base_path (st_uri_base s)) path)
            (ub_host_header (st_uri_base s)) @ concat (map render_header (forwarded hs body)) @ crlf \<and>
        m = \<lparr>mr_head = \<lparr>rq_head_response = eq_ignore_ascii_case meth ''HEAD'',
               rq_close_after_response = request_wants_close http10 hs, rq_body = body\<rparr>,
             mr_upstream = select_upstream r s, mr_limiter = cr_limiter route,
             mr_access_log = (if te_access_log (pc_telemetry (sn_config sn)) then Some (meth, path) else None)\<rparr>)"
  by (auto simp: fast_request_def rbind_eq_Ok append_forward_headers_eq select_upstream_def Let_def)

lemma body_kind_no_panic: "body_kind hs limited \<noteq> Panic p"
proof -
  have "scan_framing hs te cl \<noteq> Panic p" for te cl
    by (induction hs te cl rule: scan_framing.induct) auto
  moreover have "parse_length v \<noteq> Panic p" for v by (auto simp: parse_length_def outcome_simps)
  ultimately show ?thesis
    by (auto simp: body_kind_def outcome_simps split: option.splits if_splits)
qed

lemma fast_request_no_panic: "fast_request sn route r s line \<noteq> Panic p"
  by (cases line) (auto simp: fast_request_def outcome_simps append_forward_headers_eq body_kind_no_panic Let_def)

text \<open>The three ways \<^verbatim>\<open>build_request\<close> can go once the head is parsed.\<close>

lemma build_request_cases:
  assumes "snap_inv E sn"
  obtains (bad) e where "build_request E sn raw = (Err e, sn)" "request_line E raw = Err e"
  | (no_route) meth path http10 hs where "request_line E raw = Ok (meth, path, http10, hs)"
      "match_route E (sn_routes sn) (map_option str_trim (request_host sn hs)) path = None"
      "build_request E sn raw = (Ok None, sn)"
  | (routed) meth path http10 hs route p i p' where
      "request_line E raw = Ok (meth, path, http10, hs)"
      "match_route E (sn_routes sn) (map_option str_trim (request_host sn hs)) path = Some route"
      "snap_pool sn (cr_pool route) = Some p" "select p = (Some i, p')" "i < length (pl_upstreams p)"
      "snap_inv E (set_pool (cr_pool route) p' sn)"
      "route_upstream sn route =
         (Ok (Some ((cr_pool route, i), pl_upstreams p ! i)), set_pool (cr_pool route) p' sn)"
      "build_request E sn raw =
         (rbind (fast_request (set_pool (cr_pool route) p' sn) route (cr_pool route, i) (pl_upstreams p ! i)
            (meth, path, http10, hs)) (\<lambda>m. Ok (Some m)), set_pool (cr_pool route) p' sn)"
proof (cases "request_line E raw")
  case (Err e)
  then show thesis by (intro bad) (simp_all add: build_request_def)
next
  case (Panic p)
  then show thesis using request_line_no_panic by blast
next
  case (Ok line)
  obtain meth path http10 hs where line: "line = (meth, path, http10, hs)" by (cases line) auto
  note rl = Ok [unfolded line]
  show thesis
  proof (cases "match_route E (sn_routes sn) (map_option str_trim (request_host sn hs)) path")
    case None
    with rl show thesis by (intro no_route [OF rl None]) (simp add: build_request_def)
  next
    case (Some route)
    from route_upstream_Ok [OF assms Some] obtain p i p' where
      u: "snap_pool sn (cr_pool route) = Some p" "select p = (Some i, p')" "i < length (pl_upstreams p)"
        "snap_inv E (set_pool (cr_pool route) p' sn)"
        "route_upstream sn route =
           (Ok (Some ((cr_pool route, i), pl_upstreams p ! i)), set_pool (cr_pool route) p' sn)" by blast
    with rl Some show thesis by (intro routed [OF rl Some u]) (simp add: build_request_def)
  qed
qed

lemma build_request_inv:
  assumes "snap_inv E sn" "build_request E sn raw = (r, sn')"
  shows "snap_inv E sn'" "sn_config sn' = sn_config sn" "r \<noteq> Panic p"
    "tb_limiters (sn_routes sn') = tb_limiters (sn_routes sn)"
proof -
  have "snap_inv E sn' \<and> sn_config sn' = sn_config sn \<and> r \<noteq> Panic p \<and>
      tb_limiters (sn_routes sn') = tb_limiters (sn_routes sn)"
    using assms(1)
    by (cases rule: build_request_cases [where raw = raw])
       (use assms in \<open>auto simp: outcome_simps fast_request_no_panic\<close>)
  then show "snap_inv E sn'" "sn_config sn' = sn_config sn" "r \<noteq> Panic p"
    "tb_limiters (sn_routes sn') = tb_limiters (sn_routes sn)" by simp_all
qed

lemma build_request_Some:
  assumes "snap_inv E sn" "build_request E sn raw = (Ok (Some (m, outb)), sn')"
  shows "\<exists>meth path http10 hs route p i p'.
    request_line E raw = Ok (meth, path, http10, hs) \<and>
    match_route E (sn_routes sn) (map_option str_trim (request_host sn hs)) path = Some route \<and>
    snap_pool sn (cr_pool route) = Some p \<and> select p = (Some i, p') \<and> i < length (pl_upstreams p) \<and>
    sn' = set_pool (cr_pool route) p' sn \<and>
    fast_request sn' route (cr_pool route, i) (pl_upstreams p ! i) (meth, path, http10, hs) = Ok (m, outb)"
  using assms(1)
proof (cases rule: build_request_cases [where raw = raw])
  case (routed meth path http10 hs route p i p')
  with assms(2) have "sn' = set_pool (cr_pool route) p' sn"
    "fast_request sn' route (cr_pool route, i) (pl_upstreams p ! i) (meth, path, http10, hs) = Ok (m, outb)"
    by (auto simp: rbind_eq_Ok)
  with routed(1-5) show ?thesis by blast
qed (use assms(2) in simp_all)

section \<open>The two engines\<close>

lemma content_length_bodies:
  assumes "content_length hs True = Ok n"
  shows "\<exists>body. body_kind hs True = Ok body \<and> (body = ContentLength n \<or> n = 0 \<and> body = NoBody)"
  using assms by (auto simp: content_length_Ok)

lemma uring_outbound_eq:
  assumes "body = ContentLength n \<or> n = 0 \<and> body = NoBody" "body \<noteq> ContentLength 0"
  shows "append_forward_headers_uring out hs n = out @ concat (map render_header (forwarded hs body))"
  using assms
  by (auto simp: append_forward_headers_uring_def forwarded_def should_skip_header_eq render_header_def
      word_gt_0)

lemma uring_outbound_zero:
  "out @ concat (map render_header (forwarded hs (ContentLength 0))) =
     append_forward_headers_uring out hs 0 @ ''Content-Length: 0'' @ crlf"
proof -
  have "show_nat 0 = ''0''" by code_simp
  then show ?thesis
    by (simp add: append_forward_headers_uring_def forwarded_def should_skip_header_eq render_header_def)
qed

lemma build_request_uring_routed:
  assumes "snap_inv E sn" "build_request_uring E resolve sn raw = (Ok (Some u), sn')"
  shows "\<exists>meth path http10 hs route r s sn1 addr.
    request_line E raw = Ok (meth, path, http10, hs) \<and>
    match_route E (sn_routes sn) (map_option str_trim (request_host sn hs)) path = Some route \<and>
    route_upstream sn route = (Ok (Some (r, s)), sn1) \<and>
    uring_request_of route r s addr (meth, path, http10, hs) = Ok u"
proof (cases "request_line E raw")
  case (Ok line)
  obtain meth path http10 hs where line: "line = (meth, path, http10, hs)" by (cases line) auto
  note rl = Ok [unfolded line]
  from assms(2) rl obtain route where
    route: "match_route E (sn_routes sn) (map_option str_trim (request_host sn hs)) path = Some route"
    by (auto simp: build_request_uring_def split: option.splits)
  from route_upstream_Ok [OF assms(1) route] obtain r s sn1 where
    u: "route_upstream sn route = (Ok (Some (r, s)), sn1)" by blast
  from assms(2) rl route u obtain addr where
    "uring_request_of route r s addr (meth, path, http10, hs) = Ok u"
    by (auto simp: build_request_uring_def Let_def rbind_eq_Ok split: option.splits)
  with rl route u show ?thesis by blast
qed (use assms(2) in \<open>simp_all add: build_request_uring_def\<close>)

lemma engines_build_alike:
  assumes "snap_inv E sn" "build_request_uring E resolve sn raw = (Ok (Some u), snu)"
  shows "\<exists>m outb sn'. build_request E sn raw = (Ok (Some (m, outb)), sn') \<and>
    mr_upstream m = uq_upstream u \<and> mr_limiter m = uq_limiter u \<and>
    rq_head_response (mr_head m) = uq_head_response u \<and>
    rq_close_after_response (mr_head m) = uq_close_after_response u \<and>
    (rq_body (mr_head m) = ContentLength (uq_body_len u) \<or>
     uq_body_len u = 0 \<and> rq_body (mr_head m) = NoBody) \<and>
    (if rq_body (mr_head m) = ContentLength 0
     then (\<exists>head. uq_outbound u = head @ crlf \<and> outb = head @ ''Content-Length: 0'' @ crlf @ crlf)
     else outb = uq_outbound u)"
proof -
  from build_request_uring_routed [OF assms] obtain meth path http10 hs route ref s sn1 addr where
    r: "request_line E raw = Ok (meth, path, http10, hs)"
      "match_route E (sn_routes sn) (map_option str_trim (request_host sn hs)) path = Some route"
      "route_upstream sn route = (Ok (Some (ref, s)), sn1)"
      "uring_request_of route ref s addr (meth, path, http10, hs) = Ok u" by blast
  from r(4) obtain n where n: "content_length hs True = Ok n" "uq_body_len u = n"
    "uq_outbound u = append_forward_headers_uring (outbound_head meth
        (path_for_upstream (ub_base_path (st_uri_base s)) path) (ub_host_header (st_uri_base s))) hs n @ crlf"
    "uq_upstream u = select_upstream ref s" "uq_limiter u = cr_limiter route"
    "uq_head_response u = eq_ignore_ascii_case meth ''HEAD''"
    "uq_close_after_response u = request_wants_close http10 hs"
    by (auto simp: uring_request_of_def rbind_eq_Ok select_upstream_def Let_def)
  from content_length_bodies [OF n(1)] obtain body where
    body: "body_kind hs True = Ok body" "body = ContentLength n \<or> n = 0 \<and> body = NoBody" by blast
  obtain m outb where m: "fast_request sn1 route ref s (meth, path, http10, hs) = Ok (m, outb)"
    using body(1) by (auto simp: fast_request_Ok)
  then have "build_request E sn raw = (Ok (Some (m, outb)), sn1)"
    using r(1-3) by (simp add: build_request_def)
  moreover have "rq_body (mr_head m) = body" "mr_upstream m = uq_upstream u" "mr_limiter m = uq_limiter u"
    "rq_head_response (mr_head m) = uq_head_response u"
    "rq_close_after_response (mr_head m) = uq_close_after_response u"
    using m body(1) n(4-7) by (auto simp: fast_request_Ok)
  moreover have "outb = uq_outbound u" if "body \<noteq> ContentLength 0"
    using m body(1) n(3) uring_outbound_eq [OF body(2) that] by (auto simp: fast_request_Ok)
  moreover have "\<exists>head. uq_outbound u = head @ crlf \<and> outb = head @ ''Content-Length: 0'' @ crlf @ crlf"
    if "body = ContentLength 0"
  proof -
    have "n = 0" using that body(2) by auto
    with that m body(1) n(3) show ?thesis
      by (auto simp: fast_request_Ok uring_outbound_zero [THEN arg_cong, of "\<lambda>h. h @ crlf", simplified])
  qed
  ultimately show ?thesis using body(2) n(2) by auto
qed

section \<open>A sample\<close>

definition sample_upstream_state :: upstream_state where
  "sample_upstream_state =
     \<lparr>st_config = default_upstream,
      st_uri_base = \<lparr>ub_scheme = ''http'', ub_authority = sample_authority ''a:80'',
        ub_host_header = ''a:80'', ub_base_path = ''/base''\<rparr>,
      st_id = 1, st_connect_addr = None, st_passive_failures = 0, st_active_healthy = True\<rparr>"

definition sample_up_pool :: upstream_pool where
  "sample_up_pool =
     \<lparr>pl_upstreams = [sample_upstream_state], pl_expanded = [0], pl_cursor = 0, pl_threshold = 3\<rparr>"

definition sample_route :: compiled_route where
  "sample_route = \<lparr>cr_route = default_route, cr_pool = ''web'', cr_limiter = None\<rparr>"

definition sample_snapshot :: config_snapshot where
  "sample_snapshot =
     \<lparr>sn_config = default_proxy_config False,
      sn_routes = \<lparr>tb_routes = [sample_route], tb_host_routes = Map.empty,
        tb_wildcard_routes = [sample_route], tb_single_wildcard_root = True,
        tb_requires_host_match = False, tb_pools = [(''web'', sample_up_pool)], tb_limiters = []\<rparr>\<rparr>"

definition sample_request :: bytes where
  "sample_request = ''GET /x HTTP/1.1'' @ crlf @ ''Host: h'' @ crlf @ ''Accept: y'' @ crlf @ crlf"

definition sample_outbound :: bytes where
  "sample_outbound = ''GET /base/x HTTP/1.1'' @ crlf @ ''Host: a:80'' @ crlf @
     ''Connection: keep-alive'' @ crlf @ ''Accept: y'' @ crlf @ crlf"

lemma sample_snap_inv: "snap_inv sample_lib sample_snapshot"
proof -
  have any: "for_any sample_route" "rt_path_prefix (cr_route sample_route) = ''/''"
    by (simp_all add: for_any_def sample_route_def default_route_def)
  then have "\<not> for_host sample_lib key sample_route" for key by (simp add: for_any_def for_host_def)
  with any have "table_inv sample_lib [sample_route] (sn_routes sample_snapshot)"
    by (simp add: table_inv_def sample_snapshot_def sort_routes_def)
  moreover have "expand_weights [sample_upstream_state] = [0]" by code_simp
  ultimately show ?thesis
    by (auto simp: snap_inv_def sample_snapshot_def snap_pool_def sample_route_def sample_up_pool_def pool_inv_def)
qed

lemma sample_request_line:
  "request_line sample_lib sample_request =
     Ok (''GET'', ''/x'', False, [(''Host'', ''h''), (''Accept'', ''y'')])"
  by code_simp

lemma sample_forwarded:
  "forwarded [(''Host'', ''h''), (''Accept'', ''y'')] NoBody = [(''Accept'', ''y'')]"
  "body_kind [(''Host'', ''h''), (''Accept'', ''y'')] True = Ok NoBody"
proof -
  show "body_kind [(''Host'', ''h''), (''Accept'', ''y'')] True = Ok NoBody"
    unfolding body_kind_NoBody by code_simp
  show "forwarded [(''Host'', ''h''), (''Accept'', ''y'')] NoBody = [(''Accept'', ''y'')]" by code_simp
qed

lemma sample_build:
  "\<exists>m sn'. build_request sample_lib sample_snapshot sample_request = (Ok (Some (m, sample_outbound)), sn') \<and>
     su_ref (mr_upstream m) = (''web'', 0)"
proof -
  have m: "match_route sample_lib (sn_routes sample_snapshot) h ''/x'' = Some sample_route" for h
    by (simp add: match_route_def sample_snapshot_def)
  have u: "route_upstream sample_snapshot sample_route = (Ok (Some ((''web'', 0), sample_upstream_state)),
      set_pool ''web'' sample_up_pool sample_snapshot)"
    by (simp add: route_upstream_def snap_pool_def sample_snapshot_def sample_route_def select_arc_def sample_up_pool_def)
  have "path_for_upstream ''/base'' ''/x'' = ''/base/x''" by code_simp
  then have "\<exists>m. fast_request sn sample_route (''web'', 0) sample_upstream_state
      (''GET'', ''/x'', False, [(''Host'', ''h''), (''Accept'', ''y'')]) = Ok (m, sample_outbound) \<and>
      su_ref (mr_upstream m) = (''web'', 0)" for sn
    unfolding fast_request_Ok
    by (simp add: sample_forwarded select_upstream_def sample_upstream_state_def sample_outbound_def
        outbound_head_def render_header_def)
  then obtain m where "fast_request (set_pool ''web'' sample_up_pool sample_snapshot) sample_route (''web'', 0)
      sample_upstream_state (''GET'', ''/x'', False, [(''Host'', ''h''), (''Accept'', ''y'')]) =
        Ok (m, sample_outbound)" "su_ref (mr_upstream m) = (''web'', 0)" by blast
  then show ?thesis
    using m u by (simp add: build_request_def sample_request_line)
qed

section \<open>Properties\<close>

text \<open>
  What happens to a routed request: the upstream is member \<open>i\<close> of the route's pool, only the cursor of
  that pool has moved, and unless the framing is refused the request built is for that upstream.
\<close>

definition sent_to ::
  "config_snapshot \<Rightarrow> compiled_route \<Rightarrow> string \<Rightarrow> string \<Rightarrow> header list \<Rightarrow>
   ((matched_request \<times> bytes) option, h1_error) outcome \<Rightarrow> config_snapshot \<Rightarrow> upstream_pool \<Rightarrow> nat \<Rightarrow> bool" where
  "sent_to sn route meth path hs res sn' p i \<longleftrightarrow>
     snap_pool sn (cr_pool route) = Some p \<and> i < length (pl_upstreams p) \<and>
     (\<exists>c. sn' = set_pool (cr_pool route) (p\<lparr>pl_cursor := c\<rparr>) sn) \<and>
     (case body_kind hs True of
        Err e \<Rightarrow> res = Err e
      | Panic msg \<Rightarrow> False
      | Ok body \<Rightarrow>
          (\<exists>m. res = Ok (Some (m, meth @ '' '' @
                path_for_upstream (ub_base_path (st_uri_base (pl_upstreams p ! i))) path @ '' HTTP/1.1'' @ crlf @
                ''Host: '' @ ub_host_header (st_uri_base (pl_upstreams p ! i)) @ crlf @ ''Connection: keep-alive'' @ crlf @
                concat (map render_header (filter (end_to_end hs) hs @ framing_header body)) @ crlf)) \<and>
             su_ref (mr_upstream m) = (cr_pool route, i) \<and> su_id (mr_upstream m) = st_id (pl_upstreams p ! i) \<and>
             su_authority (mr_upstream m) = auth_text (ub_authority (st_uri_base (pl_upstreams p ! i))) \<and>
             rq_body (mr_head m) = body \<and> mr_limiter m = cr_limiter route))"

lemma fast_request_sent:
  assumes "snap_pool sn (cr_pool route) = Some p" "select p = (Some i, p')" "i < length (pl_upstreams p)"
    "sn' = set_pool (cr_pool route) p' sn"
    "res = rbind (fast_request sn' route (cr_pool route, i) (pl_upstreams p ! i) (meth, path, http10, hs)) (\<lambda>m. Ok (Some m))"
  shows "sent_to sn route meth path hs res sn' p i"
proof -
  obtain c where "p' = p\<lparr>pl_cursor := c\<rparr>" using assms(2) by (rule select_moves_cursor)
  with assms show ?thesis
    by (cases "body_kind hs True")
       (auto simp: sent_to_def fast_request_def append_forward_headers_eq forwarded_eq select_upstream_def outbound_head_def
         Let_def outcome_simps body_kind_no_panic)
qed

text \<open>
  C31. Requests go where the configuration sends them. On a snapshot in use \<^verbatim>\<open>build_request\<close> never
  panics. A head that does not parse is that error; a request that no route matches gives \<^verbatim>\<open>None\<close>;
  both leave the snapshot alone. The route found for the (trimmed) host and an absolute target is the
  one longest-prefix matching prescribes. A routed request is for a member of that route's pool, an
  available one if any member with a positive weight is available (and the cursor does not wrap
  around during the call); ambiguous framing is that error, otherwise the head sent is the request
  line with the joined path, the upstream's own Host header, \<^verbatim>\<open>Connection: keep-alive\<close>, the client's
  end-to-end headers and one framing header for the client's body. In each of these cases the
  snapshot is the one before, with at most the cursor of the route's pool moved.
\<close>

theorem build_request_routes_correctly:
  assumes "snap_inv E sn" "build_request E sn raw = (res, sn')"
  shows "snap_inv E sn' \<and>
    (case request_line E raw of
       Err e \<Rightarrow> res = Err e \<and> sn' = sn
     | Panic msg \<Rightarrow> False
     | Ok (meth, path, http10, hs) \<Rightarrow>
         (\<exists>compiled host. table_inv E compiled (sn_routes sn) \<and> host = map_option str_trim (request_host sn hs) \<and>
            (starts_with path ''/'' \<and> (\<forall>h. host = Some h \<longrightarrow> parse_authority_host E h \<noteq> None) \<longrightarrow>
               match_route E (sn_routes sn) host path = spec_match E compiled host path) \<and>
            (case match_route E (sn_routes sn) host path of
               None \<Rightarrow> res = Ok None \<and> sn' = sn
             | Some route \<Rightarrow>
                 (\<exists>p i. sent_to sn route meth path hs res sn' p i \<and>
                    (unat (pl_cursor p) + length (pl_expanded p) \<le> usize_lim \<and> (\<exists>u. usable_member p u) \<longrightarrow>
                       is_available (pl_upstreams p ! i) (pl_threshold p))))))"
proof -
  obtain compiled where t: "table_inv E compiled (sn_routes sn)" using assms(1) by (auto simp: snap_inv_def)
  note spec = match_route_spec [OF t]
  have inv: "snap_inv E sn'" by (rule build_request_inv [OF assms])
  from assms(1) show ?thesis
  proof (cases rule: build_request_cases [where raw = raw])
    case (bad e)
    with assms(2) inv show ?thesis by simp
  next
    case (no_route meth path http10 hs)
    let ?host = "map_option str_trim (request_host sn hs)"
    have "res = Ok None" "sn' = sn" using no_route(3) assms(2) by simp_all
    then show ?thesis
      unfolding no_route(1) outcome.case prod.case
      by (intro conjI exI [of _ compiled] exI [of _ ?host] impI) (use inv t spec [of path ?host] no_route(2) in simp_all)
  next
    case (routed meth path http10 hs route p i p')
    let ?host = "map_option str_trim (request_host sn hs)"
    have spec': "starts_with path ''/'' \<and> (\<forall>h. ?host = Some h \<longrightarrow> parse_authority_host E h \<noteq> None) \<longrightarrow>
        match_route E (sn_routes sn) ?host path = spec_match E compiled ?host path" using spec by blast
    from routed(8) assms(2) have res: "sn' = set_pool (cr_pool route) p' sn"
      "res = rbind (fast_request sn' route (cr_pool route, i) (pl_upstreams p ! i) (meth, path, http10, hs)) (\<lambda>m. Ok (Some m))"
      by auto
    have "pool_inv p"
      using assms(1) routed(3) match_route_mem [OF t routed(2)] by (auto simp: snap_inv_def)
    from select_prefers_available [OF this routed(4)] fast_request_sent [OF routed(3-5) res]
    have "\<exists>p i. sent_to sn route meth path hs res sn' p i \<and>
        (unat (pl_cursor p) + length (pl_expanded p) \<le> usize_lim \<and> (\<exists>u. usable_member p u) \<longrightarrow>
           is_available (pl_upstreams p ! i) (pl_threshold p))" by blast
    then show ?thesis
      unfolding routed(1) outcome.case prod.case
      by (intro conjI exI [of _ compiled] exI [of _ ?host] inv t refl spec') (simp only: routed(2) option.case)
  qed
qed

theorem build_request_routes_correctly_witness:
  "\<exists>m sn' p. build_request sample_lib sample_snapshot sample_request = (Ok (Some (m, sample_outbound)), sn') \<and>
     snap_inv sample_lib sn' \<and>
     sent_to sample_snapshot sample_route ''GET'' ''/x'' [(''Host'', ''h''), (''Accept'', ''y'')]
       (Ok (Some (m, sample_outbound))) sn' p 0"
proof -
  obtain m sn' where m: "build_request sample_lib sample_snapshot sample_request =
      (Ok (Some (m, sample_outbound)), sn')" using sample_build by blast
  have route: "match_route sample_lib (sn_routes sample_snapshot) h ''/x'' = Some sample_route" for h
    by (simp add: match_route_def sample_snapshot_def)
  from build_request_routes_correctly [OF sample_snap_inv m] obtain p i where
    p: "snap_inv sample_lib sn'" "sent_to sample_snapshot sample_route ''GET'' ''/x'' [(''Host'', ''h''), (''Accept'', ''y'')]
       (Ok (Some (m, sample_outbound))) sn' p i" by (auto simp: sample_request_line route)
  have "snap_pool sample_snapshot (cr_pool sample_route) = Some sample_up_pool"
    by (simp add: snap_pool_def sample_snapshot_def sample_route_def)
  with p(2) have "i = 0" by (auto simp: sent_to_def sample_up_pool_def)
  with m p show ?thesis by blast
qed

text \<open>
  C32. How the engines' requests compare: whatever the io\_uring engine accepts, the fast engine accepts
  too, for the same upstream, limiter and flags, with the same body length, and both send the same
  head upstream, with one exception. For an explicit Content-Length of zero the io\_uring engine drops
  the header and the fast engine sends it; the two heads differ by exactly this line.
\<close>

theorem engines_build_same_request:
  assumes "snap_inv E sn" "build_request_uring E resolve sn raw = (Ok (Some u), snu)"
  shows "\<exists>m outb sn'. build_request E sn raw = (Ok (Some (m, outb)), sn') \<and>
    mr_upstream m = uq_upstream u \<and> mr_limiter m = uq_limiter u \<and>
    rq_head_response (mr_head m) = uq_head_response u \<and>
    rq_close_after_response (mr_head m) = uq_close_after_response u \<and>
    (rq_body (mr_head m) = ContentLength (uq_body_len u) \<or>
     uq_body_len u = 0 \<and> rq_body (mr_head m) = NoBody) \<and>
    (if rq_body (mr_head m) = ContentLength 0
     then (\<exists>head. uq_outbound u = head @ crlf \<and> outb = head @ ''Content-Length: 0'' @ crlf @ crlf)
     else outb = uq_outbound u)"
  using assms by (rule engines_build_alike)

lemma sample_build_uring:
  "\<exists>u sn'. build_request_uring sample_lib (\<lambda>_. Some [SockV4 (V4 10 0 0 1) 80]) sample_snapshot sample_request =
     (Ok (Some u), sn')"
proof -
  have m: "match_route sample_lib (sn_routes sample_snapshot) h ''/x'' = Some sample_route" for h
    by (simp add: match_route_def sample_snapshot_def)
  have u: "route_upstream sample_snapshot sample_route = (Ok (Some ((''web'', 0), sample_upstream_state)),
      set_pool ''web'' sample_up_pool sample_snapshot)"
    by (simp add: route_upstream_def snap_pool_def sample_snapshot_def sample_route_def select_arc_def sample_up_pool_def)
  have c: "fst (connect_addr (\<lambda>_. Some [SockV4 (V4 10 0 0 1) 80]) sample_upstream_state) = Some (SockV4 (V4 10 0 0 1) 80)"
    by (simp add: connect_addr_def resolve_socket_addr_def sample_upstream_state_def)
  have "content_length [(''Host'', ''h''), (''Accept'', ''y'')] True = Ok 0"
    using sample_forwarded(2) by (simp add: content_length_Ok)
  then show ?thesis
    using m u c by (simp add: build_request_uring_def sample_request_line uring_request_of_def Let_def)
qed

theorem engines_build_same_request_witness:
  "\<exists>m outb sn'. build_request sample_lib sample_snapshot sample_request = (Ok (Some (m, outb)), sn')"
  using engines_build_same_request [OF sample_snap_inv] sample_build_uring by blast

end
