(* ===== verification/Health.thy ===== *)
theory Health
  imports Requests
begin

text \<open>
  Active health checks, \<^verbatim>\<open>src/src/control/health.rs\<close>. One probe is one exchange with the upstream:
  connect, send the request, read once; its result is the parameter \<open>probe\<close>, given the address and
  the request bytes. A worker is the loop that a \<^verbatim>\<open>HealthWorkerSet\<close> spawns per upstream, over the
  sequence of timer ticks and shutdown notifications it sees.
\<close>

section \<open>Definitions\<close>

text \<open>How the timed exchange ends: timed out, failed, or the bytes of the one read.\<close>

datatype probe_result = ProbeTimeout | ProbeError | ProbeRead bytes

definition health_request :: "string \<Rightarrow> string \<Rightarrow> bytes" where
  "health_request path authority =
     ''GET '' @ path @ '' HTTP/1.1'' @ crlf @ ''Host: '' @ authority @ crlf @ ''Connection: close'' @ crlf @ crlf"

text \<open>The read buffer has 128 bytes.\<close>

definition probe_passed :: "probe_result \<Rightarrow> bool" where
  "probe_passed r =
     (case r of
        ProbeRead bs \<Rightarrow> let buf = take 128 bs in 12 \<le> length buf \<and> take 12 buf = ''HTTP/1.1 200''
      | _ \<Rightarrow> False)"

definition check_upstream ::
  "(string \<Rightarrow> socket_addr list option) \<Rightarrow> (socket_addr \<Rightarrow> bytes \<Rightarrow> probe_result) \<Rightarrow>
   upstream_state \<Rightarrow> upstream_state" where
  "check_upstream resolve probe u =
     (let config = us_health_check (st_config u) in
      if \<not> hc_enabled config then u
      else
        (case connect_addr resolve u of
           (None, u1) \<Rightarrow> set_active_healthy u1 False
         | (Some addr, u1) \<Rightarrow>
             (if probe_passed (probe addr
                   (health_request (hc_path config) (auth_text (ub_authority (st_uri_base u1)))))
              then mark_success (set_active_healthy u1 True)
              else set_active_healthy u1 False)))"

text \<open>What a worker's \<^verbatim>\<open>select!\<close> can see next.\<close>

datatype worker_event =
    Tick "string \<Rightarrow> socket_addr list option" "socket_addr \<Rightarrow> bytes \<Rightarrow> probe_result"
  | ShutdownChanged bool

fun worker_loop :: "worker_event list \<Rightarrow> upstream_state \<Rightarrow> upstream_state" where
  "worker_loop [] u = u"
| "worker_loop (Tick resolve probe # es) u = worker_loop es (check_upstream resolve probe u)"
| "worker_loop (ShutdownChanged v # es) u = (if v then u else worker_loop es u)"

text \<open>\<^verbatim>\<open>tokio::time::interval\<close> panics on a zero period.\<close>

definition spawn_worker :: "worker_event list \<Rightarrow> upstream_state \<Rightarrow> (upstream_state, unit) outcome" where
  "spawn_worker es u =
     (if hc_interval_ms (us_health_check (st_config u)) = 0
      then Panic ''`period` must be non-zero.'' else Ok (worker_loop es u))"

text \<open>The upstreams a worker set watches, by id.\<close>

record health_set =
  hs_shutdown :: bool
  hs_workers :: "usize list"

definition health_start :: "(usize \<Rightarrow> nat) \<Rightarrow> config_snapshot \<Rightarrow> health_set" where
  "health_start addr sn =
     \<lparr>hs_shutdown = False,
      hs_workers = map st_id (filter (\<lambda>u. hc_enabled (us_health_check (st_config u)))
        (all_upstreams addr (sn_routes sn)))\<rparr>"

definition health_stop :: "health_set \<Rightarrow> health_set" where
  "health_stop h = h\<lparr>hs_shutdown := True, hs_workers := []\<rparr>"

text \<open>\<^verbatim>\<open>replace\<close> stops the old workers before it starts the new ones.\<close>

definition health_replace :: "(usize \<Rightarrow> nat) \<Rightarrow> config_snapshot \<Rightarrow> health_set \<Rightarrow> health_set" where
  "health_replace addr sn h = (let _ = health_stop h in health_start addr sn)"

section \<open>What a check does\<close>

definition probe_succeeds ::
  "(string \<Rightarrow> socket_addr list option) \<Rightarrow> (socket_addr \<Rightarrow> bytes \<Rightarrow> probe_result) \<Rightarrow> upstream_state \<Rightarrow> bool" where
  "probe_succeeds resolve probe u \<longleftrightarrow>
     (\<exists>addr bs. fst (connect_addr resolve u) = Some addr \<and>
        probe addr (health_request (hc_path (us_health_check (st_config u)))
          (auth_text (ub_authority (st_uri_base u)))) = ProbeRead bs \<and>
        starts_with bs ''HTTP/1.1 200'')"

lemma probe_passed_iff: "probe_passed r \<longleftrightarrow> (\<exists>bs. r = ProbeRead bs \<and> starts_with bs ''HTTP/1.1 200'')"
proof (cases r)
  case (ProbeRead bs)
  have "12 \<le> length (take 128 bs) \<and> take 12 (take 128 bs) = ''HTTP/1.1 200'' \<longleftrightarrow> starts_with bs ''HTTP/1.1 200''"
  proof
    assume "12 \<le> length (take 128 bs) \<and> take 12 (take 128 bs) = ''HTTP/1.1 200''"
    then have "take 12 bs = ''HTTP/1.1 200''" by simp
    then show "starts_with bs ''HTTP/1.1 200''" by (metis append_take_drop_id starts_with_iff)
  qed (auto simp: starts_with_iff)
  with ProbeRead show ?thesis by (simp add: probe_passed_def Let_def)
qed (simp_all add: probe_passed_def)

lemma connect_addr_frame:
  "st_config (snd (connect_addr resolve u)) = st_config u"
  "st_uri_base (snd (connect_addr resolve u)) = st_uri_base u"
  "st_passive_failures (snd (connect_addr resolve u)) = st_passive_failures u"
  "st_id (snd (connect_addr resolve u)) = st_id u"
  by (simp_all add: connect_addr_def split: option.split)

lemma check_upstream_config [simp]: "st_config (check_upstream resolve probe u) = st_config u"
  using connect_addr_frame(1) [of resolve u]
  by (auto simp: check_upstream_def Let_def set_active_healthy_def mark_success_def split: prod.split option.split)

lemma check_upstream_disabled:
  "\<not> hc_enabled (us_health_check (st_config u)) \<Longrightarrow> check_upstream resolve probe u = u"
  by (simp add: check_upstream_def)

lemma check_upstream_result:
  assumes "hc_enabled (us_health_check (st_config u))"
  shows "st_active_healthy (check_upstream resolve probe u) = probe_succeeds resolve probe u"
    "st_passive_failures (check_upstream resolve probe u) =
       (if probe_succeeds resolve probe u then 0 else st_passive_failures u)"
proof -
  obtain a u1 where a: "connect_addr resolve u = (a, u1)" by force
  have f: "st_uri_base u1 = st_uri_base u" "st_passive_failures u1 = st_passive_failures u"
    using connect_addr_frame(2,3) [of resolve u] by (simp_all add: a)
  show "st_active_healthy (check_upstream resolve probe u) = probe_succeeds resolve probe u"
    "st_passive_failures (check_upstream resolve probe u) =
       (if probe_succeeds resolve probe u then 0 else st_passive_failures u)"
    using assms f
    by (auto simp: check_upstream_def probe_succeeds_def a Let_def probe_passed_iff set_active_healthy_def
        mark_success_def split: option.split)
qed

lemma worker_loop_config [simp]: "st_config (worker_loop es u) = st_config u"
  by (induction es u rule: worker_loop.induct) simp_all

lemma worker_loop_append:
  "\<forall>e \<in> set es. e \<noteq> ShutdownChanged True \<Longrightarrow> worker_loop (es @ fs) u = worker_loop fs (worker_loop es u)"
  by (induction es u rule: worker_loop.induct) auto

text \<open>
  C35. The last probe decides: whatever a worker saw before, right after a check of an upstream with
  health checks the upstream is in rotation exactly if the probe was answered by bytes that start
  with \<^verbatim>\<open>HTTP/1.1 200\<close>, whatever failures were counted against it.
\<close>

theorem last_probe_decides_rotation:
  assumes "hc_enabled (us_health_check (st_config u))" "0 < threshold"
    "\<forall>e \<in> set es. e \<noteq> ShutdownChanged True"
  shows "is_available (worker_loop (es @ [Tick resolve probe]) u) threshold \<longleftrightarrow>
    probe_succeeds resolve probe (worker_loop es u)"
proof -
  let ?u = "worker_loop es u"
  have "worker_loop (es @ [Tick resolve probe]) u = check_upstream resolve probe ?u"
    using worker_loop_append [OF assms(3)] by simp
  moreover have "hc_enabled (us_health_check (st_config ?u))" using assms(1) by simp
  note check_upstream_result [OF this, of resolve probe]
  moreover have "0 < unat threshold" using assms(2) by (simp add: word_less_nat_alt)
  ultimately show ?thesis by (simp add: is_available_iff)
qed


definition probed_upstream :: upstream_state where
  "probed_upstream =
     \<lparr>st_config = default_upstream\<lparr>us_health_check := default_health_check\<lparr>hc_enabled := True\<rparr>\<rparr>,
      st_uri_base = \<lparr>ub_scheme = ''http'', ub_authority = sample_authority ''a:80'', ub_host_header = ''a:80'', ub_base_path = []\<rparr>,
      st_id = 0, st_connect_addr = Some (SockV4 (V4 10 0 0 1) 80), st_passive_failures = 7, st_active_healthy = False\<rparr>"

theorem last_probe_decides_rotation_witness:
  "hc_enabled (us_health_check (st_config probed_upstream)) \<and>
   is_available (worker_loop [Tick (\<lambda>_. None) (\<lambda>_ _. ProbeTimeout),
     Tick (\<lambda>_. None) (\<lambda>_ _. ProbeRead ''HTTP/1.1 200 OK'')] probed_upstream) 3"
proof -
  let ?p = "\<lambda>_ _. ProbeRead ''HTTP/1.1 200 OK''" and ?es = "[Tick (\<lambda>_. None) (\<lambda>_ _. ProbeTimeout)]"
  have on: "hc_enabled (us_health_check (st_config probed_upstream))" by (simp add: probed_upstream_def)
  have "st_connect_addr (worker_loop ?es probed_upstream) = Some (SockV4 (V4 10 0 0 1) 80)"
    by (simp add: check_upstream_def probed_upstream_def connect_addr_def set_active_healthy_def probe_passed_def Let_def)
  then have "probe_succeeds (\<lambda>_. None) ?p (worker_loop ?es probed_upstream)"
    by (simp add: probe_succeeds_def connect_addr_def starts_with_iff del: worker_loop.simps)
  with last_probe_decides_rotation [OF on, of 3 ?es "\<lambda>_. None" ?p] on show ?thesis by simp
qed

end
