(* ===== verification/L4.thy ===== *)
theory L4
  imports Config "HOL-Library.Char_ord" "HOL-Library.List_Lexorder"
begin

text \<open>
  Layer-4 services, \<^verbatim>\<open>src/src/l4/mod.rs\<close>: the plan of \<^verbatim>\<open>ipvsadm\<close> commands that takes the kernel's
  virtual server table from one configuration to the next, its execution and its textual form.
  Running the program is the parameter \<open>run\<close>; what \<^verbatim>\<open>ipvsadm(8)\<close> documents of \<^verbatim>\<open>-D\<close>, \<^verbatim>\<open>-A\<close> and \<^verbatim>\<open>-a\<close> is
  the hypothesis \<open>ipvs_laws\<close> about it.
\<close>

section \<open>Definitions\<close>

definition IPVSADM :: string where
  "IPVSADM = ''/usr/sbin/ipvsadm''"

datatype l4_error =
    MissingIpvsadm
  | Preflight
  | Execute "string list" string
  | CommandFailed "string list" string string

record ipvs_command =
  ic_args :: "string list"
  ic_ignore_failure :: bool

definition command_new :: "string list \<Rightarrow> ipvs_command" where
  "command_new args = \<lparr>ic_args = args, ic_ignore_failure = False\<rparr>"

definition command_delete :: "string list \<Rightarrow> ipvs_command" where
  "command_delete args = \<lparr>ic_args = args, ic_ignore_failure = True\<rparr>"

text \<open>The result of \<^verbatim>\<open>Command::output\<close>: not started, or finished with a status and its standard error.\<close>

datatype run_result = NotRun string | Ran bool string string

fun ran_ok :: "run_result \<Rightarrow> bool" where
  "ran_ok (Ran ok _ _) = ok"
| "ran_ok (NotRun _) = False"

definition preflight :: "run_result \<Rightarrow> run_result \<Rightarrow> proxy_config \<Rightarrow> l4_error + unit" where
  "preflight version lst config =
     (if pc_l4_services config = [] then Inr ()
      else if \<not> ran_ok version then Inl MissingIpvsadm
      else (case lst of
         Ran ok _ _ \<Rightarrow> if ok then Inr () else Inl Preflight
       | NotRun _ \<Rightarrow> Inl MissingIpvsadm))"

definition service_key :: "l4_service_config \<Rightarrow> vip_key" where
  "service_key s = (sv_vip s, sv_port s, sv_protocol s)"

definition service_flag :: "l4_service_config \<Rightarrow> string" where
  "service_flag s = (case sv_protocol s of Tcp \<Rightarrow> ''-t'' | Udp \<Rightarrow> ''-u'')"

definition service_addr :: "l4_service_config \<Rightarrow> string" where
  "service_addr s = show_ip (sv_vip s) @ '':'' @ show_nat (unat (sv_port s))"

definition add_service_args :: "l4_service_config \<Rightarrow> string list" where
  "add_service_args s =
     [''-A'', service_flag s, service_addr s, ''-s'', show_l4_scheduler (sv_scheduler s)]"

definition delete_service_args :: "l4_service_config \<Rightarrow> string list" where
  "delete_service_args s = [''-D'', service_flag s, service_addr s]"

definition server_addr :: "l4_real_server_config \<Rightarrow> string" where
  "server_addr r = show_ip (rs_address r) @ '':'' @ show_nat (unat (rs_port r))"

definition add_server_args :: "l4_service_config \<Rightarrow> l4_real_server_config \<Rightarrow> string list" where
  "add_server_args s r =
     [''-a'', service_flag s, service_addr s, ''-r'', server_addr r, ''-g'', ''-w'',
      show_nat (unat (rs_weight r))]"

text \<open>The first loop of \<^verbatim>\<open>reconcile\<close>: one deletion per key, in order of first occurrence.\<close>

fun delete_commands :: "vip_key list \<Rightarrow> l4_service_config list \<Rightarrow> ipvs_command list" where
  "delete_commands deleted [] = []"
| "delete_commands deleted (s # ss) =
     (if service_key s \<in> set deleted then delete_commands deleted ss
      else command_delete (delete_service_args s) # delete_commands (service_key s # deleted) ss)"

definition add_commands :: "l4_service_config \<Rightarrow> ipvs_command list" where
  "add_commands s =
     command_new (add_service_args s) #
     map (\<lambda>r. command_new (add_server_args s r)) (sv_real_servers s)"

definition reconcile :: "l4_service_config list \<Rightarrow> l4_service_config list \<Rightarrow> ipvs_command list" where
  "reconcile previous next = delete_commands [] (previous @ next) @ concat (map add_commands next)"

definition run_ipvsadm ::
  "(string list \<Rightarrow> 's \<Rightarrow> run_result \<times> 's) \<Rightarrow> ipvs_command \<Rightarrow> 's \<Rightarrow> (l4_error + unit) \<times> 's" where
  "run_ipvsadm run c s =
     (case run (ic_args c) s of
        (NotRun source, s') \<Rightarrow> (Inl (Execute (ic_args c) source), s')
      | (Ran ok status stderr, s') \<Rightarrow>
          (if ok \<or> ic_ignore_failure c then Inr ()
           else Inl (CommandFailed (ic_args c) status (str_trim stderr)), s'))"

fun run_all ::
  "(string list \<Rightarrow> 's \<Rightarrow> run_result \<times> 's) \<Rightarrow> ipvs_command list \<Rightarrow> 's \<Rightarrow> (l4_error + unit) \<times> 's" where
  "run_all run [] s = (Inr (), s)"
| "run_all run (c # cs) s =
     (case run_ipvsadm run c s of
        (Inl e, s') \<Rightarrow> (Inl e, s')
      | (Inr _, s') \<Rightarrow> run_all run cs s')"

definition apply_plan ::
  "(string list \<Rightarrow> 's \<Rightarrow> run_result \<times> 's) \<Rightarrow> l4_service_config list \<Rightarrow> l4_service_config list \<Rightarrow> 's \<Rightarrow>
   (l4_error + unit) \<times> 's" where
  "apply_plan run previous next s = run_all run (reconcile previous next) s"

text \<open>\<^verbatim>\<open>Display\<close> of a command.\<close>

definition plain_char :: "char \<Rightarrow> bool" where
  "plain_char c \<longleftrightarrow>
     is_ascii_alphanumeric c \<or> c \<in> {CHR ''.'', CHR '':'', CHR ''_'', CHR ''-'', CHR ''/''}"

definition write_shell_arg :: "string \<Rightarrow> string" where
  "write_shell_arg arg =
     (if list_all plain_char arg then arg
      else [CHR 0x27] @
        concat (map (\<lambda>c. if c = CHR 0x27 then [CHR 0x27, CHR 0x5C, CHR 0x27, CHR 0x27] else [c]) arg) @
        [CHR 0x27])"

definition show_command :: "ipvs_command \<Rightarrow> string" where
  "show_command c =
     IPVSADM @ concat (map (\<lambda>a. '' '' @ write_shell_arg a) (ic_args c)) @
     (if ic_ignore_failure c then ''  # ignore failure'' else [])"

definition render_plan :: "l4_service_config list \<Rightarrow> l4_service_config list \<Rightarrow> string" where
  "render_plan previous next =
     (if reconcile previous next = [] then ''# no l4 ipvs changes'' @ [CHR 0x0A]
      else concat (map (\<lambda>c. show_command c @ [CHR 0x0A]) (reconcile previous next)))"

definition render_config_plan :: "proxy_config \<Rightarrow> string" where
  "render_config_plan config = render_plan [] (pc_l4_services config)"

text \<open>The text listing of \<^verbatim>\<open>domain_summary\<close>; a \<^verbatim>\<open>BTreeSet<&str>\<close> yields its strings sorted by bytes.\<close>

definition domain_line :: "l4_service_config \<Rightarrow> string" where
  "domain_line s =
     sv_name s @ '': '' @ join_with '', '' (sorted_list_of_set (set (sv_domains s))) @ '' -> '' @
     show_ip (sv_vip s) @ '':'' @ show_nat (unat (sv_port s)) @ '' '' @ show_l4_protocol (sv_protocol s)"

definition domain_summary :: "proxy_config \<Rightarrow> string" where
  "domain_summary config = join_with [CHR 0x0A] (map domain_line (pc_l4_services config))"

section \<open>What ipvsadm does\<close>

text \<open>
  The virtual server table: scheduler and real servers with their weights, by protocol flag and
  address. Deleting a missing service fails and changes nothing, adding an existing service or an
  existing real server fails and changes nothing, and so does adding a server to a missing service.
  The laws speak of the arguments \<^verbatim>\<open>ipvsadm(8)\<close> documents: IPv4 endpoints in the form \<^verbatim>\<open>a.b.c.d:port\<close>
  (IPv6 ones need brackets) and weights up to 65535.
\<close>

type_synonym ipvs_view = "string \<times> string \<Rightarrow> (string \<times> (string \<times> string) list) option"

definition endpoint :: "ip_addr \<Rightarrow> u16 \<Rightarrow> string" where
  "endpoint ip port = show_ip ip @ '':'' @ show_nat (unat port)"

fun is_v4 :: "ip_addr \<Rightarrow> bool" where
  "is_v4 (V4 a b c d) = True"
| "is_v4 (V6 a b c d e f g h) = False"

definition v4_endpoint :: "string \<Rightarrow> bool" where
  "v4_endpoint a \<longleftrightarrow> (\<exists>ip port. is_v4 ip \<and> a = endpoint ip port)"

definition valid_weight :: "string \<Rightarrow> bool" where
  "valid_weight w \<longleftrightarrow> (\<exists>n \<le> 65535. w = show_nat n)"

definition delete_law :: "(string list \<Rightarrow> 's \<Rightarrow> run_result \<times> 's) \<Rightarrow> ('s \<Rightarrow> ipvs_view) \<Rightarrow> bool" where
  "delete_law run view \<longleftrightarrow>
     (\<forall>t f a. v4_endpoint a \<longrightarrow> (\<exists>ok st err t'. run [''-D'', f, a] t = (Ran ok st err, t') \<and>
        ok = (view t (f, a) \<noteq> None) \<and> view t' = (view t)((f, a) := None)))"

definition add_service_law :: "(string list \<Rightarrow> 's \<Rightarrow> run_result \<times> 's) \<Rightarrow> ('s \<Rightarrow> ipvs_view) \<Rightarrow> bool" where
  "add_service_law run view \<longleftrightarrow>
     (\<forall>t f a sch. v4_endpoint a \<longrightarrow>
        (\<exists>ok st err t'. run [''-A'', f, a, ''-s'', show_l4_scheduler sch] t = (Ran ok st err, t') \<and>
           ok = (view t (f, a) = None) \<and>
           view t' = (if ok then (view t)((f, a) \<mapsto> (show_l4_scheduler sch, [])) else view t)))"

definition add_server_law :: "(string list \<Rightarrow> 's \<Rightarrow> run_result \<times> 's) \<Rightarrow> ('s \<Rightarrow> ipvs_view) \<Rightarrow> bool" where
  "add_server_law run view \<longleftrightarrow>
     (\<forall>t f a d w. v4_endpoint a \<longrightarrow> v4_endpoint d \<longrightarrow> valid_weight w \<longrightarrow>
        (\<exists>ok st err t'. run [''-a'', f, a, ''-r'', d, ''-g'', ''-w'', w] t = (Ran ok st err, t') \<and>
           (case view t (f, a) of
              None \<Rightarrow> \<not> ok \<and> view t' = view t
            | Some (sch, ds) \<Rightarrow>
                ok = (d \<notin> fst ` set ds) \<and>
                view t' = (if ok then (view t)((f, a) \<mapsto> (sch, ds @ [(d, w)])) else view t))))"

definition ipvs_laws :: "(string list \<Rightarrow> 's \<Rightarrow> run_result \<times> 's) \<Rightarrow> ('s \<Rightarrow> ipvs_view) \<Rightarrow> bool" where
  "ipvs_laws run view \<longleftrightarrow> delete_law run view \<and> add_service_law run view \<and> add_server_law run view"

text \<open>The table entry a service asks for.\<close>

definition table_key :: "l4_service_config \<Rightarrow> string \<times> string" where
  "table_key s = (service_flag s, service_addr s)"

definition table_servers :: "l4_real_server_config list \<Rightarrow> (string \<times> string) list" where
  "table_servers rs = map (\<lambda>r. (server_addr r, show_nat (unat (rs_weight r)))) rs"

definition table_entry :: "l4_service_config \<Rightarrow> string \<times> (string \<times> string) list" where
  "table_entry s = (show_l4_scheduler (sv_scheduler s), table_servers (sv_real_servers s))"

definition installed :: "l4_service_config list \<Rightarrow> ipvs_view" where
  "installed ss = map_of (map (\<lambda>s. (table_key s, table_entry s)) ss)"

text \<open>What \<^verbatim>\<open>ipvsadm\<close> needs of a service beyond what \<^verbatim>\<open>validate\<close> checks.\<close>

definition server_ready :: "l4_real_server_config \<Rightarrow> bool" where
  "server_ready r \<longleftrightarrow> is_v4 (rs_address r) \<and> unat (rs_weight r) \<le> 65535"

definition ipvs_ready :: "l4_service_config \<Rightarrow> bool" where
  "ipvs_ready s \<longleftrightarrow> is_v4 (sv_vip s) \<and> list_all server_ready (sv_real_servers s) \<and>
     distinct (map (\<lambda>r. (rs_address r, rs_port r)) (sv_real_servers s))"

section \<open>Endpoint texts are injective\<close>

lemma show_v4_no_colon: "CHR '':'' \<notin> set (show_v4 a b c d)"
  using set_join_with [of "''.''" "map (\<lambda>w. show_nat (unat w)) [a, b, c, d]"] show_nat_no_dot(2)
  by (auto simp: show_v4_def)

lemma endpoint_inject:
  assumes "is_v4 ip" "is_v4 ip'" "endpoint ip port = endpoint ip' port'"
  shows "ip = ip' \<and> port = port'"
proof -
  obtain a b c d a' b' c' d' where v: "ip = V4 a b c d" "ip' = V4 a' b' c' d'"
    using assms(1,2) by (cases ip; cases ip') auto
  have split: "split_on (CHR '':'') (endpoint (V4 p q r s) n) = [show_v4 p q r s, show_nat (unat n)]" for p q r s n
    using show_v4_no_colon [of p q r s] show_nat_no_dot(2) [of "unat n"]
    by (simp add: endpoint_def split_on_append split_on_no_sep)
  from assms(3) have "split_on (CHR '':'') (endpoint ip port) = split_on (CHR '':'') (endpoint ip' port')" by simp
  then have "show_v4 a b c d = show_v4 a' b' c' d'" "show_nat (unat port) = show_nat (unat port')"
    by (simp_all add: v split)
  then show ?thesis using v by (auto dest!: show_nat_inject show_v4_inject simp: word_unat_eq_iff)
qed

lemma service_addr_endpoint: "service_addr s = endpoint (sv_vip s) (sv_port s)"
  by (simp add: service_addr_def endpoint_def)

lemma server_addr_endpoint: "server_addr r = endpoint (rs_address r) (rs_port r)"
  by (simp add: server_addr_def endpoint_def)

lemma service_key_table_key: "service_key s = service_key t \<Longrightarrow> table_key s = table_key t"
  by (simp add: service_key_def table_key_def service_flag_def service_addr_def)

lemma table_key_service_key:
  "is_v4 (sv_vip s) \<Longrightarrow> is_v4 (sv_vip t) \<Longrightarrow> table_key s = table_key t \<Longrightarrow> service_key s = service_key t"
  using endpoint_inject [of "sv_vip s" "sv_vip t"]
  by (auto simp: table_key_def service_key_def service_flag_def service_addr_endpoint split: l4_protocol.splits)

lemma server_addr_distinct:
  assumes "ipvs_ready s"
  shows "distinct (map server_addr (sv_real_servers s))"
proof -
  have "inj_on (\<lambda>(ip, port). endpoint ip port) {p. is_v4 (fst p)}"
    by (auto simp: inj_on_def dest: endpoint_inject)
  moreover have "(\<lambda>r. (rs_address r, rs_port r)) ` set (sv_real_servers s) \<subseteq> {p. is_v4 (fst p)}"
    using assms by (auto simp: ipvs_ready_def server_ready_def list_all_iff)
  ultimately have "distinct (map (\<lambda>(ip, port). endpoint ip port) (map (\<lambda>r. (rs_address r, rs_port r)) (sv_real_servers s)))"
    using assms unfolding ipvs_ready_def distinct_map by (auto intro: inj_on_subset)
  then show ?thesis by (simp add: comp_def server_addr_endpoint [abs_def])
qed

lemma table_key_distinct:
  assumes "distinct (map vip_key_of ss)" "\<forall>s \<in> set ss. ipvs_ready s"
  shows "distinct (map table_key ss)"
  using assms table_key_service_key
  by (auto simp: distinct_map inj_on_def ipvs_ready_def vip_key_of_def service_key_def)

section \<open>Execution\<close>

lemma run_all_append:
  "run_all run (xs @ ys) t =
     (case run_all run xs t of (Inl e, t') \<Rightarrow> (Inl e, t') | (Inr _, t') \<Rightarrow> run_all run ys t')"
  by (induction xs arbitrary: t) (auto split: prod.splits sum.splits)

lemma run_delete:
  assumes "delete_law run view" "is_v4 (sv_vip x)"
  obtains t' where "run_ipvsadm run (command_delete (delete_service_args x)) t = (Inr (), t')"
    "view t' = (view t)(table_key x := None)"
proof -
  have "v4_endpoint (service_addr x)" using assms(2) by (auto simp: v4_endpoint_def service_addr_endpoint)
  with assms(1) obtain ok st err t' where
    "run [''-D'', service_flag x, service_addr x] t = (Ran ok st err, t')"
    "view t' = (view t)((service_flag x, service_addr x) := None)" unfolding delete_law_def by blast
  then show thesis
    by (intro that) (simp_all add: run_ipvsadm_def command_delete_def delete_service_args_def table_key_def)
qed

lemma run_deletes:
  assumes "delete_law run view" "\<forall>x \<in> set ss. is_v4 (sv_vip x)"
  shows "\<exists>t'. run_all run (delete_commands deleted ss) t = (Inr (), t') \<and>
    view t' = (\<lambda>k. if k \<in> table_key ` {x \<in> set ss. service_key x \<notin> set deleted} then None else view t k)"
  using assms(2)
proof (induction deleted ss arbitrary: t rule: delete_commands.induct)
  case (2 deleted x ss)
  let ?K = "\<lambda>deleted ss. table_key ` {y \<in> set ss. service_key y \<notin> set deleted}"
  show ?case
  proof (cases "service_key x \<in> set deleted")
    case True
    then have "?K deleted (x # ss) = ?K deleted ss" by auto
    with "2.IH"(1) [OF True] True "2.prems" show ?thesis by simp
  next
    case False
    from "2.prems" have "is_v4 (sv_vip x)" by simp
    with assms(1) obtain t1 where t1: "run_ipvsadm run (command_delete (delete_service_args x)) t = (Inr (), t1)"
      "view t1 = (view t)(table_key x := None)" by (rule run_delete)
    from "2.IH"(2) [OF False, of t1] "2.prems" obtain t' where
      t': "run_all run (delete_commands (service_key x # deleted) ss) t1 = (Inr (), t')"
        "view t' = (\<lambda>k. if k \<in> ?K (service_key x # deleted) ss then None else view t1 k)" by auto
    have K: "insert (table_key x) (?K (service_key x # deleted) ss) = ?K deleted (x # ss)" (is "?l = ?r")
    proof
      show "?l \<subseteq> ?r" using False by auto
      show "?r \<subseteq> ?l"
      proof
        fix k
        assume "k \<in> ?r"
        then obtain y where y: "k = table_key y" "y = x \<or> y \<in> set ss" "service_key y \<notin> set deleted" by auto
        then show "k \<in> ?l" using service_key_table_key [of y x] by (cases "service_key y = service_key x") auto
      qed
    qed
    have "k \<in> ?K deleted (x # ss) \<longleftrightarrow> k = table_key x \<or> k \<in> ?K (service_key x # deleted) ss" for k
      unfolding K [symmetric] by (rule insert_iff)
    then have "view t' = (\<lambda>k. if k \<in> ?K deleted (x # ss) then None else view t k)"
      unfolding t'(2) t1(2) fun_eq_iff fun_upd_apply by presburger
    with False t1(1) t'(1) show ?thesis by simp
  qed
qed simp

lemma run_add_server:
  assumes "add_server_law run view" "is_v4 (sv_vip x)" "server_ready r"
    "view t (table_key x) = Some (sch, ds)" "server_addr r \<notin> fst ` set ds"
  obtains t' where "run_ipvsadm run (command_new (add_server_args x r)) t = (Inr (), t')"
    "view t' = (view t)(table_key x \<mapsto> (sch, ds @ table_servers [r]))"
proof -
  let ?w = "show_nat (unat (rs_weight r))"
  have "v4_endpoint (service_addr x)" "v4_endpoint (server_addr r)" "valid_weight ?w"
    using assms(2,3) by (auto simp: v4_endpoint_def service_addr_endpoint server_addr_endpoint server_ready_def valid_weight_def)
  with assms(1) obtain ok st err t' where t':
    "run [''-a'', service_flag x, service_addr x, ''-r'', server_addr r, ''-g'', ''-w'', ?w] t = (Ran ok st err, t')"
    "case view t (service_flag x, service_addr x) of None \<Rightarrow> \<not> ok \<and> view t' = view t
     | Some (sch, ds) \<Rightarrow> ok = (server_addr r \<notin> fst ` set ds) \<and>
         view t' = (if ok then (view t)((service_flag x, service_addr x) \<mapsto> (sch, ds @ [(server_addr r, ?w)])) else view t)"
    unfolding add_server_law_def by blast
  from assms(4,5) t'(2) have "ok" "view t' = (view t)(table_key x \<mapsto> (sch, ds @ table_servers [r]))"
    by (simp_all add: table_key_def table_servers_def)
  with t'(1) show thesis by (intro that) (simp_all add: run_ipvsadm_def command_new_def add_server_args_def)
qed

lemma run_add_servers:
  assumes "add_server_law run view" "is_v4 (sv_vip x)" "\<forall>r \<in> set rs. server_ready r"
    "view t (table_key x) = Some (sch, ds)" "distinct (map fst ds @ map server_addr rs)"
  shows "\<exists>t'. run_all run (map (\<lambda>r. command_new (add_server_args x r)) rs) t = (Inr (), t') \<and>
    view t' = (view t)(table_key x \<mapsto> (sch, ds @ table_servers rs))"
  using assms(3-5)
proof (induction rs arbitrary: t ds)
  case Nil
  then show ?case by (auto simp: table_servers_def)
next
  case (Cons r rs)
  have "server_ready r" "server_addr r \<notin> fst ` set ds" using Cons.prems by auto
  with assms(1,2) Cons.prems(2) obtain t1 where
    t1: "run_ipvsadm run (command_new (add_server_args x r)) t = (Inr (), t1)"
      "view t1 = (view t)(table_key x \<mapsto> (sch, ds @ table_servers [r]))" by (metis run_add_server)
  have "view t1 (table_key x) = Some (sch, ds @ table_servers [r])" using t1(2) by simp
  moreover have "distinct (map fst (ds @ table_servers [r]) @ map server_addr rs)"
    using Cons.prems(3) by (simp add: table_servers_def)
  ultimately obtain t' where t': "run_all run (map (\<lambda>r. command_new (add_server_args x r)) rs) t1 = (Inr (), t')"
    "view t' = (view t1)(table_key x \<mapsto> (sch, (ds @ table_servers [r]) @ table_servers rs))"
    using Cons.IH Cons.prems(1) by (metis list.set_intros(2))
  have "view t' = (view t)(table_key x \<mapsto> (sch, ds @ table_servers (r # rs)))"
    unfolding t'(2) t1(2) by (simp add: table_servers_def)
  with t1(1) t'(1) show ?case by (simp add: fun_upd_def)
qed

lemma run_add_service:
  assumes "add_service_law run view" "add_server_law run view" "ipvs_ready x" "view t (table_key x) = None"
  shows "\<exists>t'. run_all run (add_commands x) t = (Inr (), t') \<and> view t' = (view t)(table_key x \<mapsto> table_entry x)"
proof -
  let ?sch = "show_l4_scheduler (sv_scheduler x)"
  have v4: "is_v4 (sv_vip x)" using assms(3) by (simp add: ipvs_ready_def)
  then have "v4_endpoint (service_addr x)" by (auto simp: v4_endpoint_def service_addr_endpoint)
  with assms(1) obtain ok st err t1 where t1:
    "run [''-A'', service_flag x, service_addr x, ''-s'', ?sch] t = (Ran ok st err, t1)"
    "ok = (view t (service_flag x, service_addr x) = None)"
    "view t1 = (if ok then (view t)((service_flag x, service_addr x) \<mapsto> (?sch, [])) else view t)"
    unfolding add_service_law_def by blast
  with assms(4) have v: "ok" "view t1 = (view t)(table_key x \<mapsto> (?sch, []))" by (simp_all add: table_key_def)
  then have "view t1 (table_key x) = Some (?sch, [])" by simp
  moreover have "\<forall>r \<in> set (sv_real_servers x). server_ready r" using assms(3) by (simp add: ipvs_ready_def list_all_iff)
  ultimately obtain t' where
    t': "run_all run (map (\<lambda>r. command_new (add_server_args x r)) (sv_real_servers x)) t1 = (Inr (), t')"
    "view t' = (view t1)(table_key x \<mapsto> table_entry x)"
    using run_add_servers [OF assms(2) v4, of "sv_real_servers x" t1 ?sch "[]"] server_addr_distinct [OF assms(3)]
    by (auto simp: table_entry_def)
  have "view t' = (view t)(table_key x \<mapsto> table_entry x)" unfolding t'(2) v(2) by simp
  with t1(1) v(1) t'(1) show ?thesis
    by (simp add: add_commands_def run_ipvsadm_def command_new_def add_service_args_def)
qed

lemma run_adds:
  assumes "add_service_law run view" "add_server_law run view"
    "\<forall>x \<in> set xs. ipvs_ready x" "distinct (map table_key xs)" "\<forall>x \<in> set xs. view t (table_key x) = None"
  shows "\<exists>t'. run_all run (concat (map add_commands xs)) t = (Inr (), t') \<and> view t' = view t ++ installed xs"
  using assms(3-5)
proof (induction xs arbitrary: t)
  case (Cons x xs)
  from run_add_service [OF assms(1,2), of x t] Cons.prems(1,3) obtain t1 where
    t1: "run_all run (add_commands x) t = (Inr (), t1)" "view t1 = (view t)(table_key x \<mapsto> table_entry x)" by auto
  have "table_key y \<noteq> table_key x" if "y \<in> set xs" for y using Cons.prems(2) that by (metis distinct.simps(2) image_eqI list.simps(9) set_map)
  then have "\<forall>y \<in> set xs. view t1 (table_key y) = None" using Cons.prems(3) t1(2) by simp
  with Cons.IH [of t1] Cons.prems(1,2) obtain t' where
    t': "run_all run (concat (map add_commands xs)) t1 = (Inr (), t')" "view t' = view t1 ++ installed xs" by auto
  have "installed xs (table_key x) = None"
    using Cons.prems(2) by (auto simp: installed_def map_of_eq_None_iff image_iff)
  then have "view t' = view t ++ installed (x # xs)"
    unfolding t'(2) t1(2) by (auto simp: installed_def map_add_def fun_eq_iff split: option.split)
  with t1(1) t'(1) show ?case by (simp add: run_all_append)
qed (simp add: installed_def)

lemma validated_vip_keys:
  "validate E c = Ok () \<Longrightarrow> distinct (map vip_key_of (pc_l4_services c))"
  by (auto simp: validate_def outcome_simps validate_l4_services_Ok split: if_splits)

lemma apply_plan_installs:
  assumes "ipvs_laws run view" "distinct (map vip_key_of services)"
    "\<forall>s \<in> set previous \<union> set services. ipvs_ready s"
  shows "\<exists>t'. apply_plan run previous services t = (Inr (), t') \<and>
    (\<forall>k. view t' k =
       (case installed services k of
          Some e \<Rightarrow> Some e
        | None \<Rightarrow> if k \<in> table_key ` set previous then None else view t k))"
proof -
  have laws: "delete_law run view" "add_service_law run view" "add_server_law run view"
    using assms(1) by (simp_all add: ipvs_laws_def)
  have v4: "\<forall>x \<in> set (previous @ services). is_v4 (sv_vip x)" using assms(3) by (auto simp: ipvs_ready_def)
  have "{x \<in> set (previous @ services). service_key x \<notin> set []} = set (previous @ services)" by auto
  with run_deletes [OF laws(1) v4, of "[]" t] obtain t1 where
    t1: "run_all run (delete_commands [] (previous @ services)) t = (Inr (), t1)"
      "view t1 = (\<lambda>k. if k \<in> table_key ` set (previous @ services) then None else view t k)" by (simp only:) blast
  have "distinct (map table_key services)"
    using table_key_distinct [OF assms(2)] assms(3) by blast
  then obtain t' where t': "run_all run (concat (map add_commands services)) t1 = (Inr (), t')"
    "view t' = view t1 ++ installed services"
    using run_adds [OF laws(2,3), of services t1] assms(3) by (auto simp: t1(2))
  have "k \<notin> table_key ` set services" if "installed services k = None" for k
    using that by (force simp: installed_def map_of_eq_None_iff)
  then have "\<forall>k. view t' k = (case installed services k of Some e \<Rightarrow> Some e
      | None \<Rightarrow> if k \<in> table_key ` set previous then None else view t k)"
    unfolding t'(2) t1(2) by (auto simp: map_add_def split: option.split)
  with t1(1) t'(1) show ?thesis by (auto simp: apply_plan_def reconcile_def run_all_append)
qed



text \<open>
  A table that keeps the contract: the state is the table itself, the commands are told apart by
  the number of their arguments.
\<close>

definition sample_ipvs :: "string list \<Rightarrow> ipvs_view \<Rightarrow> run_result \<times> ipvs_view" where
  "sample_ipvs args t =
     (case args of
        [_, f, a] \<Rightarrow> (Ran (t (f, a) \<noteq> None) [] [], t((f, a) := None))
      | [_, f, a, _, sch] \<Rightarrow>
          (if t (f, a) = None then (Ran True [] [], t((f, a) \<mapsto> (sch, []))) else (Ran False [] [], t))
      | [_, f, a, _, d, _, _, w] \<Rightarrow>
          (case t (f, a) of
             None \<Rightarrow> (Ran False [] [], t)
           | Some (sch, ds) \<Rightarrow>
               (if d \<notin> fst ` set ds then (Ran True [] [], t((f, a) \<mapsto> (sch, ds @ [(d, w)])))
                else (Ran False [] [], t)))
      | _ \<Rightarrow> (NotRun [], t))"

lemma sample_ipvs_laws: "ipvs_laws sample_ipvs (\<lambda>t. t)"
  unfolding ipvs_laws_def
proof (intro conjI)
  show "delete_law sample_ipvs (\<lambda>t. t)" by (simp add: delete_law_def sample_ipvs_def)
  show "add_service_law sample_ipvs (\<lambda>t. t)" by (auto simp: add_service_law_def sample_ipvs_def)
  show "add_server_law sample_ipvs (\<lambda>t. t)"
    by (auto simp: add_server_law_def sample_ipvs_def split: option.split prod.split)
qed

definition sample_service :: l4_service_config where
  "sample_service =
     default_l4_service\<lparr>sv_name := ''edge-web'', sv_domains := [''example.com''], sv_vip := V4 192 0 2 10,
       sv_port := 443, sv_real_servers :=
         [\<lparr>rs_address = V4 10 0 0 11, rs_port = 443, rs_weight = 2\<rparr>,
          \<lparr>rs_address = V4 10 0 0 12, rs_port = 443, rs_weight = 1\<rparr>]\<rparr>"

definition sample_l4_config :: proxy_config where
  "sample_l4_config = sample_config\<lparr>pc_l4_services := [sample_service]\<rparr>"

lemma sample_l4_validates: "validate sample_lib sample_l4_config = Ok ()"
  by code_simp

lemma sample_service_ready: "ipvs_ready sample_service"
  by (simp add: ipvs_ready_def sample_service_def default_l4_service_def server_ready_def)


section \<open>What a failed plan leaves\<close>

text \<open>
  The commands that add a service touch its entry only, whether they succeed or not; this needs the
  arguments to be of the documented form, not that the commands succeed.
\<close>

definition addable :: "l4_service_config \<Rightarrow> bool" where
  "addable s \<longleftrightarrow> is_v4 (sv_vip s) \<and> list_all server_ready (sv_real_servers s)"

lemma run_all_keeps:
  assumes "\<And>c t. c \<in> set cs \<Longrightarrow> P t \<Longrightarrow> P (snd (run_ipvsadm run c t))" "P t"
  shows "P (snd (run_all run cs t))"
  using assms
proof (induction cs arbitrary: t)
  case (Cons c cs)
  have "P (snd (run_ipvsadm run c t))" using Cons.prems by simp
  with Cons.IH Cons.prems(1) show ?case by (auto split: prod.split sum.split)
qed simp

lemma run_ipvsadm_snd: "snd (run_ipvsadm run c t) = snd (run (ic_args c) t)"
  by (simp add: run_ipvsadm_def split: prod.split run_result.split)

lemma add_commands_frame:
  assumes "ipvs_laws run view" "addable x" "c \<in> set (add_commands x)" "k \<noteq> table_key x"
  shows "view (snd (run_ipvsadm run c t)) k = view t k"
proof -
  have a: "v4_endpoint (service_addr x)"
    using assms(2) by (auto simp: addable_def v4_endpoint_def service_addr_endpoint)
  from assms(3) consider "ic_args c = add_service_args x" | r where "r \<in> set (sv_real_servers x)" "ic_args c = add_server_args x r"
    by (auto simp: add_commands_def command_new_def)
  then show ?thesis
  proof cases
    case 1
    from assms(1) a obtain ok st err t' where
      "run (add_service_args x) t = (Ran ok st err, t')"
      "view t' = (if ok then (view t)(table_key x \<mapsto> (show_l4_scheduler (sv_scheduler x), [])) else view t)"
      unfolding ipvs_laws_def add_service_law_def add_service_args_def table_key_def by blast
    with 1 assms(4) show ?thesis by (simp add: run_ipvsadm_snd)
  next
    case (2 r)
    then have "v4_endpoint (server_addr r)" "valid_weight (show_nat (unat (rs_weight r)))"
      using assms(2) by (auto simp: addable_def list_all_iff v4_endpoint_def server_addr_endpoint server_ready_def valid_weight_def)
    with assms(1) a obtain ok st err t' where t': "run (add_server_args x r) t = (Ran ok st err, t')"
      "case view t (table_key x) of None \<Rightarrow> \<not> ok \<and> view t' = view t
       | Some (sch, ds) \<Rightarrow> ok = (server_addr r \<notin> fst ` set ds) \<and>
           view t' = (if ok then (view t)(table_key x \<mapsto>
             (sch, ds @ [(server_addr r, show_nat (unat (rs_weight r)))])) else view t)"
      unfolding ipvs_laws_def add_server_law_def add_server_args_def table_key_def by blast
    from t'(2) have "view t' k = view t k" using assms(4) by (auto split: option.splits if_splits)
    with 2(2) t'(1) show ?thesis by (simp add: run_ipvsadm_snd)
  qed
qed

text \<open>
  The plan deletes first: however the rest of it ends, no previous service that is not among the new
  ones is left in the table.
\<close>

lemma apply_plan_removes_previous:
  assumes "ipvs_laws run view" "\<forall>x \<in> set previous. is_v4 (sv_vip x)" "\<forall>x \<in> set services. addable x"
    "apply_plan run previous services t = (q, t')"
    "k \<in> table_key ` set previous" "k \<notin> table_key ` set services"
  shows "view t' k = None"
proof -
  have "delete_law run view" using assms(1) by (simp add: ipvs_laws_def)
  moreover have "\<forall>x \<in> set (previous @ services). is_v4 (sv_vip x)" using assms(2,3) by (auto simp: addable_def)
  ultimately obtain t1 where t1: "run_all run (delete_commands [] (previous @ services)) t = (Inr (), t1)"
    "view t1 = (\<lambda>k. if k \<in> table_key ` {x \<in> set (previous @ services). service_key x \<notin> set []} then None else view t k)"
    using run_deletes [of run view "previous @ services" "[]" t] by blast
  have none: "view t1 k = None" using t1(2) assms(5) by auto
  have "t' = snd (run_all run (concat (map add_commands services)) t1)"
    using assms(4) t1(1) by (simp add: apply_plan_def reconcile_def run_all_append)
  moreover have "view (snd (run_all run (concat (map add_commands services)) t1)) k = None"
  proof (rule run_all_keeps [where P = "\<lambda>t. view t k = None", OF _ none])
    fix c t
    assume "c \<in> set (concat (map add_commands services))" "view t k = None"
    then show "view (snd (run_ipvsadm run c t)) k = None"
      using add_commands_frame [OF assms(1), of _ c k t] assms(3,6) by fastforce
  qed
  ultimately show ?thesis by simp
qed

section \<open>The plan as text\<close>

definition shell_words :: "string \<Rightarrow> string list" where
  "shell_words line = takeWhile (\<lambda>w. w \<noteq> []) (split_on (CHR '' '') line)"

definition shell_lines :: "string \<Rightarrow> string list" where
  "shell_lines t = filter (\<lambda>l. \<not> starts_with l ''#'') (butlast (split_on (CHR 0x0A) t))"

definition plain_arg :: "string \<Rightarrow> bool" where
  "plain_arg a \<longleftrightarrow> a \<noteq> [] \<and> list_all plain_char a"

lemma plain_arg_write: "plain_arg a \<Longrightarrow> write_shell_arg a = a"
  by (simp add: plain_arg_def write_shell_arg_def)

lemma plain_arg_no_space: "plain_arg a \<Longrightarrow> CHR '' '' \<notin> set a \<and> CHR 0x0A \<notin> set a"
proof -
  have "\<not> plain_char (CHR '' '')" "\<not> plain_char (CHR 0x0A)" by code_simp+
  then show "plain_arg a \<Longrightarrow> ?thesis" by (auto simp: plain_arg_def list_all_iff)
qed

lemma plain_arg_numeral: "plain_arg (show_nat n)"
  by (auto simp: plain_arg_def list_all_iff plain_char_def is_ascii_alphanumeric_def dest: show_nat_digits)

lemma plain_arg_endpoint: "plain_arg (endpoint ip port)"
proof -
  have "plain_char c" if "addr_char c" for c using that by (auto simp: addr_char_def plain_char_def)
  moreover have "addr_char c" if "c \<in> set (endpoint ip port)" for c
    using that by (auto simp: endpoint_def dest: show_ip_addr_char show_nat_digits addr_char_digit)
  ultimately show ?thesis by (auto simp: plain_arg_def list_all_iff endpoint_def)
qed

lemma plain_arg_words:
  "plain_arg ''-A''" "plain_arg ''-D''" "plain_arg ''-a''" "plain_arg ''-s''" "plain_arg ''-r''" "plain_arg ''-g''"
  "plain_arg ''-w''" "plain_arg (service_flag s)" "plain_arg (show_l4_scheduler sch)"
proof -
  have "\<forall>w \<in> set [''-A'', ''-D'', ''-a'', ''-s'', ''-r'', ''-g'', ''-w'', ''-t'', ''-u'', ''rr'', ''wrr'', ''sh'']. plain_arg w"
    by code_simp
  then show "plain_arg ''-A''" "plain_arg ''-D''" "plain_arg ''-a''" "plain_arg ''-s''" "plain_arg ''-r''" "plain_arg ''-g''"
    "plain_arg ''-w''" "plain_arg (service_flag s)" "plain_arg (show_l4_scheduler sch)"
    by (cases sch; simp add: service_flag_def split: l4_protocol.split)+
qed

lemma delete_commands_args:
  "c \<in> set (delete_commands deleted ss) \<Longrightarrow> \<exists>s \<in> set ss. c = command_delete (delete_service_args s)"
  by (induction deleted ss rule: delete_commands.induct) (auto split: if_splits)

lemma reconcile_plain: "c \<in> set (reconcile previous next) \<Longrightarrow> list_all plain_arg (ic_args c)"
  by (auto simp: reconcile_def add_commands_def command_new_def command_delete_def delete_service_args_def
      add_service_args_def add_server_args_def service_addr_endpoint server_addr_endpoint plain_arg_words
      plain_arg_endpoint plain_arg_numeral dest!: delete_commands_args)

lemma join_args: "join_with '' '' (w # ws) = w @ concat (map (\<lambda>a. '' '' @ a) ws)"
  by (induction ws arbitrary: w) auto

lemma plain_IPVSADM: "plain_arg IPVSADM"
  by code_simp

lemma show_command_text:
  assumes "list_all plain_arg (ic_args c)"
  shows "show_command c = join_with '' '' ((IPVSADM # ic_args c) @
    (if ic_ignore_failure c then ['''', ''#'', ''ignore'', ''failure''] else []))"
proof -
  have "map (\<lambda>a. '' '' @ write_shell_arg a) (ic_args c) = map (\<lambda>a. '' '' @ a) (ic_args c)"
    using assms by (auto simp: list_all_iff plain_arg_write)
  then show ?thesis unfolding show_command_def by (simp only: append_Cons join_args) simp
qed

lemma shell_words_command:
  assumes "list_all plain_arg (ic_args c)"
  shows "shell_words (show_command c) = IPVSADM # ic_args c"
proof -
  let ?ws = "(IPVSADM # ic_args c) @ (if ic_ignore_failure c then ['''', ''#'', ''ignore'', ''failure''] else [])"
  have nonempty: "IPVSADM \<noteq> []" "\<forall>w \<in> set (ic_args c). w \<noteq> []"
    using assms plain_IPVSADM by (auto simp: list_all_iff plain_arg_def)
  have "\<forall>w \<in> set ?ws. CHR '' '' \<notin> set w"
    using assms plain_IPVSADM plain_arg_no_space by (auto simp: list_all_iff)
  then have "split_on (CHR '' '') (show_command c) = ?ws"
    unfolding show_command_text [OF assms] by (intro split_on_join) auto
  with nonempty show ?thesis by (simp add: shell_words_def takeWhile_append2)
qed

lemma show_command_line:
  assumes "list_all plain_arg (ic_args c)"
  shows "CHR 0x0A \<notin> set (show_command c)" "\<not> starts_with (show_command c) ''#''"
proof -
  have "set (show_command c) \<subseteq> set '' '' \<union> \<Union> (set ` set ((IPVSADM # ic_args c) @
      (if ic_ignore_failure c then ['''', ''#'', ''ignore'', ''failure''] else [])))"
    unfolding show_command_text [OF assms] by (rule set_join_with)
  then show "CHR 0x0A \<notin> set (show_command c)"
    using assms plain_IPVSADM plain_arg_no_space by (fastforce simp: list_all_iff split: if_splits)
  show "\<not> starts_with (show_command c) ''#''" by (simp add: show_command_def IPVSADM_def)
qed

lemma lines_concat:
  assumes "\<forall>l \<in> set ls. CHR 0x0A \<notin> set l"
  shows "split_on (CHR 0x0A) (concat (map (\<lambda>l. l @ [CHR 0x0A]) ls)) = ls @ ['''']"
  using assms by (induction ls) (auto simp: split_on_append)

lemma plan_text_words:
  "map shell_words (shell_lines (render_plan previous next)) =
     map (\<lambda>c. IPVSADM # ic_args c) (reconcile previous next)"
proof (cases "reconcile previous next = []")
  case True
  then show ?thesis by (simp add: render_plan_def shell_lines_def)
next
  case False
  let ?ls = "map show_command (reconcile previous next)"
  have plain: "list_all plain_arg (ic_args c)" if "c \<in> set (reconcile previous next)" for c
    using that by (rule reconcile_plain)
  have "render_plan previous next = concat (map (\<lambda>l. l @ [CHR 0x0A]) ?ls)"
    using False by (simp add: render_plan_def comp_def)
  then have "split_on (CHR 0x0A) (render_plan previous next) = ?ls @ ['''']"
    using lines_concat [of ?ls] show_command_line(1) plain by auto
  then have "shell_lines (render_plan previous next) = ?ls"
    using show_command_line(2) plain by (auto simp: shell_lines_def intro!: filter_True)
  then show ?thesis using shell_words_command plain by simp
qed

text \<open>
  The printed plan is the plan: read back line by line, without the comment lines, and word by
  word, without the trailing comments, \<^verbatim>\<open>render_plan\<close> gives exactly the argument vectors that \<^verbatim>\<open>apply\<close>
  passes to \<^verbatim>\<open>ipvsadm\<close>, in the same order; no argument needs quoting.
\<close>

theorem plan_text_roundtrip:
  "map shell_words (shell_lines (render_plan previous next)) =
     map (\<lambda>c. IPVSADM # ic_args c) (reconcile previous next)"
  by (rule plan_text_words)

section \<open>Duplicate real servers\<close>

lemma add_server_fails:
  assumes "add_server_law run view" "is_v4 (sv_vip x)" "server_ready r"
    "view t (table_key x) = Some (sch, ds)" "server_addr r \<in> fst ` set ds"
  obtains status stderr t' where
    "run_ipvsadm run (command_new (add_server_args x r)) t =
       (Inl (CommandFailed (add_server_args x r) status stderr), t')" "view t' = view t"
proof -
  let ?w = "show_nat (unat (rs_weight r))"
  have "v4_endpoint (service_addr x)" "v4_endpoint (server_addr r)" "valid_weight ?w"
    using assms(2,3) by (auto simp: v4_endpoint_def service_addr_endpoint server_addr_endpoint server_ready_def valid_weight_def)
  with assms(1) obtain ok st err t' where t':
    "run [''-a'', service_flag x, service_addr x, ''-r'', server_addr r, ''-g'', ''-w'', ?w] t = (Ran ok st err, t')"
    "case view t (service_flag x, service_addr x) of None \<Rightarrow> \<not> ok \<and> view t' = view t
     | Some (sch, ds) \<Rightarrow> ok = (server_addr r \<notin> fst ` set ds) \<and>
         view t' = (if ok then (view t)((service_flag x, service_addr x) \<mapsto> (sch, ds @ [(server_addr r, ?w)])) else view t)"
    unfolding add_server_law_def by blast
  from assms(4,5) t'(2) have "\<not> ok" "view t' = view t" by (simp_all add: table_key_def)
  with t'(1) show thesis
    by (intro that [of st "str_trim err" t']) (simp_all add: run_ipvsadm_def command_new_def add_server_args_def)
qed

text \<open>
  \<^verbatim>\<open>validate\<close> does not look for repeated real servers, and the plan then fails half way: for a
  service that lists the same endpoint a second time, \<^verbatim>\<open>apply\<close> returns the error of that command, the
  service stays in the table with only the servers before the repetition, and the rest of the plan
  is not run.
\<close>

theorem duplicate_server_leaves_partial_service:
  assumes "ipvs_laws run view" "sv_real_servers x = rs @ r # post"
    "ipvs_ready (x\<lparr>sv_real_servers := rs\<rparr>)" "server_ready r"
    "(rs_address r, rs_port r) \<in> (\<lambda>r. (rs_address r, rs_port r)) ` set rs"
    "\<forall>y \<in> set others. is_v4 (sv_vip y)"
  shows "\<exists>status stderr t'.
    apply_plan run [] (x # others) t = (Inl (CommandFailed (add_server_args x r) status stderr), t') \<and>
    view t' (table_key x) = Some (show_l4_scheduler (sv_scheduler x), table_servers rs)"
proof -
  let ?x = "x\<lparr>sv_real_servers := rs\<rparr>" and ?add = "\<lambda>r. command_new (add_server_args x r)"
  have laws: "delete_law run view" "add_service_law run view" "add_server_law run view"
    using assms(1) by (simp_all add: ipvs_laws_def)
  have v4: "is_v4 (sv_vip x)" using assms(3) by (simp add: ipvs_ready_def)
  have addrs: "service_flag ?x = service_flag x" "service_addr ?x = service_addr x" "table_key ?x = table_key x"
    by (simp_all add: service_flag_def service_addr_def table_key_def)
  from run_deletes [OF laws(1), of "x # others" "[]" t] v4 assms(6) obtain t1 where
    t1: "run_all run (delete_commands [] (x # others)) t = (Inr (), t1)" "view t1 (table_key x) = None"
    by (auto simp del: delete_commands.simps)
  from run_add_service [OF laws(2,3) assms(3), of t1] t1(2) obtain t2 where
    t2: "run_all run (add_commands ?x) t1 = (Inr (), t2)" "view t2 (table_key x) = Some (table_entry ?x)"
    by (auto simp: addrs)
  have parts: "add_commands x = add_commands ?x @ map ?add (r # post)"
    using assms(2) by (simp add: add_commands_def add_service_args_def add_server_args_def addrs)
  have "server_addr r \<in> fst ` set (table_servers rs)"
    using assms(5) by (force simp: table_servers_def server_addr_endpoint)
  moreover have "view t2 (table_key x) = Some (show_l4_scheduler (sv_scheduler x), table_servers rs)"
    using t2(2) by (simp add: table_entry_def)
  ultimately obtain status stderr t3 where
    t3: "run_ipvsadm run (?add r) t2 = (Inl (CommandFailed (add_server_args x r) status stderr), t3)" "view t3 = view t2"
    using add_server_fails [OF laws(3) v4 assms(4)] by metis
  have "apply_plan run [] (x # others) t = (Inl (CommandFailed (add_server_args x r) status stderr), t3)"
    unfolding apply_plan_def reconcile_def by (simp add: run_all_append t1(1) t2(1) t3(1) parts del: delete_commands.simps)
  with t3(2) t2(2) show ?thesis by (auto simp: table_entry_def)
qed

definition doubled_service :: l4_service_config where
  "doubled_service =
     sample_service\<lparr>sv_real_servers := sv_real_servers sample_service @ [hd (sv_real_servers sample_service)]\<rparr>"

lemma doubled_validates:
  "validate sample_lib (sample_config\<lparr>pc_l4_services := [doubled_service]\<rparr>) = Ok ()"
  by code_simp

theorem duplicate_server_leaves_partial_service_witness:
  "ipvs_laws sample_ipvs (\<lambda>t. t) \<and>
   validate sample_lib (sample_config\<lparr>pc_l4_services := [doubled_service]\<rparr>) = Ok () \<and>
   (\<exists>e t'. apply_plan sample_ipvs [] [doubled_service] Map.empty = (Inl e, t'))"
proof -
  have x: "sv_real_servers doubled_service = sv_real_servers sample_service @ hd (sv_real_servers sample_service) # []"
    by (simp add: doubled_service_def)
  have ready: "ipvs_ready (doubled_service\<lparr>sv_real_servers := sv_real_servers sample_service\<rparr>)"
    "server_ready (hd (sv_real_servers sample_service))"
    using sample_service_ready by (simp_all add: doubled_service_def ipvs_ready_def sample_service_def)
  have dup: "(rs_address (hd (sv_real_servers sample_service)), rs_port (hd (sv_real_servers sample_service))) \<in>
      (\<lambda>r. (rs_address r, rs_port r)) ` set (sv_real_servers sample_service)"
    by (simp add: sample_service_def)
  from duplicate_server_leaves_partial_service [OF sample_ipvs_laws x ready dup, of "[]" Map.empty]
  show ?thesis using sample_ipvs_laws doubled_validates by auto
qed

end
