(* ===== verification/Control.thy ===== *)
theory Control
  imports Health L4
begin

text \<open>
  The supervisor, \<^verbatim>\<open>src/src/control/mod.rs\<close>: start-up, the command loop with reload, drain and
  signal handling, and the listener tasks it owns. The state is everything the loop owns or shares:
  the current snapshot (the contents of the \<^verbatim>\<open>ArcSwap\<close>), the layer-4 services it installed, the
  kernel's table, the running listener tasks with their connection trackers, and the health workers.
  A run is a list of the events its \<^verbatim>\<open>select!\<close> sees.

  Errors of a reload are kept as values; the reply channel carries their texts.
\<close>

section \<open>Definitions\<close>

definition same_listener :: "listener_config \<Rightarrow> listener_config \<Rightarrow> bool" where
  "same_listener l r \<longleftrightarrow>
     lc_name l = lc_name r \<and> lc_bind l = lc_bind r \<and> lc_protocols l = lc_protocols r \<and>
     lc_http1_engine l = lc_http1_engine r \<and> lc_tls l = lc_tls r \<and> lc_reuse_port l = lc_reuse_port r \<and>
     lc_accept_workers l = lc_accept_workers r \<and> lc_backlog l = lc_backlog r \<and>
     lc_interface l = lc_interface r"

definition same_listener_shape :: "listener_config list \<Rightarrow> listener_config list \<Rightarrow> bool" where
  "same_listener_shape a b \<longleftrightarrow>
     length a = length b \<and> list_all (\<lambda>(l, r). same_listener l r) (zip a b)"

text \<open>
  A \<^verbatim>\<open>ListenerSet\<close>: the value of its shutdown channel, the listeners whose tasks run, and their
  connection trackers. \<open>next\<close> numbers the trackers, each of which is allocated fresh.
\<close>

record listener_set =
  ls_shutdown :: bool
  ls_tasks :: "listener_config list"
  ls_trackers :: "nat list"

definition listeners_start :: "nat \<Rightarrow> config_snapshot \<Rightarrow> listener_set \<times> nat" where
  "listeners_start next_tracker sn =
     (let ls = pc_listeners (sn_config sn) in
      (\<lparr>ls_shutdown = False, ls_tasks = ls, ls_trackers = [next_tracker ..< next_tracker + length ls]\<rparr>,
       next_tracker + length ls))"

definition listeners_stop :: "listener_set \<Rightarrow> listener_set" where
  "listeners_stop s = s\<lparr>ls_shutdown := True, ls_tasks := []\<rparr>"

text \<open>\<^verbatim>\<open>replace\<close> stops the old tasks; then the whole set is overwritten.\<close>

definition listeners_replace :: "nat \<Rightarrow> config_snapshot \<Rightarrow> listener_set \<Rightarrow> listener_set \<times> nat" where
  "listeners_replace next_tracker sn s = (let _ = listeners_stop s in listeners_start next_tracker sn)"

text \<open>
  Whether every tracker's \<^verbatim>\<open>wait\<close> finishes within the timeout; \<open>emptied\<close> says it of one tracker.
\<close>

definition wait_for_drain :: "(nat \<Rightarrow> bool) \<Rightarrow> listener_set \<Rightarrow> bool" where
  "wait_for_drain emptied s = list_all emptied (ls_trackers s)"

record 's control_env =
  ce_lib :: ext_lib
  ce_from_str :: "string \<Rightarrow> string + proxy_config"
  ce_addr :: "usize \<Rightarrow> nat"
  ce_run :: "string list \<Rightarrow> 's \<Rightarrow> run_result \<times> 's"
  ce_recorder_ok :: bool

record 's supervisor =
  sp_snapshot :: config_snapshot
  sp_l4 :: "l4_service_config list"
  sp_table :: 's
  sp_listeners :: listener_set
  sp_health :: health_set
  sp_next_tracker :: nat
  sp_next_id :: usize
  sp_reloads :: nat
  sp_drained :: "bool option"
  sp_running :: bool

datatype reload_error = ReloadConfig config_error | ReloadL4 l4_error

datatype start_error = StartL4 l4_error | StartMetrics

text \<open>\<^verbatim>\<open>preflight\<close> with its two runs of \<^verbatim>\<open>ipvsadm\<close>.\<close>

definition run_preflight ::
  "(string list \<Rightarrow> 's \<Rightarrow> run_result \<times> 's) \<Rightarrow> proxy_config \<Rightarrow> 's \<Rightarrow> (l4_error + unit) \<times> 's" where
  "run_preflight run config t =
     (if pc_l4_services config = [] then (Inr (), t)
      else
        (let (version, t1) = run [''--version''] t in
         if \<not> ran_ok version then (preflight version version config, t1)
         else (let (lst, t2) = run [''-Ln''] t1 in (preflight version lst config, t2))))"

definition reload ::
  "'s control_env \<Rightarrow> string \<Rightarrow> string + string \<Rightarrow> 's supervisor \<Rightarrow>
   (string, reload_error) outcome \<times> 's supervisor" where
  "reload env path file st =
     (case snapshot_load (ce_lib env) (ce_from_str env) (sp_next_id st) path file of
        Panic p \<Rightarrow> (Panic p, st)
      | Err e \<Rightarrow> (Err (ReloadConfig e), st)
      | Ok (new, next_id) \<Rightarrow>
          (let st1 = st\<lparr>sp_next_id := next_id\<rparr>;
               listeners_changed = (\<not> same_listener_shape (pc_listeners (sn_config (sp_snapshot st)))
                 (pc_listeners (sn_config new)))
           in case run_preflight (ce_run env) (sn_config new) (sp_table st1) of
                (Inl e, t1) \<Rightarrow> (Err (ReloadL4 e), st1\<lparr>sp_table := t1\<rparr>)
              | (Inr _, t1) \<Rightarrow>
                  (case apply_plan (ce_run env) (sp_l4 st1) (pc_l4_services (sn_config new)) t1 of
                     (Inl e, t2) \<Rightarrow> (Err (ReloadL4 e), st1\<lparr>sp_table := t2\<rparr>)
                   | (Inr _, t2) \<Rightarrow>
                       (let st2 = st1\<lparr>sp_table := t2, sp_l4 := pc_l4_services (sn_config new),
                              sp_snapshot := new, sp_reloads := Suc (sp_reloads st1)\<rparr>;
                            st3 = (if listeners_changed
                              then (let (ls, n) = listeners_replace (sp_next_tracker st2) new (sp_listeners st2)
                                    in st2\<lparr>sp_listeners := ls, sp_next_tracker := n\<rparr>)
                              else st2)
                        in (Ok ''reloaded'',
                            st3\<lparr>sp_health := health_replace (ce_addr env) new (sp_health st3)\<rparr>)))))"

text \<open>What draining and the interrupt signal both do; a failing \<^verbatim>\<open>apply\<close> is only logged.\<close>

definition shut_down :: "'s control_env \<Rightarrow> (nat \<Rightarrow> bool) \<Rightarrow> 's supervisor \<Rightarrow> 's supervisor" where
  "shut_down env emptied st =
     (let ls = listeners_stop (sp_listeners st);
          t = snd (apply_plan (ce_run env) (sp_l4 st) [] (sp_table st))
      in st\<lparr>sp_listeners := ls, sp_drained := Some (wait_for_drain emptied ls),
            sp_health := health_stop (sp_health st), sp_table := t, sp_running := False\<rparr>)"

text \<open>
  The events: a reload command with the file's contents at that time, a drain command and an
  interrupt with the trackers that empty in time, an error of the signal handler, and the end of the
  command channel, when its last sender is dropped.
\<close>

datatype control_event =
    ReloadCommand "string + string"
  | DrainCommand "nat \<Rightarrow> bool"
  | Interrupt "nat \<Rightarrow> bool"
  | SignalFailed
  | CommandsClosed

definition run_event ::
  "'s control_env \<Rightarrow> string \<Rightarrow> control_event \<Rightarrow> 's supervisor \<Rightarrow>
   (string, reload_error) outcome option \<times> 's supervisor" where
  "run_event env path ev st =
     (case ev of
        ReloadCommand file \<Rightarrow>
          (case reload env path file st of
             (Panic p, st') \<Rightarrow> (None, st'\<lparr>sp_running := False\<rparr>)
           | (r, st') \<Rightarrow> (Some r, st'))
      | DrainCommand emptied \<Rightarrow> (Some (Ok ''draining''), shut_down env emptied st)
      | Interrupt emptied \<Rightarrow> (None, shut_down env emptied st)
      | SignalFailed \<Rightarrow> (None, st\<lparr>sp_running := False\<rparr>)
      | CommandsClosed \<Rightarrow> (None, st\<lparr>sp_running := False\<rparr>))"

fun run_events :: "'s control_env \<Rightarrow> string \<Rightarrow> control_event list \<Rightarrow> 's supervisor \<Rightarrow> 's supervisor" where
  "run_events env path [] st = st"
| "run_events env path (e # es) st =
     (if sp_running st then run_events env path es (snd (run_event env path e st)) else st)"

text \<open>The part of \<^verbatim>\<open>Supervisor::run\<close> before the loop.\<close>

definition supervisor_start ::
  "'s control_env \<Rightarrow> config_snapshot \<Rightarrow> usize \<Rightarrow> 's \<Rightarrow> ('s supervisor, start_error) outcome \<times> 's" where
  "supervisor_start env initial next_id table =
     (case run_preflight (ce_run env) (sn_config initial) table of
        (Inl e, t1) \<Rightarrow> (Err (StartL4 e), t1)
      | (Inr _, t1) \<Rightarrow>
          (case apply_plan (ce_run env) [] (pc_l4_services (sn_config initial)) t1 of
             (Inl e, t2) \<Rightarrow> (Err (StartL4 e), t2)
           | (Inr _, t2) \<Rightarrow>
               (if te_prometheus (pc_telemetry (sn_config initial)) \<and> \<not> ce_recorder_ok env then (Err StartMetrics, t2)
                else let (ls, n) = listeners_start 0 initial in
                (Ok \<lparr>sp_snapshot = initial, sp_l4 = pc_l4_services (sn_config initial), sp_table = t2,
                     sp_listeners = ls, sp_health = health_start (ce_addr env) initial,
                     sp_next_tracker = n, sp_next_id = next_id, sp_reloads = 0, sp_drained = None,
                     sp_running = True\<rparr>, t2))))"

section \<open>Listener shapes\<close>

lemma same_listener_eq: "same_listener l r \<longleftrightarrow> l = r"
  by (cases l; cases r) (simp add: same_listener_def)

lemma same_listener_shape_eq: "same_listener_shape a b \<longleftrightarrow> a = b"
proof -
  have "same_listener_shape a b \<longleftrightarrow> list_all2 (=) a b"
    by (auto simp: same_listener_shape_def list_all2_iff list_all_iff same_listener_eq)
  then show ?thesis by (simp add: list.rel_eq)
qed

section \<open>Task sets\<close>

text \<open>
  The two kinds of task sets the supervisor owns, with one contract: starting runs the tasks a
  snapshot asks for, stopping runs none, replacing is stopping and starting.
\<close>

locale task_set =
  fixes start :: "'p \<Rightarrow> config_snapshot \<Rightarrow> 'h"
    and stop :: "'h \<Rightarrow> 'h"
    and replace :: "'p \<Rightarrow> config_snapshot \<Rightarrow> 'h \<Rightarrow> 'h"
    and tasks :: "'h \<Rightarrow> 't list"
    and wanted :: "config_snapshot \<Rightarrow> 't list"
  assumes start_tasks: "tasks (start p sn) = wanted sn"
    and stop_tasks: "tasks (stop h) = []"
    and replace_start: "replace p sn h = start p sn"
begin

lemma replace_tasks: "tasks (replace p sn h) = wanted sn"
  by (simp add: replace_start start_tasks)

lemma stop_idempotent: "tasks (stop (stop h)) = tasks (stop h)"
  by (simp add: stop_tasks)

end

interpretation listeners: task_set
  "\<lambda>n sn. fst (listeners_start n sn)" listeners_stop "\<lambda>n sn s. fst (listeners_replace n sn s)"
  ls_tasks "\<lambda>sn. pc_listeners (sn_config sn)"
  by unfold_locales (simp_all add: listeners_start_def listeners_stop_def listeners_replace_def Let_def)

definition wanted_workers :: "(usize \<Rightarrow> nat) \<Rightarrow> config_snapshot \<Rightarrow> usize list" where
  "wanted_workers addr sn =
     map st_id (filter (\<lambda>u. hc_enabled (us_health_check (st_config u))) (all_upstreams addr (sn_routes sn)))"

interpretation workers: task_set
  "\<lambda>_ :: unit. health_start addr" health_stop "\<lambda>_. health_replace addr" hs_workers "wanted_workers addr"
  for addr
  by unfold_locales (simp_all add: health_start_def health_stop_def health_replace_def wanted_workers_def Let_def)

section \<open>The invariant\<close>

text \<open>A supervisor that runs serves one configuration with everything it owns.\<close>

definition supervisor_inv :: "'s control_env \<Rightarrow> 's supervisor \<Rightarrow> bool" where
  "supervisor_inv env st \<longleftrightarrow>
     (let config = sn_config (sp_snapshot st) in
      validate (ce_lib env) config = Ok () \<and> snap_inv (ce_lib env) (sp_snapshot st) \<and>
      sp_l4 st = pc_l4_services config \<and>
      (\<forall>n \<in> set (ls_trackers (sp_listeners st)). n < sp_next_tracker st) \<and>
      (if sp_running st
       then ls_tasks (sp_listeners st) = pc_listeners config \<and>
         length (ls_trackers (sp_listeners st)) = length (pc_listeners config) \<and>
         hs_workers (sp_health st) = wanted_workers (ce_addr env) (sp_snapshot st)
       else True))"

text \<open>What the parameters are assumed to do.\<close>

definition parser_ok :: "'s control_env \<Rightarrow> bool" where
  "parser_ok env \<longleftrightarrow> authority_is_header (ce_lib env) \<and>
     (\<forall>input c. ce_from_str env input = Inr c \<longrightarrow> pools_fit c)"

lemma loaded_snapshot:
  assumes "parser_ok env" "snapshot_load (ce_lib env) (ce_from_str env) i path file = Ok (sn, j)"
  shows "validate (ce_lib env) (sn_config sn) = Ok ()" "snap_inv (ce_lib env) sn"
proof -
  from assms(2) obtain input where p: "snapshot_parse (ce_lib env) (ce_from_str env) i input path = Ok (sn, j)"
    by (auto simp: snapshot_load_def split: sum.splits)
  then show "validate (ce_lib env) (sn_config sn) = Ok ()"
    by (auto simp: snapshot_parse_def outcome_simps split: sum.splits)
  show "snap_inv (ce_lib env) sn"
    using assms(1) p by (intro snapshot_parse_snap_inv [OF _ _ p]) (auto simp: parser_ok_def)
qed

lemma load_no_panic:
  assumes "parser_ok env"
  shows "snapshot_load (ce_lib env) (ce_from_str env) i path file \<noteq> Panic p"
proof (cases "file")
  case (Inr input)
  with assms snapshot_parse_inv [of "ce_lib env" "ce_from_str env" input i path] show ?thesis
    by (auto simp: snapshot_load_def parser_ok_def split: outcome.splits)
qed (simp add: snapshot_load_def)

text \<open>The three ways a reload ends.\<close>

lemma reload_cases:
  assumes "reload env path file st = (r, st')" "\<And>p. r \<noteq> Panic p"
  obtains
    (config) e where "r = Err (ReloadConfig e)" "st' = st"
  | (l4) e t new next_id t1 where "r = Err (ReloadL4 e)" "st' = st\<lparr>sp_next_id := next_id, sp_table := t\<rparr>"
      "snapshot_load (ce_lib env) (ce_from_str env) (sp_next_id st) path file = Ok (new, next_id)"
      "run_preflight (ce_run env) (sn_config new) (sp_table st) = (Inl e, t) \<or>
       run_preflight (ce_run env) (sn_config new) (sp_table st) = (Inr (), t1) \<and>
       apply_plan (ce_run env) (sp_l4 st) (pc_l4_services (sn_config new)) t1 = (Inl e, t)"
  | (ok) new next_id t1 t2 where "r = Ok ''reloaded''"
      "snapshot_load (ce_lib env) (ce_from_str env) (sp_next_id st) path file = Ok (new, next_id)"
      "run_preflight (ce_run env) (sn_config new) (sp_table st) = (Inr (), t1)"
      "apply_plan (ce_run env) (sp_l4 st) (pc_l4_services (sn_config new)) t1 = (Inr (), t2)"
      "sp_snapshot st' = new" "sp_l4 st' = pc_l4_services (sn_config new)" "sp_table st' = t2"
      "sp_running st' = sp_running st" "sp_health st' = health_start (ce_addr env) new"
      "(sp_listeners st', sp_next_tracker st') =
         (if pc_listeners (sn_config (sp_snapshot st)) = pc_listeners (sn_config new)
          then (sp_listeners st, sp_next_tracker st) else listeners_start (sp_next_tracker st) new)"
  using assms
  by (auto simp: reload_def same_listener_shape_eq Let_def listeners_replace_def health_replace_def
      split: outcome.splits prod.splits sum.splits if_splits)

lemma listeners_start_trackers:
  "listeners_start n sn = (ls, m) \<Longrightarrow>
     ls_tasks ls = pc_listeners (sn_config sn) \<and> length (ls_trackers ls) = length (pc_listeners (sn_config sn)) \<and>
     (\<forall>k \<in> set (ls_trackers ls). n \<le> k \<and> k < m) \<and> n \<le> m"
  by (auto simp: listeners_start_def Let_def)

lemma reload_inv:
  assumes "parser_ok env" "supervisor_inv env st" "reload env path file st = (r, st')"
  shows "supervisor_inv env st' \<and> sp_running st' = sp_running st"
proof -
  have "r \<noteq> Panic p" for p
    using assms(3) load_no_panic [OF assms(1)]
    by (auto simp: reload_def Let_def split: outcome.splits prod.splits sum.splits)
  with assms(3) show ?thesis
  proof (cases rule: reload_cases)
    case (ok new next_id t1 t2)
    have sn: "validate (ce_lib env) (sn_config new) = Ok ()" "snap_inv (ce_lib env) new"
      using loaded_snapshot [OF assms(1) ok(2)] by simp_all
    have h: "hs_workers (sp_health st') = wanted_workers (ce_addr env) new"
      unfolding ok(9) by (rule workers.start_tasks)
    show ?thesis
    proof (cases "pc_listeners (sn_config (sp_snapshot st)) = pc_listeners (sn_config new)")
      case True
      with ok h sn assms(2) show ?thesis by (auto simp: supervisor_inv_def Let_def)
    next
      case False
      with ok(10) have "listeners_start (sp_next_tracker st) new = (sp_listeners st', sp_next_tracker st')" by simp
      note listeners_start_trackers [OF this]
      with ok h sn show ?thesis by (auto simp: supervisor_inv_def Let_def)
    qed
  qed (use assms(2) in \<open>simp_all add: supervisor_inv_def Let_def\<close>)
qed

lemma reload_no_panic:
  assumes "parser_ok env"
  shows "fst (reload env path file st) \<noteq> Panic p"
  using load_no_panic [OF assms] by (auto simp: reload_def Let_def split: outcome.splits prod.splits sum.splits)

lemma shut_down_frame:
  "sp_snapshot (shut_down env f st) = sp_snapshot st" "sp_l4 (shut_down env f st) = sp_l4 st"
  "\<not> sp_running (shut_down env f st)" "sp_next_tracker (shut_down env f st) = sp_next_tracker st"
  "ls_trackers (sp_listeners (shut_down env f st)) = ls_trackers (sp_listeners st)"
  "ls_tasks (sp_listeners (shut_down env f st)) = []" "hs_workers (sp_health (shut_down env f st)) = []"
  by (simp_all add: shut_down_def Let_def listeners_stop_def health_stop_def)

lemma run_event_inv:
  assumes "parser_ok env" "supervisor_inv env st"
  shows "supervisor_inv env (snd (run_event env path ev st))"
proof (cases ev)
  case (ReloadCommand contents)
  obtain r st' where r: "reload env path contents st = (r, st')" by force
  have "r \<noteq> Panic p" for p using r reload_no_panic [OF assms(1), of path contents st] by (metis fst_conv)
  then have "snd (run_event env path ev st) = st'"
    using r ReloadCommand by (auto simp: run_event_def split: outcome.split)
  then show ?thesis using reload_inv [OF assms r] by simp
qed (use assms(2) in \<open>auto simp: run_event_def supervisor_inv_def Let_def shut_down_frame\<close>)

lemma run_events_inv:
  "parser_ok env \<Longrightarrow> supervisor_inv env st \<Longrightarrow> supervisor_inv env (run_events env path es st)"
  by (induction env path es st rule: run_events.induct) (simp_all add: run_event_inv)

lemma supervisor_start_inv:
  assumes "parser_ok env" "snapshot_load (ce_lib env) (ce_from_str env) i path file = Ok (initial, next_id)"
    "supervisor_start env initial next_id table = (Ok st, t)"
  shows "supervisor_inv env st \<and> sp_running st"
proof -
  from assms(3) obtain ls n where ls: "listeners_start 0 initial = (ls, n)"
    "sp_snapshot st = initial" "sp_l4 st = pc_l4_services (sn_config initial)" "sp_listeners st = ls"
    "sp_next_tracker st = n" "sp_health st = health_start (ce_addr env) initial" "sp_running st"
    by (auto simp: supervisor_start_def split: prod.splits sum.splits if_splits)
  have "hs_workers (sp_health st) = wanted_workers (ce_addr env) initial"
    unfolding ls(6) by (rule workers.start_tasks)
  with ls listeners_start_trackers [OF ls(1)] loaded_snapshot [OF assms(1,2)] show ?thesis
    by (auto simp: supervisor_inv_def Let_def)
qed

text \<open>
  C2. The supervisor serves one valid configuration at a time. After start-up and any sequence of
  events, the current snapshot is valid and its routing tables are sound; as long as the supervisor
  runs, exactly the configured listeners have tasks, with a tracker each, exactly the upstreams with
  health checks have workers, and the recorded layer-4 services are those of the configuration.
\<close>

theorem supervisor_serves_one_configuration:
  assumes "parser_ok env"
    "snapshot_load (ce_lib env) (ce_from_str env) i path file = Ok (initial, next_id)"
    "supervisor_start env initial next_id table = (Ok st, t)"
  shows "supervisor_inv env (run_events env path events st)"
  using run_events_inv [OF assms(1)] supervisor_start_inv [OF assms] by blast

text \<open>
  A reload that fails changes nothing of what is served: snapshot, recorded services, listener
  tasks with their trackers and health workers are those from before the reload, and the supervisor
  goes on. Only commands that \<^verbatim>\<open>ipvsadm\<close> already executed are not undone.
\<close>

theorem failed_reload_keeps_serving:
  assumes "reload env path file st = (Err e, st')"
  shows "st' = st\<lparr>sp_next_id := sp_next_id st', sp_table := sp_table st'\<rparr> \<and>
    (case e of ReloadConfig _ \<Rightarrow> st' = st | ReloadL4 _ \<Rightarrow> True) \<and>
    run_event env path (ReloadCommand file) st = (Some (Err e), st')"
proof -
  have event: "run_event env path (ReloadCommand file) st = (Some (Err e), st')" using assms by (simp add: run_event_def)
  from assms show ?thesis by (cases rule: reload_cases) (use event in auto)
qed

section \<open>The kernel's table\<close>

text \<open>The two query commands do not change the table.\<close>

definition query_law :: "(string list \<Rightarrow> 's \<Rightarrow> run_result \<times> 's) \<Rightarrow> ('s \<Rightarrow> ipvs_view) \<Rightarrow> bool" where
  "query_law run view \<longleftrightarrow>
     (\<forall>t. view (snd (run [''--version''] t)) = view t \<and> view (snd (run [''-Ln''] t)) = view t)"

text \<open>
  The services of a file can be expressed in \<^verbatim>\<open>ipvsadm\<close>; a file that does not parse asks for none.
\<close>

definition file_ready :: "'s control_env \<Rightarrow> string + string \<Rightarrow> bool" where
  "file_ready env file \<longleftrightarrow>
     (case file of
        Inl _ \<Rightarrow> True
      | Inr input \<Rightarrow>
          (case ce_from_str env input of
             Inl _ \<Rightarrow> True
           | Inr c \<Rightarrow> list_all ipvs_ready (pc_l4_services c)))"

fun event_ready :: "'s control_env \<Rightarrow> control_event \<Rightarrow> bool" where
  "event_ready env (ReloadCommand file) = file_ready env file"
| "event_ready env _ = True"

definition cleans_up :: "control_event \<Rightarrow> bool" where
  "cleans_up ev \<longleftrightarrow> ev \<noteq> CommandsClosed \<and> ev \<noteq> SignalFailed"

definition table_inv_l4 :: "('s \<Rightarrow> ipvs_view) \<Rightarrow> 's supervisor \<Rightarrow> bool" where
  "table_inv_l4 view st \<longleftrightarrow>
     (\<forall>s \<in> set (sp_l4 st). ipvs_ready s) \<and>
     view (sp_table st) = (if sp_running st then installed (sp_l4 st) else Map.empty)"

lemma run_preflight_view:
  "query_law run view \<Longrightarrow> view (snd (run_preflight run config t)) = view t"
  by (auto simp: run_preflight_def query_law_def Let_def case_prod_beta)

lemma loaded_ready:
  assumes "file_ready env file" "snapshot_load (ce_lib env) (ce_from_str env) i path file = Ok (sn, j)"
  shows "\<forall>s \<in> set (pc_l4_services (sn_config sn)). ipvs_ready s"
  using assms
  by (auto simp: file_ready_def list_all_iff snapshot_load_def snapshot_parse_def outcome_simps split: sum.splits)

lemma installed_replaced:
  assumes "ipvs_laws run view" "distinct (map vip_key_of new)" "\<forall>s \<in> set old \<union> set new. ipvs_ready s"
    "view t = installed old" "apply_plan run old new t = (r, t')"
  shows "r = Inr () \<and> view t' = installed new"
proof -
  obtain t1 where t1: "apply_plan run old new t = (Inr (), t1)"
    "\<forall>k. view t1 k = (case installed new k of Some e \<Rightarrow> Some e
       | None \<Rightarrow> if k \<in> table_key ` set old then None else view t k)"
    using apply_plan_installs [OF assms(1-3), of t] by blast
  have "installed old k = None" if "k \<notin> table_key ` set old" for k
    using that by (force simp: installed_def map_of_eq_None_iff)
  then have "view t1 k = installed new k" for k
    using t1(2) [rule_format, of k] assms(4) by (auto split: option.splits if_splits)
  with t1(1) assms(5) show ?thesis by auto
qed

lemma installed_Nil [simp]: "installed [] = Map.empty"
  by (simp add: installed_def)

lemma validated_keys_sp:
  "supervisor_inv env st \<Longrightarrow> distinct (map vip_key_of (sp_l4 st))"
  using validated_vip_keys by (auto simp: supervisor_inv_def Let_def)

lemma reload_table:
  assumes "ipvs_laws (ce_run env) view" "query_law (ce_run env) view" "parser_ok env" "file_ready env file"
    "table_inv_l4 view st" "sp_running st" "reload env path file st = (r, st')"
  shows "table_inv_l4 view st'"
proof -
  have "r \<noteq> Panic p" for p using assms(7) reload_no_panic [OF assms(3), of path "file" st] by simp
  have preflight: "view t1 = view (sp_table st)"
    if "run_preflight (ce_run env) config (sp_table st) = (p, t1)" for config p t1
    using run_preflight_view [OF assms(2), of config "sp_table st"] that by simp
  have installed_new: "q = Inr () \<and> view t2 = installed (pc_l4_services (sn_config new))"
    if "snapshot_load (ce_lib env) (ce_from_str env) (sp_next_id st) path file = Ok (new, next_id)"
      "run_preflight (ce_run env) (sn_config new) (sp_table st) = (p, t1)"
      "apply_plan (ce_run env) (sp_l4 st) (pc_l4_services (sn_config new)) t1 = (q, t2)" for new next_id p q t1 t2
  proof (rule installed_replaced [OF assms(1) _ _ _ that(3)])
    show "distinct (map vip_key_of (pc_l4_services (sn_config new)))"
      by (rule validated_vip_keys [OF loaded_snapshot(1) [OF assms(3) that(1)]])
    show "\<forall>s \<in> set (sp_l4 st) \<union> set (pc_l4_services (sn_config new)). ipvs_ready s"
      using assms(5) loaded_ready [OF assms(4) that(1)] by (auto simp: table_inv_l4_def)
    show "view t1 = installed (sp_l4 st)" using preflight [OF that(2)] assms(5,6) by (simp add: table_inv_l4_def)
  qed
  from assms(7) \<open>\<And>p. r \<noteq> Panic p\<close> show ?thesis
  proof (cases rule: reload_cases)
    case config
    with assms(5) show ?thesis by simp
  next
    case (l4 e t new next_id t1)
    from l4(4) have "view t = view (sp_table st)"
      using preflight installed_new [OF l4(3)] by fastforce
    with assms(5) l4(2) show ?thesis by (simp add: table_inv_l4_def)
  next
    case (ok new next_id t1 t2)
    from installed_new [OF ok(2,3,4)] loaded_ready [OF assms(4) ok(2)] ok assms(6) show ?thesis
      by (simp add: table_inv_l4_def)
  qed
qed

lemma shut_down_table:
  assumes "ipvs_laws (ce_run env) view" "table_inv_l4 view st" "sp_running st"
  shows "table_inv_l4 view (shut_down env emptied st)"
proof -
  obtain q t where t: "apply_plan (ce_run env) (sp_l4 st) [] (sp_table st) = (q, t)" by force
  have "view t = installed []"
    using installed_replaced [OF assms(1) _ _ _ t] assms(2,3) by (simp add: table_inv_l4_def)
  then show ?thesis using assms(2) t by (simp add: table_inv_l4_def shut_down_def Let_def)
qed

lemma run_event_table:
  assumes "ipvs_laws (ce_run env) view" "query_law (ce_run env) view" "parser_ok env" "event_ready env ev"
    "table_inv_l4 view st" "sp_running st" "cleans_up ev"
  shows "table_inv_l4 view (snd (run_event env path ev st))"
proof (cases ev)
  case (ReloadCommand contents)
  obtain r st' where r: "reload env path contents st = (r, st')" by force
  have "r \<noteq> Panic p" for p using r reload_no_panic [OF assms(3), of path contents st] by (metis fst_conv)
  then have "snd (run_event env path ev st) = st'"
    using r ReloadCommand by (auto simp: run_event_def split: outcome.split)
  moreover have "file_ready env contents" using assms(4) ReloadCommand by simp
  ultimately show ?thesis using reload_table [OF assms(1-3) _ assms(5,6) r] by simp
qed (use assms shut_down_table in \<open>auto simp: run_event_def cleans_up_def\<close>)

lemma run_events_table:
  assumes "ipvs_laws (ce_run env) view" "query_law (ce_run env) view" "parser_ok env"
    "table_inv_l4 view st" "\<forall>ev \<in> set es. event_ready env ev \<and> cleans_up ev"
  shows "table_inv_l4 view (run_events env path es st)"
  using assms(4,5)
proof (induction es arbitrary: st)
  case (Cons e es)
  show ?case
  proof (cases "sp_running st")
    case True
    with run_event_table [OF assms(1-3) _ Cons.prems(1) True, of e path] Cons show ?thesis by simp
  next
    case False
    with Cons.prems(1) show ?thesis by simp
  qed
qed simp

lemma supervisor_start_table:
  assumes "ipvs_laws (ce_run env) view" "query_law (ce_run env) view" "parser_ok env" "file_ready env file"
    and "snapshot_load (ce_lib env) (ce_from_str env) i path file = Ok (initial, next_id)"
    and "view table = Map.empty" "supervisor_start env initial next_id table = (Ok st, t)"
  shows "table_inv_l4 view st"
proof -
  from assms(7) obtain t1 t2 where start: "run_preflight (ce_run env) (sn_config initial) table = (Inr (), t1)"
    "apply_plan (ce_run env) [] (pc_l4_services (sn_config initial)) t1 = (Inr (), t2)"
    "sp_table st = t2" "sp_l4 st = pc_l4_services (sn_config initial)" "sp_running st"
    by (auto simp: supervisor_start_def split: prod.splits sum.splits if_splits)
  have ready: "\<forall>s \<in> set [] \<union> set (pc_l4_services (sn_config initial)). ipvs_ready s"
    using loaded_ready [OF assms(4,5)] by simp
  have "view t1 = installed []"
    using run_preflight_view [OF assms(2), of "sn_config initial" table] start(1) assms(6) by simp
  from installed_replaced [OF assms(1) _ ready this start(2)]
    validated_vip_keys [OF loaded_snapshot(1) [OF assms(3,5)]]
  show ?thesis using start ready by (simp add: table_inv_l4_def)
qed


section \<open>A reload that fails in apply\<close>

definition apply_error :: "l4_error \<Rightarrow> bool" where
  "apply_error e \<longleftrightarrow> e \<noteq> MissingIpvsadm \<and> e \<noteq> Preflight"

lemma run_preflight_error: "run_preflight run config t = (Inl e, t') \<Longrightarrow> \<not> apply_error e"
  by (auto simp: run_preflight_def preflight_def apply_error_def Let_def split: prod.splits if_splits run_result.splits)


section \<open>Connections across a reload\<close>

text \<open>
  A reload that changes the listeners forgets the connections that are still open: the new
  listener set has none of the old trackers, so a later drain does not wait for a connection that
  was accepted before the reload, however long it lasts.
\<close>

theorem reload_forgets_open_connections:
  assumes "parser_ok env" "supervisor_inv env st" "reload env path file st = (Ok message, st')"
    "pc_listeners (sn_config (sp_snapshot st)) \<noteq> pc_listeners (sn_config (sp_snapshot st'))"
    "old = set (ls_trackers (sp_listeners st))"
  shows "old \<inter> set (ls_trackers (sp_listeners st')) = {} \<and>
    sp_drained (shut_down env (\<lambda>n. n \<notin> old) st') = Some True"
proof -
  have "Ok message \<noteq> Panic p" for p by simp
  with assms(3) have "listeners_start (sp_next_tracker st) (sp_snapshot st') = (sp_listeners st', sp_next_tracker st')"
    by (cases rule: reload_cases) (use assms(4) in auto)
  note listeners_start_trackers [OF this]
  moreover have "\<forall>n \<in> old. n < sp_next_tracker st"
    using assms(2) by (simp add: supervisor_inv_def Let_def assms(5))
  ultimately have "old \<inter> set (ls_trackers (sp_listeners st')) = {}" by (meson disjoint_iff leD)
  then show ?thesis
    by (auto simp: shut_down_def Let_def wait_for_drain_def listeners_stop_def list_all_iff)
qed

text \<open>
  When the command channel closes, which happens as soon as the admin listener fails, the supervisor
  returns without stopping anything and without removing its layer-4 services.
\<close>

lemma closed_commands_leave_services:
  "run_events env path (CommandsClosed # es) st =
     (if sp_running st then st\<lparr>sp_running := False\<rparr> else st)"
  by (cases es) (auto simp: run_event_def)

section \<open>A concrete run\<close>

definition sample_run :: "string list \<Rightarrow> ipvs_view \<Rightarrow> run_result \<times> ipvs_view" where
  "sample_run args t = (if length args = 1 then (Ran True [] [], t) else sample_ipvs args t)"

text \<open>The first configuration has a listener and no services, the second one a service and no listener.\<close>

definition second_config :: proxy_config where
  "second_config = sample_l4_config\<lparr>pc_listeners := []\<rparr>"

definition sample_control :: "ipvs_view control_env" where
  "sample_control =
     \<lparr>ce_lib = sample_lib, ce_from_str = (\<lambda>s. Inr (if s = ''1'' then sample_config else second_config)),
      ce_addr = unat, ce_run = sample_run, ce_recorder_ok = True\<rparr>"

lemma sample_run_laws: "ipvs_laws sample_run (\<lambda>t. t)" "query_law sample_run (\<lambda>t. t)"
  using sample_ipvs_laws
  by (simp_all add: ipvs_laws_def delete_law_def add_service_law_def add_server_law_def sample_run_def query_law_def)

lemma second_config_validates: "validate sample_lib second_config = Ok ()"
  by code_simp

lemma sample_fit: "pools_fit sample_config" "pools_fit second_config"
  using sample_config_ok(2) by (simp_all add: pools_fit_def second_config_def sample_l4_config_def)

lemma sample_services:
  "pc_l4_services sample_config = []" "pc_l4_services second_config = [sample_service]"
  by (simp_all add: sample_config_def default_proxy_config_def second_config_def sample_l4_config_def)

lemma sample_control_ok: "parser_ok sample_control" "file_ready sample_control (Inr text)"
  using sample_authority_is_header sample_fit sample_service_ready
  by (auto simp: parser_ok_def file_ready_def sample_control_def sample_services split: if_splits)

lemma sample_load:
  "\<exists>sn j. snapshot_load (ce_lib sample_control) (ce_from_str sample_control) i path (Inr s) = Ok (sn, j) \<and>
     sn_config sn = (if s = ''1'' then sample_config else second_config)"
proof -
  let ?c = "if s = ''1'' then sample_config else second_config"
  have v: "validate sample_lib ?c = Ok ()" using sample_validates second_config_validates by simp
  then have "config_ok sample_lib ?c" using validate_Ok sample_fit by auto
  from route_table_new_total [OF sample_authority_is_header this, of i] obtain t j where
    "route_table_new sample_lib i ?c = Ok (t, j)" by blast
  with v have "snapshot_load (ce_lib sample_control) (ce_from_str sample_control) i path (Inr s) =
      Ok (\<lparr>sn_config = ?c, sn_routes = t\<rparr>, j)"
    by (simp add: snapshot_load_def snapshot_parse_def sample_control_def)
  then show ?thesis by (intro exI conjI) (assumption, simp)
qed

lemma sample_start:
  assumes "sn_config sn = sample_config"
  shows "\<exists>st. supervisor_start sample_control sn j Map.empty = (Ok st, Map.empty) \<and> sp_running st \<and>
    sp_table st = Map.empty \<and> sp_l4 st = [] \<and> sp_snapshot st = sn"
  using assms
  by (auto simp: supervisor_start_def run_preflight_def sample_services apply_plan_def reconcile_def sample_control_def
      split: prod.split)

lemma sample_reload:
  assumes "sp_l4 st = []" "sp_table st = Map.empty"
  shows "\<exists>st'. reload sample_control path (Inr ''2'') st = (Ok ''reloaded'', st') \<and>
    sn_config (sp_snapshot st') = second_config \<and> sp_running st' = sp_running st"
proof -
  obtain sn j where sn: "snapshot_load (ce_lib sample_control) (ce_from_str sample_control) (sp_next_id st) path (Inr ''2'') = Ok (sn, j)"
    "sn_config sn = second_config" using sample_load [of "sp_next_id st" path "''2''"] by auto
  have pre: "run_preflight sample_run second_config Map.empty = (Inr (), Map.empty)"
    by (simp add: run_preflight_def sample_run_def preflight_def sample_services)
  obtain q t where t: "apply_plan sample_run [] [sample_service] Map.empty = (q, t)" by force
  have "q = Inr ()"
    using installed_replaced [OF sample_run_laws(1) _ _ _ t] sample_service_ready by simp
  moreover have "ce_run sample_control = sample_run" by (simp add: sample_control_def)
  ultimately show ?thesis
    using sn pre t assms by (auto simp: reload_def Let_def sample_services split: prod.split)
qed

text \<open>Start with the first configuration, reload the second one.\<close>

lemma sample_session:
  obtains sn j st st' where
    "snapshot_load (ce_lib sample_control) (ce_from_str sample_control) 0 ''f'' (Inr ''1'') = Ok (sn, j)"
    "supervisor_start sample_control sn j Map.empty = (Ok st, Map.empty)" "sp_running st"
    "sn_config (sp_snapshot st) = sample_config"
    "reload sample_control ''f'' (Inr ''2'') st = (Ok ''reloaded'', st')"
    "sn_config (sp_snapshot st') = second_config" "sp_running st'"
proof -
  obtain sn j where sn: "snapshot_load (ce_lib sample_control) (ce_from_str sample_control) 0 ''f'' (Inr ''1'') = Ok (sn, j)"
    "sn_config sn = sample_config" using sample_load [of 0 "''f''" "''1''"] by auto
  obtain st where st: "supervisor_start sample_control sn j Map.empty = (Ok st, Map.empty)" "sp_running st"
    "sp_table st = Map.empty" "sp_l4 st = []" "sp_snapshot st = sn" using sample_start [OF sn(2)] by blast
  with sample_reload [of st "''f''"] sn that show thesis by auto
qed

theorem supervisor_serves_one_configuration_witness:
  "\<exists>st t. supervisor_inv sample_control (run_events sample_control ''f'' [ReloadCommand (Inr ''2'')] st) \<and>
     sp_snapshot st \<noteq> sp_snapshot (run_events sample_control ''f'' [ReloadCommand (Inr ''2'')] st) \<and>
     (\<exists>sn j. supervisor_start sample_control sn j Map.empty = (Ok st, t))"
proof -
  obtain sn j st st' where s: "snapshot_load (ce_lib sample_control) (ce_from_str sample_control) 0 ''f'' (Inr ''1'') = Ok (sn, j)"
    "supervisor_start sample_control sn j Map.empty = (Ok st, Map.empty)" "sp_running st"
    "sn_config (sp_snapshot st) = sample_config"
    "reload sample_control ''f'' (Inr ''2'') st = (Ok ''reloaded'', st')"
    "sn_config (sp_snapshot st') = second_config" "sp_running st'" by (rule sample_session)
  have "sample_config \<noteq> second_config" using sample_services by force
  with s have "sp_snapshot st \<noteq> sp_snapshot (run_events sample_control ''f'' [ReloadCommand (Inr ''2'')] st)"
    by (auto simp: run_event_def)
  with supervisor_serves_one_configuration [OF sample_control_ok(1) s(1,2), of "[ReloadCommand (Inr ''2'')]"] s(2)
  show ?thesis by blast
qed

theorem failed_reload_keeps_serving_witness:
  "\<exists>st :: ipvs_view supervisor. reload sample_control ''f'' (Inl ''no such file'') st =
     (Err (ReloadConfig (ReadError ''f'' ''no such file'')), st) \<and>
   run_event sample_control ''f'' (ReloadCommand (Inl ''no such file'')) st =
     (Some (Err (ReloadConfig (ReadError ''f'' ''no such file''))), st)"
proof -
  have "reload sample_control ''f'' (Inl ''no such file'') st =
      (Err (ReloadConfig (ReadError ''f'' ''no such file'')), st)" for st
    by (simp add: reload_def snapshot_load_def)
  from this failed_reload_keeps_serving [OF this] show ?thesis by blast
qed


text \<open>
  A valid file whose only service, on another port than the one installed, lists a server twice.
\<close>

definition doubled_config :: proxy_config where
  "doubled_config = sample_config\<lparr>pc_l4_services := [doubled_service\<lparr>sv_port := 80\<rparr>]\<rparr>"

definition doubled_control :: "ipvs_view control_env" where
  "doubled_control = sample_control\<lparr>ce_from_str := (\<lambda>_. Inr doubled_config)\<rparr>"

lemma doubled_config_validates: "validate sample_lib doubled_config = Ok ()"
  by code_simp

lemma doubled_apply_fails:
  "case fst (apply_plan sample_run [sample_service] [doubled_service\<lparr>sv_port := 80\<rparr>] (installed [sample_service])) of
     Inl e \<Rightarrow> apply_error e | Inr _ \<Rightarrow> False"
  by code_simp

lemma doubled_load:
  "\<exists>sn j. snapshot_load (ce_lib doubled_control) (ce_from_str doubled_control) i path (Inr text) = Ok (sn, j) \<and>
     sn_config sn = doubled_config"
proof -
  have "pools_fit doubled_config" using sample_fit(1) by (simp add: pools_fit_def doubled_config_def)
  then have "config_ok sample_lib doubled_config" using validate_Ok doubled_config_validates by auto
  from route_table_new_total [OF sample_authority_is_header this, of i] obtain t j where
    "route_table_new sample_lib i doubled_config = Ok (t, j)" by blast
  with doubled_config_validates have "snapshot_load (ce_lib doubled_control) (ce_from_str doubled_control) i path (Inr text) =
      Ok (\<lparr>sn_config = doubled_config, sn_routes = t\<rparr>, j)"
    by (simp add: snapshot_load_def snapshot_parse_def doubled_control_def sample_control_def)
  then show ?thesis by (intro exI conjI) (assumption, simp)
qed


theorem reload_forgets_open_connections_witness:
  "\<exists>st st' :: ipvs_view supervisor. reload sample_control ''f'' (Inr ''2'') st = (Ok ''reloaded'', st') \<and>
     sp_drained (shut_down sample_control (\<lambda>n. n \<notin> set (ls_trackers (sp_listeners st))) st') = Some True"
proof -
  obtain sn j st st' where s: "snapshot_load (ce_lib sample_control) (ce_from_str sample_control) 0 ''f'' (Inr ''1'') = Ok (sn, j)"
    "supervisor_start sample_control sn j Map.empty = (Ok st, Map.empty)" "sp_running st"
    "sn_config (sp_snapshot st) = sample_config"
    "reload sample_control ''f'' (Inr ''2'') st = (Ok ''reloaded'', st')"
    "sn_config (sp_snapshot st') = second_config" "sp_running st'" by (rule sample_session)
  have inv: "supervisor_inv sample_control st" using supervisor_start_inv [OF sample_control_ok(1) s(1,2)] by simp
  have "pc_listeners sample_config \<noteq> []" "pc_listeners second_config = []"
    by (simp_all add: sample_config_def default_proxy_config_def second_config_def)
  with s have "pc_listeners (sn_config (sp_snapshot st)) \<noteq> pc_listeners (sn_config (sp_snapshot st'))" by simp
  from reload_forgets_open_connections [OF sample_control_ok(1) inv s(5) this refl] s(5) show ?thesis by blast
qed

end
