(* ===== verification/Admin.thy ===== *)
theory Admin
  imports Control
begin

text \<open>
  The admin interface, \<^verbatim>\<open>src/src/admin/mod.rs\<close>: authorization, the endpoints and the commands they
  send to the supervisor. A response is its status, headers and body; a JSON body is kept as the
  value that \<^verbatim>\<open>serde_json\<close> prints. What happens to a command is the function \<open>deliver\<close> on a state of its
  own, so that the same handler can be run against the supervisor of \<open>Control\<close>.
\<close>

section \<open>Definitions\<close>

datatype admin_command = Reload | Drain

text \<open>What \<^verbatim>\<open>send\<close> and the \<^verbatim>\<open>oneshot\<close> receiver report; \<open>Inl\<close> is an error reply.\<close>

datatype command_reply = SendFailed | ReplyDropped | Replied "string + string"

datatype http_method = GET | POST | OtherMethod string

text \<open>Header names of the \<^verbatim>\<open>http\<close> crate are lower case, and \<^verbatim>\<open>get\<close> returns the first value.\<close>

record admin_request =
  aq_method :: http_method
  aq_path :: string
  aq_headers :: "(string \<times> bytes) list"

datatype json =
    JStr string
  | JNum nat
  | JReal f32
  | JBool bool
  | JArr "json list"
  | JObj "(string \<times> json) list"

datatype admin_body = Json json | Raw string

record admin_response =
  ar_status :: nat
  ar_headers :: "(string \<times> string) list"
  ar_body :: admin_body

record admin_env =
  ae_to_str :: "bytes \<Rightarrow> string option"
  ae_ct_eq :: "bytes \<Rightarrow> bytes \<Rightarrow> bool"
  ae_ui_html :: string
  ae_metrics :: "string option"
  ae_addr :: "usize \<Rightarrow> nat"

definition text_with_content_type :: "nat \<Rightarrow> admin_body \<Rightarrow> string \<Rightarrow> admin_response" where
  "text_with_content_type status body content_type =
     \<lparr>ar_status = status, ar_headers = [(''content-type'', content_type)], ar_body = body\<rparr>"

definition json_response :: "nat \<Rightarrow> json \<Rightarrow> admin_response" where
  "json_response status value = text_with_content_type status (Json value) ''application/json''"

definition text_response :: "nat \<Rightarrow> string \<Rightarrow> admin_response" where
  "text_response status txt = text_with_content_type status (Raw txt) ''text/plain; charset=utf-8''"

definition html_response :: "nat \<Rightarrow> string \<Rightarrow> admin_response" where
  "html_response status txt = text_with_content_type status (Raw txt) ''text/html; charset=utf-8''"

definition unauthorized_response :: admin_response where
  "unauthorized_response =
     \<lparr>ar_status = 401,
      ar_headers = [(''content-type'', ''application/json''),
        (''www-authenticate'', ''Bearer realm='' @ [CHR 0x22] @ ''yxorp-admin'' @ [CHR 0x22])],
      ar_body = Raw (''{'' @ [CHR 0x22] @ ''error'' @ [CHR 0x22] @ '':'' @ [CHR 0x22] @ ''unauthorized'' @ [CHR 0x22] @ ''}'')\<rparr>"

definition is_public_endpoint :: "http_method \<Rightarrow> string \<Rightarrow> bool" where
  "is_public_endpoint meth path \<longleftrightarrow> meth = GET \<and> (path = ''/'' \<or> path = ''/healthz'' \<or> path = ''/readyz'')"

definition admin_token_from_headers :: "admin_env \<Rightarrow> (string \<times> bytes) list \<Rightarrow> string option" where
  "admin_token_from_headers env headers =
     (case Option.bind (Option.bind (map_of headers ''authorization'') (ae_to_str env))
         (\<lambda>v. strip_prefix v ''Bearer '') of
        Some v \<Rightarrow> Some v
      | None \<Rightarrow> Option.bind (map_of headers ''x-yxorp-admin-token'') (ae_to_str env))"

definition is_authorized :: "admin_env \<Rightarrow> config_snapshot \<Rightarrow> (string \<times> bytes) list \<Rightarrow> bool" where
  "is_authorized env sn headers =
     (case ad_auth_token (pc_admin (sn_config sn)) of
        None \<Rightarrow> False
      | Some expected \<Rightarrow>
          (case admin_token_from_headers env headers of
             None \<Rightarrow> False
           | Some provided \<Rightarrow> ae_ct_eq env expected provided))"

definition command_response :: "command_reply \<Rightarrow> admin_response" where
  "command_response reply =
     (case reply of
        Replied (Inr message) \<Rightarrow> json_response 200 (JObj [(''status'', JStr message)])
      | Replied (Inl error) \<Rightarrow> json_response 400 (JObj [(''error'', JStr error)])
      | ReplyDropped \<Rightarrow> json_response 503 (JObj [(''error'', JStr ''supervisor dropped command'')])
      | SendFailed \<Rightarrow> json_response 503 (JObj [(''error'', JStr ''supervisor unavailable'')]))"

definition command_reload ::
  "(admin_command \<Rightarrow> 'w \<Rightarrow> command_reply \<times> 'w) \<Rightarrow> 'w \<Rightarrow> admin_response \<times> 'w" where
  "command_reload deliver w = (let (reply, w') = deliver Reload w in (command_response reply, w'))"

definition command_drain ::
  "(admin_command \<Rightarrow> 'w \<Rightarrow> command_reply \<times> 'w) \<Rightarrow> 'w \<Rightarrow> admin_response \<times> 'w" where
  "command_drain deliver w = (let (reply, w') = deliver Drain w in (command_response reply, w'))"

text \<open>The serialized forms the endpoints use.\<close>

fun protocol_json :: "upstream_protocol \<Rightarrow> json" where
  "protocol_json UpH1 = JStr ''h1''"
| "protocol_json UpH2 = JStr ''h2''"
| "protocol_json UpH3 = JStr ''h3''"

definition upstream_json :: "upstream_state \<Rightarrow> json" where
  "upstream_json u =
     JObj [(''name'', JStr (us_name (st_config u))), (''url'', JStr (us_url (st_config u))),
       (''weight'', JNum (unat (us_weight (st_config u)))),
       (''protocol'', protocol_json (us_protocol (st_config u))),
       (''passive_failures'', JNum (unat (st_passive_failures u))),
       (''active_healthy'', JBool (st_active_healthy u))]"

definition route_json :: "route_config \<Rightarrow> json" where
  "route_json r =
     JObj [(''name'', JStr (rt_name r)), (''host'', JStr (rt_host r)),
       (''path_prefix'', JStr (rt_path_prefix r)), (''upstream_pool'', JStr (rt_upstream_pool r)),
       (''rate_limit'', JObj [(''enabled'', JBool (rl_enabled (rt_rate_limit r))),
          (''capacity'', JNum (unat (rl_capacity (rt_rate_limit r)))),
          (''fill_rate'', JReal (rl_fill_rate (rt_rate_limit r)))])]"

definition cert_json :: "cert_config \<Rightarrow> json" where
  "cert_json c =
     JObj [(''domains'', JArr (map JStr (cc_domains c))), (''cert_path'', JStr (cc_cert_path c)),
       (''key_path'', JStr (cc_key_path c))]"

definition state_json :: "admin_env \<Rightarrow> config_snapshot \<Rightarrow> json" where
  "state_json env sn =
     JObj [(''routes'', JArr (map route_json (debug_routes (sn_routes sn)))),
       (''upstreams'', JArr (map upstream_json (all_upstreams (ae_addr env) (sn_routes sn))))]"

definition certs_json :: "config_snapshot \<Rightarrow> json" where
  "certs_json sn =
     (let tls = pc_tls (sn_config sn) in
      JObj [(''acme_enabled'', JBool (ac_enabled (tls_acme tls))),
        (''storage_dir'', JStr (ac_storage_dir (tls_acme tls))),
        (''configured_certs'', JArr (map cert_json (tls_certs tls)))])"

text \<open>The \<^verbatim>\<open>match\<close> of the handler.\<close>

definition admin_endpoint ::
  "admin_env \<Rightarrow> (admin_command \<Rightarrow> 'w \<Rightarrow> command_reply \<times> 'w) \<Rightarrow> config_snapshot \<Rightarrow> admin_request \<Rightarrow>
   'w \<Rightarrow> admin_response \<times> 'w" where
  "admin_endpoint env deliver sn req w =
     (let meth = aq_method req; path = aq_path req in
      if meth = GET \<and> path = ''/'' then (html_response 200 (ae_ui_html env), w)
      else if meth = GET \<and> path = ''/healthz'' then (json_response 200 (JObj [(''status'', JStr ''ok'')]), w)
      else if meth = GET \<and> path = ''/readyz'' then (json_response 200 (JObj [(''status'', JStr ''ready'')]), w)
      else if meth = GET \<and> path = ''/metrics'' then
        (case ae_metrics env of
           Some rendered \<Rightarrow> (text_response 200 rendered, w)
         | None \<Rightarrow> (text_response 404 (''metrics disabled'' @ [CHR 0x0A]), w))
      else if meth = GET \<and> path = ''/api/state'' then (json_response 200 (state_json env sn), w)
      else if meth = GET \<and> path = ''/debug/routes'' then
        (json_response 200 (JObj [(''routes'', JArr (map route_json (debug_routes (sn_routes sn))))]), w)
      else if meth = GET \<and> path = ''/debug/certs'' then (json_response 200 (certs_json sn), w)
      else if meth = POST \<and> path = ''/reload'' then command_reload deliver w
      else if meth = POST \<and> path = ''/drain'' then command_drain deliver w
      else (json_response 404 (JObj [(''error'', JStr ''not found'')]), w))"

definition handle_admin ::
  "admin_env \<Rightarrow> (admin_command \<Rightarrow> 'w \<Rightarrow> command_reply \<times> 'w) \<Rightarrow> config_snapshot \<Rightarrow> admin_request \<Rightarrow>
   'w \<Rightarrow> admin_response \<times> 'w" where
  "handle_admin env deliver sn req w =
     (if \<not> is_public_endpoint (aq_method req) (aq_path req) \<and> \<not> is_authorized env sn (aq_headers req)
      then (unauthorized_response, w)
      else admin_endpoint env deliver sn req w)"

section \<open>Authorization\<close>

text \<open>\<^verbatim>\<open>subtle\<close>'s \<^verbatim>\<open>ct_eq\<close> on slices is equality.\<close>

definition ct_eq_is_equality :: "admin_env \<Rightarrow> bool" where
  "ct_eq_is_equality env \<longleftrightarrow> (\<forall>a b. ae_ct_eq env a b \<longleftrightarrow> a = b)"

definition holds_token :: "admin_env \<Rightarrow> config_snapshot \<Rightarrow> admin_request \<Rightarrow> bool" where
  "holds_token env sn req \<longleftrightarrow>
     (\<exists>token. ad_auth_token (pc_admin (sn_config sn)) = Some token \<and>
        admin_token_from_headers env (aq_headers req) = Some token)"

lemma is_authorized_iff:
  "ct_eq_is_equality env \<Longrightarrow> is_authorized env sn (aq_headers req) \<longleftrightarrow> holds_token env sn req"
  by (auto simp: is_authorized_def holds_token_def ct_eq_is_equality_def split: option.split)

lemma response_status [simp]:
  "ar_status (json_response n v) = n" "ar_status (text_response n x) = n" "ar_status (html_response n x) = n"
  "ar_status unauthorized_response = 401"
  by (simp_all add: json_response_def text_response_def html_response_def unauthorized_response_def
      text_with_content_type_def)

lemma command_response_status: "ar_status (command_response r) \<noteq> 401"
  by (auto simp: command_response_def split: command_reply.split sum.split)

lemma admin_endpoint_status: "ar_status (fst (admin_endpoint env deliver sn req w)) \<noteq> 401"
  using command_response_status
  by (simp add: admin_endpoint_def Let_def command_reload_def command_drain_def case_prod_beta split: option.split)

lemma admin_endpoint_effect:
  "snd (admin_endpoint env deliver sn req w) \<noteq> w \<Longrightarrow>
     aq_method req = POST \<and> aq_path req \<in> {''/reload'', ''/drain''}"
  by (rule ccontr) (auto simp: admin_endpoint_def Let_def split: option.splits if_splits)

lemma validated_token:
  "validate E c = Ok () \<Longrightarrow> ad_auth_token (pc_admin c) \<noteq> Some []"
  by (auto simp: validate_def outcome_simps validate_admin_Ok split: if_splits)

text \<open>
  C8. Only the holder of the configured token controls the proxy. A request is answered 401 exactly
  if it is neither for the UI nor a liveness probe and does not carry the configured token, which a
  validated configuration never lets be empty; without a configured token that is every such
  request. A request that has any effect carries the token and is a \<^verbatim>\<open>POST\<close> to \<^verbatim>\<open>/reload\<close> or \<^verbatim>\<open>/drain\<close>.
\<close>

theorem only_token_holders_control:
  assumes "ct_eq_is_equality env" "validate E (sn_config sn) = Ok ()"
    "handle_admin env deliver sn req w = (response, w')"
  shows "(ar_status response = 401 \<longleftrightarrow>
      \<not> is_public_endpoint (aq_method req) (aq_path req) \<and> \<not> holds_token env sn req) \<and>
    (w' \<noteq> w \<longrightarrow> aq_method req = POST \<and> aq_path req \<in> {''/reload'', ''/drain''} \<and>
      (\<exists>token. token \<noteq> [] \<and> ad_auth_token (pc_admin (sn_config sn)) = Some token \<and>
         admin_token_from_headers env (aq_headers req) = Some token))"
proof
  show "ar_status response = 401 \<longleftrightarrow>
      \<not> is_public_endpoint (aq_method req) (aq_path req) \<and> \<not> holds_token env sn req"
    using assms(3) admin_endpoint_status [of env deliver sn req w]
    by (auto simp: handle_admin_def is_authorized_iff [OF assms(1)] split: if_splits)
  have "aq_method req = POST \<and> aq_path req \<in> {''/reload'', ''/drain''} \<and> holds_token env sn req" if "w' \<noteq> w"
    using assms(3) that admin_endpoint_effect [of env deliver sn req w]
    by (auto simp: handle_admin_def is_authorized_iff [OF assms(1)] is_public_endpoint_def split: if_splits)
  with validated_token [OF assms(2)]
  show "w' \<noteq> w \<longrightarrow> aq_method req = POST \<and> aq_path req \<in> {''/reload'', ''/drain''} \<and>
      (\<exists>token. token \<noteq> [] \<and> ad_auth_token (pc_admin (sn_config sn)) = Some token \<and>
         admin_token_from_headers env (aq_headers req) = Some token)"
    by (auto simp: holds_token_def)
qed

section \<open>Commands reach the supervisor\<close>

text \<open>
  The channel between the two: a command becomes an event of the supervisor's loop, and its reply
  comes back unless the supervisor ended. \<open>show\<close> is the text of an error.
\<close>

definition deliver_to_supervisor ::
  "'s control_env \<Rightarrow> string \<Rightarrow> (reload_error \<Rightarrow> string) \<Rightarrow> string + string \<Rightarrow> (nat \<Rightarrow> bool) \<Rightarrow>
   admin_command \<Rightarrow> 's supervisor \<Rightarrow> command_reply \<times> 's supervisor" where
  "deliver_to_supervisor env path show_error file emptied c st =
     (if \<not> sp_running st then (SendFailed, st)
      else
        (let ev = (case c of Reload \<Rightarrow> ReloadCommand file | Drain \<Rightarrow> DrainCommand emptied) in
         case run_event env path ev st of
           (Some (Ok m), st') \<Rightarrow> (Replied (Inr m), st')
         | (Some (Err e), st') \<Rightarrow> (Replied (Inl (show_error e)), st')
         | (_, st') \<Rightarrow> (ReplyDropped, st')))"

text \<open>The response to a reload request is the one to the command, and the command is \<^verbatim>\<open>reload\<close>.\<close>

lemma reload_request:
  assumes "ct_eq_is_equality aenv" "parser_ok env" "sp_running st"
    "aq_method req = POST" "aq_path req = ''/reload''" "holds_token aenv (sp_snapshot st) req"
    "reload env path file st = (r, st1)"
  shows "\<exists>response. handle_admin aenv (deliver_to_supervisor env path show_error file emptied) (sp_snapshot st) req st =
      (response, st1) \<and>
    (\<forall>m. r = Ok m \<longrightarrow> response = json_response 200 (JObj [(''status'', JStr m)])) \<and>
    (\<forall>e. r = Err e \<longrightarrow> response = json_response 400 (JObj [(''error'', JStr (show_error e))]))"
proof -
  have "r \<noteq> Panic p" for p using assms(7) reload_no_panic [OF assms(2), of path "file" st] by (metis fst_conv)
  moreover have "handle_admin aenv (deliver_to_supervisor env path show_error file emptied) (sp_snapshot st) req st =
      command_reload (deliver_to_supervisor env path show_error file emptied) st"
    using assms(4-6) is_authorized_iff [OF assms(1)] by (simp add: handle_admin_def is_public_endpoint_def admin_endpoint_def)
  ultimately show ?thesis
    using assms(3,7)
    by (auto simp: command_reload_def deliver_to_supervisor_def run_event_def command_response_def split: outcome.split)
qed

text \<open>
  What a reload that returned an error left of the kernel's table: the queries of \<^verbatim>\<open>preflight\<close> do not
  change it, so it is as before unless \<^verbatim>\<open>apply\<close> itself was started and failed.
\<close>

definition apply_failed :: "'s control_env \<Rightarrow> ('s \<Rightarrow> ipvs_view) \<Rightarrow> string \<Rightarrow> string + string \<Rightarrow> 's supervisor \<Rightarrow> 's \<Rightarrow> bool" where
  "apply_failed env view path file st table \<longleftrightarrow>
     (\<exists>new next_id t e. snapshot_load (ce_lib env) (ce_from_str env) (sp_next_id st) path file = Ok (new, next_id) \<and>
        view t = view (sp_table st) \<and>
        apply_plan (ce_run env) (sp_l4 st) (pc_l4_services (sn_config new)) t = (Inl e, table))"

lemma failed_reload_table:
  assumes "query_law (ce_run env) view" "reload env path file st = (Err e, st')"
  shows "view (sp_table st') = view (sp_table st) \<or> apply_failed env view path file st (sp_table st')"
proof -
  have "Err e \<noteq> Panic p" for p by simp
  with assms(2) show ?thesis
  proof (cases rule: reload_cases)
    case (l4 e' t new next_id t1)
    from l4(4) show ?thesis
    proof
      assume "run_preflight (ce_run env) (sn_config new) (sp_table st) = (Inl e', t)"
      with run_preflight_view [OF assms(1), of "sn_config new" "sp_table st"] l4(2) show ?thesis by simp
    next
      assume a: "run_preflight (ce_run env) (sn_config new) (sp_table st) = (Inr (), t1) \<and>
        apply_plan (ce_run env) (sp_l4 st) (pc_l4_services (sn_config new)) t1 = (Inl e', t)"
      with run_preflight_view [OF assms(1), of "sn_config new" "sp_table st"] have "view t1 = view (sp_table st)" by simp
      with a l4(2,3) show ?thesis unfolding apply_failed_def by auto
    qed
  qed simp_all
qed

text \<open>
  C19. The answer to a reload request is true. For a running supervisor and a request with the token,
  the response is 200 exactly if \<^verbatim>\<open>reload\<close> succeeded; then the file was loaded as a valid configuration
  and this is now the one being served, by the supervisor's invariant with its own layer-4 services,
  listeners and health checks. Otherwise it is 400 with the text of the error, and snapshot, recorded
  layer-4 services, listeners and health checks are the ones from before. The kernel's table is then
  as before too, unless \<^verbatim>\<open>apply\<close> was started and failed: then it is what the commands run so far have
  left, without the previous services (as \<^verbatim>\<open>Control\<close> shows of a reload that fails in \<^verbatim>\<open>apply\<close>). That cannot
  happen to a table that was in step while \<^verbatim>\<open>ipvsadm\<close> keeps its contract and the file's services can be
  expressed in it: the table is in step with what is served afterwards, whatever the answer.
\<close>

theorem reload_request_end_to_end:
  assumes "ct_eq_is_equality aenv" "parser_ok env" "supervisor_inv env st" "sp_running st"
    "aq_method req = POST" "aq_path req = ''/reload''" "holds_token aenv (sp_snapshot st) req"
    "handle_admin aenv (deliver_to_supervisor env path show_error file emptied) (sp_snapshot st) req st = (response, st')"
    "query_law (ce_run env) view"
  shows "supervisor_inv env st' \<and> sp_running st' \<and>
    (response = json_response 200 (JObj [(''status'', JStr ''reloaded'')]) \<and>
       reload env path file st = (Ok ''reloaded'', st') \<and>
       (\<exists>next_id. snapshot_load (ce_lib env) (ce_from_str env) (sp_next_id st) path file =
          Ok (sp_snapshot st', next_id)) \<or>
     (\<exists>e. response = json_response 400 (JObj [(''error'', JStr (show_error e))]) \<and>
        reload env path file st = (Err e, st') \<and>
        st' = st\<lparr>sp_next_id := sp_next_id st', sp_table := sp_table st'\<rparr> \<and>
        (view (sp_table st') = view (sp_table st) \<or> apply_failed env view path file st (sp_table st')))) \<and>
    (ipvs_laws (ce_run env) view \<and> file_ready env file \<and> table_inv_l4 view st \<longrightarrow> table_inv_l4 view st')"
proof -
  obtain r st1 where r: "reload env path file st = (r, st1)" by force
  have no_panic: "r \<noteq> Panic p" for p using r reload_no_panic [OF assms(2), of path "file" st] by (metis fst_conv)
  note request = reload_request [OF assms(1,2,4-7) r, of show_error emptied]
  with assms(8) have st1: "st' = st1" by auto
  have table: "ipvs_laws (ce_run env) view \<and> file_ready env file \<and> table_inv_l4 view st \<longrightarrow> table_inv_l4 view st'"
    using reload_table [OF _ assms(9,2) _ _ assms(4) r] st1 by blast
  have inv: "supervisor_inv env st' \<and> sp_running st'" using reload_inv [OF assms(2,3) r] st1 assms(4) by simp
  from r no_panic show ?thesis
  proof (cases rule: reload_cases)
    case (ok new next_id t1 t2)
    with inv table st1 request assms(8) r show ?thesis by auto
  next
    case (config e)
    with inv table st1 request assms(8) r show ?thesis by auto
  next
    case (l4 e t new next_id t1)
    from failed_reload_table [OF assms(9)] r l4(1)
    have "view (sp_table st') = view (sp_table st) \<or> apply_failed env view path file st (sp_table st')" using st1 by blast
    moreover have "response = json_response 400 (JObj [(''error'', JStr (show_error (ReloadL4 e)))])"
      using request assms(8) l4(1) by auto
    moreover have "st' = st\<lparr>sp_next_id := sp_next_id st', sp_table := sp_table st'\<rparr>" using st1 l4(2) by simp
    moreover have "reload env path file st = (Err (ReloadL4 e), st')" using r st1 l4(1) by simp
    ultimately show ?thesis using inv table by blast
  qed
qed

section \<open>Witnesses\<close>

definition sample_admin :: admin_env where
  "sample_admin =
     \<lparr>ae_to_str = Some, ae_ct_eq = (=), ae_ui_html = [], ae_metrics = None, ae_addr = unat\<rparr>"

definition token_config :: proxy_config where
  "token_config = sample_config\<lparr>pc_admin := default_admin\<lparr>ad_auth_token := Some ''s3cret''\<rparr>\<rparr>"

definition token_request :: admin_request where
  "token_request = \<lparr>aq_method = POST, aq_path = ''/reload'', aq_headers = [(''authorization'', ''Bearer s3cret'')]\<rparr>"

lemma token_config_validates: "validate sample_lib token_config = Ok ()"
  by code_simp

lemma sample_admin_eq: "ct_eq_is_equality sample_admin"
  by (simp add: ct_eq_is_equality_def sample_admin_def)

lemma token_request_holds: "sn_config sn = token_config \<Longrightarrow> holds_token sample_admin sn token_request"
  by (simp add: holds_token_def token_config_def token_request_def admin_token_from_headers_def sample_admin_def
      strip_prefix_def starts_with_def)

theorem only_token_holders_control_witness:
  "snd (handle_admin sample_admin (\<lambda>_ w. (SendFailed, Suc w)) (sample_snapshot\<lparr>sn_config := token_config\<rparr>)
      token_request 0) = 1 \<and>
   ar_status (fst (handle_admin sample_admin (\<lambda>_ w. (SendFailed, Suc w)) (sample_snapshot\<lparr>sn_config := token_config\<rparr>)
      (token_request\<lparr>aq_headers := []\<rparr>) 0)) = 401"
proof -
  let ?sn = "sample_snapshot\<lparr>sn_config := token_config\<rparr>" and ?d = "\<lambda>_ w. (SendFailed, Suc w)"
  let ?bad = "token_request\<lparr>aq_headers := []\<rparr>"
  have v: "validate sample_lib (sn_config ?sn) = Ok ()" by (simp add: token_config_validates)
  have "\<not> holds_token sample_admin ?sn ?bad"
    by (simp add: holds_token_def admin_token_from_headers_def)
  moreover have "\<not> is_public_endpoint (aq_method ?bad) (aq_path ?bad)"
    by (simp add: is_public_endpoint_def token_request_def)
  ultimately have "ar_status (fst (handle_admin sample_admin ?d ?sn ?bad 0)) = 401"
    using only_token_holders_control [OF sample_admin_eq v surjective_pairing, of ?d ?bad 0] by simp
  moreover have "is_authorized sample_admin ?sn (aq_headers token_request)"
    using is_authorized_iff [OF sample_admin_eq] token_request_holds [of ?sn] by simp
  then have "snd (handle_admin sample_admin ?d ?sn token_request 0) = 1"
    by (simp add: handle_admin_def admin_endpoint_def token_request_def command_reload_def)
  ultimately show ?thesis by simp
qed

theorem reload_request_end_to_end_witness:
  "\<exists>(st :: ipvs_view supervisor) response st'. sp_running st \<and> supervisor_inv sample_control st' \<and>
     handle_admin sample_admin (deliver_to_supervisor sample_control ''f'' (\<lambda>_. ''e'') (Inr ''2'') (\<lambda>_. True))
       (sp_snapshot st) token_request st = (response, st')"
proof -
  obtain sn j st0 st1 where s: "snapshot_load (ce_lib sample_control) (ce_from_str sample_control) 0 ''f'' (Inr ''1'') = Ok (sn, j)"
    "supervisor_start sample_control sn j Map.empty = (Ok st0, Map.empty)" "sp_running st0"
    "sn_config (sp_snapshot st0) = sample_config" by (rule sample_session)
  define st where "st = st0\<lparr>sp_snapshot := (sp_snapshot st0)\<lparr>sn_config := token_config\<rparr>\<rparr>"
  have "supervisor_inv sample_control st0" using supervisor_start_inv [OF sample_control_ok(1) s(1,2)] by simp
  then have inv: "supervisor_inv sample_control st"
    using s(4) token_config_validates
    by (simp add: supervisor_inv_def st_def Let_def snap_inv_def snap_pool_def wanted_workers_def token_config_def sample_control_def)
  have token: "holds_token sample_admin (sp_snapshot st) token_request"
    by (rule token_request_holds) (simp add: st_def)
  have post: "aq_method token_request = POST" "aq_path token_request = ''/reload''" by (simp_all add: token_request_def)
  have run: "sp_running st" using s(3) by (simp add: st_def)
  have query: "query_law (ce_run sample_control) (\<lambda>t. t)" using sample_run_laws(2) by (simp add: sample_control_def)
  show ?thesis
    using reload_request_end_to_end [OF sample_admin_eq sample_control_ok(1) inv run post token surjective_pairing query] run
    by (meson surjective_pairing)
qed

end
