(* ===== verification/Conn_Tracker.thy ===== *)
theory Conn_Tracker
  imports Prelude
begin

text \<open>
  \<^verbatim>\<open>ConnectionTracker\<close> of \<^verbatim>\<open>src/src/proxy/mod.rs\<close>: the count of open connections of a listener and the
  wait for it to reach zero. The atomic operations of the connection tasks and of one waiting task
  interleave, so the code is a step relation: a task that ends first subtracts and, if it was the
  last one, notifies in a later step; the waiter loads the count, then creates the notification
  future, then sleeps on it. \<^verbatim>\<open>Notify::notify_waiters\<close> wakes the futures that exist at that moment and
  stores nothing for later ones.
\<close>

section \<open>Operations\<close>

text \<open>Where the task in \<^verbatim>\<open>wait\<close> stands: before the load, between load and future, asleep, returned.\<close>

datatype wait_pc = Loading | Registering | Parked | Returned

text \<open>\<open>tk_notifying\<close> counts the tasks between their \<^verbatim>\<open>fetch_sub\<close> and their \<^verbatim>\<open>notify_waiters\<close>.\<close>

record tracker =
  tk_active :: usize
  tk_notifying :: nat
  tk_wait :: wait_pc

definition tracker_new :: tracker where
  "tracker_new = \<lparr>tk_active = 0, tk_notifying = 0, tk_wait = Loading\<rparr>"

definition started :: "tracker \<Rightarrow> tracker" where
  "started t = t\<lparr>tk_active := tk_active t + 1\<rparr>"

text \<open>The two halves of \<^verbatim>\<open>finished\<close>.\<close>

definition finished_sub :: "tracker \<Rightarrow> tracker" where
  "finished_sub t =
     t\<lparr>tk_active := tk_active t - 1,
       tk_notifying := (if tk_active t = 1 then Suc (tk_notifying t) else tk_notifying t)\<rparr>"

definition finished_notify :: "tracker \<Rightarrow> tracker" where
  "finished_notify t =
     t\<lparr>tk_notifying := tk_notifying t - 1,
       tk_wait := (if tk_wait t = Parked then Loading else tk_wait t)\<rparr>"

text \<open>The three steps of \<^verbatim>\<open>wait\<close>'s loop.\<close>

definition wait_load :: "tracker \<Rightarrow> tracker" where
  "wait_load t = t\<lparr>tk_wait := (if tk_active t = 0 then Returned else Registering)\<rparr>"

definition wait_park :: "tracker \<Rightarrow> tracker" where
  "wait_park t = t\<lparr>tk_wait := Parked\<rparr>"

text \<open>
  While draining, the listeners are stopped, so no connection starts. A connection that ends was
  started, so the count is positive then.
\<close>

inductive drain_step :: "tracker \<Rightarrow> tracker \<Rightarrow> bool" where
  finish: "tk_active t \<noteq> 0 \<Longrightarrow> drain_step t (finished_sub t)"
| notify: "tk_notifying t \<noteq> 0 \<Longrightarrow> drain_step t (finished_notify t)"
| load: "tk_wait t = Loading \<Longrightarrow> drain_step t (wait_load t)"
| park: "tk_wait t = Registering \<Longrightarrow> drain_step t (wait_park t)"

inductive_cases drain_stepE: "drain_step t t'"

text \<open>While serving, connections also start.\<close>

inductive serve_step :: "tracker \<Rightarrow> tracker \<Rightarrow> bool" where
  start: "unat (tk_active t) + 1 < usize_lim \<Longrightarrow> serve_step t (started t)"
| drain: "drain_step t t' \<Longrightarrow> serve_step t t'"

section \<open>Safety\<close>

text \<open>A wait that returned saw no open connection, and while draining there is none ever after.\<close>

definition drained_inv :: "tracker \<Rightarrow> bool" where
  "drained_inv t \<longleftrightarrow> (tk_wait t = Returned \<longrightarrow> tk_active t = 0)"

lemma drain_step_drained_inv: "drain_step t t' \<Longrightarrow> drained_inv t \<Longrightarrow> drained_inv t'"
  by (induction rule: drain_step.induct)
     (auto simp: drained_inv_def finished_sub_def finished_notify_def wait_load_def wait_park_def split: if_splits)

lemma drain_steps_drained_inv: "drain_step\<^sup>*\<^sup>* t t' \<Longrightarrow> drained_inv t \<Longrightarrow> drained_inv t'"
  by (induction rule: rtranclp_induct) (auto intro: drain_step_drained_inv)

section \<open>Every drain comes to an end\<close>

fun pc_weight :: "wait_pc \<Rightarrow> nat" where
  "pc_weight Loading = 3"
| "pc_weight Registering = 2"
| "pc_weight Parked = 1"
| "pc_weight Returned = 0"

text \<open>Each open connection may still cause one notification, each notification one more round.\<close>

definition drain_measure :: "tracker \<Rightarrow> nat" where
  "drain_measure t = 4 * unat (tk_active t) + 3 * tk_notifying t + pc_weight (tk_wait t)"

lemma unat_minus_1: "(w :: usize) \<noteq> 0 \<Longrightarrow> unat (w - 1) = unat w - 1"
  by (rule unat_minus_one)

lemma drain_step_decreases: "drain_step t t' \<Longrightarrow> drain_measure t' < drain_measure t"
proof (induction rule: drain_step.induct)
  case (finish t)
  then have "0 < unat (tk_active t)" by (simp add: unat_gt_0)
  with finish show ?case by (simp add: drain_measure_def finished_sub_def unat_minus_1)
next
  case (notify t)
  then show ?case by (cases "tk_wait t") (auto simp: drain_measure_def finished_notify_def)
qed (auto simp: drain_measure_def wait_load_def wait_park_def)

lemma drain_step_wf: "wfP (\<lambda>t' t. drain_step t t')"
  by (rule wfp_if_convertible_to_nat [of _ drain_measure]) (rule drain_step_decreases)

section \<open>Waking up\<close>

text \<open>The waiter sleeps, and a notification is due or will be.\<close>

definition will_wake :: "tracker \<Rightarrow> bool" where
  "will_wake t \<longleftrightarrow>
     tk_wait t = Parked \<and> (tk_active t \<noteq> 0 \<or> tk_notifying t \<noteq> 0) \<and> (tk_active t \<noteq> 0 \<longrightarrow> tk_notifying t = 0) \<or>
     tk_wait t = Loading \<and> tk_active t = 0 \<or> tk_wait t = Returned"

lemma drain_step_will_wake: "drain_step t t' \<Longrightarrow> will_wake t \<Longrightarrow> will_wake t'"
proof (induction rule: drain_step.induct)
  case (finish t)
  then have "tk_active t - 1 = 0 \<longleftrightarrow> tk_active t = 1" by simp
  with finish show ?case by (auto simp: will_wake_def finished_sub_def)
qed (auto simp: will_wake_def finished_notify_def wait_load_def wait_park_def)

lemma drain_steps_will_wake: "drain_step\<^sup>*\<^sup>* t t' \<Longrightarrow> will_wake t \<Longrightarrow> will_wake t'"
  by (induction rule: rtranclp_induct) (auto intro: drain_step_will_wake)

lemma will_wake_stuck: "will_wake t \<Longrightarrow> \<nexists>t'. drain_step t t' \<Longrightarrow> tk_wait t = Returned"
  by (auto simp: will_wake_def intro: drain_step.intros)

text \<open>
  Losing the wakeup. A waiter that has seen an open connection but has no future yet can be overtaken
  by everything that is still to come: all connections end, all notifications are sent, and only
  then it goes to sleep.
\<close>

lemma overtaken:
  "tk_wait t = Registering \<Longrightarrow>
   \<exists>t'. drain_step\<^sup>*\<^sup>* t t' \<and> tk_wait t' = Registering \<and> tk_active t' = 0 \<and> tk_notifying t' = 0"
proof (induction "drain_measure t" arbitrary: t rule: less_induct)
  case less
  show ?case
  proof (cases "tk_active t = 0 \<and> tk_notifying t = 0")
    case True
    with less.prems show ?thesis by blast
  next
    case False
    then obtain t1 where t1: "drain_step t t1" "tk_wait t1 = Registering"
      using less.prems drain_step.finish [of t] drain_step.notify [of t]
      by (fastforce simp: finished_sub_def finished_notify_def)
    from less.hyps [OF drain_step_decreases [OF t1(1)] t1(2)] t1(1) show ?thesis
      by (meson converse_rtranclp_into_rtranclp)
  qed
qed

lemma asleep_for_ever:
  assumes "tk_wait t = Parked" "tk_active t = 0" "tk_notifying t = 0"
  shows "\<nexists>t'. drain_step t t'"
  using assms by (auto elim!: drain_stepE)

lemma stale_notification_loses_wakeup:
  assumes "tk_wait t = Parked" "tk_active t \<noteq> 0" "tk_notifying t \<noteq> 0"
  shows "\<exists>t'. drain_step\<^sup>*\<^sup>* t t' \<and> tk_wait t' = Parked \<and> (\<nexists>t''. drain_step t' t'')"
proof -
  let ?t1 = "finished_notify t"
  let ?t2 = "wait_load ?t1"
  have s: "drain_step t ?t1" "drain_step ?t1 ?t2"
    using assms by (auto intro!: drain_step.notify drain_step.load) (simp add: finished_notify_def)
  have reg: "tk_wait ?t2 = Registering" using assms by (simp add: finished_notify_def wait_load_def)
  from overtaken [OF reg] obtain t3 where
    t3: "drain_step\<^sup>*\<^sup>* ?t2 t3" "tk_wait t3 = Registering" "tk_active t3 = 0" "tk_notifying t3 = 0" by blast
  have "drain_step\<^sup>*\<^sup>* t (wait_park t3)"
    using s(1,2) t3(1) drain_step.park [OF t3(2)]
    by (meson converse_rtranclp_into_rtranclp rtranclp.rtrancl_into_rtrancl)
  moreover have "tk_wait (wait_park t3) = Parked" by (simp add: wait_park_def)
  moreover have "\<nexists>t'. drain_step (wait_park t3) t'"
    using t3(3,4) by (intro asleep_for_ever) (simp_all add: wait_park_def)
  ultimately show ?thesis by blast
qed

text \<open>
  C36. When a sleeping drain is certain to return. No run of a draining tracker is infinite. For a
  wait that sleeps, every run in which all open connections come to their end and all
  notifications are sent leads to its return, with no connection open, in exactly two
  situations: a connection is open and no earlier notification is still on its way, or none is open
  and one is on its way. With neither it sleeps for ever; with an open connection and a stale
  notification there is a run after which it does.
\<close>

theorem sleeping_drain_completes:
  assumes "tk_wait t = Parked"
  shows "wfP (\<lambda>t' t. drain_step t t') \<and>
    ((\<forall>t'. drain_step\<^sup>*\<^sup>* t t' \<and> (\<nexists>t''. drain_step t' t'') \<longrightarrow> tk_wait t' = Returned \<and> tk_active t' = 0) \<longleftrightarrow>
     (tk_active t \<noteq> 0 \<longleftrightarrow> tk_notifying t = 0))"
proof (rule conjI, rule drain_step_wf, rule iffI)
  assume all: "\<forall>t'. drain_step\<^sup>*\<^sup>* t t' \<and> (\<nexists>t''. drain_step t' t'') \<longrightarrow> tk_wait t' = Returned \<and> tk_active t' = 0"
  then have "tk_active t \<noteq> 0 \<or> tk_notifying t \<noteq> 0"
    using asleep_for_ever [OF assms] assms by auto
  moreover have "\<not> (tk_active t \<noteq> 0 \<and> tk_notifying t \<noteq> 0)"
    using all stale_notification_loses_wakeup [OF assms] by force
  ultimately show "tk_active t \<noteq> 0 \<longleftrightarrow> tk_notifying t = 0" by blast
next
  assume due: "tk_active t \<noteq> 0 \<longleftrightarrow> tk_notifying t = 0"
  show "\<forall>t'. drain_step\<^sup>*\<^sup>* t t' \<and> (\<nexists>t''. drain_step t' t'') \<longrightarrow> tk_wait t' = Returned \<and> tk_active t' = 0"
  proof (intro allI impI conjI)
    fix t'
    assume run: "drain_step\<^sup>*\<^sup>* t t' \<and> (\<nexists>t''. drain_step t' t'')"
    have "will_wake t" using assms due by (auto simp: will_wake_def)
    with run have "will_wake t'" by (blast intro: drain_steps_will_wake)
    with run show "tk_wait t' = Returned" by (intro will_wake_stuck) auto
    moreover have "drained_inv t" using assms by (simp add: drained_inv_def)
    with run have "drained_inv t'" by (blast intro: drain_steps_drained_inv)
    ultimately show "tk_active t' = 0" by (simp add: drained_inv_def)
  qed
qed

theorem sleeping_drain_completes_witness:
  "\<exists>t'. drain_step\<^sup>*\<^sup>* \<lparr>tk_active = 2, tk_notifying = 0, tk_wait = Parked\<rparr> t' \<and> tk_wait t' = Returned"
proof -
  let ?t = "\<lparr>tk_active = 2, tk_notifying = 0, tk_wait = Parked\<rparr>"
  have "wfP (\<lambda>t' t. drain_step t t')"
    "\<forall>t'. drain_step\<^sup>*\<^sup>* ?t t' \<and> (\<nexists>t''. drain_step t' t'') \<longrightarrow> tk_wait t' = Returned \<and> tk_active t' = 0"
    using sleeping_drain_completes [of ?t] by simp_all
  moreover obtain m where "drain_step\<^sup>*\<^sup>* ?t m" "\<And>y. drain_step m y \<Longrightarrow> \<not> drain_step\<^sup>*\<^sup>* ?t y"
    using wfp_eq_minimal [THEN iffD1, OF calculation(1), rule_format, of ?t "{x. drain_step\<^sup>*\<^sup>* ?t x}"] by auto
  ultimately show ?thesis by (metis rtranclp.rtrancl_into_rtrancl)
qed

text \<open>
  A wakeup can be lost: if the last connection ends between the waiter's load and the creation
  of its notification future, the waiter sleeps with no connection open and nothing left to wake it,
  although it started waiting while a connection was open. The drain then lasts until its timeout.
\<close>

theorem drain_can_miss_wakeup:
  "\<exists>t t'. serve_step\<^sup>*\<^sup>* tracker_new t \<and> drain_step\<^sup>*\<^sup>* t t' \<and>
     tk_active t' = 0 \<and> tk_wait t' = Parked \<and> (\<nexists>t''. drain_step t' t'')"
proof (intro exI conjI)
  let ?t0 = "started tracker_new"
  let ?t1 = "wait_load ?t0"
  let ?t2 = "finished_sub ?t1"
  let ?t3 = "finished_notify ?t2"
  let ?t4 = "wait_park ?t3"
  note defs = tracker_new_def started_def wait_load_def finished_sub_def finished_notify_def wait_park_def
  have "serve_step tracker_new ?t0" by (rule serve_step.start) (simp add: tracker_new_def)
  then show "serve_step\<^sup>*\<^sup>* tracker_new ?t0" by blast
  have "drain_step ?t0 ?t1" by (rule drain_step.load) (simp add: defs)
  moreover have "drain_step ?t1 ?t2" by (rule drain_step.finish) (simp add: defs)
  moreover have "drain_step ?t2 ?t3" by (rule drain_step.notify) (simp add: defs)
  moreover have "drain_step ?t3 ?t4" by (rule drain_step.park) (simp add: defs)
  ultimately show "drain_step\<^sup>*\<^sup>* ?t0 ?t4" by (meson rtranclp.rtrancl_refl rtranclp.rtrancl_into_rtrancl)
  show "tk_active ?t4 = 0" "tk_wait ?t4 = Parked" by (simp_all add: defs)
  show "\<nexists>t''. drain_step ?t4 t''" by (auto elim!: drain_stepE simp: defs)
qed

end
