(* ===== verification/Body_Copy.thy ===== *)
theory Body_Copy
  imports Streams
begin

text \<open>
  Message bodies and responses on top of the byte streams: \<^verbatim>\<open>copy_chunked_body\<close>, \<^verbatim>\<open>copy_body\<close> and
  \<^verbatim>\<open>read_and_forward_response\<close> of \<^verbatim>\<open>src/src/proxy/h1_fast.rs\<close>, and \<^verbatim>\<open>read_header_block\<close>,
  \<^verbatim>\<open>copy_exact_body\<close> and \<^verbatim>\<open>copy_response_body\<close> of \<^verbatim>\<open>src/src/proxy/h1_uring.rs\<close>.

  Everything that copies is an instance of the locale \<open>relay\<close>: on success the bytes that left the
  source are the bytes that reached the destination. Chunked bodies are specified by the inductive
  grammars; the copier is sound and complete for the one it reads.
\<close>

section \<open>Definitions\<close>

lemma read_write_less:
  assumes "read_line E st = (AOk l, st1)" "xwrite bs st1 = (AOk u, st2)"
  shows "in_size st2 < in_size st"
  using read_line_Ok(2,3) [OF assms(1)] xwrite_AOk(2,3) [OF assms(2)] by (auto simp: in_size_def)

function copy_trailers :: "ext_lib \<Rightarrow> xfer \<Rightarrow> unit aresult \<times> xfer" where
  "copy_trailers E st =
     abind (read_line E st) (\<lambda>trailer st1.
     abind (xwrite trailer st1) (\<lambda>_ st2.
       if trailer = crlf then (AOk (), st2) else copy_trailers E st2))"
  by pat_completeness auto
termination
  by (relation "measure (\<lambda>(E, st). in_size st)") (auto dest: read_write_less)

declare copy_trailers.simps [simp del]

definition chunk_size :: "bytes \<Rightarrow> (usize, h1_error) outcome" where
  "chunk_size line =
     rbind (ok_or (from_utf8 line) (Parse ''bad chunk'')) (\<lambda>line_text.
     rbind (ok_or (case split_on (CHR '';'') (str_trim line_text) of [] \<Rightarrow> None | s # _ \<Rightarrow> Some s)
              (Parse ''bad chunk size'')) (\<lambda>size_text.
     ok_or (parse_hex_usize size_text) (Parse ''bad chunk size'')))"

definition within :: "usize option \<Rightarrow> usize \<Rightarrow> bool" where
  "within max_body_bytes copied =
     (case max_body_bytes of None \<Rightarrow> True | Some m \<Rightarrow> \<not> m < copied)"

text \<open>No copy puts anything back, whatever the outcome.\<close>

lemma abind_shrinks:
  assumes "m (snd p) \<le> (k :: nat)" "\<And>x s. p = (AOk x, s) \<Longrightarrow> m (snd (f x s)) \<le> m s"
  shows "m (snd (abind p f)) \<le> k"
proof -
  obtain r s where p: "p = (r, s)" by force
  show ?thesis using assms by (cases r) (auto simp: p intro: le_trans)
qed

lemma copy_loop_shrinks:
  "rx_size (xf_rx (snd (copy_loop chunk n st))) \<le> rx_size (xf_rx st) \<and>
   xf_buf (snd (copy_loop chunk n st)) = xf_buf st"
proof (induction chunk n st rule: copy_loop.induct)
  case (1 chunk n st)
  obtain r rx where r: "sock_read (min chunk n) (xf_rx st) = (r, rx)" by force
  have le: "rx_size rx \<le> rx_size (xf_rx st)" using sock_read_size [of "min chunk n" "xf_rx st"] r by simp
  show ?case
  proof (cases "n \<noteq> 0 \<and> (\<exists>d. r = Got d \<and> d \<noteq> [])")
    case True
    then obtain d where d: "n \<noteq> 0" "r = Got d" "d \<noteq> []" by blast
    obtain w st1 where w: "xwrite d (st\<lparr>xf_rx := rx\<rparr>) = (w, st1)" by force
    note fr = xwrite_frame_eq [OF w]
    show ?thesis
    proof (cases w)
      case (AOk u)
      have eq: "copy_loop chunk n st = copy_loop chunk (n - length d) st1"
        using d r w AOk by (subst copy_loop.simps) simp
      from "1.IH" [OF d(1) r [symmetric] d(2,3) w [unfolded AOk]] fr le show ?thesis
        unfolding eq by simp
    qed (use d r w fr le in \<open>simp_all add: copy_loop.simps [of chunk n st]\<close>)
  next
    case False
    with r le show ?thesis by (subst (1 2) copy_loop.simps) (auto split: read_result.split)
  qed
qed

lemma splice_exact_shrinks:
  "rx_size (xf_rx (snd (splice_exact n st))) \<le> rx_size (xf_rx st) \<and>
   xf_buf (snd (splice_exact n st)) = xf_buf st"
proof (induction n st rule: splice_exact.induct)
  case (1 n st)
  obtain r rx where r: "sock_read (min n PIPE_CAPACITY) (xf_rx st) = (r, rx)" by force
  have le: "rx_size rx \<le> rx_size (xf_rx st)"
    using sock_read_size [of "min n PIPE_CAPACITY" "xf_rx st"] r by simp
  show ?case
  proof (cases "n \<noteq> 0 \<and> (\<exists>d. r = Got d \<and> d \<noteq> [])")
    case True
    then obtain d where d: "n \<noteq> 0" "r = Got d" "d \<noteq> []" by blast
    obtain w st1 where w: "drain_pipe (length d) (st\<lparr>xf_rx := rx, xf_pipe := xf_pipe st @ d\<rparr>) = (w, st1)"
      by force
    note fr = drain_pipe_frame_eq [OF w]
    show ?thesis
    proof (cases w)
      case (AOk u)
      have eq: "splice_exact n st = splice_exact (n - length d) st1"
        using d r w AOk by (subst splice_exact.simps) simp
      from "1.IH" [OF d(1) r [symmetric] d(2,3) w [unfolded AOk]] fr le show ?thesis
        unfolding eq by simp
    qed (use d r w fr le in \<open>simp_all add: splice_exact.simps [of n st]\<close>)
  next
    case False
    with r le show ?thesis by (subst (1 2) splice_exact.simps) (auto split: read_result.split)
  qed
qed

lemma copy_buffered_shrinks: "in_size (snd (copy_buffered k st)) \<le> in_size st"
proof -
  obtain r st1 where w: "xwrite (take k (xf_buf st)) st = (r, st1)" by force
  show ?thesis using xwrite_frame_eq [OF w]
    by (cases r) (auto simp: copy_buffered_def w in_size_def discard_buffer_prefix_drop)
qed

lemma copy_exact_body_shrinks: "in_size (snd (copy_exact_body env n st)) \<le> in_size st"
  unfolding copy_exact_body_def Let_def
  by (rule abind_shrinks [where m = in_size, OF copy_buffered_shrinks])
     (use copy_loop_shrinks splice_exact_shrinks in \<open>simp add: in_size_def\<close>)

lemma copy_exact_body_less:
  assumes "read_line E st = (AOk l, st1)" "xwrite bs st1 = (AOk u, st2)"
    "copy_exact_body env n st2 = (AOk v, st3)"
  shows "in_size st3 < in_size st"
  using copy_exact_body_shrinks [of env n st2] read_write_less [OF assms(1,2)] assms(3) by simp

text \<open>\<open>size + 2\<close> is unchecked in the source; in a release build it wraps.\<close>

function copy_chunked_body ::
  "ext_lib \<Rightarrow> xfer_env \<Rightarrow> usize option \<Rightarrow> usize \<Rightarrow> xfer \<Rightarrow> unit aresult \<times> xfer" where
  "copy_chunked_body E env max_body_bytes copied st =
     abind (read_line E st) (\<lambda>line st1.
     abind (xwrite line st1) (\<lambda>_ st2.
       case chunk_size line of
         Panic _ \<Rightarrow> (APanic, st2)
       | Err e \<Rightarrow> (AErr e, st2)
       | Ok n \<Rightarrow>
           if n = 0 then copy_trailers E st2
           else (case checked_add copied n of
              None \<Rightarrow> (AErr (Parse ''request body too large''), st2)
            | Some copied' \<Rightarrow>
                if \<not> within max_body_bytes copied' then
                  (AErr (Parse ''request body too large''), st2)
                else abind (copy_exact_body env (unat (n + 2)) st2) (\<lambda>_ st3.
                  copy_chunked_body E env max_body_bytes copied' st3))))"
  by pat_completeness auto
termination
  by (relation "measure (\<lambda>(E, env, m, c, st). in_size st)") (auto dest: copy_exact_body_less)

declare copy_chunked_body.simps [simp del]

definition copy_body ::
  "ext_lib \<Rightarrow> xfer_env \<Rightarrow> body_framing \<Rightarrow> usize option \<Rightarrow> xfer \<Rightarrow> unit aresult \<times> xfer" where
  "copy_body E env body max_body_bytes st =
     (case body of
        NoBody \<Rightarrow> (AOk (), st)
      | ContentLength len \<Rightarrow> copy_exact_body env (unat len) st
      | Chunked \<Rightarrow> copy_chunked_body E env max_body_bytes 0 st
      | CloseDelimited \<Rightarrow>
          abind (if xf_buf st \<noteq> [] then
                   abind (xwrite (xf_buf st) st) (\<lambda>_ st1. (AOk (), st1\<lparr>xf_buf := []\<rparr>))
                 else (AOk (), st)) (\<lambda>_ st2.
            if xe_zero_copy env \<and> xe_splice_supported env then
              (if xe_pipe_ok env then abind (splice_stream 0 st2) (\<lambda>_ st3. (AOk (), st3))
               else (io_err, st2))
            else copy_stream st2))"

text \<open>The response loop; a 1xx head is forwarded and the loop reads on for the final head.\<close>

lemma forward_interim_less:
  assumes "read_header_block E st = (AOk (Some k), st1)" "k \<le> length (xf_buf st1)"
    "xwrite bs st1 = (AOk u, st2)"
  shows "in_size (st2\<lparr>xf_buf := discard_buffer_prefix (xf_buf st2) k\<rparr>) < in_size st"
  using read_header_block_Ok(2) [OF assms(1)] read_header_block_Ok(6) [OF assms(1) refl]
    xwrite_AOk(2,3) [OF assms(3)] assms(2)
  by (simp add: in_size_def discard_buffer_prefix_drop)

definition coalesced_len :: "response_head \<Rightarrow> nat \<Rightarrow> nat \<Rightarrow> nat" where
  "coalesced_len response header_end buffered_body =
     (case rs_body response of
        ContentLength len \<Rightarrow> header_end + min buffered_body (unat len)
      | _ \<Rightarrow> header_end)"

function read_and_forward_response ::
  "ext_lib \<Rightarrow> xfer_env \<Rightarrow> bool \<Rightarrow> xfer \<Rightarrow> response_head aresult \<times> xfer" where
  "read_and_forward_response E env head_response st =
     abind (read_header_block E st) (\<lambda>h st1.
       case h of
         None \<Rightarrow> (AErr (Parse ''upstream closed before response''), st1)
       | Some header_end \<Rightarrow>
           if length (xf_buf st1) < header_end then (APanic, st1)
           else (case parse_response E (take header_end (xf_buf st1)) head_response of
              Panic _ \<Rightarrow> (APanic, st1)
            | Err e \<Rightarrow> (AErr e, st1)
            | Ok response \<Rightarrow>
                if informational (rs_status response) then
                  abind (xwrite (take header_end (xf_buf st1)) st1) (\<lambda>_ st2.
                    read_and_forward_response E env head_response
                      (st2\<lparr>xf_buf := discard_buffer_prefix (xf_buf st2) header_end\<rparr>))
                else
                  (let coalesced =
                     coalesced_len response header_end (length (xf_buf st1) - header_end) in
                   abind (xwrite (take coalesced (xf_buf st1)) st1) (\<lambda>_ st2.
                   abind
                     (let st3 = st2\<lparr>xf_buf := discard_buffer_prefix (xf_buf st2) coalesced\<rparr> in
                      case rs_body response of
                        ContentLength len \<Rightarrow>
                          copy_exact_body env (unat len - (coalesced - header_end)) st3
                      | b \<Rightarrow> copy_body E env b None st3)
                     (\<lambda>_ st4. (AOk response, st4))))))"
  by pat_completeness auto
termination
  by (relation "measure (\<lambda>(E, env, h, st). in_size st)") (auto dest: forward_interim_less simp: not_less)

declare read_and_forward_response.simps [simp del]

section \<open>Relays\<close>

text \<open>
  The contract of a copier: when it succeeds, with the thread's pipe empty at the start, some
  bytes \<open>c\<close> were taken from the input and exactly these were appended to the output.
\<close>

locale relay =
  fixes copier :: "xfer \<Rightarrow> 'a aresult \<times> xfer"
  assumes relayed: "xf_pipe st = [] \<Longrightarrow> copier st = (AOk x, st') \<Longrightarrow> \<exists>c. relays c st st'"
begin

text \<open>Nothing is lost, duplicated or reordered.\<close>

lemma conserves:
  assumes "xf_pipe st = []" "copier st = (AOk x, st')"
  shows "out st' @ input st' = out st @ input st"
  using relayed [OF assms] by (auto simp: relays_def)

text \<open>Relays compose.\<close>

lemma relay_then:
  assumes "xf_pipe st = []" "copier st = (AOk x, st1)" "\<exists>c. relays c st1 st'"
  shows "\<exists>c. relays c st st'"
  using relayed [OF assms(1,2)] assms(3) relays_trans by blast

end

lemma relays_pipe: "relays c st st' \<Longrightarrow> xf_pipe st' = []"
  by (simp add: relays_def)

lemma relays_read_write:
  assumes "read_line E st = (AOk l, st1)" "xwrite l st1 = (AOk u, st2)" "xf_pipe st = []"
  shows "relays l st st2"
  using read_line_Ok [OF assms(1)] xwrite_AOk [OF assms(2)] assms(3)
  by (simp add: relays_def input_def in_size_def)

interpretation exact: relay "copy_exact_body env n" for env n
  by unfold_locales (use copy_exact_body_AOk in blast)

section \<open>The grammar of chunked bodies\<close>

text \<open>A line: bytes whose first CR LF is at their end.\<close>

definition is_line :: "bytes \<Rightarrow> bool" where
  "is_line l \<longleftrightarrow>
     2 \<le> length l \<and> occurs_at l crlf (length l - 2) \<and> (\<forall>j < length l - 2. \<not> occurs_at l crlf j)"

inductive trailer_part :: "bytes \<Rightarrow> bool" where
  last_line: "trailer_part crlf"
| trailer_line: "is_line l \<Longrightarrow> l \<noteq> crlf \<Longrightarrow> trailer_part t \<Longrightarrow> trailer_part (l @ t)"

text \<open>
  The grammar of chunked bodies, with the payload: lines with a chunk's size, the data, the end of
  the data, and after a chunk of size 0 the trailers. RFC 9112 ends the data of a chunk with CR LF:
  \<open>rfc_chunked\<close>. The copier reads two bytes there and does not look at them: \<open>loose_chunked\<close>.
\<close>

inductive chunked_body :: "(bytes \<Rightarrow> bool) \<Rightarrow> bytes \<Rightarrow> bytes \<Rightarrow> bool" for data_end where
  zero: "is_line l \<Longrightarrow> chunk_size l = Ok 0 \<Longrightarrow> trailer_part t \<Longrightarrow> chunked_body data_end (l @ t) []"
| data: "is_line l \<Longrightarrow> chunk_size l = Ok n \<Longrightarrow> n \<noteq> 0 \<Longrightarrow> length d = unat n \<Longrightarrow> data_end e \<Longrightarrow>
    chunked_body data_end b p \<Longrightarrow> chunked_body data_end (l @ d @ e @ b) (d @ p)"

definition rfc_chunked :: "bytes \<Rightarrow> bytes \<Rightarrow> bool" where
  "rfc_chunked = chunked_body (\<lambda>e. e = crlf)"

definition loose_chunked :: "bytes \<Rightarrow> bytes \<Rightarrow> bool" where
  "loose_chunked = chunked_body (\<lambda>e. length e = 2)"

lemma rfc_loose:
  assumes "rfc_chunked b p"
  shows "loose_chunked b p"
  using assms unfolding rfc_chunked_def loose_chunked_def
proof (induction rule: chunked_body.induct)
  case (data l n d e b p)
  then show ?case by (intro chunked_body.data) simp_all
qed (rule chunked_body.zero)

text \<open>
  \<open>chunk_frames m c b t\<close> is the same with the copier's own arithmetic: \<open>b\<close> is a body after \<open>c\<close> bytes of
  payload, \<open>t\<close> counts the payload including these \<open>c\<close>, the limit \<open>m\<close> is respected at every chunk, and
  the length of the data with its end is \<open>size + 2\<close> in a \<^verbatim>\<open>usize\<close>, which wraps without a limit.
\<close>

inductive chunk_frames :: "usize option \<Rightarrow> usize \<Rightarrow> bytes \<Rightarrow> usize \<Rightarrow> bool" where
  last_chunk: "is_line l \<Longrightarrow> chunk_size l = Ok 0 \<Longrightarrow> trailer_part t \<Longrightarrow> chunk_frames m c (l @ t) c"
| chunk: "is_line l \<Longrightarrow> chunk_size l = Ok n \<Longrightarrow> n \<noteq> 0 \<Longrightarrow> checked_add c n = Some c' \<Longrightarrow>
    within m c' \<Longrightarrow> length data = unat (n + 2) \<Longrightarrow> chunk_frames m c' b t \<Longrightarrow>
    chunk_frames m c (l @ data @ b) t"

lemma read_line_is_line:
  assumes "memmem_first E" "read_line E st = (AOk l, st')"
  shows "is_line l"
proof -
  obtain i where i: "length l = i + 2" "occurs_at (input st) crlf i"
    "\<forall>j < i. \<not> occurs_at (input st) crlf j" using read_line_first [OF assms] by blast
  have "occurs_at (input st) crlf j = occurs_at l crlf j" if "j \<le> i" for j
    unfolding read_line_Ok(1) [OF assms(2)] using that i(1) by (intro occurs_at_append) simp
  with i show ?thesis by (simp add: is_line_def)
qed

text \<open>
  Copying is verbatim whatever \<^verbatim>\<open>memmem::find\<close> answers; that the copied bytes follow the grammar
  needs its documented behaviour.
\<close>

lemma copy_trailers_sound:
  assumes "copy_trailers E st = (AOk u, st')" "xf_pipe st = []"
  shows "\<exists>t. relays t st st' \<and> (memmem_first E \<longrightarrow> trailer_part t)"
  using assms
proof (induction E st rule: copy_trailers.induct)
  case (1 E st)
  from "1.prems"(1) obtain l st1 st2 where l: "read_line E st = (AOk l, st1)"
    and w: "xwrite l st1 = (AOk (), st2)"
    and r: "(if l = crlf then (AOk (), st2) else copy_trailers E st2) = (AOk u, st')"
    by (auto simp: copy_trailers.simps [of E st] abind_AOk)
  have rel: "relays l st st2" by (rule relays_read_write [OF l w "1.prems"(2)])
  show ?case
  proof (cases "l = crlf")
    case True
    with r rel show ?thesis using last_line by auto
  next
    case False
    with r have "copy_trailers E st2 = (AOk u, st')" by simp
    from "1.IH" [OF l w False this relays_pipe [OF rel]]
    obtain t where "relays t st2 st'" "memmem_first E \<longrightarrow> trailer_part t" by blast
    with relays_trans [OF rel] trailer_line [OF read_line_is_line [OF _ l] False] show ?thesis by blast
  qed
qed

lemma copy_chunked_cases:
  assumes "copy_chunked_body E env m c st = (AOk u, st')"
  obtains (last) l st1 st2 where "read_line E st = (AOk l, st1)" "xwrite l st1 = (AOk (), st2)"
      "chunk_size l = Ok 0" "copy_trailers E st2 = (AOk u, st')"
  | (more) l st1 st2 n c' st3 where "read_line E st = (AOk l, st1)" "xwrite l st1 = (AOk (), st2)"
      "chunk_size l = Ok n" "n \<noteq> 0" "checked_add c n = Some c'" "within m c'"
      "copy_exact_body env (unat (n + 2)) st2 = (AOk (), st3)"
      "copy_chunked_body E env m c' st3 = (AOk u, st')"
proof -
  from assms obtain l st1 where l: "read_line E st = (AOk l, st1)"
    by (auto simp: copy_chunked_body.simps [of E env m c st] abind_AOk)
  with assms obtain st2 where w: "xwrite l st1 = (AOk (), st2)"
    by (auto simp: copy_chunked_body.simps [of E env m c st] abind_AOk)
  obtain n where n: "chunk_size l = Ok n"
    using assms by (cases "chunk_size l") (simp_all add: copy_chunked_body.simps [of E env m c st] l w)
  show thesis
  proof (cases "n = 0")
    case True
    with assms n show thesis
      by (intro last [OF l w]) (simp_all add: copy_chunked_body.simps [of E env m c st] l w)
  next
    case False
    with assms n obtain c' where c': "checked_add c n = Some c'" "within m c'"
      by (cases "checked_add c n")
         (auto simp: copy_chunked_body.simps [of E env m c st] l w split: if_splits)
    with assms n False obtain st3 where "copy_exact_body env (unat (n + 2)) st2 = (AOk (), st3)"
      "copy_chunked_body E env m c' st3 = (AOk u, st')"
      by (auto simp: copy_chunked_body.simps [of E env m c st] l w abind_AOk)
    with more [OF l w n False c'] show thesis by blast
  qed
qed

lemma copy_chunked_body_sound:
  assumes "copy_chunked_body E env m c st = (AOk u, st')" "xf_pipe st = []"
  shows "\<exists>b t. relays b st st' \<and> (memmem_first E \<longrightarrow> chunk_frames m c b t)"
  using assms
proof (induction E env m c st rule: copy_chunked_body.induct)
  case (1 E env m c st)
  from "1.prems"(1) show ?case
  proof (cases rule: copy_chunked_cases)
    case (last l st1 st2)
    have rel: "relays l st st2" by (rule relays_read_write [OF last(1,2) "1.prems"(2)])
    from copy_trailers_sound [OF last(4) relays_pipe [OF rel]]
    obtain t where "relays t st2 st'" "memmem_first E \<longrightarrow> trailer_part t" by blast
    with relays_trans [OF rel] last_chunk [OF read_line_is_line [OF _ last(1)] last(3)] show ?thesis
      by blast
  next
    case (more l st1 st2 n c' st3)
    have rel: "relays l st st2" by (rule relays_read_write [OF more(1,2) "1.prems"(2)])
    obtain d where d: "length d = unat (n + 2)" "relays d st2 st3"
      using copy_exact_body_AOk [OF more(7) relays_pipe [OF rel]] by blast
    have "\<exists>b t. relays b st3 st' \<and> (memmem_first E \<longrightarrow> chunk_frames m c' b t)"
      using more(6) by (intro "1.IH" [OF more(1,2,3,4,5) _ more(7,8) relays_pipe [OF d(2)]]) simp
    then obtain b t where b: "relays b st3 st'" "memmem_first E \<longrightarrow> chunk_frames m c' b t" by blast
    from chunk [OF read_line_is_line [OF _ more(1)] more(3-6) d(1)] b(2)
      relays_trans [OF rel relays_trans [OF d(2) b(1)]]
    show ?thesis by blast
  qed
qed

interpretation trailers: relay "copy_trailers E" for E
  by unfold_locales (use copy_trailers_sound in blast)

interpretation chunked: relay "copy_chunked_body E env m c" for E env m c
  by unfold_locales (use copy_chunked_body_sound in blast)

text \<open>
  Completeness: a well-formed message at the front of the input is copied whole when the sink
  takes everything. \<open>ready\<close> collects what that needs of the state and the environment.
\<close>

definition ready :: "xfer_env \<Rightarrow> xfer \<Rightarrow> bool" where
  "ready env st \<longleftrightarrow> sk_limit (xf_tx st) = None \<and> xf_pipe st = [] \<and>
     (xe_zero_copy env \<and> xe_splice_supported env \<longrightarrow> xe_pipe_ok env)"

lemma read_write_line:
  assumes "memmem_first E" "ready env st" "input st = l @ rest" "is_line l"
  shows "\<exists>st1 st2. read_line E st = (AOk l, st1) \<and> xwrite l st1 = (AOk (), st2) \<and> ready env st2 \<and>
    input st2 = rest \<and> relays l st st2"
proof -
  have "2 \<le> length l" using assms(4) by (auto simp: is_line_def)
  then have same: "occurs_at (input st) crlf j = occurs_at l crlf j" if "j \<le> length l - 2" for j
    unfolding assms(3) using that by (intro occurs_at_append) simp
  have "\<exists>st1. read_line E st = (AOk (take (length l - 2 + 2) (input st)), st1)"
    using assms(4) same by (intro read_line_complete [OF assms(1)]) (auto simp: is_line_def)
  moreover have "length l - 2 + 2 = length l" using \<open>2 \<le> length l\<close> by simp
  ultimately obtain st1 where l: "read_line E st = (AOk l, st1)" by (auto simp: assms(3))
  let ?st2 = "st1\<lparr>xf_tx := (xf_tx st1)\<lparr>sk_out := out st1 @ l\<rparr>\<rparr>"
  have w: "xwrite l st1 = (AOk (), ?st2)"
    using read_line_Ok(4) [OF l] assms(2) by (intro xwrite_unlimited) (simp add: ready_def)
  have "input st1 = rest" using read_line_Ok(1) [OF l] assms(3) by simp
  then have "input ?st2 = rest" by (simp add: input_def)
  moreover have "ready env ?st2" using read_line_Ok(4,5) [OF l] assms(2) by (simp add: ready_def)
  moreover have "relays l st ?st2"
    using relays_read_write [OF l w] assms(2) by (simp add: ready_def)
  ultimately show ?thesis using l w by blast
qed

lemma copy_exact_body_complete:
  assumes "ready env st" "input st = d @ rest" "length d = n"
  shows "\<exists>st'. copy_exact_body env n st = (AOk (), st') \<and> ready env st' \<and> input st' = rest \<and> relays d st st'"
proof -
  obtain r st' where r: "copy_exact_body env n st = (r, st')" by force
  have st: "sk_limit (xf_tx st) = None" "xf_pipe st = []"
    "xe_zero_copy env \<and> xe_splice_supported env \<longrightarrow> xe_pipe_ok env"
    using assms(1) by (simp_all add: ready_def)
  have ok: "r = AOk ()" "out st' = out st @ d" "sk_limit (xf_tx st') = None"
    using copy_exact_body_unlimited [OF st, of n] r assms(2,3) by simp_all
  from copy_exact_body_AOk [OF r [unfolded ok(1)] st(2)] obtain c where
    c: "length c = n" "relays c st st'" by blast
  then have "c = d" using ok(2) by (simp add: relays_def)
  with c ok st r assms(2) show ?thesis by (auto simp: relays_def ready_def)
qed

lemma copy_trailers_complete:
  assumes "trailer_part t" "memmem_first E" "ready env st" "input st = t @ rest"
  shows "\<exists>st'. copy_trailers E st = (AOk (), st') \<and> input st' = rest \<and> relays t st st'"
  using assms
proof (induction arbitrary: st rule: trailer_part.induct)
  case last_line
  have "is_line crlf" by (simp add: is_line_def occurs_at_def)
  from read_write_line [OF last_line(1,2) last_line(3) this] obtain st1 st2 where
    "read_line E st = (AOk crlf, st1)" "xwrite crlf st1 = (AOk (), st2)" "input st2 = rest"
    "relays crlf st st2" by blast
  then show ?case by (simp add: copy_trailers.simps [of E st])
next
  case (trailer_line l t)
  have "input st = l @ t @ rest" using trailer_line.prems(3) by simp
  from read_write_line [OF trailer_line.prems(1,2) this trailer_line.hyps(1)] obtain st1 st2 where
    st2: "read_line E st = (AOk l, st1)" "xwrite l st1 = (AOk (), st2)" "ready env st2"
      "input st2 = t @ rest" "relays l st st2" by blast
  from trailer_line.IH [OF trailer_line.prems(1) st2(3,4)] obtain st' where
    st': "copy_trailers E st2 = (AOk (), st')" "input st' = rest" "relays t st2 st'" by blast
  with st2 trailer_line.hyps(2) relays_trans [OF st2(5) st'(3)] show ?case
    by (simp add: copy_trailers.simps [of E st])
qed

lemma copy_chunked_body_complete:
  assumes "chunk_frames m c b t" "memmem_first E" "ready env st" "input st = b @ rest"
  shows "\<exists>st'. copy_chunked_body E env m c st = (AOk (), st') \<and> input st' = rest \<and> relays b st st'"
  using assms
proof (induction arbitrary: st rule: chunk_frames.induct)
  case (last_chunk l t m c)
  have "input st = l @ t @ rest" using last_chunk.prems(3) by simp
  from read_write_line [OF last_chunk.prems(1,2) this last_chunk.hyps(1)] obtain st1 st2 where
    st2: "read_line E st = (AOk l, st1)" "xwrite l st1 = (AOk (), st2)" "ready env st2"
      "input st2 = t @ rest" "relays l st st2" by blast
  from copy_trailers_complete [OF last_chunk.hyps(3) last_chunk.prems(1) st2(3,4)] obtain st' where
    st': "copy_trailers E st2 = (AOk (), st')" "input st' = rest" "relays t st2 st'" by blast
  with st2 last_chunk.hyps(2) relays_trans [OF st2(5) st'(3)] show ?case
    by (simp add: copy_chunked_body.simps [of E env m c st])
next
  case (chunk l n c c' m data b t)
  have "input st = l @ data @ b @ rest" using chunk.prems(3) by simp
  from read_write_line [OF chunk.prems(1,2) this chunk.hyps(1)] obtain st1 st2 where
    st2: "read_line E st = (AOk l, st1)" "xwrite l st1 = (AOk (), st2)" "ready env st2"
      "input st2 = data @ b @ rest" "relays l st st2" by blast
  from copy_exact_body_complete [OF st2(3,4) chunk.hyps(6)] obtain st3 where
    st3: "copy_exact_body env (unat (n + 2)) st2 = (AOk (), st3)" "ready env st3"
      "input st3 = b @ rest" "relays data st2 st3" by blast
  from chunk.IH [OF chunk.prems(1) st3(2,3)] obtain st' where
    st': "copy_chunked_body E env m c' st3 = (AOk (), st')" "input st' = rest" "relays b st3 st'" by blast
  have "copy_chunked_body E env m c st = (AOk (), st')"
    using st2(1,2) st3(1) st'(1) chunk.hyps(2-5) by (simp add: copy_chunked_body.simps [of E env m c st])
  with st'(2) relays_trans [OF st2(5) relays_trans [OF st3(4) st'(3)]] show ?case by blast
qed

text \<open>The payload of an accepted body respects the limit, and the limit makes \<open>size + 2\<close> safe.\<close>

lemma chunk_frames_bound:
  assumes "chunk_frames m c b t" "within m c"
  shows "within m t \<and> unat c \<le> unat t"
  using assms
proof (induction rule: chunk_frames.induct)
  case (chunk l n c c' m data b t)
  then show ?case using unat_checked_add [OF chunk.hyps(4)] by auto
qed simp

text \<open>Below the largest lengths nothing wraps, and the two descriptions agree.\<close>

lemma within_Some: "within (Some M) c \<longleftrightarrow> unat c \<le> unat M"
  by (simp add: within_def word_less_nat_alt not_less)

lemma chunk_frames_loose:
  assumes "chunk_frames (Some M) c b t" "unat M + 2 < usize_lim" "within (Some M) c"
  shows "\<exists>p. loose_chunked b p \<and> unat t = unat c + length p"
  using assms
proof (induction "Some M" c b t rule: chunk_frames.induct)
  case (last_chunk l t c)
  then show ?case unfolding loose_chunked_def by (intro exI [of _ "[]"]) (simp add: chunked_body.zero)
next
  case (chunk l n c c' data b t)
  note c' = unat_checked_add [OF chunk.hyps(4)]
  have "unat n + 2 < usize_lim" using chunk.hyps(5) chunk.prems(1) c' by (simp add: within_Some)
  then have "length data = unat n + 2" using chunk.hyps(6) by (simp add: unat_word_ariths)
  then obtain d e where d: "data = d @ e" "length d = unat n" "length e = 2"
    by (metis append_take_drop_id length_append length_take min.absorb4 add_diff_cancel_left' length_drop less_add_same_cancel1 zero_less_numeral)
  from chunk.hyps(8) [OF chunk.prems(1) chunk.hyps(5)] obtain p where
    p: "loose_chunked b p" "unat t = unat c' + length p" by blast
  have "loose_chunked (l @ d @ e @ b) (d @ p)"
    using chunk.hyps(1-3) d p(1) unfolding loose_chunked_def by (intro chunked_body.data)
  with p(2) d c' show ?case by (intro exI [of _ "d @ p"]) simp
qed

lemma loose_chunk_frames:
  assumes "loose_chunked b p" "unat M + 2 < usize_lim" "unat c + length p \<le> unat M"
  shows "\<exists>t. chunk_frames (Some M) c b t"
  using assms unfolding loose_chunked_def
proof (induction arbitrary: c rule: chunked_body.induct)
  case (zero l t)
  then show ?case by (blast intro: last_chunk)
next
  case (data l n d e b p)
  have le: "unat c + unat n \<le> unat M" using data.prems(2) data.hyps(4) by simp
  with data.prems(1) obtain c' where c': "checked_add c n = Some c'" "unat c' = unat c + unat n"
    by (cases "checked_add c n") (auto simp: checked_add_def unat_word_ariths split: if_splits)
  have "length (d @ e) = unat (n + 2)" using data.hyps(4,5) le data.prems(1) by (simp add: unat_word_ariths)
  moreover have "within (Some M) c'" using c'(2) le by (simp add: within_Some)
  moreover obtain t where "chunk_frames (Some M) c' b t"
    using data.IH [of c'] data.prems data.hyps(4) c'(2) by auto
  ultimately have "chunk_frames (Some M) c (l @ (d @ e) @ b) t"
    using data.hyps(1-3) c'(1) by (intro chunk)
  then show ?case by auto
qed

section \<open>A sample\<close>

definition line3 :: bytes where "line3 = ''3'' @ crlf"
definition line0 :: bytes where "line0 = ''0'' @ crlf"

lemma is_line_digit:
  assumes "c \<noteq> CHR 0x0D"
  shows "is_line (c # crlf)"
  using assms by (auto simp: is_line_def occurs_at_def)

lemma sample_utf8: "from_utf8 line3 = Some line3" "from_utf8 line0 = Some line0"
  "str_trim line3 = ''3''" "str_trim line0 = ''0''"
proof -
  have a: "utf8_chars line3 = Some [''3'', [CHR 0x0D], [CHR 0x0A]]"
    "utf8_chars line0 = Some [''0'', [CHR 0x0D], [CHR 0x0A]]"
    using utf8_chars_ascii [of line3] utf8_chars_ascii [of line0]
    by (simp_all add: byte_def line3_def line0_def)
  then show "from_utf8 line3 = Some line3" "from_utf8 line0 = Some line0"
    by (simp_all add: from_utf8_def)
  have "concat (trim_chars [''3'', [CHR 0x0D], [CHR 0x0A]]) = ''3''"
    "concat (trim_chars [''0'', [CHR 0x0D], [CHR 0x0A]]) = ''0''"
    by (simp_all add: trim_chars_def is_whitespace_single byte_def)
  with a show "str_trim line3 = ''3''" "str_trim line0 = ''0''" by (simp_all add: str_trim_def)
qed

lemma sample_chunk_size: "chunk_size line3 = Ok 3" "chunk_size line0 = Ok 0"
proof -
  have "to_digit 16 (CHR ''3'') = Some 3" "to_digit 16 (CHR ''0'') = Some 0" by code_simp+
  then show "chunk_size line3 = Ok 3" "chunk_size line0 = Ok 0"
    by (simp_all add: chunk_size_def sample_utf8 parse_hex_usize_def from_str_radix_def)
qed

definition sample_chunked :: bytes where
  "sample_chunked = line3 @ (''abc'' @ crlf) @ line0 @ crlf"

lemma sample_rfc_chunked: "rfc_chunked sample_chunked ''abc''"
proof -
  have lines: "is_line line3" "is_line line0" by (simp_all add: line3_def line0_def is_line_digit)
  have "rfc_chunked (line0 @ crlf) []"
    unfolding rfc_chunked_def by (intro chunked_body.zero lines sample_chunk_size last_line)
  then have "rfc_chunked sample_chunked (''abc'' @ [])"
    unfolding sample_chunked_def append_assoc rfc_chunked_def
    by (intro chunked_body.data [OF lines(1) sample_chunk_size(1)]) simp_all
  then show ?thesis by simp
qed

text \<open>The sample body arrives in three segments, the next request behind it.\<close>

definition sample_xfer :: xfer where
  "sample_xfer =
     \<lparr>xf_rx = [RxData ''bc'', RxData (crlf @ ''0''), RxData (crlf @ crlf @ ''GET'')],
      xf_buf = line3 @ ''a'', xf_tx = \<lparr>sk_out = [], sk_limit = None\<rparr>, xf_pipe = []\<rparr>"

definition sample_env :: xfer_env where
  "sample_env =
     \<lparr>xe_zero_copy = True, xe_splice_supported = True, xe_pipe_ok = True, xe_single_core = False\<rparr>"

lemma sample_ready: "ready sample_env sample_xfer" "input sample_xfer = sample_chunked @ ''GET''"
  by (simp_all add: ready_def sample_xfer_def sample_env_def input_def sample_chunked_def line0_def)

section \<open>Properties\<close>

text \<open>
  C30. Body bytes are copied exactly and the copying strategy is invisible: for every segmentation
  of the source, every split between buffer and socket and every body length, splicing through the
  pipe and copying through a buffer of either build deliver the same bytes, the first \<open>n\<close> of the
  input, and return the same result; a source that ends early is reported as it ended, with all
  its bytes delivered.
\<close>

theorem copy_exact_body_strategy_independent:
  assumes "ready env st" "ready env' st"
  shows "fst (copy_exact_body env n st) = fst (copy_exact_body env' n st) \<and>
    out (snd (copy_exact_body env n st)) = out (snd (copy_exact_body env' n st)) \<and>
    out (snd (copy_exact_body env n st)) = out st @ take n (input st) \<and>
    fst (copy_exact_body env n st) = (if n \<le> length (input st) then AOk () else rx_end (xf_rx st))"
proof -
  have "fst (copy_exact_body e n st) = (if n \<le> length (input st) then AOk () else rx_end (xf_rx st)) \<and>
      out (snd (copy_exact_body e n st)) = out st @ take n (input st)" if "ready e st" for e
    using copy_exact_body_unlimited(2) [of st e n] that by (auto simp: ready_def split: if_splits)
  from this [OF assms(1)] this [OF assms(2)] show ?thesis by simp
qed

theorem copy_exact_body_strategy_independent_witness:
  "out (snd (copy_exact_body sample_env 5 sample_xfer)) = take 5 (input sample_xfer)"
proof -
  have "out sample_xfer = []" by (simp add: sample_xfer_def)
  with copy_exact_body_strategy_independent [OF sample_ready(1) sample_ready(1), of 5] show ?thesis by simp
qed



text \<open>The end of a chunk's data is not checked: these bytes are forwarded and are no chunked body.\<close>

definition unterminated :: bytes where
  "unterminated = line3 @ (''abc'' @ ''XX'') @ line0 @ crlf"

lemma is_line_prefix:
  assumes "is_line l" "is_line l'" "l @ x = l' @ y"
  shows "l = l'"
proof -
  have short: "length l' \<le> length l" if l: "is_line l" "is_line l'" "l @ x = l' @ y" for l l' x y
  proof (rule ccontr)
    assume "\<not> length l' \<le> length l"
    moreover have "2 \<le> length l" using l(1) by (simp add: is_line_def)
    ultimately have lt: "length l - 2 < length l' - 2" "length l - 2 + length crlf \<le> length l"
      "length l - 2 + length crlf \<le> length l'" by auto
    have "occurs_at (l @ x) crlf (length l - 2) = occurs_at l crlf (length l - 2)" by (rule occurs_at_append [OF lt(2)])
    moreover have "occurs_at (l' @ y) crlf (length l - 2) = occurs_at l' crlf (length l - 2)" by (rule occurs_at_append [OF lt(3)])
    ultimately show False using l lt(1) by (auto simp: is_line_def)
  qed
  from short [OF assms] short [OF assms(2,1) assms(3) [symmetric]] have "length l = length l'" by simp
  with assms(3) show ?thesis by simp
qed

theorem chunk_end_unchecked:
  assumes "memmem_first E" "ready env st" "input st = unterminated @ rest"
  shows "(\<exists>st'. copy_chunked_body E env (Some MAX_REQUEST_BODY_BYTES) 0 st = (AOk (), st') \<and> out st' = out st @ unterminated) \<and>
    \<not> rfc_chunked unterminated p"
proof
  have lines: "is_line line3" "is_line line0" by (simp_all add: line3_def line0_def is_line_digit)
  have "loose_chunked (line0 @ crlf) []"
    unfolding loose_chunked_def by (intro chunked_body.zero lines sample_chunk_size last_line)
  then have "loose_chunked unterminated (''abc'' @ [])"
    unfolding unterminated_def append_assoc loose_chunked_def
    by (intro chunked_body.data [OF lines(1) sample_chunk_size(1)]) simp_all
  from loose_chunk_frames [OF this, of MAX_REQUEST_BODY_BYTES 0] obtain t where
    "chunk_frames (Some MAX_REQUEST_BODY_BYTES) 0 unterminated t" by (auto simp: MAX_REQUEST_BODY_BYTES_def)
  from copy_chunked_body_complete [OF this assms] show
    "\<exists>st'. copy_chunked_body E env (Some MAX_REQUEST_BODY_BYTES) 0 st = (AOk (), st') \<and> out st' = out st @ unterminated"
    by (auto simp: relays_def)
  show "\<not> rfc_chunked unterminated p"
  proof
    assume "rfc_chunked unterminated p"
    then show False
      unfolding rfc_chunked_def
    proof (cases rule: chunked_body.cases)
      case (zero l t)
      then have "l @ t = line3 @ ''abcXX'' @ line0 @ crlf" by (simp add: unterminated_def)
      from is_line_prefix [OF zero(3) lines(1) this] have "l = line3" .
      with zero sample_chunk_size show False by simp
    next
      case (data l n d e b p')
      then have "l @ d @ e @ b = line3 @ ''abcXX'' @ line0 @ crlf" by (simp add: unterminated_def)
      from is_line_prefix [OF data(3) lines(1) this] have l: "l = line3" .
      with data sample_chunk_size have "length d = 3" by simp
      moreover have "''abc'' @ ''XX'' @ line0 @ crlf = d @ crlf @ b"
        using data l by (simp add: unterminated_def)
      ultimately show False by (auto simp: length_Suc_conv eval_nat_numeral)
    qed
  qed
qed

end
