(* ===== verification/Response_Relay.thy ===== *)
theory Response_Relay
  imports Body_Copy
begin

text \<open>
  Responses on their way to the client. The bytes of a response are specified by the grammar
  \<open>response_msg\<close>: any number of 1xx heads, the final head, and a body framed as the final head says.
  \<^verbatim>\<open>read_and_forward_response\<close> of \<^verbatim>\<open>src/src/proxy/h1_fast.rs\<close> is sound and complete for it; \<^verbatim>\<open>Uring_Copy\<close>
  treats the response loop of \<^verbatim>\<open>src/src/proxy/h1_uring.rs\<close> over the same grammar. A chunked body is delimited as the
  copier delimits it (\<open>chunk_frames\<close> of \<^verbatim>\<open>Body_Copy\<close>): the bodies of RFC 9112 are among them, but the two
  bytes behind the data of a chunk are not looked at, and the number of bytes to copy is the chunk
  size plus two in \<^verbatim>\<open>usize\<close>.
\<close>

section \<open>The grammar of responses\<close>

text \<open>A head: bytes whose first blank line is at their end.\<close>

definition is_head :: "bytes \<Rightarrow> bool" where
  "is_head h \<longleftrightarrow> 4 \<le> length h \<and> occurs_at h (crlf @ crlf) (length h - 4) \<and>
     (\<forall>j < length h - 4. \<not> occurs_at h (crlf @ crlf) j)"

fun body_msg :: "usize option \<Rightarrow> body_framing \<Rightarrow> bytes \<Rightarrow> bool" where
  "body_msg m NoBody b = (b = [])"
| "body_msg m (ContentLength n) b = (length b = unat n)"
| "body_msg m Chunked b = (\<exists>t. chunk_frames m 0 b t)"
| "body_msg m CloseDelimited b = True"

inductive response_msg ::
  "(bytes \<Rightarrow> (response_head, h1_error) outcome) \<Rightarrow> response_head \<Rightarrow> bytes \<Rightarrow> bool"
  for parse where
  interim: "is_head h \<Longrightarrow> parse h = Ok r \<Longrightarrow> informational (rs_status r) \<Longrightarrow>
    response_msg parse resp c \<Longrightarrow> response_msg parse resp (h @ c)"
| final: "is_head h \<Longrightarrow> parse h = Ok resp \<Longrightarrow> \<not> informational (rs_status resp) \<Longrightarrow>
    body_msg None (rs_body resp) b \<Longrightarrow> response_msg parse resp (h @ b)"

section \<open>Heads\<close>

lemma read_header_block_is_head:
  assumes "memmem_first E" "read_header_block E st = (AOk (Some k), st1)"
  shows "is_head (take k (xf_buf st1))" "k \<le> length (xf_buf st1)"
proof -
  obtain i where i: "k = i + 4" "k \<le> length (xf_buf st1)" "occurs_at (input st) (crlf @ crlf) i"
    "\<forall>j < i. \<not> occurs_at (input st) (crlf @ crlf) j" using read_header_block_first [OF assms] by blast
  show len: "k \<le> length (xf_buf st1)" by (rule i(2))
  have "input st = take k (xf_buf st1) @ drop k (xf_buf st1) @ rx_data (xf_rx st1)"
    using read_header_block_Ok(1) [OF assms(2)] by (simp add: input_def flip: append_assoc)
  then have "occurs_at (input st) (crlf @ crlf) j = occurs_at (take k (xf_buf st1)) (crlf @ crlf) j"
    if "j \<le> i" for j
    using that i(1) len by (simp only:, intro occurs_at_append) simp
  with i len show "is_head (take k (xf_buf st1))" by (simp add: is_head_def)
qed

lemma head_occurs:
  assumes "is_head h" "input st = h @ rest"
  shows "occurs_at (input st) (crlf @ crlf) (length h - 4)"
    "j < length h - 4 \<Longrightarrow> \<not> occurs_at (input st) (crlf @ crlf) j"
proof -
  have same: "occurs_at (input st) (crlf @ crlf) j = occurs_at h (crlf @ crlf) j" if "j \<le> length h - 4" for j
    unfolding assms(2) using that assms(1) by (intro occurs_at_append) (auto simp: is_head_def)
  show "occurs_at (input st) (crlf @ crlf) (length h - 4)"
    unfolding same [OF order_refl] using assms(1) by (simp add: is_head_def)
  show "j < length h - 4 \<Longrightarrow> \<not> occurs_at (input st) (crlf @ crlf) j"
    using assms(1) same [of j] by (auto simp: is_head_def)
qed

text \<open>A head of at most 64 KiB that is in the input is found, however it is segmented.\<close>

lemma read_header_block_complete:
  assumes "memmem_first E" "is_head h" "length h \<le> MAX_HEADER_BYTES" "input st = h @ rest"
  shows "\<exists>st1. read_header_block E st = (AOk (Some (length h)), st1)"
  using assms(4)
proof (induction st rule: fill_induct)
  case (1 st)
  have len4: "4 \<le> length h" using assms(2) by (simp add: is_head_def)
  note occ = head_occurs [OF assms(2) "1.prems"]
  show ?case
  proof (cases "lib_memmem_find E (xf_buf st) (crlf @ crlf)")
    case (Some k)
    have k: "occurs_at (xf_buf st) (crlf @ crlf) k" "\<forall>j < k. \<not> occurs_at (xf_buf st) (crlf @ crlf) j"
      using memmem_first_Some [OF assms(1) Some] by simp_all
    have len: "k + 4 \<le> length (xf_buf st)" using occurs_at_bound [OF k(1)] by simp
    have same: "occurs_at (input st) (crlf @ crlf) j = occurs_at (xf_buf st) (crlf @ crlf) j" if "j \<le> k" for j
      unfolding input_def using that len by (intro occurs_at_append) simp
    have "k = length h - 4"
    proof (rule antisym)
      show "k \<le> length h - 4" using same [of "length h - 4"] k(2) occ(1) by (meson not_le less_imp_le)
      show "length h - 4 \<le> k" using same [of k] k(1) occ(2) [of k] by (meson not_le order_refl)
    qed
    with Some len4 show ?thesis by (simp add: read_header_block.simps [of E st])
  next
    case None
    have short: "length (xf_buf st) < length h"
    proof (rule ccontr)
      assume long: "\<not> length (xf_buf st) < length h"
      then have "length h - 4 + length (crlf @ crlf) \<le> length (xf_buf st)" using len4 by simp
      from occurs_at_append [OF this, of "rx_data (xf_rx st)"] occ(1)
      have "occurs_at (xf_buf st) (crlf @ crlf) (length h - 4)" by (simp add: input_def)
      moreover have "length h - 4 \<le> length (xf_buf st)" using long by simp
      ultimately show False using memmem_first_None [OF assms(1) None] by blast
    qed
    with "1.prems" have "rx_data (xf_rx st) \<noteq> []" by (auto simp: input_def)
    then obtain d rx where d: "sock_read READ_CHUNK_BYTES (xf_rx st) = (Got d, rx)" "d \<noteq> []"
      using sock_read_progress [OF _ READ_CHUNK_pos] by blast
    have "read_header_block E st = read_header_block E (st\<lparr>xf_rx := rx, xf_buf := xf_buf st @ d\<rparr>)"
      using None d short assms(3) by (simp add: read_header_block.simps [of E st])
    with "1.IH" [OF d] fill_input(1) [OF d(1)] "1.prems" show ?thesis by simp
  qed
qed

section \<open>Bodies\<close>

lemma write_rest_AOk:
  assumes "(if xf_buf st \<noteq> [] then abind (xwrite (xf_buf st) st) (\<lambda>_ st1. (AOk (), st1\<lparr>xf_buf := []\<rparr>))
      else (AOk (), st)) = (AOk u, st')" "xf_pipe st = []"
  shows "relays (xf_buf st) st st'" "xf_buf st' = []"
proof -
  have "relays (xf_buf st) st st' \<and> xf_buf st' = []"
  proof (cases "xf_buf st = []")
    case True
    with assms show ?thesis by simp
  next
    case False
    with assms(1) obtain st1 where w: "xwrite (xf_buf st) st = (AOk (), st1)" and "st' = st1\<lparr>xf_buf := []\<rparr>"
      by (auto simp: abind_AOk)
    with xwrite_AOk [OF w] assms(2) show ?thesis by (simp add: relays_def input_def in_size_def)
  qed
  then show "relays (xf_buf st) st st'" "xf_buf st' = []" by simp_all
qed

lemma drained_relays:
  assumes "rx_data (xf_rx st') = []" "out st' = out st @ rx_data (xf_rx st)" "xf_buf st' = xf_buf st"
    "xf_pipe st' = []" "rx_size (xf_rx st) = length (rx_data (xf_rx st)) + rx_size (xf_rx st')" "xf_buf st = []"
  shows "relays (rx_data (xf_rx st)) st st'" "input st' = []"
  using assms by (simp_all add: relays_def input_def in_size_def)

lemma copy_close_delimited_AOk:
  assumes "copy_body E env CloseDelimited m st = (AOk u, st')" "xf_pipe st = []"
  shows "\<exists>b. relays b st st' \<and> input st' = []"
proof -
  from assms(1) obtain st2 where f: "(if xf_buf st \<noteq> []
      then abind (xwrite (xf_buf st) st) (\<lambda>_ st1. (AOk (), st1\<lparr>xf_buf := []\<rparr>))
      else (AOk (), st)) = (AOk (), st2)"
    and r: "(if xe_zero_copy env \<and> xe_splice_supported env then
        (if xe_pipe_ok env then abind (splice_stream 0 st2) (\<lambda>_ st3. (AOk (), st3)) else (io_err, st2))
        else copy_stream st2) = (AOk u, st')"
    unfolding copy_body_def by (auto simp: abind_AOk)
  note st2 = write_rest_AOk [OF f assms(2)]
  have "relays (rx_data (xf_rx st2)) st2 st' \<and> input st' = []"
  proof (cases "xe_zero_copy env \<and> xe_splice_supported env")
    case True
    with r obtain t where "splice_stream 0 st2 = (AOk t, st')" by (auto simp: abind_AOk split: if_splits)
    from splice_stream_AOk [OF this relays_pipe [OF st2(1)]] show ?thesis
      using drained_relays [of st' st2] st2(2) by simp
  next
    case False
    with r have c: "copy_stream st2 = (AOk u, st')" by simp
    have "xf_pipe st' = []" using copy_stream_AOk(4) [OF c] relays_pipe [OF st2(1)] by simp
    with copy_stream_AOk(1-3,5) [OF c] st2(2) show ?thesis using drained_relays [of st' st2] by simp
  qed
  with relays_trans [OF st2(1)] show ?thesis by blast
qed

lemma copy_body_AOk:
  assumes "copy_body E env body m st = (AOk u, st')" "xf_pipe st = []"
  shows "\<exists>b. relays b st st' \<and> (memmem_first E \<longrightarrow> body_msg m body b) \<and>
    (body = CloseDelimited \<longrightarrow> input st' = [])"
proof (cases body)
  case NoBody
  with assms show ?thesis by (auto simp: copy_body_def intro!: exI [of _ "[]"])
next
  case (ContentLength n)
  with assms copy_exact_body_AOk [of env "unat n" st u st'] show ?thesis
    by (auto simp: copy_body_def)
next
  case Chunked
  with assms(1) have "copy_chunked_body E env m 0 st = (AOk u, st')" by (simp add: copy_body_def)
  from copy_chunked_body_sound [OF this assms(2)] Chunked show ?thesis by fastforce
next
  case CloseDelimited
  with assms copy_close_delimited_AOk [of E env m st u st'] show ?thesis by auto
qed

lemma copy_body_complete:
  assumes "memmem_first E" "ready env st" "input st = b @ rest" "body_msg m body b" "body \<noteq> CloseDelimited"
  shows "\<exists>st'. copy_body E env body m st = (AOk (), st') \<and> input st' = rest \<and> relays b st st'"
proof (cases body)
  case NoBody
  with assms show ?thesis by (auto simp: copy_body_def ready_def)
next
  case (ContentLength n)
  with assms(4) copy_exact_body_complete [OF assms(2,3), of "unat n"] show ?thesis
    by (auto simp: copy_body_def)
next
  case Chunked
  with assms(4) obtain t where "chunk_frames m 0 b t" by auto
  from copy_chunked_body_complete [OF this assms(1-3)] Chunked show ?thesis by (simp add: copy_body_def)
qed (use assms in simp)

interpretation body: relay "copy_body E env body m" for E env body m
  by unfold_locales (use copy_body_AOk in blast)

section \<open>Responses of the fast engine\<close>

lemma write_head_relays:
  assumes "read_header_block E st = (AOk (Some k), st1)" "k \<le> n" "n \<le> length (xf_buf st1)"
    "xwrite (take n (xf_buf st1)) st1 = (AOk (), st2)" "xf_pipe st = []"
  shows "relays (take n (xf_buf st1)) st (st2\<lparr>xf_buf := discard_buffer_prefix (xf_buf st2) n\<rparr>)"
  using read_header_block_Ok(1-4) [OF assms(1)] xwrite_AOk [OF assms(4)] assms(2,3,5)
  by (simp add: relays_def input_def in_size_def discard_buffer_prefix_drop flip: append_assoc)

lemma forward_response_cases:
  assumes "read_and_forward_response E env hr st = (AOk resp, st')"
  obtains (interim) k st1 r st2 where "read_header_block E st = (AOk (Some k), st1)"
      "k \<le> length (xf_buf st1)" "parse_response E (take k (xf_buf st1)) hr = Ok r"
      "informational (rs_status r)" "xwrite (take k (xf_buf st1)) st1 = (AOk (), st2)"
      "read_and_forward_response E env hr
         (st2\<lparr>xf_buf := discard_buffer_prefix (xf_buf st2) k\<rparr>) = (AOk resp, st')"
  | (final) k st1 n st2 where "read_header_block E st = (AOk (Some k), st1)"
      "k \<le> length (xf_buf st1)" "parse_response E (take k (xf_buf st1)) hr = Ok resp"
      "\<not> informational (rs_status resp)" "n = coalesced_len resp k (length (xf_buf st1) - k)"
      "xwrite (take n (xf_buf st1)) st1 = (AOk (), st2)"
      "(case rs_body resp of
          ContentLength len \<Rightarrow> copy_exact_body env (unat len - (n - k))
            (st2\<lparr>xf_buf := discard_buffer_prefix (xf_buf st2) n\<rparr>)
        | b \<Rightarrow> copy_body E env b None (st2\<lparr>xf_buf := discard_buffer_prefix (xf_buf st2) n\<rparr>)) = (AOk (), st')"
proof -
  note eq = assms [unfolded read_and_forward_response.simps [of E env hr st]]
  from eq obtain h st1 where h: "read_header_block E st = (AOk h, st1)" by (auto simp: abind_AOk)
  then obtain k where k: "h = Some k" using eq by (cases h) simp_all
  note h = h [unfolded k]
  from eq h k have len: "k \<le> length (xf_buf st1)" by (auto split: if_splits)
  from eq h k len obtain r where r: "parse_response E (take k (xf_buf st1)) hr = Ok r"
    by (cases "parse_response E (take k (xf_buf st1)) hr") auto
  show thesis
  proof (cases "informational (rs_status r)")
    case True
    with eq h k len r show thesis by (auto simp: abind_AOk intro: interim [OF h len r])
  next
    case False
    with eq h k len r show thesis
      by (auto simp: abind_AOk Let_def intro: final [OF h len _ _ refl])
  qed
qed

lemma coalesced_len_bounds:
  "k \<le> coalesced_len resp k b" "coalesced_len resp k b \<le> k + b"
  by (simp_all add: coalesced_len_def split: body_framing.split)

lemma forward_final_body:
  assumes "n = coalesced_len resp k (length (xf_buf st1) - k)" "k \<le> length (xf_buf st1)" "xf_pipe st3 = []"
    "(case rs_body resp of ContentLength len \<Rightarrow> copy_exact_body env (unat len - (n - k)) st3
      | b \<Rightarrow> copy_body E env b None st3) = (AOk (), st')"
  shows "\<exists>b. relays b st3 st' \<and> (memmem_first E \<longrightarrow>
      body_msg None (rs_body resp) (drop k (take n (xf_buf st1)) @ b)) \<and>
    (rs_body resp = CloseDelimited \<longrightarrow> input st' = [])"
proof (cases "rs_body resp")
  case (ContentLength len)
  with assms(4) have "copy_exact_body env (unat len - (n - k)) st3 = (AOk (), st')" by simp
  from copy_exact_body_AOk [OF this assms(3)] obtain c where
    c: "length c = unat len - (n - k)" "relays c st3 st'" by blast
  have "n = k + min (length (xf_buf st1) - k) (unat len)" using assms(1) ContentLength by (simp add: coalesced_len_def)
  with c(1) assms(2) have "length (drop k (take n (xf_buf st1)) @ c) = unat len" by simp
  with c(2) ContentLength show ?thesis by auto
qed (use assms copy_body_AOk [OF _ assms(3), of E env "rs_body resp" None "()" st'] in
  \<open>auto simp: coalesced_len_def\<close>)

lemma forward_response_sound:
  assumes "read_and_forward_response E env hr st = (AOk resp, st')" "xf_pipe st = []"
  shows "\<exists>c. relays c st st' \<and>
    (memmem_first E \<longrightarrow> response_msg (\<lambda>h. parse_response E h hr) resp c) \<and>
    (rs_body resp = CloseDelimited \<longrightarrow> input st' = [])"
  using assms
proof (induction E env hr st rule: read_and_forward_response.induct)
  case (1 E env hr st)
  let ?parse = "\<lambda>h. parse_response E h hr"
  from "1.prems"(1) show ?case
  proof (cases rule: forward_response_cases)
    case (interim k st1 r st2)
    let ?h = "take k (xf_buf st1)" and ?st = "st2\<lparr>xf_buf := discard_buffer_prefix (xf_buf st2) k\<rparr>"
    have rel: "relays ?h st ?st"
      by (rule write_head_relays [OF interim(1) order_refl interim(2,5) "1.prems"(2)])
    from "1.IH" [OF interim(1) refl _ interim(3,4,5,6) relays_pipe [OF rel]] interim(2)
    obtain c where c: "relays c ?st st'" "memmem_first E \<longrightarrow> response_msg ?parse resp c"
      "rs_body resp = CloseDelimited \<longrightarrow> input st' = []" by auto
    have "response_msg ?parse resp (?h @ c)" if "memmem_first E"
      using c(2) that interim(3,4) read_header_block_is_head(1) [OF that interim(1)]
      by (intro response_msg.interim [of _ _ r]) simp_all
    with relays_trans [OF rel c(1)] c(3) show ?thesis by blast
  next
    case (final k st1 n st2)
    let ?w = "take n (xf_buf st1)" and ?st = "st2\<lparr>xf_buf := discard_buffer_prefix (xf_buf st2) n\<rparr>"
    have n: "k \<le> n" "n \<le> length (xf_buf st1)"
      using coalesced_len_bounds [where k = k and resp = resp and b = "length (xf_buf st1) - k"] final(2,5) by simp_all
    have rel: "relays ?w st ?st" by (rule write_head_relays [OF final(1) n final(6) "1.prems"(2)])
    from forward_final_body [OF final(5,2) relays_pipe [OF rel] final(7)] obtain b where
      b: "relays b ?st st'" "memmem_first E \<longrightarrow> body_msg None (rs_body resp) (drop k ?w @ b)"
        "rs_body resp = CloseDelimited \<longrightarrow> input st' = []" by blast
    have w: "?w = take k (xf_buf st1) @ drop k ?w" using n(1) by (metis append_take_drop_id min.absorb1 take_take)
    have "response_msg ?parse resp (?w @ b)" if "memmem_first E"
      using b(2) that final(3,4) read_header_block_is_head(1) [OF that final(1)]
      by (subst w, unfold append_assoc, intro response_msg.final) simp_all
    with relays_trans [OF rel b(1)] b(3) show ?thesis by blast
  qed
qed

interpretation response: relay "read_and_forward_response E env hr" for E env hr
  by unfold_locales (use forward_response_sound in blast)

text \<open>
  Completeness. \<^verbatim>\<open>read_header_block\<close> is certain to accept heads of at most 64 KiB, so the grammar is
  instantiated with a parser that refuses longer ones.
\<close>

definition bounded_parse ::
  "(bytes \<Rightarrow> (response_head, h1_error) outcome) \<Rightarrow> bytes \<Rightarrow> (response_head, h1_error) outcome" where
  "bounded_parse parse h =
     (if length h \<le> MAX_HEADER_BYTES then parse h else Err (Parse ''headers too large''))"

lemma bounded_parse_Ok [simp]:
  "bounded_parse parse h = Ok r \<longleftrightarrow> length h \<le> MAX_HEADER_BYTES \<and> parse h = Ok r"
  by (simp add: bounded_parse_def)

lemma read_head_complete:
  assumes "memmem_first E" "ready env st" "is_head h" "length h \<le> MAX_HEADER_BYTES" "input st = h @ rest"
  shows "\<exists>st1. read_header_block E st = (AOk (Some (length h)), st1) \<and> length h \<le> length (xf_buf st1) \<and>
    take (length h) (xf_buf st1) = h \<and> drop (length h) (xf_buf st1) @ rx_data (xf_rx st1) = rest \<and>
    ready env st1"
proof -
  obtain st1 where st1: "read_header_block E st = (AOk (Some (length h)), st1)"
    using read_header_block_complete [OF assms(1,3,4,5)] by blast
  have len: "length h \<le> length (xf_buf st1)" by (rule read_header_block_is_head(2) [OF assms(1) st1])
  have "take (length h) (xf_buf st1) @ drop (length h) (xf_buf st1) @ rx_data (xf_rx st1) = h @ rest"
    using read_header_block_Ok(1) [OF st1] assms(5) by (simp add: input_def flip: append_assoc)
  with len have "take (length h) (xf_buf st1) = h" "drop (length h) (xf_buf st1) @ rx_data (xf_rx st1) = rest"
    by (simp_all add: append_eq_append_conv)
  moreover have "ready env st1" using read_header_block_Ok(3,4) [OF st1] assms(2) by (simp add: ready_def)
  ultimately show ?thesis using st1 len by blast
qed

text \<open>Writing a prefix of the buffer that starts with the head.\<close>

lemma write_prefix_complete:
  assumes "ready env st1" "n \<le> length (xf_buf st1)"
  shows "\<exists>st2. xwrite (take n (xf_buf st1)) st1 = (AOk (), st2) \<and>
    ready env (st2\<lparr>xf_buf := discard_buffer_prefix (xf_buf st2) n\<rparr>) \<and>
    input (st2\<lparr>xf_buf := discard_buffer_prefix (xf_buf st2) n\<rparr>) =
      drop n (xf_buf st1) @ rx_data (xf_rx st1)"
  using assms xwrite_unlimited [of st1 "take n (xf_buf st1)"]
  by (auto simp: ready_def input_def discard_buffer_prefix_drop)

lemma forward_response_complete:
  assumes "response_msg (bounded_parse (\<lambda>h. parse_response E h hr)) resp c" "memmem_first E"
    "ready env st" "input st = c @ rest" "rs_body resp \<noteq> CloseDelimited"
  shows "\<exists>st'. read_and_forward_response E env hr st = (AOk resp, st') \<and> input st' = rest"
  using assms
proof (induction arbitrary: st rule: response_msg.induct)
  case (interim h r resp c)
  have inp: "input st = h @ c @ rest" using interim.prems(3) by simp
  have h: "length h \<le> MAX_HEADER_BYTES" "parse_response E h hr = Ok r" using interim.hyps(2) by simp_all
  from read_head_complete [OF interim.prems(1,2) interim.hyps(1) h(1) inp] obtain st1 where
    st1: "read_header_block E st = (AOk (Some (length h)), st1)" "length h \<le> length (xf_buf st1)"
      "take (length h) (xf_buf st1) = h" "drop (length h) (xf_buf st1) @ rx_data (xf_rx st1) = c @ rest"
      "ready env st1" by blast
  from write_prefix_complete [OF st1(5,2)] obtain st2 where
    st2: "xwrite h st1 = (AOk (), st2)"
      "ready env (st2\<lparr>xf_buf := discard_buffer_prefix (xf_buf st2) (length h)\<rparr>)"
      "input (st2\<lparr>xf_buf := discard_buffer_prefix (xf_buf st2) (length h)\<rparr>) = c @ rest"
    by (auto simp: st1(3,4))
  from interim.IH [OF interim.prems(1) st2(2,3) interim.prems(4)] st1(1-3) h(2) interim.hyps(3) st2(1)
  show ?case by (simp add: read_and_forward_response.simps [of E env hr st] not_less)
next
  case (final h resp b)
  have inp: "input st = h @ b @ rest" using final.prems(3) by simp
  have h: "length h \<le> MAX_HEADER_BYTES" "parse_response E h hr = Ok resp" using final.hyps(2) by simp_all
  from read_head_complete [OF final.prems(1,2) final.hyps(1) h(1) inp] obtain st1 where
    st1: "read_header_block E st = (AOk (Some (length h)), st1)" "length h \<le> length (xf_buf st1)"
      "take (length h) (xf_buf st1) = h" "drop (length h) (xf_buf st1) @ rx_data (xf_rx st1) = b @ rest"
      "ready env st1" by blast
  define n where "n = coalesced_len resp (length h) (length (xf_buf st1) - length h)"
  have n: "length h \<le> n" "n \<le> length (xf_buf st1)"
    using coalesced_len_bounds [where k = "length h" and resp = resp and b = "length (xf_buf st1) - length h"]
      st1(2) by (simp_all add: n_def)
  from write_prefix_complete [OF st1(5) n(2)] obtain st2 where
    st2: "xwrite (take n (xf_buf st1)) st1 = (AOk (), st2)"
      "ready env (st2\<lparr>xf_buf := discard_buffer_prefix (xf_buf st2) n\<rparr>)"
      "input (st2\<lparr>xf_buf := discard_buffer_prefix (xf_buf st2) n\<rparr>) =
         drop n (xf_buf st1) @ rx_data (xf_rx st1)" by blast
  let ?st3 = "st2\<lparr>xf_buf := discard_buffer_prefix (xf_buf st2) n\<rparr>"
  have "drop (n - length h) (b @ rest) = drop n (xf_buf st1) @ rx_data (xf_rx st1)"
    unfolding st1(4) [symmetric] using n by simp
  with st2(3) have in3: "input ?st3 = drop (n - length h) (b @ rest)" by simp
  have "\<exists>st'. (case rs_body resp of
      ContentLength len \<Rightarrow> copy_exact_body env (unat len - (n - length h)) ?st3
    | b \<Rightarrow> copy_body E env b None ?st3) = (AOk (), st') \<and> input st' = rest"
  proof (cases "rs_body resp")
    case (ContentLength len)
    then have "n - length h \<le> unat len" "length b = unat len"
      using final.hyps(4) by (simp_all add: n_def coalesced_len_def)
    with in3 have "input ?st3 = drop (n - length h) b @ rest" "length (drop (n - length h) b) = unat len - (n - length h)"
      by simp_all
    from copy_exact_body_complete [OF st2(2) this] ContentLength show ?thesis by auto
  qed (use copy_body_complete [OF final.prems(1) st2(2), of b rest None "rs_body resp"] final.hyps(4)
      final.prems(4) in3 in \<open>auto simp: n_def coalesced_len_def\<close>)
  then show ?case using st1(1-3) st2(1) h(2) final.hyps(3)
    by (auto simp: read_and_forward_response.simps [of E env hr st] not_less Let_def n_def [symmetric])
qed

section \<open>A sample\<close>

definition sample_head :: bytes where
  "sample_head = ''HTTP/1.1 200 OK'' @ crlf @ ''Content-Length: 5'' @ crlf @ crlf"

definition sample_response :: response_head where
  "sample_response = \<lparr>rs_status = 200, rs_close_after_response = False, rs_body = ContentLength 5\<rparr>"

lemma sample_head_parsed:
  "lib_parse_response sample_lib sample_head =
     Some (True, \<lparr>ps_code = Some 200, ps_version = Some 1, ps_headers = [(''Content-Length'', ''5'')]\<rparr>)"
proof -
  have "crlf_lines [] sample_head = [''HTTP/1.1 200 OK'', ''Content-Length: 5'', [], []]"
    "split_on (CHR '' '') ''HTTP/1.1 200 OK'' = [''HTTP/1.1'', ''200'', ''OK'']"
    "sample_headers [''Content-Length: 5'', [], []] = [(''Content-Length'', ''5'')]"
    "sample_version ''HTTP/1.1'' = Some 1" "show_nat 200 = ''200''" by code_simp+
  moreover have "parse_usize (show_nat (unat (200 :: usize))) = Some 200" by (simp only: std_simps)
  ultimately show ?thesis by (simp add: sample_parse_response_def)
qed

lemma sample_body_kind_5: "body_kind [(''Content-Length'', ''5'')] False = Ok (ContentLength 5)"
proof -
  have "values_of ''transfer-encoding'' [(''Content-Length'', ''5'')] = []"
    "values_of ''content-length'' [(''Content-Length'', ''5'')] = [''5'']" by code_simp+
  then show ?thesis unfolding body_kind_ContentLength using parse_length_sample by blast
qed

lemma sample_parse: "parse_response sample_lib sample_head False = Ok sample_response"
proof -
  have "\<not> request_wants_close False [(''Content-Length'', ''5'')]" by code_simp
  then show ?thesis
    by (simp add: parse_response_def sample_head_parsed informational_def sample_body_kind_5
        or_close_delimited_def response_wants_close_def sample_response_def del: sample_lib_simps)
qed

lemma sample_is_head: "is_head sample_head"
  by code_simp

definition sample_upstream :: xfer where
  "sample_upstream =
     \<lparr>xf_rx = [RxData (take 10 sample_head), RxData (drop 10 sample_head @ ''he''), RxData ''llo''],
      xf_buf = [], xf_tx = \<lparr>sk_out = [], sk_limit = None\<rparr>, xf_pipe = []\<rparr>"

lemma sample_upstream_ready: "ready sample_env sample_upstream"
  "input sample_upstream = (sample_head @ ''hello'') @ []"
proof -
  show "ready sample_env sample_upstream" by (simp add: ready_def sample_upstream_def sample_env_def)
  have "take 10 sample_head @ drop 10 sample_head @ ''hello'' = sample_head @ ''hello''"
    by (simp flip: append_assoc)
  then show "input sample_upstream = (sample_head @ ''hello'') @ []"
    by (simp add: input_def sample_upstream_def)
qed

lemma sample_response_msg:
  "response_msg (bounded_parse (\<lambda>h. parse_response sample_lib h False)) sample_response (sample_head @ ''hello'')"
proof (rule response_msg.final)
  show "is_head sample_head" by (rule sample_is_head)
  have "length sample_head \<le> MAX_HEADER_BYTES" by code_simp
  then show "bounded_parse (\<lambda>h. parse_response sample_lib h False) sample_head = Ok sample_response"
    by (simp add: sample_parse)
qed (simp_all add: sample_response_def informational_def)

section \<open>Properties\<close>

text \<open>
  C14. The client receives the upstream's response verbatim. When \<^verbatim>\<open>read_and_forward_response\<close> succeeds,
  the bytes it forwarded are one complete response of the grammar (interim heads, final head, body
  as the final head frames it, chunked ones as delimited by \<^verbatim>\<open>copy_chunked_body\<close>), they are the front of
  what the upstream sent, and what follows
  them is still unread, unless the body runs to the close of the connection, in which case
  everything was forwarded. Conversely every complete response with heads of at most 64 KiB and a
  self-delimiting body is forwarded, whatever its segmentation and the copying strategy.
\<close>

theorem response_forwarded_verbatim:
  assumes "memmem_first E" "ready env st"
  shows "(read_and_forward_response E env hr st = (AOk resp, st') \<longrightarrow>
      (\<exists>c. response_msg (\<lambda>h. parse_response E h hr) resp c \<and> input st = c @ input st' \<and>
         out st' = out st @ c \<and> (rs_body resp = CloseDelimited \<longrightarrow> input st' = []))) \<and>
    (response_msg (bounded_parse (\<lambda>h. parse_response E h hr)) resp c \<and> input st = c @ rest \<and>
       rs_body resp \<noteq> CloseDelimited \<longrightarrow>
      (\<exists>st''. read_and_forward_response E env hr st = (AOk resp, st'') \<and> input st'' = rest \<and>
         out st'' = out st @ c))"
proof (intro conjI impI)
  assume ok: "read_and_forward_response E env hr st = (AOk resp, st')"
  have "xf_pipe st = []" using assms(2) by (simp add: ready_def)
  from forward_response_sound [OF ok this] assms(1) show
    "\<exists>c. response_msg (\<lambda>h. parse_response E h hr) resp c \<and> input st = c @ input st' \<and>
       out st' = out st @ c \<and> (rs_body resp = CloseDelimited \<longrightarrow> input st' = [])"
    by (auto simp: relays_def)
next
  assume c: "response_msg (bounded_parse (\<lambda>h. parse_response E h hr)) resp c \<and> input st = c @ rest \<and>
    rs_body resp \<noteq> CloseDelimited"
  with forward_response_complete [of E hr resp c env st rest] assms obtain st'' where
    st'': "read_and_forward_response E env hr st = (AOk resp, st'')" "input st'' = rest" by blast
  have "xf_pipe st = []" using assms(2) by (simp add: ready_def)
  from response.conserves [OF this st''(1)] c st''(2) have "out st'' = out st @ c" by simp
  with st'' show "\<exists>st''. read_and_forward_response E env hr st = (AOk resp, st'') \<and> input st'' = rest \<and>
    out st'' = out st @ c" by blast
qed

theorem response_forwarded_verbatim_witness:
  "\<exists>st''. read_and_forward_response sample_lib sample_env False sample_upstream = (AOk sample_response, st'') \<and>
     input st'' = [] \<and> out st'' = out sample_upstream @ sample_head @ ''hello''"
  using response_forwarded_verbatim [OF sample_memmem_first sample_upstream_ready(1)]
    sample_response_msg sample_upstream_ready(2)
  by (auto simp: sample_response_def)

text \<open>
  Heads: \<^verbatim>\<open>read_header_block\<close> returns the end of the first blank line of the input, however the
  input is segmented; every head of at most 64 KiB is found; nothing is consumed or written; and
  the buffer never grows to 80 KiB (64 KiB plus one read) when it starts below that.
\<close>

theorem read_header_block_finds_head:
  assumes "memmem_first E"
  shows "(read_header_block E st = (AOk (Some k), st') \<longrightarrow>
      is_head (take k (xf_buf st')) \<and> k \<le> length (xf_buf st') \<and> input st' = input st \<and> out st' = out st \<and>
      (length (xf_buf st) < MAX_HEADER_BYTES + READ_CHUNK_BYTES \<longrightarrow>
       length (xf_buf st') < MAX_HEADER_BYTES + READ_CHUNK_BYTES)) \<and>
    (is_head h \<and> length h \<le> MAX_HEADER_BYTES \<and> input st = h @ rest \<longrightarrow>
      fst (read_header_block E st) = AOk (Some (length h)))"
proof (intro conjI impI)
  assume ok: "read_header_block E st = (AOk (Some k), st')"
  show "is_head (take k (xf_buf st'))" "k \<le> length (xf_buf st')"
    by (rule read_header_block_is_head [OF assms ok])+
  show "input st' = input st" "out st' = out st" using read_header_block_Ok(1,3) [OF ok] by simp_all
  show "length (xf_buf st') < MAX_HEADER_BYTES + READ_CHUNK_BYTES"
    if "length (xf_buf st) < MAX_HEADER_BYTES + READ_CHUNK_BYTES"
    using read_header_block_first [OF assms ok] that by blast
next
  assume "is_head h \<and> length h \<le> MAX_HEADER_BYTES \<and> input st = h @ rest"
  with read_header_block_complete [OF assms, of h st rest] show
    "fst (read_header_block E st) = AOk (Some (length h))" by auto
qed

theorem read_header_block_finds_head_witness:
  "fst (read_header_block sample_lib sample_upstream) = AOk (Some (length sample_head))"
proof -
  have "length sample_head \<le> MAX_HEADER_BYTES" by code_simp
  then show ?thesis
    using read_header_block_finds_head [OF sample_memmem_first] sample_is_head sample_upstream_ready(2) by simp
qed

end
