(* ===== verification/Conn_Pool.thy ===== *)
theory Conn_Pool
  imports Http1_Framing Net_Addr "HOL-Library.AList" "HOL-Library.Multiset"
begin

text \<open>
  Idle upstream connections: \<^verbatim>\<open>FastConnectionPool\<close> of \<^verbatim>\<open>h1_fast.rs\<close> (32 locked shards keyed by
  the upstream's id) and the thread-local \<^verbatim>\<open>URING_POOL\<close> of \<^verbatim>\<open>h1_uring.rs\<close> (one map keyed by socket
  address), with the liveness probe. A connection is a value of an arbitrary type; what
  \<^verbatim>\<open>recv(MSG_PEEK | MSG_DONTWAIT)\<close> would return on it is the parameter \<open>peek\<close>. Instants are nanoseconds.

  Both pools are instances of one interface, the locale \<open>idle_pool\<close>, in which the guarantees the
  engines rely on are proved once.
\<close>

section \<open>Definitions\<close>

definition POOL_SHARDS :: nat where
  "POOL_SHARDS = 32"

datatype recv_result = RecvEof | RecvBytes | RecvWouldBlock | RecvError

definition is_connection_alive :: "recv_result \<Rightarrow> bool" where
  "is_connection_alive res =
     (if res = RecvEof then False
      else if res = RecvBytes then False
      else res = RecvWouldBlock)"

text \<open>A \<^verbatim>\<open>Vec\<close> of idle connections: \<^verbatim>\<open>push\<close> appends, \<^verbatim>\<open>pop\<close> takes the last one.\<close>

type_synonym 'c idle = "('c \<times> nat) list"

fun pop_alive :: "('c \<Rightarrow> recv_result) \<Rightarrow> nat \<Rightarrow> nat \<Rightarrow> 'c idle \<Rightarrow> 'c option \<times> 'c idle" where
  "pop_alive peek now idle_threshold conns =
     (if conns = [] then (None, [])
      else
        (let (conn, idle_since) = last conns in
         if now - idle_since < idle_threshold \<or> is_connection_alive (peek conn)
         then (Some conn, butlast conns)
         else pop_alive peek now idle_threshold (butlast conns)))"

declare pop_alive.simps [simp del]

type_synonym 'c fast_pool = "((usize \<times> 'c idle) list) list"

definition fast_pool_new :: "'c fast_pool" where
  "fast_pool_new = replicate POOL_SHARDS []"

definition pool_shard_idx :: "usize \<Rightarrow> nat" where
  "pool_shard_idx uid = unat uid mod POOL_SHARDS"

definition checkout ::
  "('c \<Rightarrow> recv_result) \<Rightarrow> nat \<Rightarrow> nat \<Rightarrow> usize \<Rightarrow> 'c fast_pool \<Rightarrow> 'c option \<times> 'c fast_pool" where
  "checkout peek now idle_threshold uid shards =
     (let idx = pool_shard_idx uid; guard = shards ! idx in
      case map_of guard uid of
        None \<Rightarrow> (None, shards)
      | Some conns \<Rightarrow>
          (let (r, conns') = pop_alive peek now idle_threshold conns
           in (r, shards[idx := AList.update uid conns' guard])))"

definition checkin :: "nat \<Rightarrow> usize \<Rightarrow> 'c \<Rightarrow> 'c fast_pool \<Rightarrow> 'c fast_pool" where
  "checkin now uid conn shards =
     (let idx = pool_shard_idx uid; guard = shards ! idx;
          conns = (case map_of guard uid of Some cs \<Rightarrow> cs | None \<Rightarrow> [])
      in shards[idx := AList.update uid (conns @ [(conn, now)]) guard])"

type_synonym 'c uring_pool = "(socket_addr \<times> 'c idle) list"

definition checkout_uring_conn ::
  "('c \<Rightarrow> recv_result) \<Rightarrow> nat \<Rightarrow> nat \<Rightarrow> socket_addr \<Rightarrow> 'c uring_pool \<Rightarrow> 'c option \<times> 'c uring_pool"
where
  "checkout_uring_conn peek now idle_threshold addr guard =
     (case map_of guard addr of
        None \<Rightarrow> (None, guard)
      | Some conns \<Rightarrow>
          (let (r, conns') = pop_alive peek now idle_threshold conns
           in (r, AList.update addr conns' guard)))"

definition checkin_uring_conn :: "nat \<Rightarrow> socket_addr \<Rightarrow> 'c \<Rightarrow> 'c uring_pool \<Rightarrow> 'c uring_pool" where
  "checkin_uring_conn now addr conn guard =
     (let conns = (case map_of guard addr of Some cs \<Rightarrow> cs | None \<Rightarrow> [])
      in AList.update addr (conns @ [(conn, now)]) guard)"

text \<open>
  Opening a connection: \<open>dial\<close> is \<^verbatim>\<open>TcpStream::connect\<close> under the connect timeout followed by
  \<^verbatim>\<open>set_nodelay\<close>; \<open>None\<close> means that the timeout elapsed.
\<close>

definition open_connection :: "('c, io_error) outcome option \<Rightarrow> ('c, io_error) outcome" where
  "open_connection dial =
     (case dial of
        None \<Rightarrow> Err (TimedOut ''upstream connect timed out'')
      | Some r \<Rightarrow> r)"

definition get_connection ::
  "('c \<Rightarrow> recv_result) \<Rightarrow> (string \<Rightarrow> ('c, io_error) outcome option) \<Rightarrow> nat \<Rightarrow> nat \<Rightarrow> usize \<Rightarrow>
   string \<Rightarrow> 'c fast_pool \<Rightarrow> ('c, io_error) outcome \<times> 'c fast_pool" where
  "get_connection peek dial now idle_threshold uid authority pool =
     (case checkout peek now idle_threshold uid pool of
        (Some stream, pool') \<Rightarrow> (Ok stream, pool')
      | (None, pool') \<Rightarrow> (open_connection (dial authority), pool'))"

definition get_uring_connection ::
  "('c \<Rightarrow> recv_result) \<Rightarrow> (socket_addr \<Rightarrow> ('c, io_error) outcome option) \<Rightarrow> nat \<Rightarrow> nat \<Rightarrow>
   socket_addr \<Rightarrow> 'c uring_pool \<Rightarrow> ('c, io_error) outcome \<times> 'c uring_pool" where
  "get_uring_connection peek dial now idle_threshold addr pool =
     (case checkout_uring_conn peek now idle_threshold addr pool of
        (Some stream, pool') \<Rightarrow> (Ok stream, pool')
      | (None, pool') \<Rightarrow> (open_connection (dial addr), pool'))"

section \<open>One stack of idle connections\<close>

text \<open>What \<open>pop_alive\<close> does: it drops the dead tail and takes the newest usable connection.\<close>

definition usable :: "('c \<Rightarrow> recv_result) \<Rightarrow> nat \<Rightarrow> nat \<Rightarrow> 'c \<times> nat \<Rightarrow> bool" where
  "usable peek now thr e \<longleftrightarrow> now - snd e < thr \<or> peek (fst e) = RecvWouldBlock"

lemma alive_iff [simp]: "is_connection_alive r \<longleftrightarrow> r = RecvWouldBlock"
  by (cases r) (simp_all add: is_connection_alive_def)

lemma pop_alive_snoc:
  "pop_alive peek now thr (conns @ [e]) =
     (if usable peek now thr e then (Some (fst e), conns) else pop_alive peek now thr conns)"
  by (subst pop_alive.simps) (simp add: usable_def case_prod_beta Let_def)

lemma pop_alive_Nil [simp]: "pop_alive peek now thr [] = (None, [])"
  by (subst pop_alive.simps) simp

lemma pop_alive_spec:
  "(\<exists>us e vs. conns = us @ e # vs \<and> usable peek now thr e \<and> (\<forall>v \<in> set vs. \<not> usable peek now thr v) \<and>
      pop_alive peek now thr conns = (Some (fst e), us)) \<or>
   (\<forall>e \<in> set conns. \<not> usable peek now thr e) \<and> pop_alive peek now thr conns = (None, [])"
proof (induction conns rule: rev_induct)
  case (snoc e conns)
  show ?case
  proof (cases "usable peek now thr e")
    case True
    then show ?thesis by (intro disjI1 exI [of _ conns] exI [of _ e] exI [of _ "[]"]) (simp add: pop_alive_snoc)
  next
    case False
    from snoc show ?thesis
    proof (elim disjE exE conjE)
      fix us d vs
      assume "conns = us @ d # vs" "usable peek now thr d" "\<forall>v \<in> set vs. \<not> usable peek now thr v"
        "pop_alive peek now thr conns = (Some (fst d), us)"
      with False show ?thesis
        by - (rule disjI1, rule exI [of _ us], rule exI [of _ d], rule exI [of _ "vs @ [e]"],
            simp add: pop_alive_snoc flip: append_Cons append_assoc)
    qed (use False in \<open>simp add: pop_alive_snoc\<close>)
  qed
qed simp

section \<open>The interface\<close>

text \<open>
  A keyed store of stacks. \<open>idle_of\<close> is the abstraction: the stack stored under a key. The laws say
  that \<open>put\<close> pushes under its key only, that \<open>take\<close> does \<open>pop_alive\<close> under its key only, and that both
  keep the representation invariant.
\<close>

locale idle_pool =
  fixes none :: 'p
    and put :: "nat \<Rightarrow> 'k \<Rightarrow> 'c \<Rightarrow> 'p \<Rightarrow> 'p"
    and tak :: "('c \<Rightarrow> recv_result) \<Rightarrow> nat \<Rightarrow> nat \<Rightarrow> 'k \<Rightarrow> 'p \<Rightarrow> 'c option \<times> 'p"
    and idle_of :: "'p \<Rightarrow> 'k \<Rightarrow> 'c idle"
    and inv :: "'p \<Rightarrow> bool"
  assumes none_inv: "inv none"
    and none_idle: "idle_of none k = []"
    and put_inv: "inv p \<Longrightarrow> inv (put now k c p)"
    and put_idle: "inv p \<Longrightarrow> idle_of (put now k c p) = (idle_of p)(k := idle_of p k @ [(c, now)])"
    and tak_inv: "inv p \<Longrightarrow> inv (snd (tak peek now thr k p))"
    and tak_result: "inv p \<Longrightarrow> fst (tak peek now thr k p) = fst (pop_alive peek now thr (idle_of p k))"
    and tak_idle: "inv p \<Longrightarrow> idle_of (snd (tak peek now thr k p)) =
          (idle_of p)(k := snd (pop_alive peek now thr (idle_of p k)))"
begin

text \<open>A connection returned to the pool and asked for again within the threshold comes back.\<close>

lemma reuse_fresh:
  assumes "inv p" "later - now < thr"
  shows "fst (tak peek later thr k (put now k c p)) = Some c"
    "idle_of (snd (tak peek later thr k (put now k c p))) = idle_of p"
proof -
  have "pop_alive peek later thr (idle_of p k @ [(c, now)]) = (Some c, idle_of p k)"
    using assms(2) by (simp add: pop_alive_snoc usable_def)
  then show "fst (tak peek later thr k (put now k c p)) = Some c"
    "idle_of (snd (tak peek later thr k (put now k c p))) = idle_of p"
    using assms(1) by (simp_all add: tak_result tak_idle put_inv put_idle)
qed

text \<open>Only a connection stored under the same key is handed out, and only a usable one.\<close>

lemma take_usable:
  assumes "inv p" "fst (tak peek now thr k p) = Some c"
  shows "\<exists>t. (c, t) \<in> set (idle_of p k) \<and> usable peek now thr (c, t)"
  using assms pop_alive_spec [of "idle_of p k" peek now thr] by (auto simp: tak_result)

text \<open>What holds of every stored connection holds of those that are handed out and of those that stay.\<close>

lemma take_all:
  assumes "inv p" "\<forall>k c t. (c, t) \<in> set (idle_of p k) \<longrightarrow> Q k c" "tak peek now thr k p = (c, p')"
  shows "\<forall>k c t. (c, t) \<in> set (idle_of p' k) \<longrightarrow> Q k c" "c = Some u \<Longrightarrow> Q k u"
proof -
  have idle: "idle_of p' = (idle_of p)(k := snd (pop_alive peek now thr (idle_of p k)))"
    using tak_idle [OF assms(1), of peek now thr k] assms(3) by simp
  have "set (snd (pop_alive peek now thr (idle_of p k))) \<subseteq> set (idle_of p k)"
    using pop_alive_spec [of "idle_of p k" peek now thr] by auto
  with idle assms(2) show "\<forall>k c t. (c, t) \<in> set (idle_of p' k) \<longrightarrow> Q k c" by (auto split: if_splits)
  show "c = Some u \<Longrightarrow> Q k u" using take_usable [OF assms(1), of peek now thr k u] assms(2,3) by auto
qed

lemma put_all:
  assumes "inv p" "\<forall>k c t. (c, t) \<in> set (idle_of p k) \<longrightarrow> Q k c" "Q k u"
  shows "\<forall>k' c t. (c, t) \<in> set (idle_of (put now k u p) k') \<longrightarrow> Q k' c"
  using assms(2,3) unfolding put_idle [OF assms(1)] by (simp split: if_split) blast

text \<open>A usable connection under the key is never missed.\<close>

lemma take_complete:
  assumes "inv p" "e \<in> set (idle_of p k)" "usable peek now thr e"
  shows "\<exists>c. fst (tak peek now thr k p) = Some c"
  using assms pop_alive_spec [of "idle_of p k" peek now thr] by (auto simp: tak_result)

text \<open>What is handed out has left the pool: nothing is ever shared between two requests.\<close>

lemma take_removes:
  assumes "inv p" "fst (tak peek now thr k p) = Some c"
  shows "mset (map fst (idle_of (snd (tak peek now thr k p)) k)) + {#c#} \<subseteq># mset (map fst (idle_of p k))"
proof -
  from assms obtain us t vs where "idle_of p k = us @ (c, t) # vs"
    "pop_alive peek now thr (idle_of p k) = (Some c, us)"
    using pop_alive_spec [of "idle_of p k" peek now thr] by (auto simp: tak_result)
  with assms(1) show ?thesis by (simp add: tak_idle)
qed

lemma take_isolated:
  assumes "inv p" "k' \<noteq> k"
  shows "idle_of (snd (tak peek now thr k p)) k' = idle_of p k'"
    "idle_of (put now k c p) k' = idle_of p k'"
  using assms by (simp_all add: tak_idle put_idle)

end

section \<open>The two pools\<close>

definition fast_idle :: "'c fast_pool \<Rightarrow> usize \<Rightarrow> 'c idle" where
  "fast_idle shards uid =
     (case map_of (shards ! pool_shard_idx uid) uid of Some cs \<Rightarrow> cs | None \<Rightarrow> [])"

definition fast_inv :: "'c fast_pool \<Rightarrow> bool" where
  "fast_inv shards \<longleftrightarrow> length shards = POOL_SHARDS"

definition uring_idle :: "'c uring_pool \<Rightarrow> socket_addr \<Rightarrow> 'c idle" where
  "uring_idle guard addr = (case map_of guard addr of Some cs \<Rightarrow> cs | None \<Rightarrow> [])"

lemma pool_shard_idx_less [simp]: "pool_shard_idx uid < POOL_SHARDS"
  by (simp add: pool_shard_idx_def POOL_SHARDS_def)

lemma fast_idle_update:
  assumes "fast_inv shards"
  shows "fast_idle (shards[pool_shard_idx uid := AList.update uid cs (shards ! pool_shard_idx uid)]) =
    (fast_idle shards)(uid := cs)"
proof
  fix k
  show "fast_idle (shards[pool_shard_idx uid := AList.update uid cs (shards ! pool_shard_idx uid)]) k =
      ((fast_idle shards)(uid := cs)) k"
    using assms
    by (cases "pool_shard_idx k = pool_shard_idx uid")
       (auto simp: fast_idle_def fast_inv_def update_conv')
qed

lemma uring_idle_update: "uring_idle (AList.update addr cs guard) = (uring_idle guard)(addr := cs)"
  by (rule ext) (simp add: uring_idle_def update_conv')

interpretation fast: idle_pool fast_pool_new checkin checkout fast_idle fast_inv
proof unfold_locales
  fix p :: "'a fast_pool" and peek now thr k c
  show "fast_inv fast_pool_new" by (simp add: fast_inv_def fast_pool_new_def)
  show "fast_idle fast_pool_new k = []" by (simp add: fast_idle_def fast_pool_new_def)
  show "fast_inv p \<Longrightarrow> fast_inv (checkin now k c p)" by (simp add: fast_inv_def checkin_def Let_def)
  show "fast_inv p \<Longrightarrow> fast_inv (snd (checkout peek now thr k p))"
    by (simp add: fast_inv_def checkout_def Let_def split: option.split prod.split)
  assume inv: "fast_inv p"
  show "fast_idle (checkin now k c p) = (fast_idle p)(k := fast_idle p k @ [(c, now)])"
    using fast_idle_update [OF inv] by (simp add: checkin_def Let_def fast_idle_def)
  show "fst (checkout peek now thr k p) = fst (pop_alive peek now thr (fast_idle p k))"
    by (simp add: checkout_def fast_idle_def Let_def case_prod_beta split: option.split)
  show "fast_idle (snd (checkout peek now thr k p)) =
      (fast_idle p)(k := snd (pop_alive peek now thr (fast_idle p k)))"
  proof (cases "map_of (p ! pool_shard_idx k) k")
    case None
    then have "fast_idle p k = []" by (simp add: fast_idle_def)
    with None show ?thesis by (auto simp: checkout_def Let_def)
  next
    case (Some cs)
    then have "fast_idle p k = cs" by (simp add: fast_idle_def)
    with Some show ?thesis
      by (simp add: checkout_def Let_def case_prod_beta fast_idle_update [OF inv])
  qed
qed

interpretation uring: idle_pool "[]" checkin_uring_conn checkout_uring_conn uring_idle "\<lambda>_. True"
proof unfold_locales
  fix p :: "'a uring_pool" and peek now thr k c
  show "uring_idle [] k = []" by (simp add: uring_idle_def)
  show "uring_idle (checkin_uring_conn now k c p) = (uring_idle p)(k := uring_idle p k @ [(c, now)])"
    by (simp add: checkin_uring_conn_def Let_def uring_idle_update) (simp add: uring_idle_def)
  show "fst (checkout_uring_conn peek now thr k p) = fst (pop_alive peek now thr (uring_idle p k))"
    by (simp add: checkout_uring_conn_def uring_idle_def Let_def case_prod_beta split: option.split)
  show "uring_idle (snd (checkout_uring_conn peek now thr k p)) =
      (uring_idle p)(k := snd (pop_alive peek now thr (uring_idle p k)))"
  proof (cases "map_of p k")
    case None
    then have "uring_idle p k = []" by (simp add: uring_idle_def)
    with None show ?thesis by (auto simp: checkout_uring_conn_def)
  next
    case (Some cs)
    then have "uring_idle p k = cs" by (simp add: uring_idle_def)
    with Some show ?thesis
      by (simp add: checkout_uring_conn_def Let_def case_prod_beta uring_idle_update)
  qed
qed simp_all

lemma get_connection_all:
  assumes "fast_inv p" "\<forall>k c t. (c, t) \<in> set (fast_idle p k) \<longrightarrow> Q k c"
    "get_connection peek dial now thr k auth p = (r, p')"
  shows "\<forall>k c t. (c, t) \<in> set (fast_idle p' k) \<longrightarrow> Q k c" "fast_inv p'"
    "r = Ok u \<Longrightarrow> Q k u \<or> dial auth = Some (Ok u)"
proof -
  from assms(3) obtain c where c: "checkout peek now thr k p = (c, p')"
    by (auto simp: get_connection_def split: prod.splits option.splits)
  show "\<forall>k c t. (c, t) \<in> set (fast_idle p' k) \<longrightarrow> Q k c" by (rule fast.take_all(1) [where Q = Q, OF assms(1,2) c])
  show "fast_inv p'" using fast.tak_inv [OF assms(1)] c by (metis snd_conv)
  show "r = Ok u \<Longrightarrow> Q k u \<or> dial auth = Some (Ok u)"
    using fast.take_all(2) [where Q = Q, OF assms(1,2) c] assms(3) c
    by (cases c) (auto simp: get_connection_def open_connection_def split: option.splits)
qed

section \<open>Properties\<close>

text \<open>
  C29. A pooled connection is used by one request at a time: what \<^verbatim>\<open>checkout\<close> returns was checked in
  for the same upstream, is either fresh or passed the liveness probe (no end of stream and no
  unread bytes that would desynchronise the next response), and is no longer in the pool;
  connections of other upstreams are untouched.
\<close>

theorem checkout_exclusive:
  assumes "fast_inv p" "fst (checkout peek now thr k p) = Some c"
  shows "(\<exists>t. (c, t) \<in> set (fast_idle p k) \<and> (now - t < thr \<or> peek c = RecvWouldBlock)) \<and>
    mset (map fst (fast_idle (snd (checkout peek now thr k p)) k)) + {#c#}
      \<subseteq># mset (map fst (fast_idle p k)) \<and>
    (\<forall>k'. k' \<noteq> k \<longrightarrow> fast_idle (snd (checkout peek now thr k p)) k' = fast_idle p k')"
  using fast.take_usable [OF assms] fast.take_removes [OF assms] fast.take_isolated(1) [OF assms(1)]
  by (auto simp: usable_def)

definition sample_fast_pool :: "nat fast_pool" where
  "sample_fast_pool = checkin 100 5 42 (checkin 50 5 41 fast_pool_new)"

lemma sample_fast_pool_checkout:
  "fast_inv sample_fast_pool" "fst (checkout (\<lambda>_. RecvEof) 150 200 5 sample_fast_pool) = Some 42"
proof -
  show "fast_inv sample_fast_pool"
    unfolding sample_fast_pool_def by (intro fast.put_inv fast.none_inv)
  show "fst (checkout (\<lambda>_. RecvEof) 150 200 5 sample_fast_pool) = Some 42"
    unfolding sample_fast_pool_def
    by (rule fast.reuse_fresh(1)) (simp_all add: fast.put_inv fast.none_inv)
qed

theorem checkout_exclusive_witness:
  "\<exists>t. (42, t) \<in> set (fast_idle sample_fast_pool 5)"
  using checkout_exclusive [OF sample_fast_pool_checkout] by blast

text \<open>
  Connections are reused last in, first out: in both pools, a connection checked in and
  requested again within the idle threshold is returned without a probe, and the pool is back to
  what it held before.
\<close>

theorem checkin_checkout_lifo:
  assumes "fast_inv p" "later - now < thr"
  shows "fst (checkout peek later thr k (checkin now k c p)) = Some c \<and>
    fast_idle (snd (checkout peek later thr k (checkin now k c p))) = fast_idle p \<and>
    fst (checkout_uring_conn peek later thr a (checkin_uring_conn now a c q)) = Some c \<and>
    uring_idle (snd (checkout_uring_conn peek later thr a (checkin_uring_conn now a c q))) = uring_idle q"
  by (intro conjI fast.reuse_fresh uring.reuse_fresh assms TrueI)

theorem checkin_checkout_lifo_witness:
  "fst (checkout (\<lambda>_. RecvEof) 10 250 3 (checkin 0 3 (7 :: nat) fast_pool_new)) = Some 7"
  using checkin_checkout_lifo [OF fast.none_inv, of 10 0 250 "\<lambda>_. RecvEof" 3 "7 :: nat"] by simp

text \<open>
  A request only waits for a new upstream connection when it must: \<^verbatim>\<open>get_connection\<close> (in both
  engines) dials exactly if no connection under the key is usable, and reports a timeout as an error.
\<close>

theorem get_connection_dials_when_needed:
  assumes "fast_inv p"
  shows "((\<exists>e \<in> set (fast_idle p k). usable peek now thr e) \<longrightarrow>
      (\<exists>c t. fst (get_connection peek dial now thr k auth p) = Ok c \<and> (c, t) \<in> set (fast_idle p k))) \<and>
    ((\<forall>e \<in> set (fast_idle p k). \<not> usable peek now thr e) \<longrightarrow>
      fst (get_connection peek dial now thr k auth p) = open_connection (dial auth)) \<and>
    ((\<forall>e \<in> set (uring_idle q a). \<not> usable peek now thr e) \<longrightarrow>
      fst (get_uring_connection peek udial now thr a q) = open_connection (udial a))"
proof (intro conjI impI)
  assume "\<exists>e \<in> set (fast_idle p k). usable peek now thr e"
  then obtain c where c: "fst (checkout peek now thr k p) = Some c"
    using fast.take_complete [OF assms] by blast
  moreover from fast.take_usable [OF assms c] obtain t where "(c, t) \<in> set (fast_idle p k)" by blast
  ultimately show "\<exists>c t. fst (get_connection peek dial now thr k auth p) = Ok c \<and> (c, t) \<in> set (fast_idle p k)"
    by (auto simp: get_connection_def split: prod.splits option.splits)
next
  assume "\<forall>e \<in> set (fast_idle p k). \<not> usable peek now thr e"
  then have "fst (checkout peek now thr k p) = None"
    using fast.take_usable [OF assms] by (cases "fst (checkout peek now thr k p)") blast+
  then show "fst (get_connection peek dial now thr k auth p) = open_connection (dial auth)"
    by (auto simp: get_connection_def split: prod.splits option.splits)
next
  assume "\<forall>e \<in> set (uring_idle q a). \<not> usable peek now thr e"
  then have "fst (checkout_uring_conn peek now thr a q) = None"
    using uring.take_usable [OF TrueI, of peek now thr a q]
    by (cases "fst (checkout_uring_conn peek now thr a q)") blast+
  then show "fst (get_uring_connection peek udial now thr a q) = open_connection (udial a)"
    by (auto simp: get_uring_connection_def split: prod.splits option.splits)
qed

theorem get_connection_dials_when_needed_witness:
  "fst (get_connection (\<lambda>_. RecvEof) (\<lambda>_. Some (Ok (9 :: nat))) 0 250 3 ''a:80'' fast_pool_new) = Ok 9"
  using get_connection_dials_when_needed [OF fast.none_inv, of 3 "\<lambda>_. RecvEof" 0 250
      "\<lambda>_. Some (Ok (9 :: nat))" "''a:80''"]
  by (simp add: fast.none_idle open_connection_def)

end
