(* ===== verification/Transfer_Progress.thy ===== *)
theory Transfer_Progress
  imports Body_Copy
begin

text \<open>
  Why a connection's loop ends, and how soon: every reading and copying function of \<^verbatim>\<open>h1_fast.rs\<close>,
  whatever its outcome, is a sequence of reads, writes and discards. What holds of the single steps
  and composes therefore holds of each function: the locale \<open>stream_progress\<close>. It is used for
  using up what the peer will ever send (the order \<open>moves_on\<close>), for a count of the bytes the client
  can still make the engine look at (\<open>in_cost\<close>), and for how the destination ends (\<open>sink_end\<close>).

  Failing reads may pad the buffer with zeros, but each uses up an event.
\<close>

fun rx_weight :: "rx_event list \<Rightarrow> nat" where
  "rx_weight [] = 0"
| "rx_weight (RxData bs # es) = Suc (length bs) + rx_weight es"
| "rx_weight (e # es) = Suc (rx_weight es)"

lemma sock_read_weight:
  "sock_read n rx = (r, rx') \<Longrightarrow>
     (rx' = rx \<or> rx_weight rx' < rx_weight rx) \<and> (r \<noteq> Got [] \<longrightarrow> rx_weight rx' < rx_weight rx)"
proof (induction n rx rule: sock_read.induct)
  case (2 n bs es)
  then show ?case
    by (cases "bs = []"; cases "n = 0") (auto split: if_splits)
qed auto

section \<open>The interface of a single step\<close>

text \<open>What a read may do to the buffer: nothing, append what was read, or pad it when it failed.\<close>

definition read_buf :: "read_result \<Rightarrow> bytes \<Rightarrow> bytes \<Rightarrow> bool" where
  "read_buf r b b' \<longleftrightarrow>
     b' = b \<or> (case r of Got d \<Rightarrow> b' = b @ d | _ \<Rightarrow> b' = b @ zero_buf READ_CHUNK_BYTES)"

lemma read_buf_simps [simp]:
  "read_buf r b b" "read_buf (Got d) b (b @ d)" "read_buf Failed b (b @ zero_buf READ_CHUNK_BYTES)"
  "read_buf Stalled b (b @ zero_buf READ_CHUNK_BYTES)"
  by (simp_all add: read_buf_def)

text \<open>
  How a sink ends: not at all, with an error, or by blocking. Writing uses up what it still takes but
  does not change how it ends.
\<close>

definition sink_end :: "sink \<Rightarrow> write_end option" where
  "sink_end s = map_option snd (sk_limit s)"

lemma sink_end_write [simp]: "sink_end (snd (write_all bs s)) = sink_end s"
  by (auto simp: sink_end_def write_all_def split: option.split)

lemma sink_end_xfer [simp]:
  "sink_end (xf_tx (snd (xwrite bs st))) = sink_end (xf_tx st)"
  "sink_end (xf_tx (snd (drain_pipe n st))) = sink_end (xf_tx st)"
  using sink_end_write [of bs "xf_tx st"] sink_end_write [of "take n (xf_pipe st)" "xf_tx st"]
  by (auto simp: xwrite_def drain_pipe_def Let_def case_prod_beta split: write_result.split)

locale stream_progress =
  fixes R :: "xfer \<Rightarrow> xfer \<Rightarrow> bool"
  assumes refl: "R st st"
    and trans: "R st st1 \<Longrightarrow> R st1 st2 \<Longrightarrow> R st st2"
    and same: "xf_rx st' = xf_rx st \<Longrightarrow> length (xf_buf st') \<le> length (xf_buf st) \<Longrightarrow>
      sink_end (xf_tx st') = sink_end (xf_tx st) \<Longrightarrow> R st st'"
    and read: "sock_read n (xf_rx st) = (r, xf_rx st') \<Longrightarrow> read_buf r (xf_buf st) (xf_buf st') \<Longrightarrow>
      xf_tx st' = xf_tx st \<Longrightarrow> R st st'"
begin

lemma R_abind:
  assumes "R st (snd p)" "\<And>x s. p = (AOk x, s) \<Longrightarrow> R s (snd (f x s))"
  shows "R st (snd (abind p f))"
proof -
  obtain r s where p: "p = (r, s)" by force
  show ?thesis using assms by (cases r) (auto simp: p intro: trans)
qed

lemma R_steps [simp]:
  "R st st" "R st (st\<lparr>xf_buf := drop k (xf_buf st)\<rparr>)" "R st (st\<lparr>xf_buf := []\<rparr>)"
  "R st (snd (xwrite bs st))" "R st (snd (drain_pipe n st))"
  by (rule refl, (rule same; simp)+)

lemma read_header_block_R: "R st (snd (read_header_block E st))"
proof (induction st rule: fill_induct)
  case (1 st)
  obtain r rx where r: "sock_read READ_CHUNK_BYTES (xf_rx st) = (r, rx)" by force
  show ?case
  proof (cases "\<exists>d. r = Got d \<and> d \<noteq> []")
    case True
    then obtain d where d: "r = Got d" "d \<noteq> []" by blast
    have "R st (st\<lparr>xf_rx := rx, xf_buf := xf_buf st @ d\<rparr>)"
      using r d by (intro read [of _ _ r]) simp_all
    from trans [OF this "1.IH" [OF r [unfolded d(1)] d(2)]] r d show ?thesis
      by (simp add: read_header_block.simps [of E st] split: option.split)
  next
    case False
    with r show ?thesis
      by (cases r)
         (auto simp: read_header_block.simps [of E st] intro!: read [of _ _ r] split: option.split)
  qed
qed

lemma read_line_R: "R st (snd (read_line E st))"
proof (induction st rule: fill_induct)
  case (1 st)
  obtain r rx where r: "sock_read READ_CHUNK_BYTES (xf_rx st) = (r, rx)" by force
  show ?case
  proof (cases "\<exists>d. r = Got d \<and> d \<noteq> []")
    case True
    then obtain d where d: "r = Got d" "d \<noteq> []" by blast
    have "R st (st\<lparr>xf_rx := rx, xf_buf := xf_buf st @ d\<rparr>)"
      using r d by (intro read [of _ _ r]) simp_all
    from trans [OF this "1.IH" [OF r [unfolded d(1)] d(2)]] r d show ?thesis
      by (auto simp: read_line.simps [of E st] discard_buffer_prefix_drop split: option.split)
  next
    case False
    with r show ?thesis
      by (cases r)
         (auto simp: read_line.simps [of E st] discard_buffer_prefix_drop
            intro!: read [of _ _ r] split: option.split)
  qed
qed

lemma copy_loop_R: "R st (snd (copy_loop chunk n st))"
proof (induction chunk n st rule: copy_loop.induct)
  case (1 chunk n st)
  obtain r rx where r: "sock_read (min chunk n) (xf_rx st) = (r, rx)" by force
  have read: "R st (st\<lparr>xf_rx := rx\<rparr>)" using r by (intro read [of _ _ r]) simp_all
  show ?case
  proof (cases "n \<noteq> 0 \<and> (\<exists>d. r = Got d \<and> d \<noteq> [])")
    case True
    then obtain d where d: "n \<noteq> 0" "r = Got d" "d \<noteq> []" by blast
    have "R st (snd (abind (xwrite d (st\<lparr>xf_rx := rx\<rparr>)) (\<lambda>_ st'. copy_loop chunk (n - length d) st')))"
      by (rule R_abind [OF trans [OF read R_steps(4)]])
         (rule "1.IH" [OF d(1) r [symmetric] d(2,3)])
    with d r show ?thesis by (simp add: copy_loop.simps [of chunk n st])
  next
    case False
    with r read show ?thesis by (cases r) (auto simp: copy_loop.simps [of chunk n st])
  qed
qed

lemma splice_exact_R: "R st (snd (splice_exact n st))"
proof (induction n st rule: splice_exact.induct)
  case (1 n st)
  obtain r rx where r: "sock_read (min n PIPE_CAPACITY) (xf_rx st) = (r, rx)" by force
  have read: "R st (st\<lparr>xf_rx := rx, xf_pipe := p\<rparr>)" for p
    using r by (intro read [of _ _ r]) simp_all
  show ?case
  proof (cases "n \<noteq> 0 \<and> (\<exists>d. r = Got d \<and> d \<noteq> [])")
    case True
    then obtain d where d: "n \<noteq> 0" "r = Got d" "d \<noteq> []" by blast
    have "R st (snd (abind (drain_pipe (length d) (st\<lparr>xf_rx := rx, xf_pipe := xf_pipe st @ d\<rparr>))
        (\<lambda>_ st'. splice_exact (n - length d) st')))"
      by (rule R_abind [OF trans [OF read R_steps(5)]])
         (rule "1.IH" [OF d(1) r [symmetric] d(2,3)])
    with d r show ?thesis by (simp add: splice_exact.simps [of n st])
  next
    case False
    with r read [of "xf_pipe st"] show ?thesis by (cases r) (auto simp: splice_exact.simps [of n st])
  qed
qed

lemma splice_stream_R: "R st (snd (splice_stream t st))"
proof (induction t st rule: splice_stream.induct)
  case (1 t st)
  obtain r rx where r: "sock_read PIPE_CAPACITY (xf_rx st) = (r, rx)" by force
  have read: "R st (st\<lparr>xf_rx := rx, xf_pipe := p\<rparr>)" for p
    using r by (intro read [of _ _ r]) simp_all
  show ?case
  proof (cases "\<exists>d. r = Got d \<and> d \<noteq> []")
    case True
    then obtain d where d: "r = Got d" "d \<noteq> []" by blast
    have "R st (snd (abind (drain_pipe (length d) (st\<lparr>xf_rx := rx, xf_pipe := xf_pipe st @ d\<rparr>))
        (\<lambda>_ st'. splice_stream (t + of_nat (length d)) st')))"
      by (rule R_abind [OF trans [OF read R_steps(5)]])
         (rule "1.IH" [OF r [symmetric] d])
    with d r show ?thesis by (simp add: splice_stream.simps [of t st])
  next
    case False
    with r read [of "xf_pipe st"] show ?thesis by (cases r) (auto simp: splice_stream.simps [of t st])
  qed
qed

lemma copy_stream_R: "R st (snd (copy_stream st))"
proof (induction st rule: copy_stream.induct)
  case (1 st)
  obtain r rx where r: "sock_read READ_CHUNK_BYTES (xf_rx st) = (r, rx)" by force
  have read: "R st (st\<lparr>xf_rx := rx\<rparr>)" using r by (intro read [of _ _ r]) simp_all
  show ?case
  proof (cases "\<exists>d. r = Got d \<and> d \<noteq> []")
    case True
    then obtain d where d: "r = Got d" "d \<noteq> []" by blast
    have "R st (snd (abind (xwrite d (st\<lparr>xf_rx := rx\<rparr>)) (\<lambda>_ st'. copy_stream st')))"
      by (rule R_abind [OF trans [OF read R_steps(4)]])
         (rule "1.IH" [OF r [symmetric] d])
    with d r show ?thesis by (simp add: copy_stream.simps [of st])
  next
    case False
    with r read show ?thesis by (cases r) (auto simp: copy_stream.simps [of st])
  qed
qed

lemma copy_buffered_R: "R st (snd (copy_buffered k st))"
  unfolding copy_buffered_def
  by (auto intro!: R_abind simp: discard_buffer_prefix_drop)

lemma copy_exact_body_R: "R st (snd (copy_exact_body env n st))"
  unfolding copy_exact_body_def Let_def
  by (rule R_abind [OF copy_buffered_R]) (simp add: splice_exact_R copy_loop_R)

lemma copy_trailers_R: "R st (snd (copy_trailers E st))"
proof (induction E st rule: copy_trailers.induct)
  case (1 E st)
  show ?case
    unfolding copy_trailers.simps [of E st]
    by (intro R_abind) (auto simp: read_line_R intro: "1.IH")
qed

lemma copy_chunked_body_R: "R st (snd (copy_chunked_body E env m c st))"
proof (induction E env m c st rule: copy_chunked_body.induct)
  case (1 E env m c st)
  show ?case
    unfolding copy_chunked_body.simps [of E env m c st]
    by (intro R_abind)
       (auto simp: read_line_R copy_trailers_R split: outcome.split option.split
         intro!: R_abind copy_exact_body_R intro: "1.IH")
qed

lemma copy_body_R: "R st (snd (copy_body E env body m st))"
proof (cases body)
  case CloseDelimited
  show ?thesis
    unfolding copy_body_def CloseDelimited body_framing.case
    by (intro R_abind)
       (auto intro!: R_abind simp: splice_stream_R copy_stream_R)
qed (simp_all add: copy_body_def copy_exact_body_R copy_chunked_body_R)

lemma forward_response_R: "R st (snd (read_and_forward_response E env hr st))"
proof (induction E env hr st rule: read_and_forward_response.induct)
  case (1 E env hr st)
  show ?case
    unfolding read_and_forward_response.simps [of E env hr st] Let_def discard_buffer_prefix_drop
    by (intro R_abind read_header_block_R)
       (auto split: outcome.split option.split body_framing.split simp: not_less
         intro!: R_abind intro: trans [OF R_steps(2) copy_exact_body_R] trans [OF R_steps(2) copy_body_R]
           trans [OF R_steps(2) "1.IH" [unfolded discard_buffer_prefix_drop]])
qed

end

section \<open>The order that ends the loops\<close>

definition moves_on :: "xfer \<Rightarrow> xfer \<Rightarrow> bool" where
  "moves_on st st' \<longleftrightarrow>
     rx_weight (xf_rx st') < rx_weight (xf_rx st) \<or>
     xf_rx st' = xf_rx st \<and> length (xf_buf st') \<le> length (xf_buf st)"

interpretation moves: stream_progress moves_on
proof
  fix st st' :: xfer and n r
  assume "sock_read n (xf_rx st) = (r, xf_rx st')" "read_buf r (xf_buf st) (xf_buf st')"
  then show "moves_on st st'"
    using sock_read_weight [of n "xf_rx st" r "xf_rx st'"]
    by (auto simp: moves_on_def read_buf_def split: read_result.splits)
qed (auto simp: moves_on_def)

lemmas copy_body_moves_on = moves.copy_body_R
lemmas read_header_block_moves_on = moves.read_header_block_R

section \<open>What a client can make the engine look at\<close>

text \<open>Every byte that arrives, and the padding that each failing read may leave behind.\<close>

fun rx_cost :: "rx_event list \<Rightarrow> nat" where
  "rx_cost [] = 0"
| "rx_cost (RxData bs # es) = length bs + rx_cost es"
| "rx_cost (e # es) = READ_CHUNK_BYTES + rx_cost es"

definition in_cost :: "xfer \<Rightarrow> nat" where
  "in_cost st = length (xf_buf st) + rx_cost (xf_rx st)"

lemma sock_read_cost:
  "sock_read n rx = (r, rx') \<Longrightarrow>
     rx_cost rx' + (case r of Got d \<Rightarrow> length d | _ \<Rightarrow> READ_CHUNK_BYTES) \<le> rx_cost rx"
  by (induction n rx rule: sock_read.induct) (auto split: if_splits)

interpretation cost: stream_progress "\<lambda>st st'. in_cost st' \<le> in_cost st"
proof
  fix st st' :: xfer and n r
  assume "sock_read n (xf_rx st) = (r, xf_rx st')" "read_buf r (xf_buf st) (xf_buf st')"
  then show "in_cost st' \<le> in_cost st"
    using sock_read_cost [of n "xf_rx st" r "xf_rx st'"]
    by (auto simp: in_cost_def read_buf_def split: read_result.splits)
qed (auto simp: in_cost_def)

text \<open>How the sink ends is left alone by everything that reads and copies.\<close>

definition keeps_end :: "xfer \<Rightarrow> xfer \<Rightarrow> bool" where
  "keeps_end st st' \<longleftrightarrow> sink_end (xf_tx st') = sink_end (xf_tx st)"

interpretation ends: stream_progress keeps_end
  by unfold_locales (simp_all add: keeps_end_def)

section \<open>Panics\<close>

text \<open>
  The only operations that could panic are slices of the buffer. With the documented \<^verbatim>\<open>memmem::find\<close>
  none is out of range.
\<close>

definition calm :: "'a aresult \<times> xfer \<Rightarrow> bool" where
  "calm p \<longleftrightarrow> fst p \<noteq> APanic"

lemma calm_simps [simp]:
  "calm (AOk x, st)" "calm (AErr e, st)" "calm (AStall, st)" "\<not> calm (APanic, st)"
  by (simp_all add: calm_def)

lemma calm_abind:
  assumes "calm p" "\<And>x s. p = (AOk x, s) \<Longrightarrow> calm (f x s)"
  shows "calm (abind p f)"
proof -
  obtain r s where p: "p = (r, s)" by force
  show ?thesis using assms by (cases r) (auto simp: p)
qed

lemma calm_xwrite [simp]: "calm (xwrite bs st)"
  by (simp add: xwrite_def Let_def case_prod_beta split: write_result.split)

lemma calm_drain_pipe [simp]: "calm (drain_pipe n st)"
  by (simp add: drain_pipe_def Let_def case_prod_beta split: write_result.split)

lemma calm_read_header_block: "calm (read_header_block E st)"
proof (induction st rule: fill_induct)
  case (1 st)
  obtain r rx where r: "sock_read READ_CHUNK_BYTES (xf_rx st) = (r, rx)" by force
  show ?case
    using "1.IH" r by (cases r) (auto simp: read_header_block.simps [of E st] split: option.split)
qed

lemma calm_read_line:
  assumes "memmem_first E"
  shows "calm (read_line E st)"
proof (induction st rule: fill_induct)
  case (1 st)
  obtain r rx where r: "sock_read READ_CHUNK_BYTES (xf_rx st) = (r, rx)" by force
  have "i + 2 \<le> length (xf_buf st)" if "lib_memmem_find E (xf_buf st) crlf = Some i" for i
    using occurs_at_bound [of "xf_buf st" crlf i] memmem_first_Some [OF assms that] by simp
  then show ?case
    using "1.IH" r by (cases r) (auto simp: read_line.simps [of E st] not_less split: option.split)
qed

lemma calm_copy_loop: "calm (copy_loop chunk n st)"
proof (induction chunk n st rule: copy_loop.induct)
  case (1 chunk n st)
  show ?case
    unfolding copy_loop.simps [of chunk n st]
    by (auto intro!: calm_abind intro: "1.IH" split: prod.split read_result.split)
qed

lemma calm_splice_exact: "calm (splice_exact n st)"
proof (induction n st rule: splice_exact.induct)
  case (1 n st)
  show ?case
    unfolding splice_exact.simps [of n st]
    by (auto intro!: calm_abind intro: "1.IH" split: prod.split read_result.split)
qed

lemma calm_splice_stream: "calm (splice_stream t st)"
proof (induction t st rule: splice_stream.induct)
  case (1 t st)
  show ?case
    unfolding splice_stream.simps [of t st]
    by (auto intro!: calm_abind intro: "1.IH" split: prod.split read_result.split)
qed

lemma calm_copy_stream: "calm (copy_stream st)"
proof (induction st rule: copy_stream.induct)
  case (1 st)
  show ?case
    unfolding copy_stream.simps [of st]
    by (auto intro!: calm_abind intro: "1.IH" split: prod.split read_result.split)
qed

lemma calm_copy_exact_body: "calm (copy_exact_body env n st)"
  unfolding copy_exact_body_def copy_buffered_def Let_def
  by (auto intro!: calm_abind simp: calm_splice_exact calm_copy_loop)

lemma calm_copy_trailers:
  assumes "memmem_first E"
  shows "calm (copy_trailers E st)"
  using assms
proof (induction E st rule: copy_trailers.induct)
  case (1 E st)
  show ?case
    unfolding copy_trailers.simps [of E st]
    using "1.prems" by (auto intro!: calm_abind calm_read_line intro: "1.IH")
qed

lemma chunk_size_no_panic: "chunk_size l \<noteq> Panic p"
  by (auto simp: chunk_size_def outcome_simps)

lemma calm_copy_chunked_body:
  assumes "memmem_first E"
  shows "calm (copy_chunked_body E env m c st)"
  using assms
proof (induction E env m c st rule: copy_chunked_body.induct)
  case (1 E env m c st)
  show ?case
    unfolding copy_chunked_body.simps [of E env m c st]
    using "1.prems"
    by (auto intro!: calm_abind calm_read_line calm_copy_trailers calm_copy_exact_body intro: "1.IH"
        simp: chunk_size_no_panic split: outcome.split option.split)
qed

lemma calm_copy_body:
  assumes "memmem_first E"
  shows "calm (copy_body E env body m st)"
  unfolding copy_body_def using assms
  by (auto intro!: calm_abind calm_copy_exact_body calm_copy_chunked_body calm_splice_stream calm_copy_stream
      split: body_framing.split)

end
