(* ===== verification/Fast_Engine.thy ===== *)
theory Fast_Engine
  imports Requests Response_Relay Conn_Pool Transfer_Progress
begin

text \<open>
  \<^verbatim>\<open>serve_connection\<close> of \<^verbatim>\<open>src/src/proxy/h1_fast.rs\<close>: the life of one client connection on the fast
  HTTP/1 engine, composed from request building, the rate limiter, the connection pool, the body
  copiers and the response relay.

  The state \<open>conn\<close> holds everything the function touches: the snapshot behind its \<^verbatim>\<open>Arc\<close>, the shared
  pool, both directions of the client's socket, the three buffers that live across requests (the
  third, \<^verbatim>\<open>outbound_buf\<close>, is cleared before each use), the thread's splice pipe, the metrics and
  access log entries in the order they are emitted, and the upstream connections that were dropped,
  and thereby closed, instead of being returned to the pool. A pooled upstream connection is what it will
  send and accept, and the authority it was opened to. The environment gives the answers of the operating system per request.
  A step that waits outside of any timeout and is never answered ends with \<open>AStall\<close>.
\<close>

section \<open>State\<close>

record upstream_conn =
  uc_rx :: "rx_event list"
  uc_tx :: sink
  uc_peer :: string

record conn =
  cn_snapshot :: config_snapshot
  cn_pool :: "upstream_conn fast_pool"
  cn_down :: "rx_event list"
  cn_down_buf :: bytes
  cn_down_tx :: sink
  cn_up_buf :: bytes
  cn_pipe :: bytes
  cn_iter :: nat
  cn_metrics :: "string list"
  cn_log :: "(string \<times> string \<times> nat \<times> string) list"
  cn_closed :: "upstream_conn list"

record serve_env =
  se_lib :: ext_lib
  se_splice_supported :: bool
  se_pipe_ok :: bool
  se_single_core :: bool
  se_peer :: "ip_addr option"
  se_hash :: "ip_addr \<Rightarrow> u64"
  se_clock :: "nat \<Rightarrow> nat"
  se_peek :: "nat \<Rightarrow> upstream_conn \<Rightarrow> recv_result"
  se_dial :: "nat \<Rightarrow> string \<Rightarrow> (upstream_conn, io_error) outcome option"
  se_flush :: "nat \<Rightarrow> bool"

datatype step = Continue | Done "unit aresult"

section \<open>Effects\<close>

definition count_metric :: "string \<Rightarrow> conn \<Rightarrow> conn" where
  "count_metric label st =
     (if te_prometheus (pc_telemetry (sn_config (cn_snapshot st)))
      then st\<lparr>cn_metrics := cn_metrics st @ [label]\<rparr> else st)"

definition emit_access_log :: "matched_request \<Rightarrow> nat \<Rightarrow> conn \<Rightarrow> conn" where
  "emit_access_log request status st =
     (case mr_access_log request of
        Some (meth, path) \<Rightarrow>
          st\<lparr>cn_log := cn_log st @ [(meth, path, status, su_authority (mr_upstream request))]\<rparr>
      | None \<Rightarrow> st)"

text \<open>
  \<^verbatim>\<open>write_static_response\<close> writes head and body one after the other, which the sink does not
  distinguish from one write.
\<close>

definition write_static_response :: "nat \<Rightarrow> string \<Rightarrow> bytes \<Rightarrow> conn \<Rightarrow> unit aresult \<times> conn" where
  "write_static_response status reason body st =
     (case static_response_fast status reason body of
        Ok bs \<Rightarrow>
          (let (r, tx) = write_all bs (cn_down_tx st) in
           (case r of WOk \<Rightarrow> AOk () | WErr \<Rightarrow> io_err | WStall \<Rightarrow> AStall, st\<lparr>cn_down_tx := tx\<rparr>))
      | _ \<Rightarrow> (APanic, st))"

definition mark :: "(upstream_state \<Rightarrow> upstream_state) \<Rightarrow> matched_request \<Rightarrow> conn \<Rightarrow> conn" where
  "mark f request st =
     st\<lparr>cn_snapshot := update_upstream f (su_ref (mr_upstream request)) (cn_snapshot st)\<rparr>"

text \<open>The four lines every upstream failure starts with.\<close>

definition upstream_failed :: "matched_request \<Rightarrow> conn \<Rightarrow> conn" where
  "upstream_failed request st =
     emit_access_log request 502 (count_metric ''upstream_error'' (mark mark_failure request st))"

definition bad_gateway :: "conn \<Rightarrow> unit aresult \<times> conn" where
  "bad_gateway st = write_static_response 502 ''Bad Gateway'' (''upstream request failed'' @ [CHR 0x0A]) st"

text \<open>The \<^verbatim>\<open>TcpStream\<close> of an upstream goes out of scope.\<close>

definition drop_upstream :: "upstream_conn \<Rightarrow> conn \<Rightarrow> conn" where
  "drop_upstream up st = st\<lparr>cn_closed := cn_closed st @ [up]\<rparr>"

definition admit :: "serve_env \<Rightarrow> matched_request \<Rightarrow> conn \<Rightarrow> bool \<times> conn" where
  "admit env request st =
     (case (mr_limiter request, se_peer env) of
        (Some k, Some ip) \<Rightarrow>
          (let t = sn_routes (cn_snapshot st);
               (admitted, L) = acquire (se_hash env) (se_clock env (cn_iter st)) ip (tb_limiters t ! k)
           in (admitted, st\<lparr>cn_snapshot := (cn_snapshot st)\<lparr>sn_routes :=
                 t\<lparr>tb_limiters := (tb_limiters t)[k := L]\<rparr>\<rparr>\<rparr>))
      | _ \<Rightarrow> (True, st))"

definition copy_env :: "serve_env \<Rightarrow> conn \<Rightarrow> xfer_env" where
  "copy_env env st =
     \<lparr>xe_zero_copy = rc_zero_copy (pc_runtime (sn_config (cn_snapshot st))),
      xe_splice_supported = se_splice_supported env, xe_pipe_ok = se_pipe_ok env,
      xe_single_core = se_single_core env\<rparr>"

section \<open>The two directions\<close>

definition client_to_upstream :: "conn \<Rightarrow> upstream_conn \<Rightarrow> xfer" where
  "client_to_upstream st up =
     \<lparr>xf_rx = cn_down st, xf_buf = cn_down_buf st, xf_tx = uc_tx up, xf_pipe = cn_pipe st\<rparr>"

definition upstream_to_client :: "conn \<Rightarrow> upstream_conn \<Rightarrow> xfer" where
  "upstream_to_client st up =
     \<lparr>xf_rx = uc_rx up, xf_buf = cn_up_buf st, xf_tx = cn_down_tx st, xf_pipe = cn_pipe st\<rparr>"

definition after_request :: "xfer \<Rightarrow> conn \<Rightarrow> conn" where
  "after_request x st = st\<lparr>cn_down := xf_rx x, cn_down_buf := xf_buf x, cn_pipe := xf_pipe x\<rparr>"

definition after_response :: "xfer \<Rightarrow> conn \<Rightarrow> conn" where
  "after_response x st = st\<lparr>cn_up_buf := xf_buf x, cn_down_tx := xf_tx x, cn_pipe := xf_pipe x\<rparr>"

section \<open>One request\<close>

text \<open>The end of an iteration that writes a canned response and returns.\<close>

definition finish :: "unit aresult \<times> conn \<Rightarrow> step \<times> conn" where
  "finish p = (Done (fst p), snd p)"

text \<open>After the response: book-keeping, reuse of the upstream connection, and whether to go on.\<close>

definition conclude ::
  "serve_env \<Rightarrow> matched_request \<Rightarrow> response_head \<Rightarrow> upstream_conn \<Rightarrow> conn \<Rightarrow> step \<times> conn" where
  "conclude env request response up st =
     (let st1 = mark (if 500 \<le> rs_status response then mark_failure else mark_success) request st;
          st2 = emit_access_log request (rs_status response) (count_metric ''proxied'' st1);
          close_conn = (rq_close_after_response (mr_head request) \<or> rs_close_after_response response \<or>
             rs_body response = CloseDelimited)
      in if close_conn then (Done (AOk ()), drop_upstream up st2)
         else (Continue, st2\<lparr>cn_pool :=
           checkin (se_clock env (cn_iter st)) (su_id (mr_upstream request)) up (cn_pool st2)\<rparr>))"

text \<open>The response phase, after the request has been sent and flushed.\<close>

definition serve_response :: "serve_env \<Rightarrow> matched_request \<Rightarrow> upstream_conn \<Rightarrow> conn \<Rightarrow> step \<times> conn" where
  "serve_response env request up st =
     (let (r, x) = read_and_forward_response (se_lib env) (copy_env env st)
            (rq_head_response (mr_head request)) (upstream_to_client st up);
          st1 = after_response x st
      in case r of
           APanic \<Rightarrow> (Done APanic, st1)
         | AOk response \<Rightarrow> conclude env request response (up\<lparr>uc_rx := xf_rx x\<rparr>) st1
         | _ \<Rightarrow>
             (case bad_gateway (upstream_failed request (drop_upstream (up\<lparr>uc_rx := xf_rx x\<rparr>) st1)) of
                (AOk _, st2) \<Rightarrow>
                  (if rq_close_after_response (mr_head request) then Done (AOk ()) else Continue, st2)
              | (e, st2) \<Rightarrow> (Done e, st2)))"

text \<open>The request phase on an upstream connection.\<close>

definition serve_upstream ::
  "serve_env \<Rightarrow> matched_request \<Rightarrow> bytes \<Rightarrow> nat \<Rightarrow> upstream_conn \<Rightarrow> conn \<Rightarrow> step \<times> conn" where
  "serve_upstream env request outbound header_end up st =
     (case write_all outbound (uc_tx up) of
        (WErr, tx) \<Rightarrow> finish (bad_gateway (upstream_failed request (drop_upstream (up\<lparr>uc_tx := tx\<rparr>) st)))
      | (WStall, _) \<Rightarrow> (Done AStall, st)
      | (WOk, tx) \<Rightarrow>
          (let st1 = st\<lparr>cn_down_buf := discard_buffer_prefix (cn_down_buf st) header_end\<rparr>;
               (r, x) = copy_body (se_lib env) (copy_env env st1) (rq_body (mr_head request))
                 (Some MAX_REQUEST_BODY_BYTES) (client_to_upstream st1 (up\<lparr>uc_tx := tx\<rparr>));
               st2 = after_request x st1
           in case r of
                APanic \<Rightarrow> (Done APanic, st2)
              | AOk _ \<Rightarrow>
                  if \<not> se_flush env (cn_iter st) then
                    (if rq_close_after_response (mr_head request) then Done (AOk ()) else Continue,
                     upstream_failed request (drop_upstream (up\<lparr>uc_tx := xf_tx x\<rparr>) st2))
                  else serve_response env request (up\<lparr>uc_tx := xf_tx x\<rparr>) st2
              | _ \<Rightarrow>
                  (if rq_close_after_response (mr_head request) then Done (AOk ()) else Continue,
                   upstream_failed request (drop_upstream (up\<lparr>uc_tx := xf_tx x\<rparr>) st2))))"

definition serve_matched ::
  "serve_env \<Rightarrow> matched_request \<Rightarrow> bytes \<Rightarrow> nat \<Rightarrow> conn \<Rightarrow> step \<times> conn" where
  "serve_matched env request outbound header_end st =
     (let (admitted, st1) = admit env request st in
      if \<not> admitted then
        finish (write_static_response 429 ''Too Many Requests'' (''rate limit exceeded'' @ [CHR 0x0A])
          (emit_access_log request 429 (count_metric ''rate_limited'' st1)))
      else if su_protocol (mr_upstream request) = UpH3 then
        (case write_static_response 501 ''Not Implemented''
             (''HTTP/3 upstream driver is configured but not enabled in this baseline'' @ [CHR 0x0A]) st1 of
           (AOk _, st2) \<Rightarrow>
             (Done (AOk ()), emit_access_log request 501 (count_metric ''h3_not_enabled'' st2))
         | (e, st2) \<Rightarrow> (Done e, st2))
      else
        (let (c, pool) = get_connection (se_peek env (cn_iter st1)) (se_dial env (cn_iter st1))
               (se_clock env (cn_iter st1))
               (liveness_probe_idle (pc_runtime (sn_config (cn_snapshot st1))))
               (su_id (mr_upstream request)) (su_authority (mr_upstream request)) (cn_pool st1);
             st2 = st1\<lparr>cn_pool := pool\<rparr>
         in case c of
              Ok up \<Rightarrow> serve_upstream env request outbound header_end up st2
            | Err _ \<Rightarrow> finish (bad_gateway (upstream_failed request st2))
            | Panic _ \<Rightarrow> (Done APanic, st2)))"

definition serve_head :: "serve_env \<Rightarrow> nat \<Rightarrow> conn \<Rightarrow> step \<times> conn" where
  "serve_head env header_end st =
     (if length (cn_down_buf st) < header_end then (Done APanic, st)
      else
        (let (res, sn) = build_request (se_lib env) (cn_snapshot st) (take header_end (cn_down_buf st));
             st1 = st\<lparr>cn_snapshot := sn\<rparr>
         in case res of
              Err e \<Rightarrow> (Done (AErr e), st1)
            | Panic _ \<Rightarrow> (Done APanic, st1)
            | Ok None \<Rightarrow>
                (case write_static_response 404 ''Not Found'' (''no matching route'' @ [CHR 0x0A]) st1 of
                   (AOk _, st2) \<Rightarrow> (Done (AOk ()), count_metric ''no_route'' st2)
                 | (e, st2) \<Rightarrow> (Done e, st2))
            | Ok (Some (request, outbound)) \<Rightarrow> serve_matched env request outbound header_end st1))"

definition down_xfer :: "conn \<Rightarrow> xfer" where
  "down_xfer st =
     \<lparr>xf_rx = cn_down st, xf_buf = cn_down_buf st, xf_tx = cn_down_tx st, xf_pipe = cn_pipe st\<rparr>"

definition serve_one :: "serve_env \<Rightarrow> conn \<Rightarrow> step \<times> conn" where
  "serve_one env st =
     (let (r, x) = read_header_block (se_lib env) (down_xfer st);
          st1 = st\<lparr>cn_down := xf_rx x, cn_down_buf := xf_buf x\<rparr>
      in case r of
           AStall \<Rightarrow> (Done (AErr (Parse ''downstream header read timed out'')), st1)
         | AOk (Some header_end) \<Rightarrow> serve_head env header_end st1
         | AOk None \<Rightarrow> (Done (AOk ()), st1)
         | AErr (Io UnexpectedEof) \<Rightarrow> (Done (AOk ()), st1)
         | AErr e \<Rightarrow> (Done (AErr e), st1)
         | APanic \<Rightarrow> (Done APanic, st1))"

section \<open>What the helpers leave alone\<close>

text \<open>The client's input and the request number.\<close>

definition same_input :: "conn \<Rightarrow> conn \<Rightarrow> bool" where
  "same_input st st' \<longleftrightarrow>
     cn_down st' = cn_down st \<and> cn_down_buf st' = cn_down_buf st \<and> cn_iter st' = cn_iter st"

lemma same_input_refl [simp]: "same_input st st"
  by (simp add: same_input_def)

lemma same_input_trans: "same_input st st1 \<Longrightarrow> same_input st1 st2 \<Longrightarrow> same_input st st2"
  by (simp add: same_input_def)

lemma effect_frames [simp]:
  "same_input st (count_metric l st)" "same_input st (emit_access_log request n st)"
  "same_input st (mark f request st)"
  "same_input st (upstream_failed request st)" "same_input st (snd (write_static_response n reason body st))"
  "same_input st (snd (bad_gateway st))" "same_input st (snd (admit env request st))"
  "same_input st (drop_upstream up st)"
  by (simp_all add: drop_upstream_def same_input_def count_metric_def emit_access_log_def mark_def upstream_failed_def
      write_static_response_def bad_gateway_def admit_def Let_def case_prod_beta split: option.split outcome.split)

lemma effect_pool [simp]:
  "cn_pool (count_metric l st) = cn_pool st" "cn_pool (emit_access_log request n st) = cn_pool st"
  "cn_pool (mark f request st) = cn_pool st" "cn_pool (upstream_failed request st) = cn_pool st"
  "cn_pool (snd (write_static_response n reason body st)) = cn_pool st"
  "cn_pool (snd (bad_gateway st)) = cn_pool st" "cn_pool (snd (admit env request st)) = cn_pool st"
  "cn_pool (drop_upstream up st) = cn_pool st"
  by (simp_all add: drop_upstream_def count_metric_def emit_access_log_def mark_def upstream_failed_def
      write_static_response_def bad_gateway_def admit_def Let_def case_prod_beta split: option.split outcome.split)

lemma effect_snapshot [simp]:
  "cn_snapshot (count_metric l st) = cn_snapshot st" "cn_snapshot (emit_access_log request n st) = cn_snapshot st"
  "cn_snapshot (upstream_failed request st) =
     update_upstream mark_failure (su_ref (mr_upstream request)) (cn_snapshot st)"
  "cn_snapshot (snd (write_static_response n reason body st)) = cn_snapshot st"
  "cn_snapshot (snd (bad_gateway st)) = cn_snapshot st" "cn_snapshot (drop_upstream up st) = cn_snapshot st"
  by (simp_all add: drop_upstream_def count_metric_def emit_access_log_def mark_def upstream_failed_def
      write_static_response_def bad_gateway_def Let_def case_prod_beta split: option.split outcome.split)

lemma effect_client [simp]:
  "cn_down_tx (count_metric l st) = cn_down_tx st" "cn_down_tx (emit_access_log request n st) = cn_down_tx st"
  "cn_down_tx (mark f request st) = cn_down_tx st" "cn_down_tx (upstream_failed request st) = cn_down_tx st"
  "cn_down_tx (snd (admit env request st)) = cn_down_tx st" "cn_down_tx (drop_upstream up st) = cn_down_tx st"
  by (simp_all add: drop_upstream_def count_metric_def emit_access_log_def mark_def upstream_failed_def admit_def Let_def
      case_prod_beta split: option.split)

lemma effect_closed [simp]:
  "cn_closed (count_metric l st) = cn_closed st" "cn_closed (emit_access_log request n st) = cn_closed st"
  "cn_closed (mark f request st) = cn_closed st" "cn_closed (upstream_failed request st) = cn_closed st"
  "cn_closed (snd (write_static_response n reason body st)) = cn_closed st"
  "cn_closed (snd (bad_gateway st)) = cn_closed st" "cn_closed (snd (admit env request st)) = cn_closed st"
  "cn_closed (drop_upstream up st) = cn_closed st @ [up]"
  "cn_closed (after_request x st) = cn_closed st" "cn_closed (after_response x st) = cn_closed st"
  by (simp_all add: count_metric_def emit_access_log_def mark_def upstream_failed_def drop_upstream_def
      write_static_response_def bad_gateway_def admit_def after_request_def after_response_def Let_def case_prod_beta
      split: option.split outcome.split)

section \<open>The loop\<close>

definition input_less :: "conn \<Rightarrow> conn \<Rightarrow> bool" where
  "input_less st' st \<longleftrightarrow>
     rx_weight (cn_down st') < rx_weight (cn_down st) \<or>
     cn_down st' = cn_down st \<and> length (cn_down_buf st') < length (cn_down_buf st)"

text \<open>What the client can still make the engine look at; each further request uses up its head.\<close>

definition conn_cost :: "conn \<Rightarrow> nat" where
  "conn_cost st = length (cn_down_buf st) + rx_cost (cn_down st)"

definition spends :: "nat \<Rightarrow> conn \<Rightarrow> conn \<Rightarrow> bool" where
  "spends k st st' \<longleftrightarrow> input_less st' st \<and> conn_cost st' + k \<le> conn_cost st"

lemma spends_same_input:
  "spends k st st1 \<Longrightarrow> same_input st1 st2 \<Longrightarrow> spends k st st2"
  "same_input st st1 \<Longrightarrow> spends k st1 st2 \<Longrightarrow> spends k st st2"
  by (simp_all add: spends_def same_input_def input_less_def conn_cost_def)

lemma conclude_input: "same_input st (snd (conclude env request response up st))"
proof -
  have "same_input st (emit_access_log request n (count_metric l (mark f request st)))" for n l f
    by (rule same_input_trans [OF same_input_trans [OF effect_frames(3) effect_frames(1)] effect_frames(2)])
  then show ?thesis by (simp add: conclude_def Let_def same_input_def drop_upstream_def)
qed

lemma serve_response_input: "same_input st (snd (serve_response env request up st))"
proof -
  obtain r x where r: "read_and_forward_response (se_lib env) (copy_env env st)
      (rq_head_response (mr_head request)) (upstream_to_client st up) = (r, x)" by force
  have st1: "same_input st (after_response x st)" by (simp add: same_input_def after_response_def)
  let ?st1 = "drop_upstream (up\<lparr>uc_rx := xf_rx x\<rparr>) (after_response x st)"
  obtain g st2 where g: "bad_gateway (upstream_failed request ?st1) = (g, st2)" by force
  have "same_input st st2"
    using same_input_trans [OF st1 same_input_trans [OF effect_frames(8) same_input_trans [OF effect_frames(4) effect_frames(6)]]] g
    by (metis snd_conv)
  with same_input_trans [OF st1 conclude_input] st1 r g show ?thesis
    by (auto simp: serve_response_def Let_def split: aresult.split)
qed

lemma serve_upstream_continues:
  assumes "serve_upstream env request outbound k up st = (Continue, st')" "0 < k" "k \<le> length (cn_down_buf st)"
  shows "spends k st st'"
proof -
  from assms(1) obtain tx where tx: "write_all outbound (uc_tx up) = (WOk, tx)"
    by (auto simp: serve_upstream_def finish_def Let_def split: prod.splits write_result.splits)
  define st1 where "st1 = st\<lparr>cn_down_buf := discard_buffer_prefix (cn_down_buf st) k\<rparr>"
  obtain r x where x: "copy_body (se_lib env) (copy_env env st1) (rq_body (mr_head request))
      (Some MAX_REQUEST_BODY_BYTES) (client_to_upstream st1 (up\<lparr>uc_tx := tx\<rparr>)) = (r, x)" by force
  have "moves_on (client_to_upstream st1 (up\<lparr>uc_tx := tx\<rparr>)) x"
    "in_cost x \<le> in_cost (client_to_upstream st1 (up\<lparr>uc_tx := tx\<rparr>))"
    using copy_body_moves_on cost.copy_body_R x by (metis snd_conv)+
  then have less: "spends k st (after_request x st1)"
    using assms(2,3)
    by (auto simp: moves_on_def input_less_def after_request_def client_to_upstream_def st1_def spends_def
        conn_cost_def in_cost_def discard_buffer_prefix_drop)
  have "same_input (after_request x st1) st'"
    using assms(1) tx x serve_response_input [of "after_request x st1" env request "up\<lparr>uc_tx := xf_tx x\<rparr>"]
      same_input_trans [OF effect_frames(8) effect_frames(4), of "after_request x st1"]
    by (auto simp: serve_upstream_def st1_def [symmetric] Let_def split: aresult.splits if_splits)
  with less show ?thesis by (rule spends_same_input(1))
qed

lemma serve_matched_continues:
  assumes "serve_matched env request outbound k st = (Continue, st')" "0 < k" "k \<le> length (cn_down_buf st)"
  shows "spends k st st'"
proof -
  obtain a st1 where a: "admit env request st = (a, st1)" by force
  have same: "same_input st st1" using effect_frames(7) [of st env request] a by simp
  from assms(1) a obtain c pool where c: "get_connection (se_peek env (cn_iter st1)) (se_dial env (cn_iter st1))
      (se_clock env (cn_iter st1)) (liveness_probe_idle (pc_runtime (sn_config (cn_snapshot st1))))
      (su_id (mr_upstream request)) (su_authority (mr_upstream request)) (cn_pool st1) = (c, pool)" by force
  from assms(1) a c obtain up where up: "serve_upstream env request outbound k up (st1\<lparr>cn_pool := pool\<rparr>) = (Continue, st')"
    by (auto simp: serve_matched_def finish_def Let_def split: if_splits prod.splits aresult.splits outcome.splits)
  have "same_input st (st1\<lparr>cn_pool := pool\<rparr>)" using same by (simp add: same_input_def)
  moreover have "spends k (st1\<lparr>cn_pool := pool\<rparr>) st'"
    by (rule serve_upstream_continues [OF up assms(2)]) (use same assms(3) in \<open>simp add: same_input_def\<close>)
  ultimately show ?thesis by (rule spends_same_input(2))
qed

lemma serve_head_continues:
  assumes "serve_head env k st = (Continue, st')" "0 < k"
  shows "spends k st st'"
proof -
  from assms(1) have len: "k \<le> length (cn_down_buf st)" by (auto simp: serve_head_def split: if_splits)
  obtain res sn where b: "build_request (se_lib env) (cn_snapshot st) (take k (cn_down_buf st)) = (res, sn)" by force
  from assms(1) b obtain request outbound where
    m: "serve_matched env request outbound k (st\<lparr>cn_snapshot := sn\<rparr>) = (Continue, st')"
    by (auto simp: serve_head_def Let_def split: if_splits outcome.splits option.splits prod.splits aresult.splits)
  have "same_input st (st\<lparr>cn_snapshot := sn\<rparr>)" by (simp add: same_input_def)
  moreover have "spends k (st\<lparr>cn_snapshot := sn\<rparr>) st'"
    by (rule serve_matched_continues [OF m assms(2)]) (use len in simp)
  ultimately show ?thesis by (rule spends_same_input(2))
qed

lemma serve_one_continues:
  assumes "serve_one env st = (Continue, st')"
  shows "spends 4 st st'"
proof -
  obtain r x where r: "read_header_block (se_lib env) (down_xfer st) = (r, x)" by force
  define st1 where "st1 = st\<lparr>cn_down := xf_rx x, cn_down_buf := xf_buf x\<rparr>"
  from assms r obtain k where k: "r = AOk (Some k)" "serve_head env k st1 = (Continue, st')"
    by (auto simp: serve_one_def st1_def Let_def split: aresult.splits option.splits h1_error.splits io_error.splits)
  have "4 \<le> k" by (rule read_header_block_Ok(6) [OF r [unfolded k(1)] refl])
  then have "input_less st' st1" "conn_cost st' + 4 \<le> conn_cost st1"
    using serve_head_continues [OF k(2)] by (simp_all add: spends_def)
  moreover have "moves_on (down_xfer st) x" "in_cost x \<le> in_cost (down_xfer st)"
    using read_header_block_moves_on cost.read_header_block_R r by (metis snd_conv)+
  ultimately show ?thesis
    by (auto simp: spends_def input_less_def moves_on_def in_cost_def conn_cost_def st1_def down_xfer_def)
qed

text \<open>The whole function: requests are served until one of them ends the connection.\<close>

function serve_connection :: "serve_env \<Rightarrow> conn \<Rightarrow> unit aresult \<times> conn" where
  "serve_connection env st =
     (case serve_one env st of
        (Continue, st') \<Rightarrow> serve_connection env (st'\<lparr>cn_iter := Suc (cn_iter st')\<rparr>)
      | (Done r, st') \<Rightarrow> (r, st'))"
  by pat_completeness auto
termination
proof (relation "measures [\<lambda>(env, st). rx_weight (cn_down st), \<lambda>(env, st). length (cn_down_buf st)]")
  fix env st x y
  assume "(x, y) = serve_one env st" "x = Continue"
  then have "input_less y st" using serve_one_continues [of env st y] by (simp add: spends_def)
  then show "((env, y\<lparr>cn_iter := Suc (cn_iter y)\<rparr>), env, st)
      \<in> measures [\<lambda>(env, st). rx_weight (cn_down st), \<lambda>(env, st). length (cn_down_buf st)]"
    by (auto simp: input_less_def)
qed simp

declare serve_connection.simps [simp del]

section \<open>Safety\<close>

lemma parse_response_no_panic: "parse_response E raw hr \<noteq> Panic p"
  by (auto simp: parse_response_def outcome_simps body_kind_no_panic split: if_splits)

lemma calm_forward_response:
  assumes "memmem_first E"
  shows "calm (read_and_forward_response E env hr st)"
  using assms
proof (induction E env hr st rule: read_and_forward_response.induct)
  case (1 E env hr st)
  have "k \<le> length (xf_buf st1)" if "read_header_block E st = (AOk (Some k), st1)" for k st1
    by (rule read_header_block_is_head(2) [OF "1.prems" that])
  moreover have "calm (read_and_forward_response E env hr
      (sa\<lparr>xf_buf := discard_buffer_prefix (xf_buf sa) k\<rparr>))"
    if "read_header_block E st = (AOk (Some k), st1)" "k \<le> length (xf_buf st1)"
      "parse_response E (take k (xf_buf st1)) hr = Ok r" "informational (rs_status r)"
      "xwrite (take k (xf_buf st1)) st1 = (AOk u, sa)" for k st1 r u sa
    by (rule "1.IH" [OF that(1) refl _ that(3-5) "1.prems"]) (use that(2) in simp)
  ultimately show ?case
    unfolding read_and_forward_response.simps [of E env hr st] Let_def
    using "1.prems"
    by (auto intro!: calm_abind calm_read_header_block calm_copy_exact_body calm_copy_body
        simp: parse_response_no_panic not_less split: outcome.split option.split body_framing.split)
qed

text \<open>What holds of a connection's shared state between requests.\<close>

definition conn_inv :: "serve_env \<Rightarrow> conn \<Rightarrow> bool" where
  "conn_inv env st \<longleftrightarrow> snap_inv (se_lib env) (cn_snapshot st) \<and> fast_inv (cn_pool st)"

definition safe :: "serve_env \<Rightarrow> step \<times> conn \<Rightarrow> bool" where
  "safe env p \<longleftrightarrow> fst p \<noteq> Done APanic \<and> conn_inv env (snd p)"

text \<open>The environment's promise: opening a connection fails with an error, not with a panic.\<close>

definition env_ok :: "serve_env \<Rightarrow> bool" where
  "env_ok env \<longleftrightarrow> memmem_first (se_lib env) \<and> (\<forall>i a p. se_dial env i a \<noteq> Some (Panic p))"

lemma snap_inv_marks:
  assumes "snap_inv E sn"
  shows "snap_inv E (update_upstream mark_failure r sn)" "snap_inv E (update_upstream mark_success r sn)"
  by (rule snap_inv_update_upstream [OF assms]; simp)+

lemma snap_inv_limiters:
  assumes "snap_inv E sn"
  shows "snap_inv E (sn\<lparr>sn_routes := (sn_routes sn)\<lparr>tb_limiters := (tb_limiters (sn_routes sn))[k := L]\<rparr>\<rparr>)"
  using assms by (simp add: snap_inv_def table_inv_def snap_pool_def)

lemma static_response_Ok:
  assumes "status \<in> {404, 429, 501, 502}" "length body < 100"
  shows "fst (write_static_response status reason body st) \<noteq> APanic"
proof -
  have "static_response_fast status reason body = Ok (static_response status reason body)"
    using assms by (intro static_responses_agree) auto
  then show ?thesis
    by (simp add: write_static_response_def Let_def case_prod_beta split: write_result.split)
qed

lemma canned_calm:
  "fst (write_static_response 404 reason (''no matching route'' @ [CHR 0x0A]) st) \<noteq> APanic"
  "fst (write_static_response 429 reason (''rate limit exceeded'' @ [CHR 0x0A]) st) \<noteq> APanic"
  "fst (write_static_response 501 reason
     (''HTTP/3 upstream driver is configured but not enabled in this baseline'' @ [CHR 0x0A]) st) \<noteq> APanic"
  "fst (bad_gateway st) \<noteq> APanic"
  unfolding bad_gateway_def by (rule static_response_Ok; simp)+

lemmas bad_gateway_calm = canned_calm(4)

lemma conn_inv_effects:
  assumes "conn_inv env st"
  shows "conn_inv env (count_metric l st)" "conn_inv env (emit_access_log request n st)"
    "conn_inv env (upstream_failed request st)" "conn_inv env (snd (write_static_response n reason body st))"
    "conn_inv env (snd (bad_gateway st))" "conn_inv env (snd (admit env request st))"
    "conn_inv env (mark mark_failure request st)" "conn_inv env (mark mark_success request st)"
    "conn_inv env (drop_upstream up st)"
proof -
  show "conn_inv env (snd (admit env request st))"
    using assms snap_inv_limiters
    by (auto simp: admit_def conn_inv_def Let_def case_prod_beta split: option.split)
qed (use assms snap_inv_marks in \<open>simp_all add: conn_inv_def mark_def\<close>)

lemma conclude_safe:
  assumes "conn_inv env st"
  shows "safe env (conclude env request response up st)"
proof -
  have "conn_inv env (emit_access_log request n (count_metric l
      (mark (if b then mark_failure else mark_success) request st)))" for n l b
    using assms conn_inv_effects(1,2,7,8) by (cases b) simp_all
  then show ?thesis
    by (auto simp: conclude_def safe_def Let_def conn_inv_def fast.put_inv)
qed

lemma serve_response_safe:
  assumes "conn_inv env st" "env_ok env"
  shows "safe env (serve_response env request up st)"
proof -
  obtain r x where r: "read_and_forward_response (se_lib env) (copy_env env st)
      (rq_head_response (mr_head request)) (upstream_to_client st up) = (r, x)" by force
  have "r \<noteq> APanic"
    using calm_forward_response [of "se_lib env" "copy_env env st" "rq_head_response (mr_head request)"
        "upstream_to_client st up"] assms(2) r by (simp add: calm_def env_ok_def)
  have st1: "conn_inv env (after_response x st)" using assms(1) by (simp add: conn_inv_def after_response_def)
  let ?st1 = "drop_upstream (up\<lparr>uc_rx := xf_rx x\<rparr>) (after_response x st)"
  obtain g st2 where g: "bad_gateway (upstream_failed request ?st1) = (g, st2)" by force
  have "g \<noteq> APanic" "conn_inv env st2"
    using bad_gateway_calm [of "upstream_failed request ?st1"] g
      conn_inv_effects(5) [OF conn_inv_effects(3) [OF conn_inv_effects(9) [OF st1]], of request] by simp_all (metis snd_conv)
  with \<open>r \<noteq> APanic\<close> st1 conclude_safe [OF st1] r g show ?thesis
    by (cases r; cases g) (auto simp: serve_response_def safe_def Let_def)
qed

lemma serve_upstream_safe:
  assumes "conn_inv env st" "env_ok env"
  shows "safe env (serve_upstream env request outbound k up st)"
proof -
  have fail: "safe env (finish (bad_gateway (upstream_failed request (drop_upstream up' st))))" for up'
    using bad_gateway_calm conn_inv_effects(5) [OF conn_inv_effects(3) [OF conn_inv_effects(9) [OF assms(1)]]]
    by (simp add: safe_def finish_def)
  obtain w tx where w: "write_all outbound (uc_tx up) = (w, tx)" by force
  define st1 where "st1 = st\<lparr>cn_down_buf := discard_buffer_prefix (cn_down_buf st) k\<rparr>"
  obtain r x where x: "copy_body (se_lib env) (copy_env env st1) (rq_body (mr_head request))
      (Some MAX_REQUEST_BODY_BYTES) (client_to_upstream st1 (up\<lparr>uc_tx := tx\<rparr>)) = (r, x)" by force
  have "r \<noteq> APanic"
    using calm_copy_body [of "se_lib env" "copy_env env st1"] assms(2) x unfolding calm_def env_ok_def
    by (metis fst_conv)
  have st2: "conn_inv env (after_request x st1)"
    using assms(1) by (simp add: conn_inv_def after_request_def st1_def)
  with \<open>r \<noteq> APanic\<close> w x fail serve_response_safe [OF st2 assms(2)] conn_inv_effects(3) [OF conn_inv_effects(9) [OF st2]] assms(1)
  show ?thesis
    by (cases w; cases r) (auto simp: serve_upstream_def st1_def [symmetric] Let_def safe_def)
qed

lemma serve_matched_safe:
  assumes "conn_inv env st" "env_ok env"
  shows "safe env (serve_matched env request outbound k st)"
proof -
  obtain a st1 where a: "admit env request st = (a, st1)" by force
  have st1: "conn_inv env st1" using conn_inv_effects(6) [OF assms(1), of request] a by simp
  obtain c pool where c: "get_connection (se_peek env (cn_iter st1)) (se_dial env (cn_iter st1))
      (se_clock env (cn_iter st1)) (liveness_probe_idle (pc_runtime (sn_config (cn_snapshot st1))))
      (su_id (mr_upstream request)) (su_authority (mr_upstream request)) (cn_pool st1) = (c, pool)" by force
  have pool: "fast_inv pool"
    using c fast.tak_inv [of "cn_pool st1"] st1 unfolding get_connection_def conn_inv_def
    by (auto split: prod.splits option.splits) (metis snd_conv)+
  have np: "c \<noteq> Panic p" for p
    using c assms(2) unfolding get_connection_def open_connection_def env_ok_def
    by (auto split: prod.splits option.splits)
  have st2: "conn_inv env (st1\<lparr>cn_pool := pool\<rparr>)" using st1 pool by (simp add: conn_inv_def)
  obtain g st3 where g: "write_static_response 501 ''Not Implemented''
      (''HTTP/3 upstream driver is configured but not enabled in this baseline'' @ [CHR 0x0A]) st1 = (g, st3)"
    by force
  have h3: "g \<noteq> APanic" using canned_calm(3) [of "''Not Implemented''" st1] unfolding g by (simp only: fst_conv not_False_eq_True)
  have st3: "conn_inv env st3"
    using conn_inv_effects(4) [OF st1, of 501 "''Not Implemented''"] g by (metis snd_conv)
  have limited: "conn_inv env (snd (write_static_response 429 reason body
      (emit_access_log request 429 (count_metric l st1))))" for reason body l
    by (intro conn_inv_effects st1)
  have gate: "conn_inv env (snd (bad_gateway (upstream_failed request (st1\<lparr>cn_pool := pool\<rparr>))))"
    by (intro conn_inv_effects st2)
  have A: "safe env (finish (write_static_response 429 reason (''rate limit exceeded'' @ [CHR 0x0A])
      (emit_access_log request 429 (count_metric l st1))))" for reason l
    unfolding safe_def finish_def fst_conv snd_conv step.inject using canned_calm(2) limited by blast
  have B: "safe env (case (g, st3) of
      (AOk _, st2) \<Rightarrow> (Done (AOk ()), emit_access_log request 501 (count_metric l st2))
    | (e, st2) \<Rightarrow> (Done e, st2))" for l
    using h3 st3 conn_inv_effects(1,2) by (cases g) (simp_all add: safe_def)
  have C: "safe env (case c of Ok up \<Rightarrow> serve_upstream env request outbound k up (st1\<lparr>cn_pool := pool\<rparr>)
      | Err _ \<Rightarrow> finish (bad_gateway (upstream_failed request (st1\<lparr>cn_pool := pool\<rparr>)))
      | Panic _ \<Rightarrow> (Done APanic, st1\<lparr>cn_pool := pool\<rparr>))"
    using np gate bad_gateway_calm serve_upstream_safe [OF st2 assms(2)]
    by (cases c) (auto simp: safe_def finish_def)
  show ?thesis
    unfolding serve_matched_def a prod.case(1) [of _ a st1] Let_def g c prod.case(1) [of _ c pool]
    using A B C by (simp only: split: if_split) simp
qed

lemma serve_head_safe:
  assumes "conn_inv env st" "env_ok env" "k \<le> length (cn_down_buf st)"
  shows "safe env (serve_head env k st)"
proof -
  obtain res sn where b: "build_request (se_lib env) (cn_snapshot st) (take k (cn_down_buf st)) = (res, sn)" by force
  have sn: "snap_inv (se_lib env) sn" "res \<noteq> Panic p" for p
    using build_request_inv [OF _ b] assms(1) by (simp_all add: conn_inv_def)
  then have st1: "conn_inv env (st\<lparr>cn_snapshot := sn\<rparr>)" using assms(1) by (simp add: conn_inv_def)
  obtain g st2 where g: "write_static_response 404 ''Not Found'' (''no matching route'' @ [CHR 0x0A])
      (st\<lparr>cn_snapshot := sn\<rparr>) = (g, st2)" by force
  have "g \<noteq> APanic" using canned_calm(1) [of "''Not Found''" "st\<lparr>cn_snapshot := sn\<rparr>"] unfolding g by (simp only: fst_conv not_False_eq_True)
  moreover have "conn_inv env st2"
    using conn_inv_effects(4) [OF st1, of 404 "''Not Found''"] g by (metis snd_conv)
  ultimately show ?thesis
    unfolding serve_head_def b prod.case Let_def g
    using serve_matched_safe [OF st1 assms(2)] sn(2) assms(3) st1 conn_inv_effects(1)
    by (cases g; cases res) (auto simp: safe_def split: option.split)
qed

lemma serve_one_safe:
  assumes "conn_inv env st" "env_ok env"
  shows "safe env (serve_one env st)"
proof -
  obtain r x where r: "read_header_block (se_lib env) (down_xfer st) = (r, x)" by force
  define st1 where "st1 = st\<lparr>cn_down := xf_rx x, cn_down_buf := xf_buf x\<rparr>"
  have st1: "conn_inv env st1" using assms(1) by (simp add: conn_inv_def st1_def)
  have np: "r \<noteq> APanic" using calm_read_header_block [of "se_lib env" "down_xfer st"] r by (simp add: calm_def)
  have "safe env (serve_head env k st1)" if "r = AOk (Some k)" for k
    using serve_head_safe [OF st1 assms(2)] read_header_block_is_head(2) [of "se_lib env"] assms(2) r that
    by (simp add: env_ok_def st1_def)
  with np st1 r show ?thesis
    unfolding serve_one_def r prod.case Let_def st1_def [symmetric]
    by (cases r) (auto simp: safe_def split: option.split h1_error.split io_error.split)
qed

lemma serve_connection_safe:
  assumes "conn_inv env st" "env_ok env"
  shows "fst (serve_connection env st) \<noteq> APanic \<and> conn_inv env (snd (serve_connection env st))"
  using assms
proof (induction env st rule: serve_connection.induct)
  case (1 env st)
  obtain p st' where p: "serve_one env st = (p, st')" by force
  have safe: "p \<noteq> Done APanic" "conn_inv env st'"
    using serve_one_safe [OF "1.prems"] p by (simp_all add: safe_def)
  show ?case
  proof (cases p)
    case Continue
    have "conn_inv env (st'\<lparr>cn_iter := Suc (cn_iter st')\<rparr>)" using safe(2) by (simp add: conn_inv_def)
    from "1.IH" [OF p [symmetric] Continue this "1.prems"(2)] p Continue show ?thesis
      by (simp add: serve_connection.simps [of env st])
  next
    case (Done r)
    with p safe show ?thesis by (simp add: serve_connection.simps [of env st])
  qed
qed

section \<open>Connections that cannot block\<close>

text \<open>
  The engine waits for a socket to accept bytes outside any timeout when it writes a canned response
  and when it writes the request head. If no socket blocks for ever (it may fail at any point), the
  engine does not either.
\<close>

definition never_blocks :: "sink \<Rightarrow> bool" where
  "never_blocks s \<longleftrightarrow> sink_end s \<noteq> Some WriteStalls"

definition open_sinks :: "conn \<Rightarrow> bool" where
  "open_sinks st \<longleftrightarrow> never_blocks (cn_down_tx st) \<and>
     (\<forall>k c t. (c, t) \<in> set (fast_idle (cn_pool st) k) \<longrightarrow> never_blocks (uc_tx c))"

definition dials_open :: "serve_env \<Rightarrow> bool" where
  "dials_open env \<longleftrightarrow> (\<forall>i a c. se_dial env i a = Some (Ok c) \<longrightarrow> never_blocks (uc_tx c))"

definition fluent :: "step \<times> conn \<Rightarrow> bool" where
  "fluent p \<longleftrightarrow> fst p \<noteq> Done AStall \<and> open_sinks (snd p)"

lemma write_all_open:
  assumes "never_blocks s"
  shows "fst (write_all bs s) \<noteq> WStall" "never_blocks (snd (write_all bs s))"
  using assms by (auto simp: never_blocks_def) (auto simp: sink_end_def write_all_def split: option.splits if_splits write_end.splits)

lemma static_open:
  assumes "open_sinks st"
  shows "fst (write_static_response n reason body st) \<noteq> AStall" "open_sinks (snd (write_static_response n reason body st))"
    "fst (bad_gateway st) \<noteq> AStall" "open_sinks (snd (bad_gateway st))"
proof -
  have *: "fst (write_static_response n reason body st) \<noteq> AStall \<and> open_sinks (snd (write_static_response n reason body st))"
    for n reason body
    using assms write_all_open [of "cn_down_tx st"]
    by (auto simp: write_static_response_def open_sinks_def Let_def case_prod_beta split: outcome.split write_result.split)
  then show "fst (write_static_response n reason body st) \<noteq> AStall" "open_sinks (snd (write_static_response n reason body st))"
    "fst (bad_gateway st) \<noteq> AStall" "open_sinks (snd (bad_gateway st))" unfolding bad_gateway_def by blast+
qed

lemma effects_open [simp]:
  "open_sinks (count_metric l st) = open_sinks st" "open_sinks (emit_access_log request n st) = open_sinks st"
  "open_sinks (mark f request st) = open_sinks st" "open_sinks (upstream_failed request st) = open_sinks st"
  "open_sinks (snd (admit env request st)) = open_sinks st" "open_sinks (drop_upstream up st) = open_sinks st"
  "open_sinks (after_request x st) = open_sinks st" "open_sinks (st\<lparr>cn_iter := i\<rparr>) = open_sinks st"
  "open_sinks (st\<lparr>cn_snapshot := sn\<rparr>) = open_sinks st" "open_sinks (st\<lparr>cn_down_buf := b\<rparr>) = open_sinks st"
  "open_sinks (st\<lparr>cn_down := d\<rparr>) = open_sinks st"
  by (simp_all add: open_sinks_def after_request_def)

lemma conclude_fluent:
  assumes "open_sinks st" "conn_inv env st" "never_blocks (uc_tx up)"
  shows "fluent (conclude env request resp up st)"
proof -
  have "\<forall>k c t. (c, t) \<in> set (fast_idle (checkin now uid up (cn_pool st)) k) \<longrightarrow> never_blocks (uc_tx c)" for now uid
    using fast.put_all [where Q = "\<lambda>_ c. never_blocks (uc_tx c)", OF _ _ assms(3), of "cn_pool st" now uid] assms(1,2)
    by (simp add: open_sinks_def conn_inv_def)
  with assms(1) show ?thesis by (simp add: conclude_def fluent_def Let_def) (simp add: open_sinks_def)
qed

lemma serve_response_fluent:
  assumes "open_sinks st" "conn_inv env st" "never_blocks (uc_tx up)"
  shows "fluent (serve_response env request up st)"
proof -
  obtain r x where r: "read_and_forward_response (se_lib env) (copy_env env st)
      (rq_head_response (mr_head request)) (upstream_to_client st up) = (r, x)" by force
  have "sink_end (xf_tx x) = sink_end (cn_down_tx st)"
    using ends.forward_response_R [of "upstream_to_client st up" "se_lib env" "copy_env env st"
        "rq_head_response (mr_head request)"] unfolding r snd_conv by (simp add: keeps_end_def upstream_to_client_def)
  then have st1: "open_sinks (after_response x st)" "conn_inv env (after_response x st)"
    using assms(1,2) by (simp_all add: open_sinks_def after_response_def never_blocks_def conn_inv_def)
  define st2 where "st2 = upstream_failed request (drop_upstream (up\<lparr>uc_rx := xf_rx x\<rparr>) (after_response x st))"
  obtain g st3 where g: "bad_gateway st2 = (g, st3)" by force
  have "g \<noteq> AStall" "open_sinks st3" using static_open(3,4) [of st2] st1(1) g by (simp_all add: st2_def)
  with conclude_fluent [OF st1, of "up\<lparr>uc_rx := xf_rx x\<rparr>"] st1 assms(3) r g [unfolded st2_def] show ?thesis
    by (cases r; cases g) (auto simp: serve_response_def fluent_def Let_def)
qed

lemma serve_upstream_fluent:
  assumes "open_sinks st" "conn_inv env st" "never_blocks (uc_tx up)"
  shows "fluent (serve_upstream env request outbound k up st)"
proof -
  obtain w tx where w: "write_all outbound (uc_tx up) = (w, tx)" by force
  have tx: "w \<noteq> WStall" "never_blocks tx" using write_all_open [OF assms(3), of outbound] w by simp_all
  define st1 where "st1 = st\<lparr>cn_down_buf := discard_buffer_prefix (cn_down_buf st) k\<rparr>"
  obtain r x where x: "copy_body (se_lib env) (copy_env env st1) (rq_body (mr_head request))
      (Some MAX_REQUEST_BODY_BYTES) (client_to_upstream st1 (up\<lparr>uc_tx := tx\<rparr>)) = (r, x)" by force
  have "sink_end (xf_tx x) = sink_end (xf_tx (client_to_upstream st1 (up\<lparr>uc_tx := tx\<rparr>)))"
    using ends.copy_body_R [of "client_to_upstream st1 (up\<lparr>uc_tx := tx\<rparr>)" "se_lib env" "copy_env env st1"
        "rq_body (mr_head request)" "Some MAX_REQUEST_BODY_BYTES"] unfolding x snd_conv keeps_end_def .
  with tx(2) have "never_blocks (xf_tx x)" by (simp add: never_blocks_def client_to_upstream_def)
  moreover have "open_sinks (after_request x st1)" "conn_inv env (after_request x st1)"
    using assms(1,2) by (simp_all add: st1_def open_sinks_def conn_inv_def after_request_def)
  ultimately have "fluent (serve_response env request (up\<lparr>uc_tx := xf_tx x\<rparr>) (after_request x st1))"
    by (intro serve_response_fluent) simp_all
  moreover have "fluent (finish (bad_gateway (upstream_failed request (drop_upstream up' st))))" for up'
    using static_open(3,4) [of "upstream_failed request (drop_upstream up' st)"] assms(1)
    by (simp add: fluent_def finish_def)
  moreover have "open_sinks st1" using assms(1) by (simp add: st1_def)
  ultimately show ?thesis
    using tx(1) w x assms(1) by (cases w; cases r) (auto simp: serve_upstream_def st1_def [symmetric] Let_def fluent_def)
qed

lemma serve_matched_fluent:
  assumes "open_sinks st" "conn_inv env st" "dials_open env"
  shows "fluent (serve_matched env request outbound k st)"
proof -
  obtain a st1 where a: "admit env request st = (a, st1)" by force
  have st1: "open_sinks st1" "conn_inv env st1"
    using effects_open(5) [of env request st] conn_inv_effects(6) [OF assms(2), of request] assms(1) a by simp_all
  obtain c pool where c: "get_connection (se_peek env (cn_iter st1)) (se_dial env (cn_iter st1))
      (se_clock env (cn_iter st1)) (liveness_probe_idle (pc_runtime (sn_config (cn_snapshot st1))))
      (su_id (mr_upstream request)) (su_authority (mr_upstream request)) (cn_pool st1) = (c, pool)" by force
  have idle: "fast_inv (cn_pool st1)" "\<forall>k c t. (c, t) \<in> set (fast_idle (cn_pool st1) k) \<longrightarrow> never_blocks (uc_tx c)"
    using st1 by (simp_all add: open_sinks_def conn_inv_def)
  note pool = get_connection_all [where Q = "\<lambda>_ c. never_blocks (uc_tx c)", OF idle c]
  have st2: "open_sinks (st1\<lparr>cn_pool := pool\<rparr>)" "conn_inv env (st1\<lparr>cn_pool := pool\<rparr>)"
    using st1 pool(1,2) by (simp_all add: open_sinks_def conn_inv_def)
  have up: "fluent (serve_upstream env request outbound k up (st1\<lparr>cn_pool := pool\<rparr>))" if "c = Ok up" for up
    using pool(3) [OF that] assms(3) by (intro serve_upstream_fluent [OF st2]) (auto simp: dials_open_def)
  have gate: "fluent (finish (bad_gateway (upstream_failed request (st1\<lparr>cn_pool := pool\<rparr>))))"
    using static_open(3,4) [of "upstream_failed request (st1\<lparr>cn_pool := pool\<rparr>)"] st2(1) by (simp add: fluent_def finish_def)
  obtain g st3 where g: "write_static_response 501 ''Not Implemented''
      (''HTTP/3 upstream driver is configured but not enabled in this baseline'' @ [CHR 0x0A]) st1 = (g, st3)"
    by force
  have "g \<noteq> AStall" "open_sinks st3"
    using static_open(1,2) [OF st1(1), of 501 "''Not Implemented''"
        "''HTTP/3 upstream driver is configured but not enabled in this baseline'' @ [CHR 0x0A]"]
    unfolding g fst_conv snd_conv by blast+
  then have B: "fluent (case (g, st3) of
      (AOk _, st2) \<Rightarrow> (Done (AOk ()), emit_access_log request 501 (count_metric l st2))
    | (e, st2) \<Rightarrow> (Done e, st2))" for l by (cases g) (simp_all add: fluent_def)
  have A: "fluent (finish (write_static_response 429 reason body (emit_access_log request 429 (count_metric l st1))))"
    for reason body l
    using static_open(1,2) [of "emit_access_log request 429 (count_metric l st1)" 429 reason body] st1(1)
    by (simp add: fluent_def finish_def)
  have C: "fluent (case c of Ok up \<Rightarrow> serve_upstream env request outbound k up (st1\<lparr>cn_pool := pool\<rparr>)
      | Err _ \<Rightarrow> finish (bad_gateway (upstream_failed request (st1\<lparr>cn_pool := pool\<rparr>)))
      | Panic _ \<Rightarrow> (Done APanic, st1\<lparr>cn_pool := pool\<rparr>))"
    using up gate st2(1) by (cases c) (simp_all add: fluent_def)
  show ?thesis
    unfolding serve_matched_def a prod.case(1) [of _ a st1] Let_def g c prod.case(1) [of _ c pool]
    using A B C by (simp only: split: if_split) simp
qed

lemma serve_one_fluent:
  assumes "open_sinks st" "conn_inv env st" "dials_open env"
  shows "fluent (serve_one env st)"
proof -
  obtain r x where r: "read_header_block (se_lib env) (down_xfer st) = (r, x)" by force
  define st1 where "st1 = st\<lparr>cn_down := xf_rx x, cn_down_buf := xf_buf x\<rparr>"
  have st1: "open_sinks st1" "conn_inv env st1" using assms(1,2) by (simp_all add: st1_def conn_inv_def)
  have head: "fluent (serve_head env k st1)" for k
  proof -
    obtain res sn where b: "build_request (se_lib env) (cn_snapshot st1) (take k (cn_down_buf st1)) = (res, sn)" by force
    have sn: "open_sinks (st1\<lparr>cn_snapshot := sn\<rparr>)" "conn_inv env (st1\<lparr>cn_snapshot := sn\<rparr>)"
      using build_request_inv [OF _ b] st1 by (simp_all add: conn_inv_def)
    obtain g st2 where g: "write_static_response 404 ''Not Found'' (''no matching route'' @ [CHR 0x0A])
        (st1\<lparr>cn_snapshot := sn\<rparr>) = (g, st2)" by force
    have "g \<noteq> AStall" "open_sinks st2"
      using static_open(1,2) [OF sn(1), of 404 "''Not Found''" "''no matching route'' @ [CHR 0x0A]"] g by simp_all
    with serve_matched_fluent [OF sn assms(3)] sn(1) st1(1) show ?thesis
      unfolding serve_head_def b prod.case Let_def g
      by (cases g; cases res) (auto simp: fluent_def split: option.split)
  qed
  with st1(1) show ?thesis
    unfolding serve_one_def r prod.case Let_def st1_def [symmetric]
    by (cases r) (auto simp: fluent_def split: option.split h1_error.split io_error.split)
qed

lemma serve_connection_fluent:
  assumes "open_sinks st" "conn_inv env st" "dials_open env" "env_ok env"
  shows "fst (serve_connection env st) \<noteq> AStall \<and> open_sinks (snd (serve_connection env st))"
  using assms
proof (induction env st rule: serve_connection.induct)
  case (1 env st)
  obtain p st' where p: "serve_one env st = (p, st')" by force
  have st': "p \<noteq> Done AStall" "open_sinks st'" "conn_inv env st'"
    using serve_one_fluent [OF "1.prems"(1-3)] serve_one_safe [OF "1.prems"(2,4)] p by (simp_all add: fluent_def safe_def)
  show ?case
  proof (cases p)
    case Continue
    have "conn_inv env (st'\<lparr>cn_iter := Suc (cn_iter st')\<rparr>)" using st'(3) by (simp add: conn_inv_def)
    with "1.IH" [OF p [symmetric] Continue _ this "1.prems"(3,4)] st'(2) p Continue show ?thesis
      by (simp add: serve_connection.simps [of env st])
  next
    case (Done r)
    with p st' show ?thesis by (simp add: serve_connection.simps [of env st])
  qed
qed

section \<open>One exchange\<close>

text \<open>
  The exchange as the client and the upstream see it, and how it is booked: the upstream has
  received the outbound head and the body \<open>b\<close>, the client exactly the response \<open>c\<close>, both inputs are left
  right behind them; the upstream is marked by the status of the response; and its connection is
  returned to the pool under the upstream's id, or closed when either side asked for that or the
  response ran to the end of the connection.
\<close>

definition relayed ::
  "serve_env \<Rightarrow> matched_request \<Rightarrow> bytes \<Rightarrow> nat \<Rightarrow> upstream_conn \<Rightarrow> conn \<Rightarrow> bytes \<Rightarrow> bytes \<Rightarrow> response_head \<Rightarrow>
   step \<Rightarrow> conn \<Rightarrow> bool" where
  "relayed env request outbound k up st b c resp s st' \<longleftrightarrow>
     (\<exists>up'. drop k (cn_down_buf st) @ rx_data (cn_down st) = b @ cn_down_buf st' @ rx_data (cn_down st') \<and>
       sk_out (uc_tx up') = sk_out (uc_tx up) @ outbound @ b \<and>
       cn_up_buf st @ rx_data (uc_rx up) = c @ cn_up_buf st' @ rx_data (uc_rx up') \<and>
       sk_out (cn_down_tx st') = sk_out (cn_down_tx st) @ c \<and> cn_pipe st' = [] \<and>
       cn_snapshot st' = update_upstream (if 500 \<le> rs_status resp then mark_failure else mark_success)
         (su_ref (mr_upstream request)) (cn_snapshot st) \<and>
       (if rq_close_after_response (mr_head request) \<or> rs_close_after_response resp \<or> rs_body resp = CloseDelimited
        then s = Done (AOk ()) \<and> cn_pool st' = cn_pool st \<and> cn_closed st' = cn_closed st @ [up']
        else s = Continue \<and> cn_closed st' = cn_closed st \<and>
          cn_pool st' = checkin (se_clock env (cn_iter st)) (su_id (mr_upstream request)) up' (cn_pool st)))"

definition counted_failure :: "matched_request \<Rightarrow> conn \<Rightarrow> conn \<Rightarrow> bool" where
  "counted_failure request st st' \<longleftrightarrow>
     cn_snapshot st' = update_upstream mark_failure (su_ref (mr_upstream request)) (cn_snapshot st) \<and>
     cn_pool st' = cn_pool st \<and> (\<exists>up'. cn_closed st' = cn_closed st @ [up'])"

lemma conclude_frame [simp]:
  "cn_down_tx (snd (conclude env request response up st)) = cn_down_tx st"
  "cn_up_buf (snd (conclude env request response up st)) = cn_up_buf st"
  "cn_down (snd (conclude env request response up st)) = cn_down st"
  "cn_down_buf (snd (conclude env request response up st)) = cn_down_buf st"
  "cn_pipe (snd (conclude env request response up st)) = cn_pipe st"
  by (simp_all add: conclude_def Let_def mark_def count_metric_def emit_access_log_def drop_upstream_def
      split: option.split)

lemma conclude_books:
  assumes "conclude env request resp up st = (s, st')"
  shows "cn_snapshot st' = update_upstream (if 500 \<le> rs_status resp then mark_failure else mark_success)
      (su_ref (mr_upstream request)) (cn_snapshot st)"
    "if rq_close_after_response (mr_head request) \<or> rs_close_after_response resp \<or> rs_body resp = CloseDelimited
     then s = Done (AOk ()) \<and> cn_pool st' = cn_pool st \<and> cn_closed st' = cn_closed st @ [up]
     else s = Continue \<and> cn_closed st' = cn_closed st \<and>
       cn_pool st' = checkin (se_clock env (cn_iter st)) (su_id (mr_upstream request)) up (cn_pool st)"
proof -
  show "cn_snapshot st' = update_upstream (if 500 \<le> rs_status resp then mark_failure else mark_success)
      (su_ref (mr_upstream request)) (cn_snapshot st)"
    using assms by (auto simp: conclude_def Let_def mark_def split: if_splits)
  have "cn_iter st' = cn_iter st" using conclude_input [of st env request resp up] assms by (simp add: same_input_def)
  with assms show "if rq_close_after_response (mr_head request) \<or> rs_close_after_response resp \<or> rs_body resp = CloseDelimited
     then s = Done (AOk ()) \<and> cn_pool st' = cn_pool st \<and> cn_closed st' = cn_closed st @ [up]
     else s = Continue \<and> cn_closed st' = cn_closed st \<and>
       cn_pool st' = checkin (se_clock env (cn_iter st)) (su_id (mr_upstream request)) up (cn_pool st)"
    by (auto simp: conclude_def Let_def split: if_splits)
qed

text \<open>The two copies of an exchange that went through, put together.\<close>

lemma relayedI:
  assumes "write_all outbound (uc_tx up) = (WOk, tx)" "se_flush env (cn_iter st)"
    and st1: "st1 = st\<lparr>cn_down_buf := discard_buffer_prefix (cn_down_buf st) k\<rparr>"
    and x: "copy_body (se_lib env) (copy_env env st1) (rq_body (mr_head request))
      (Some MAX_REQUEST_BODY_BYTES) (client_to_upstream st1 (up\<lparr>uc_tx := tx\<rparr>)) = (AOk (), x)"
      "relays b (client_to_upstream st1 (up\<lparr>uc_tx := tx\<rparr>)) x"
    and y: "read_and_forward_response (se_lib env) (copy_env env (after_request x st1))
      (rq_head_response (mr_head request)) (upstream_to_client (after_request x st1) (up\<lparr>uc_tx := xf_tx x\<rparr>)) = (AOk resp, y)"
      "relays c (upstream_to_client (after_request x st1) (up\<lparr>uc_tx := xf_tx x\<rparr>)) y"
    and run: "serve_upstream env request outbound k up st = (s, st')"
  shows "relayed env request outbound k up st b c resp s st'"
proof -
  let ?up = "up\<lparr>uc_tx := xf_tx x, uc_rx := xf_rx y\<rparr>" and ?st2 = "after_response y (after_request x st1)"
  have con: "conclude env request resp ?up ?st2 = (s, st')"
    using run assms(1,2) x(1) y(1) by (simp add: serve_upstream_def serve_response_def st1 [symmetric] Let_def)
  have sent: "sk_out (xf_tx x) = sk_out (uc_tx up) @ outbound @ b"
    using x(2) write_all_WOk(1) [OF assms(1)] by (simp add: relays_def client_to_upstream_def)
  have fields: "cn_down st' = xf_rx x" "cn_down_buf st' = xf_buf x" "cn_up_buf st' = xf_buf y"
    "cn_down_tx st' = xf_tx y" "cn_pipe st' = xf_pipe y"
    using conclude_frame [of env request resp ?up ?st2] unfolding con snd_conv
    by (simp_all add: after_response_def after_request_def)
  have same: "cn_snapshot ?st2 = cn_snapshot st" "cn_pool ?st2 = cn_pool st" "cn_closed ?st2 = cn_closed st"
    "cn_iter ?st2 = cn_iter st" by (simp_all add: after_response_def after_request_def st1)
  show ?thesis
    unfolding relayed_def
  proof (rule exI [of _ ?up], intro conjI)
    show "cn_snapshot st' = update_upstream (if 500 \<le> rs_status resp then mark_failure else mark_success)
        (su_ref (mr_upstream request)) (cn_snapshot st)"
      using conclude_books(1) [OF con] unfolding same .
    show "if rq_close_after_response (mr_head request) \<or> rs_close_after_response resp \<or> rs_body resp = CloseDelimited
        then s = Done (AOk ()) \<and> cn_pool st' = cn_pool st \<and> cn_closed st' = cn_closed st @ [?up]
        else s = Continue \<and> cn_closed st' = cn_closed st \<and>
          cn_pool st' = checkin (se_clock env (cn_iter st)) (su_id (mr_upstream request)) ?up (cn_pool st)"
      using conclude_books(2) [OF con] unfolding same .
  qed (use x(2) y(2) sent in \<open>simp_all add: fields relays_def input_def client_to_upstream_def upstream_to_client_def
      after_request_def st1 discard_buffer_prefix_drop\<close>)
qed

lemma lost_response:
  assumes "env_ok env" "serve_response env request up st = (s, st')"
    "\<nexists>resp y. read_and_forward_response (se_lib env) (copy_env env st)
      (rq_head_response (mr_head request)) (upstream_to_client st up) = (AOk resp, y)"
  shows "counted_failure request st st'"
proof -
  obtain r x where r: "read_and_forward_response (se_lib env) (copy_env env st)
      (rq_head_response (mr_head request)) (upstream_to_client st up) = (r, x)" by force
  have "r \<noteq> APanic"
    using calm_forward_response [of "se_lib env" "copy_env env st" "rq_head_response (mr_head request)"
        "upstream_to_client st up"] assms(1) r by (simp add: calm_def env_ok_def)
  let ?st1 = "upstream_failed request (drop_upstream (up\<lparr>uc_rx := xf_rx x\<rparr>) (after_response x st))"
  obtain g st2 where g: "bad_gateway ?st1 = (g, st2)" by force
  have "cn_snapshot st2 = cn_snapshot ?st1" "cn_pool st2 = cn_pool ?st1" "cn_closed st2 = cn_closed ?st1"
    using effect_snapshot(5) [of ?st1] effect_pool(6) [of ?st1] effect_closed(6) [of ?st1] unfolding g snd_conv by blast+
  then have "counted_failure request st st2" by (simp add: counted_failure_def after_response_def)
  moreover have "st' = st2" using assms(2,3) \<open>r \<noteq> APanic\<close> g r
    by (cases r; cases g) (auto simp: serve_response_def Let_def)
  ultimately show ?thesis by simp
qed

lemma exchange_cases:
  assumes "env_ok env" "cn_pipe st = []" "serve_upstream env request outbound k up st = (s, st')"
  shows "(\<exists>b c resp. body_msg (Some MAX_REQUEST_BODY_BYTES) (rq_body (mr_head request)) b \<and>
      response_msg (\<lambda>h. parse_response (se_lib env) h (rq_head_response (mr_head request))) resp c \<and>
      relayed env request outbound k up st b c resp s st') \<or>
    counted_failure request st st' \<or> s = Done AStall"
proof -
  obtain w tx where w: "write_all outbound (uc_tx up) = (w, tx)" by force
  define st1 where "st1 = st\<lparr>cn_down_buf := discard_buffer_prefix (cn_down_buf st) k\<rparr>"
  obtain r x where x: "copy_body (se_lib env) (copy_env env st1) (rq_body (mr_head request))
      (Some MAX_REQUEST_BODY_BYTES) (client_to_upstream st1 (up\<lparr>uc_tx := tx\<rparr>)) = (r, x)" by force
  have "r \<noteq> APanic"
    using calm_copy_body [of "se_lib env" "copy_env env st1"] assms(1) x unfolding calm_def env_ok_def
    by (metis fst_conv)
  have same: "cn_snapshot (after_request x st1) = cn_snapshot st" "cn_pool (after_request x st1) = cn_pool st"
    "cn_closed st1 = cn_closed st" by (simp_all add: after_request_def st1_def)
  show ?thesis
  proof (cases "w = WOk \<and> r = AOk () \<and> se_flush env (cn_iter st)")
    case True
    then have ok: "w = WOk" "r = AOk ()" "se_flush env (cn_iter st)" by auto
    let ?up = "up\<lparr>uc_tx := xf_tx x\<rparr>"
    have sr: "serve_response env request ?up (after_request x st1) = (s, st')"
      using assms(3) w x ok by (simp add: serve_upstream_def st1_def [symmetric] Let_def)
    have pipe0: "xf_pipe (client_to_upstream st1 (up\<lparr>uc_tx := tx\<rparr>)) = []"
      using assms(2) by (simp add: client_to_upstream_def st1_def)
    from copy_body_AOk [OF x [unfolded ok(2)] pipe0] assms(1) obtain b where
      b: "relays b (client_to_upstream st1 (up\<lparr>uc_tx := tx\<rparr>)) x"
        "body_msg (Some MAX_REQUEST_BODY_BYTES) (rq_body (mr_head request)) b" by (auto simp: env_ok_def)
    show ?thesis
    proof (cases "\<exists>resp y. read_and_forward_response (se_lib env) (copy_env env (after_request x st1))
        (rq_head_response (mr_head request)) (upstream_to_client (after_request x st1) ?up) = (AOk resp, y)")
      case True
      then obtain resp y where y: "read_and_forward_response (se_lib env) (copy_env env (after_request x st1))
        (rq_head_response (mr_head request)) (upstream_to_client (after_request x st1) ?up) = (AOk resp, y)" by blast
      have "xf_pipe (upstream_to_client (after_request x st1) ?up) = []"
        using b(1) by (simp add: upstream_to_client_def after_request_def relays_def)
      from forward_response_sound [OF y this] assms(1) obtain c where
        c: "relays c (upstream_to_client (after_request x st1) ?up) y"
          "response_msg (\<lambda>h. parse_response (se_lib env) h (rq_head_response (mr_head request))) resp c"
        by (auto simp: env_ok_def)
      from relayedI [OF w [unfolded ok(1)] ok(3) st1_def x [unfolded ok(2)] b(1) y c(1) assms(3)] b(2) c(2)
      show ?thesis by blast
    next
      case False
      from lost_response [OF assms(1) sr False] show ?thesis by (simp add: counted_failure_def same)
    qed
  next
    case False
    with \<open>r \<noteq> APanic\<close> w x assms(3) same show ?thesis
      by (cases w; cases r)
         (auto simp: serve_upstream_def counted_failure_def st1_def [symmetric] Let_def finish_def split: if_splits)
  qed
qed

text \<open>A complete body from the client and a complete response from the upstream go through.\<close>

lemma exchange_complete:
  assumes "env_ok env" "se_pipe_ok env" "cn_pipe st = []" "serve_upstream env request outbound k up st = (s, st')"
    and "sk_limit (uc_tx up) = None" "sk_limit (cn_down_tx st) = None" "se_flush env (cn_iter st)"
    and b: "rq_body (mr_head request) \<noteq> CloseDelimited" "drop k (cn_down_buf st) @ rx_data (cn_down st) = b @ rest"
      "body_msg (Some MAX_REQUEST_BODY_BYTES) (rq_body (mr_head request)) b"
    and c: "rs_body resp \<noteq> CloseDelimited" "cn_up_buf st @ rx_data (uc_rx up) = c @ rest'"
      "response_msg (bounded_parse (\<lambda>h. parse_response (se_lib env) h (rq_head_response (mr_head request)))) resp c"
  shows "relayed env request outbound k up st b c resp s st'"
proof -
  have mem: "memmem_first (se_lib env)" using assms(1) by (simp add: env_ok_def)
  define st1 where "st1 = st\<lparr>cn_down_buf := discard_buffer_prefix (cn_down_buf st) k\<rparr>"
  let ?tx = "(uc_tx up)\<lparr>sk_out := sk_out (uc_tx up) @ outbound\<rparr>"
  let ?x = "client_to_upstream st1 (up\<lparr>uc_tx := ?tx\<rparr>)"
  have w: "write_all outbound (uc_tx up) = (WOk, ?tx)" using assms(5) by simp
  have rd: "ready (copy_env env st1) ?x"
    using assms(2,3,5) by (simp add: ready_def client_to_upstream_def st1_def copy_env_def)
  have inp: "input ?x = b @ rest"
    using b(2) by (simp add: input_def client_to_upstream_def st1_def discard_buffer_prefix_drop)
  from copy_body_complete [OF mem rd inp b(3,1)] obtain x where
    x: "copy_body (se_lib env) (copy_env env st1) (rq_body (mr_head request)) (Some MAX_REQUEST_BODY_BYTES) ?x = (AOk (), x)"
      "relays b ?x x" by blast
  let ?y = "upstream_to_client (after_request x st1) (up\<lparr>uc_tx := xf_tx x\<rparr>)"
  have rd': "ready (copy_env env (after_request x st1)) ?y"
    using assms(2,6) x(2) by (simp add: ready_def upstream_to_client_def after_request_def st1_def copy_env_def relays_def)
  have inp': "input ?y = c @ rest'" using c(2) by (simp add: input_def upstream_to_client_def after_request_def st1_def)
  from forward_response_complete [OF c(3) mem rd' inp' c(1)] obtain y where
    y: "read_and_forward_response (se_lib env) (copy_env env (after_request x st1)) (rq_head_response (mr_head request)) ?y = (AOk resp, y)"
      "input y = rest'" by blast
  have "relays c ?y y"
  proof -
    have "xf_pipe ?y = []" using rd' by (simp add: ready_def)
    from response.relayed [OF this y(1)] obtain d where d: "relays d ?y y" by blast
    with inp' y(2) have "d = c" by (simp add: relays_def)
    with d show ?thesis by simp
  qed
  from relayedI [OF w assms(7) st1_def x y(1) this assms(4)] show ?thesis .
qed

section \<open>Two ways to lose synchronisation\<close>

text \<open>A chunked body that stops being one: the copy fails, the connection goes on.\<close>

lemma bad_chunk_continues:
  assumes "env_ok env" "rq_body (mr_head request) = Chunked" "\<not> rq_close_after_response (mr_head request)"
    and "drop k (cn_down_buf st) @ rx_data (cn_down st) = l @ rest" "is_line l" "chunk_size l = Err e"
    and "sk_limit (uc_tx up) = None" "cn_pipe st = []" "se_pipe_ok env"
  shows "\<exists>st'. serve_upstream env request outbound k up st = (Continue, st') \<and>
    cn_down_buf st' @ rx_data (cn_down st') = rest \<and> cn_down_tx st' = cn_down_tx st"
proof -
  define st1 where "st1 = st\<lparr>cn_down_buf := discard_buffer_prefix (cn_down_buf st) k\<rparr>"
  let ?tx = "(uc_tx up)\<lparr>sk_out := sk_out (uc_tx up) @ outbound\<rparr>"
  let ?x = "client_to_upstream st1 (up\<lparr>uc_tx := ?tx\<rparr>)"
  have w: "write_all outbound (uc_tx up) = (WOk, ?tx)" using assms(7) by simp
  have rd: "ready (copy_env env st1) ?x"
    using assms(7-9) by (simp add: ready_def client_to_upstream_def st1_def copy_env_def)
  have inp: "input ?x = l @ rest"
    using assms(4) by (simp add: input_def client_to_upstream_def st1_def discard_buffer_prefix_drop)
  have mem: "memmem_first (se_lib env)" using assms(1) by (simp add: env_ok_def)
  from read_write_line [OF mem rd inp assms(5)] obtain x1 x2 where
    x: "read_line (se_lib env) ?x = (AOk l, x1)" "xwrite l x1 = (AOk (), x2)" "input x2 = rest" by blast
  have c: "copy_body (se_lib env) (copy_env env st1) Chunked (Some MAX_REQUEST_BODY_BYTES) ?x = (AErr e, x2)"
    using x(1,2) assms(6)
    by (simp add: copy_body_def copy_chunked_body.simps [of "se_lib env" "copy_env env st1"
          "Some MAX_REQUEST_BODY_BYTES" 0 ?x])
  let ?st' = "upstream_failed request (drop_upstream (up\<lparr>uc_tx := xf_tx x2\<rparr>) (after_request x2 st1))"
  have "serve_upstream env request outbound k up st = (Continue, ?st')"
    using w c assms(2,3) by (simp add: serve_upstream_def st1_def [symmetric] Let_def)
  moreover have "cn_down_buf ?st' @ rx_data (cn_down ?st') = rest"
    using same_input_trans [OF effect_frames(8) effect_frames(4), of "after_request x2 st1" request] x(3)
    by (simp add: same_input_def after_request_def input_def)
  moreover have "cn_down_tx ?st' = cn_down_tx st" by (simp add: after_request_def st1_def)
  ultimately show ?thesis by blast
qed

text \<open>
  The buffer for upstream bytes outlives the upstream connection: a complete response left over in
  it answers the next request, whichever upstream that one goes to.
\<close>

lemma leftover_answers:
  assumes "env_ok env" "sk_limit (cn_down_tx st) = None" "cn_pipe st = []" "se_pipe_ok env"
    and "cn_up_buf st = c @ rest" "rs_body resp \<noteq> CloseDelimited"
    and "response_msg (bounded_parse (\<lambda>h. parse_response (se_lib env) h (rq_head_response (mr_head request)))) resp c"
  shows "sk_out (cn_down_tx (snd (serve_response env request up st))) = sk_out (cn_down_tx st) @ c"
proof -
  let ?x = "upstream_to_client st up"
  have rd: "ready (copy_env env st) ?x"
    using assms(2-4) by (simp add: ready_def upstream_to_client_def copy_env_def)
  have inp: "input ?x = c @ rest @ rx_data (uc_rx up)" using assms(5) by (simp add: input_def upstream_to_client_def)
  have mem: "memmem_first (se_lib env)" using assms(1) by (simp add: env_ok_def)
  from forward_response_complete [OF assms(7) mem rd inp assms(6)] obtain x where
    x: "read_and_forward_response (se_lib env) (copy_env env st) (rq_head_response (mr_head request)) ?x = (AOk resp, x)"
      "input x = rest @ rx_data (uc_rx up)" by blast
  have "out x = out ?x @ c"
    using response.conserves [OF _ x(1)] rd inp x(2) by (simp add: ready_def)
  then have "sk_out (xf_tx x) = sk_out (cn_down_tx st) @ c" by (simp add: upstream_to_client_def)
  moreover have "serve_response env request up st =
      conclude env request resp (up\<lparr>uc_rx := xf_rx x\<rparr>) (after_response x st)"
    using x(1) by (simp add: serve_response_def Let_def)
  ultimately show ?thesis by (simp add: after_response_def)
qed

section \<open>A sample\<close>

definition sample_serve_env :: serve_env where
  "sample_serve_env =
     \<lparr>se_lib = sample_lib, se_splice_supported = True, se_pipe_ok = True, se_single_core = False,
      se_peer = None, se_hash = (\<lambda>_. 0), se_clock = (\<lambda>i. i), se_peek = (\<lambda>_ _. RecvWouldBlock),
      se_dial = (\<lambda>_ authority. Some (Ok \<lparr>uc_rx = [RxData (sample_head @ ''hello'')],
        uc_tx = \<lparr>sk_out = [], sk_limit = None\<rparr>, uc_peer = authority\<rparr>)),
      se_flush = (\<lambda>_. True)\<rparr>"

definition sample_conn :: conn where
  "sample_conn =
     \<lparr>cn_snapshot = sample_snapshot, cn_pool = fast_pool_new, cn_down = [RxData sample_request],
      cn_down_buf = [], cn_down_tx = \<lparr>sk_out = [], sk_limit = None\<rparr>, cn_up_buf = [], cn_pipe = [],
      cn_iter = 0, cn_metrics = [], cn_log = [], cn_closed = []\<rparr>"

definition sample_matched :: "body_framing \<Rightarrow> matched_request" where
  "sample_matched body =
     \<lparr>mr_head = \<lparr>rq_head_response = False, rq_close_after_response = False, rq_body = body\<rparr>,
      mr_upstream = select_upstream (''web'', 0) sample_upstream_state, mr_limiter = None,
      mr_access_log = None\<rparr>"

definition sample_up :: upstream_conn where
  "sample_up = \<lparr>uc_rx = [RxData (sample_head @ ''hello'')], uc_tx = \<lparr>sk_out = [], sk_limit = None\<rparr>,
     uc_peer = ''a:80''\<rparr>"

lemma sample_env_ok: "env_ok sample_serve_env"
  using sample_memmem_first by (simp add: env_ok_def sample_serve_env_def)

lemma sample_conn_inv: "conn_inv sample_serve_env sample_conn"
  using sample_snap_inv fast.none_inv by (simp add: conn_inv_def sample_serve_env_def sample_conn_def)

lemma fast_lib [simp]: "se_lib sample_serve_env = sample_lib" "se_pipe_ok sample_serve_env"
  by (simp_all add: sample_serve_env_def)

section \<open>Properties\<close>

text \<open>
  C15. The fast engine never panics, never corrupts shared state, and returns unless a socket blocks
  it for ever. For every client, whatever it sends and however it is segmented, and whatever the
  upstreams answer, the result of \<^verbatim>\<open>serve_connection\<close> is no panic, and the snapshot and the connection
  pool satisfy their invariants afterwards. The result can be \<open>AStall\<close>, an operation outside any
  timeout that is never answered, only if the client's socket, that of a pooled connection or that
  of a new upstream connection blocks a writer for ever: if they accept every write or fail
  it, \<^verbatim>\<open>serve_connection\<close> returns.
\<close>

theorem serve_connection_never_panics:
  assumes "conn_inv env st" "env_ok env"
  shows "fst (serve_connection env st) \<noteq> APanic \<and> conn_inv env (snd (serve_connection env st)) \<and>
    (open_sinks st \<and> dials_open env \<longrightarrow> fst (serve_connection env st) \<noteq> AStall)"
  using serve_connection_safe [OF assms] serve_connection_fluent [OF _ assms(1) _ assms(2)] by blast

theorem serve_connection_never_panics_witness:
  "fst (serve_connection sample_serve_env sample_conn) \<noteq> APanic \<and> fst (serve_connection sample_serve_env sample_conn) \<noteq> AStall"
proof -
  have "open_sinks sample_conn" "dials_open sample_serve_env"
    by (auto simp: open_sinks_def dials_open_def never_blocks_def sink_end_def sample_conn_def sample_serve_env_def
        fast.none_idle)
  with serve_connection_never_panics [OF sample_conn_inv sample_env_ok] show ?thesis by blast
qed



text \<open>
  A chunked request body with an unparsable chunk line does not end the connection: nothing is
  answered, and the bytes after that line are taken as the next request of the client.
\<close>

theorem bad_chunk_desynchronises:
  assumes "env_ok env" "rq_body (mr_head request) = Chunked" "\<not> rq_close_after_response (mr_head request)"
    and "drop k (cn_down_buf st) @ rx_data (cn_down st) = l @ rest" "is_line l" "chunk_size l = Err e"
    and "sk_limit (uc_tx up) = None" "cn_pipe st = []" "se_pipe_ok env"
  shows "\<exists>st'. serve_upstream env request outbound k up st = (Continue, st') \<and>
    cn_down_buf st' @ rx_data (cn_down st') = rest \<and> cn_down_tx st' = cn_down_tx st"
  using assms by (rule bad_chunk_continues)

definition bad_line :: bytes where "bad_line = ''z'' @ crlf"

lemma bad_line_facts: "is_line bad_line" "\<exists>e. chunk_size bad_line = Err e"
proof -
  show "is_line bad_line" by (simp add: bad_line_def is_line_digit)
  have a: "utf8_chars bad_line = Some [''z'', [CHR 0x0D], [CHR 0x0A]]"
    using utf8_chars_ascii [of bad_line] by (simp add: byte_def bad_line_def)
  then have "from_utf8 bad_line = Some bad_line" "str_trim bad_line = ''z''"
    by (simp_all add: from_utf8_def str_trim_def trim_chars_def is_whitespace_single byte_def)
  moreover have "to_digit 16 (CHR ''z'') = None" by code_simp
  ultimately show "\<exists>e. chunk_size bad_line = Err e"
    by (simp add: chunk_size_def parse_hex_usize_def from_str_radix_def)
qed

theorem bad_chunk_desynchronises_witness:
  "\<exists>st'. serve_upstream sample_serve_env (sample_matched Chunked) sample_outbound 0 sample_up
       (sample_conn\<lparr>cn_down := [], cn_down_buf := bad_line @ ''GET /admin''\<rparr>) = (Continue, st') \<and>
     cn_down_buf st' @ rx_data (cn_down st') = ''GET /admin''"
proof -
  obtain e where e: "chunk_size bad_line = Err e" using bad_line_facts(2) by blast
  let ?st = "sample_conn\<lparr>cn_down := [], cn_down_buf := bad_line @ ''GET /admin''\<rparr>"
  have "rq_body (mr_head (sample_matched Chunked)) = Chunked"
    "\<not> rq_close_after_response (mr_head (sample_matched Chunked))"
    "drop 0 (cn_down_buf ?st) @ rx_data (cn_down ?st) = bad_line @ ''GET /admin''"
    "sk_limit (uc_tx sample_up) = None" "cn_pipe ?st = []"
    by (simp_all add: sample_matched_def sample_up_def sample_conn_def)
  from bad_chunk_desynchronises [OF sample_env_ok this(1-3) bad_line_facts(1) e this(4,5) fast_lib(2)]
  show ?thesis by blast
qed

text \<open>
  Upstream bytes outlive their connection: if the buffer for upstream bytes still holds a
  complete response when the next response is awaited, the client is answered with it, for every
  upstream connection the request was sent to.
\<close>

theorem leftover_bytes_answer_next_request:
  assumes "env_ok env" "sk_limit (cn_down_tx st) = None" "cn_pipe st = []" "se_pipe_ok env"
    and "cn_up_buf st = c @ rest" "rs_body resp \<noteq> CloseDelimited"
    and "response_msg (bounded_parse (\<lambda>h. parse_response (se_lib env) h (rq_head_response (mr_head request)))) resp c"
  shows "sk_out (cn_down_tx (snd (serve_response env request up st))) = sk_out (cn_down_tx st) @ c"
  using assms by (rule leftover_answers)

theorem leftover_bytes_answer_next_request_witness:
  "sk_out (cn_down_tx (snd (serve_response sample_serve_env (sample_matched NoBody) sample_up
     (sample_conn\<lparr>cn_up_buf := sample_head @ ''stale''\<rparr>)))) = sample_head @ ''stale''"
proof -
  let ?st = "sample_conn\<lparr>cn_up_buf := sample_head @ ''stale''\<rparr>"
  have st: "sk_limit (cn_down_tx ?st) = None" "cn_pipe ?st = []" "cn_up_buf ?st = (sample_head @ ''stale'') @ []"
    "rs_body sample_response \<noteq> CloseDelimited" "sk_out (cn_down_tx ?st) = []"
    by (simp_all add: sample_conn_def sample_response_def)
  have "length sample_head \<le> MAX_HEADER_BYTES" by code_simp
  then have "response_msg (bounded_parse (\<lambda>h. parse_response (se_lib sample_serve_env) h
      (rq_head_response (mr_head (sample_matched NoBody))))) sample_response (sample_head @ ''stale'')"
    by (intro response_msg.final sample_is_head)
       (simp_all add: sample_parse sample_matched_def sample_response_def informational_def)
  from leftover_bytes_answer_next_request [OF sample_env_ok st(1,2) fast_lib(2) st(3,4) this] st(5)
  show ?thesis by simp
qed

end
