(* ===== verification/Hyper_Proxy.thy ===== *)
theory Hyper_Proxy
  imports Fast_Engine
begin

text \<open>
  \<^verbatim>\<open>src/src/proxy/mod.rs\<close>: how a listener is served, and the request handler \<^verbatim>\<open>proxy\<close> of the hyper
  engine. The HTTP client is the function \<open>he_client\<close> from the outgoing request to its result; the
  state keeps the snapshot, the metrics and the requests that were sent. The \<^verbatim>\<open>http\<close> crate keeps
  header names in lower case; \<^verbatim>\<open>get\<close> is the first value of a name and \<^verbatim>\<open>insert\<close> replaces all of them.
\<close>

section \<open>Serving a listener\<close>

definition alpn_protocols :: "listener_protocol list \<Rightarrow> string list" where
  "alpn_protocols protocols =
     (if H2 \<in> set protocols then [''h2''] else []) @ (if H1 \<in> set protocols then [''http/1.1''] else [])"

definition accept_worker_count :: "usize option \<Rightarrow> listener_config \<Rightarrow> usize" where
  "accept_worker_count parallelism l =
     (if \<not> lc_reuse_port l then 1
      else if lc_accept_workers l = 0 then (case parallelism of None \<Rightarrow> 1 | Some n \<Rightarrow> n)
      else max (lc_accept_workers l) 1)"

text \<open>
  What \<^verbatim>\<open>serve_listener\<close> decides before it starts accepting: an error of the TLS set-up, one of the
  other engines, or a number of accept workers and the engine for their connections.
\<close>

datatype listener_plan =
    NoCertificate
  | BadCertificate
  | ServeH3
  | H3NotCompiled
  | ServeUring
  | Accept usize bool bool "string list option"

definition serve_listener ::
  "bool \<Rightarrow> (string \<Rightarrow> string \<Rightarrow> bool) \<Rightarrow> usize option \<Rightarrow> config_snapshot \<Rightarrow> listener_config \<Rightarrow> listener_plan" where
  "serve_listener h3_feature certs_load parallelism sn l =
     (let certs = tls_certs (pc_tls (sn_config sn));
          alpn = alpn_protocols (lc_protocols l);
          plan = (\<lambda>tls.
            if lc_protocols l = [H3] then (if h3_feature then ServeH3 else H3NotCompiled)
            else if lc_http1_engine l = Uring then ServeUring
            else Accept (accept_worker_count parallelism l) (lc_protocols l = [H1]) (lc_http1_engine l = Fast) tls)
      in if lc_tls l then
           (case certs of
              [] \<Rightarrow> NoCertificate
            | c # _ \<Rightarrow> if certs_load (cc_cert_path c) (cc_key_path c) then plan (Some alpn) else BadCertificate)
         else plan None)"

text \<open>The engine of an accepted connection, \<^verbatim>\<open>spawn_connection\<close>.\<close>

datatype connection_engine = FastEngine | HyperH1 "string list option" | HyperAuto "string list option"

definition connection_engine_of :: "bool \<Rightarrow> bool \<Rightarrow> string list option \<Rightarrow> connection_engine" where
  "connection_engine_of h1_only fast_h1 tls =
     (if fast_h1 then FastEngine else if h1_only then HyperH1 tls else HyperAuto tls)"

text \<open>The calls of \<^verbatim>\<open>bind_listener_socket\<close>, in order; the first one that fails ends it.\<close>

datatype socket_call = NewV4 | NewV6 | SetReuseAddr | SetNodelay | SetKeepalive | SetReusePort | Bind socket_addr | Listen u32

fun is_ipv4 :: "socket_addr \<Rightarrow> bool" where
  "is_ipv4 (SockV4 _ _) = True"
| "is_ipv4 (SockV6 _ _ _ _) = False"

definition bind_listener_socket :: "listener_config \<Rightarrow> socket_call list" where
  "bind_listener_socket l =
     [if is_ipv4 (lc_bind l) then NewV4 else NewV6, SetReuseAddr, SetNodelay, SetKeepalive] @
     (if lc_reuse_port l then [SetReusePort] else []) @ [Bind (lc_bind l), Listen (lc_backlog l)]"

section \<open>The request handler\<close>

record hyper_request =
  hq_method :: string
  hq_path_and_query :: "string option"
  hq_headers :: "(string \<times> bytes) list"

record hyper_outbound =
  ob_method :: string
  ob_uri :: uri
  ob_headers :: "(string \<times> bytes) list"

record hyper_response =
  hr_status :: nat
  hr_headers :: "(string \<times> bytes) list"
  hr_body :: bytes

datatype client_result = ClientTimeout | ClientError | ClientResponse hyper_response

datatype proxy_response = Text nat string | Relayed hyper_response

record hyper_env =
  he_lib :: ext_lib
  he_to_str :: "bytes \<Rightarrow> string option"
  he_hash :: "ip_addr \<Rightarrow> u64"
  he_now :: nat
  he_peer :: ip_addr
  he_client :: "hyper_outbound \<Rightarrow> client_result"

record proxy_state =
  px_snapshot :: config_snapshot
  px_metrics :: "string list"
  px_sent :: "hyper_outbound list"

definition header_insert :: "string \<Rightarrow> bytes \<Rightarrow> (string \<times> bytes) list \<Rightarrow> (string \<times> bytes) list" where
  "header_insert name v hs = (name, v) # filter (\<lambda>h. fst h \<noteq> name) hs"

definition px_count :: "string \<Rightarrow> proxy_state \<Rightarrow> proxy_state" where
  "px_count label st =
     (if te_prometheus (pc_telemetry (sn_config (px_snapshot st)))
      then st\<lparr>px_metrics := px_metrics st @ [label]\<rparr> else st)"

definition px_mark :: "(upstream_state \<Rightarrow> upstream_state) \<Rightarrow> upstream_ref \<Rightarrow> proxy_state \<Rightarrow> proxy_state" where
  "px_mark f r st = st\<lparr>px_snapshot := update_upstream f r (px_snapshot st)\<rparr>"

text \<open>The rate limiter of a route, behind its \<^verbatim>\<open>Arc\<close>.\<close>

definition snap_acquire ::
  "(ip_addr \<Rightarrow> u64) \<Rightarrow> nat \<Rightarrow> ip_addr \<Rightarrow> nat option \<Rightarrow> config_snapshot \<Rightarrow> bool \<times> config_snapshot" where
  "snap_acquire hash now ip limiter sn =
     (case limiter of
        None \<Rightarrow> (True, sn)
      | Some k \<Rightarrow>
          (let t = sn_routes sn; (admitted, L) = acquire hash now ip (tb_limiters t ! k)
           in (admitted, sn\<lparr>sn_routes := t\<lparr>tb_limiters := (tb_limiters t)[k := L]\<rparr>\<rparr>)))"

text \<open>\<^verbatim>\<open>route_match.pool.select()\<close>.\<close>

definition route_select ::
  "config_snapshot \<Rightarrow> compiled_route \<Rightarrow>
   ((upstream_ref \<times> upstream_state) option, unit) outcome \<times> config_snapshot" where
  "route_select sn route =
     (case snap_pool sn (cr_pool route) of
        None \<Rightarrow> (Panic ''dangling pool'', sn)
      | Some p \<Rightarrow>
          (let (sel, p') = select p; sn' = set_pool (cr_pool route) p' sn in
           case sel of
             None \<Rightarrow> (Ok None, sn')
           | Some i \<Rightarrow> (Ok (Some ((cr_pool route, i), pl_upstreams p' ! i)), sn')))"

definition hyper_host :: "hyper_env \<Rightarrow> config_snapshot \<Rightarrow> hyper_request \<Rightarrow> string option" where
  "hyper_host env sn req =
     (if tb_requires_host_match (sn_routes sn)
      then map_option str_trim (Option.bind (map_of (hq_headers req) ''host'') (he_to_str env))
      else None)"

definition hyper_path :: "hyper_request \<Rightarrow> string" where
  "hyper_path req = (case hq_path_and_query req of Some p \<Rightarrow> p | None \<Rightarrow> ''/'')"

definition nl :: string where
  "nl = [CHR 0x0A]"

definition is_server_error :: "nat \<Rightarrow> bool" where
  "is_server_error status \<longleftrightarrow> 500 \<le> status \<and> status < 600"

text \<open>The end of the handler: how the client's result is answered and booked.\<close>

definition conclude_proxy :: "upstream_ref \<Rightarrow> client_result \<Rightarrow> proxy_state \<Rightarrow> proxy_response \<times> proxy_state" where
  "conclude_proxy r result st =
     (case result of
        ClientTimeout \<Rightarrow>
          (Text 504 (''upstream request timed out'' @ nl), px_count ''upstream_error'' (px_mark mark_failure r st))
      | ClientError \<Rightarrow>
          (Text 502 (''upstream request failed'' @ nl), px_count ''upstream_error'' (px_mark mark_failure r st))
      | ClientResponse response \<Rightarrow>
          (Relayed response, px_count ''proxied''
             (px_mark (if is_server_error (hr_status response) then mark_failure else mark_success) r st)))"

definition forward_proxy ::
  "hyper_env \<Rightarrow> hyper_request \<Rightarrow> upstream_ref \<Rightarrow> upstream_state \<Rightarrow> proxy_state \<Rightarrow> proxy_response \<times> proxy_state" where
  "forward_proxy env req r u st =
     (if us_protocol (st_config u) = UpH3 then
        (Text 501 (''HTTP/3 upstream driver is configured but not enabled in this baseline'' @ nl),
         px_count ''h3_not_enabled'' st)
      else
        (case build_uri (he_lib env) (st_uri_base u) (hyper_path req) of
           None \<Rightarrow> (Text 502 (''invalid upstream URI'' @ nl), px_mark mark_failure r st)
         | Some uri \<Rightarrow>
             (let outbound = \<lparr>ob_method = hq_method req, ob_uri = uri,
                    ob_headers = header_insert ''host'' (ub_host_header (st_uri_base u)) (hq_headers req)\<rparr>
              in conclude_proxy r (he_client env outbound) (st\<lparr>px_sent := px_sent st @ [outbound]\<rparr>))))"

definition proxy :: "hyper_env \<Rightarrow> hyper_request \<Rightarrow> proxy_state \<Rightarrow> (proxy_response, unit) outcome \<times> proxy_state" where
  "proxy env req st =
     (let sn = px_snapshot st in
      case match_route (he_lib env) (sn_routes sn) (hyper_host env sn req) (hyper_path req) of
        None \<Rightarrow> (Ok (Text 404 (''no matching route'' @ nl)), px_count ''no_route'' st)
      | Some route \<Rightarrow>
          (let (admitted, sn1) = snap_acquire (he_hash env) (he_now env) (he_peer env) (cr_limiter route) sn;
               st1 = st\<lparr>px_snapshot := sn1\<rparr>
           in if \<not> admitted then
                (Ok (Text 429 (''rate limit exceeded'' @ nl)), px_count ''rate_limited'' st1)
              else
                (case route_select sn1 route of
                   (Panic p, sn2) \<Rightarrow> (Panic p, st1\<lparr>px_snapshot := sn2\<rparr>)
                 | (Err e, sn2) \<Rightarrow> (Err e, st1\<lparr>px_snapshot := sn2\<rparr>)
                 | (Ok None, sn2) \<Rightarrow>
                     (Ok (Text 502 (''no available upstream'' @ nl)), px_count ''no_upstream'' (st1\<lparr>px_snapshot := sn2\<rparr>))
                 | (Ok (Some (r, u)), sn2) \<Rightarrow>
                     (let (resp, st3) = forward_proxy env req r u (st1\<lparr>px_snapshot := sn2\<rparr>) in (Ok resp, st3)))))"

section \<open>Invariants\<close>

lemma snap_acquire_frame:
  assumes "snap_acquire hash now ip k sn = (a, sn')"
  shows "sn_config sn' = sn_config sn" "snap_pool sn' = snap_pool sn" "snap_inv E sn \<Longrightarrow> snap_inv E sn'"
    "tb_routes (sn_routes sn') = tb_routes (sn_routes sn)" "k = None \<Longrightarrow> a \<and> sn' = sn"
  using assms snap_inv_limiters
  by (auto simp: snap_acquire_def Let_def snap_pool_def case_prod_beta split: option.splits)

lemma px_frames [simp]:
  "px_snapshot (px_count l st) = px_snapshot st" "px_sent (px_count l st) = px_sent st"
  "px_snapshot (px_mark f r st) = update_upstream f r (px_snapshot st)" "px_sent (px_mark f r st) = px_sent st"
  by (simp_all add: px_count_def px_mark_def)

lemma route_select_Ok:
  assumes "snap_inv E sn" "route \<in> set (tb_routes (sn_routes sn))"
  shows "\<exists>p i p'. snap_pool sn (cr_pool route) = Some p \<and> select p = (Some i, p') \<and>
    i < length (pl_upstreams p) \<and> pl_upstreams p' = pl_upstreams p \<and> snap_inv E (set_pool (cr_pool route) p' sn) \<and>
    route_select sn route =
      (Ok (Some ((cr_pool route, i), pl_upstreams p ! i)), set_pool (cr_pool route) p' sn)"
proof -
  obtain p where p: "snap_pool sn (cr_pool route) = Some p" "pool_inv p" "pl_expanded p \<noteq> []"
    using assms by (auto simp: snap_inv_def)
  obtain i p' where sel: "select p = (Some i, p')" using select_Some [OF p(3)] by (cases "select p") auto
  have fr: "pl_upstreams p' = pl_upstreams p" "pl_expanded p' = pl_expanded p"
    using select_frame [of p] sel by simp_all
  then have "pool_inv p'" "pl_expanded p' \<noteq> []" using p(2,3) by (simp_all add: pool_inv_def)
  from snap_inv_set_pool [OF assms(1) this] select_in_range [OF p(2) sel] p(1) sel fr
  show ?thesis by (auto simp: route_select_def)
qed

text \<open>The failures counted against an upstream of a snapshot.\<close>

definition failures_of :: "config_snapshot \<Rightarrow> upstream_ref \<Rightarrow> usize option" where
  "failures_of sn r = map_option (\<lambda>p. st_passive_failures (pl_upstreams p ! snd r)) (snap_pool sn (fst r))"

lemma failures_of_update:
  assumes "snap_pool sn (fst r) = Some p" "snd r < length (pl_upstreams p)"
  shows "failures_of (update_upstream f r sn) r = Some (st_passive_failures (f (pl_upstreams p ! snd r)))"
  using assms by (simp add: failures_of_def update_upstream_def pool_update_def)

text \<open>What the client's result means for the response and for the upstream.\<close>

definition answer_of :: "client_result \<Rightarrow> proxy_response" where
  "answer_of result =
     (case result of
        ClientTimeout \<Rightarrow> Text 504 (''upstream request timed out'' @ nl)
      | ClientError \<Rightarrow> Text 502 (''upstream request failed'' @ nl)
      | ClientResponse x \<Rightarrow> Relayed x)"

definition failed_exchange :: "client_result \<Rightarrow> bool" where
  "failed_exchange result = (case result of ClientResponse x \<Rightarrow> is_server_error (hr_status x) | _ \<Rightarrow> True)"

lemma conclude_proxy_spec:
  "fst (conclude_proxy r result st) = answer_of result"
  "px_snapshot (snd (conclude_proxy r result st)) =
     update_upstream (if failed_exchange result then mark_failure else mark_success) r (px_snapshot st)"
  "px_sent (snd (conclude_proxy r result st)) = px_sent st"
  by (simp_all add: conclude_proxy_def answer_of_def failed_exchange_def split: client_result.split)

lemma mark_failures:
  "st_passive_failures (mark_failure u) = st_passive_failures u + 1" "st_passive_failures (mark_success u) = 0"
  by (simp_all add: mark_failure_def mark_success_def)

text \<open>The request that goes to an upstream.\<close>

definition outbound_of :: "hyper_request \<Rightarrow> upstream_state \<Rightarrow> uri \<Rightarrow> hyper_outbound" where
  "outbound_of req u uri =
     \<lparr>ob_method = hq_method req, ob_uri = uri,
      ob_headers = header_insert ''host'' (ub_host_header (st_uri_base u)) (hq_headers req)\<rparr>"

lemma forward_proxy_cases:
  obtains
    (h3) "forward_proxy env req r u st = (Text 501 (''HTTP/3 upstream driver is configured but not enabled in this baseline'' @ nl),
        px_count ''h3_not_enabled'' st)" "us_protocol (st_config u) = UpH3"
  | (bad) "forward_proxy env req r u st = (Text 502 (''invalid upstream URI'' @ nl), px_mark mark_failure r st)"
      "build_uri (he_lib env) (st_uri_base u) (hyper_path req) = None" "us_protocol (st_config u) \<noteq> UpH3"
  | (sent) uri where "build_uri (he_lib env) (st_uri_base u) (hyper_path req) = Some uri"
      "us_protocol (st_config u) \<noteq> UpH3"
      "forward_proxy env req r u st = conclude_proxy r (he_client env (outbound_of req u uri))
         (st\<lparr>px_sent := px_sent st @ [outbound_of req u uri]\<rparr>)"
  by (cases "build_uri (he_lib env) (st_uri_base u) (hyper_path req)")
     (auto simp: forward_proxy_def outbound_of_def Let_def split: if_splits)

lemma proxy_routed:
  assumes "snap_inv (he_lib env) sn" "px_snapshot st = sn"
    "match_route (he_lib env) (sn_routes sn) (hyper_host env sn req) (hyper_path req) = Some route"
    "snap_acquire (he_hash env) (he_now env) (he_peer env) (cr_limiter route) sn = (True, sn1)"
  obtains p i p' where "snap_pool sn (cr_pool route) = Some p" "select p = (Some i, p')" "i < length (pl_upstreams p)"
    "pl_upstreams p' = pl_upstreams p" "snap_inv (he_lib env) (set_pool (cr_pool route) p' sn1)"
    "proxy env req st =
       (let (resp, st3) = forward_proxy env req (cr_pool route, i) (pl_upstreams p ! i)
          (st\<lparr>px_snapshot := set_pool (cr_pool route) p' sn1\<rparr>) in (Ok resp, st3))"
proof -
  note fr = snap_acquire_frame [OF assms(4)]
  have "route \<in> set (tb_routes (sn_routes sn1))"
    using assms(1,3) match_route_mem fr(4) unfolding snap_inv_def by metis
  from route_select_Ok [OF fr(3) [OF assms(1)] this] fr(2) assms that show thesis
    by (auto simp: proxy_def)
qed

section \<open>Properties\<close>

lemma proxy_outcome:
  assumes "snap_inv (he_lib env) (px_snapshot st)" "proxy env req st = (res, st')"
  shows "\<exists>resp. res = Ok resp \<and> snap_inv (he_lib env) (px_snapshot st') \<and>
    (px_sent st' = px_sent st \<and> (\<exists>n txt. resp = Text n txt \<and> n \<in> {404, 429, 501, 502}) \<or>
     (\<exists>route p i uri. match_route (he_lib env) (sn_routes (px_snapshot st))
          (hyper_host env (px_snapshot st) req) (hyper_path req) = Some route \<and>
        snap_pool (px_snapshot st) (cr_pool route) = Some p \<and> i < length (pl_upstreams p) \<and>
        build_uri (he_lib env) (st_uri_base (pl_upstreams p ! i)) (hyper_path req) = Some uri \<and>
        px_sent st' = px_sent st @ [outbound_of req (pl_upstreams p ! i) uri] \<and>
        resp = answer_of (he_client env (outbound_of req (pl_upstreams p ! i) uri)) \<and>
        failures_of (px_snapshot st') (cr_pool route, i) =
          Some (if failed_exchange (he_client env (outbound_of req (pl_upstreams p ! i) uri))
                then st_passive_failures (pl_upstreams p ! i) + 1 else 0)))"
proof (cases "match_route (he_lib env) (sn_routes (px_snapshot st))
    (hyper_host env (px_snapshot st) req) (hyper_path req)")
  case None
  with assms show ?thesis by (auto simp: proxy_def)
next
  case (Some route)
  obtain a sn1 where a: "snap_acquire (he_hash env) (he_now env) (he_peer env) (cr_limiter route) (px_snapshot st) = (a, sn1)"
    by force
  note inv1 = snap_acquire_frame(3) [OF a assms(1)]
  show ?thesis
  proof (cases a)
    case False
    with assms(2) Some a inv1 show ?thesis by (auto simp: proxy_def)
  next
    case True
    from proxy_routed [OF assms(1) refl Some a [unfolded True [THEN eqTrueI]]] obtain p i p' where
      p: "snap_pool (px_snapshot st) (cr_pool route) = Some p" "i < length (pl_upstreams p)"
        "pl_upstreams p' = pl_upstreams p" "snap_inv (he_lib env) (set_pool (cr_pool route) p' sn1)"
        "proxy env req st = (let (resp, st3) = forward_proxy env req (cr_pool route, i) (pl_upstreams p ! i)
           (st\<lparr>px_snapshot := set_pool (cr_pool route) p' sn1\<rparr>) in (Ok resp, st3))" by metis
    let ?u = "pl_upstreams p ! i" and ?r = "(cr_pool route, i)"
    let ?st = "st\<lparr>px_snapshot := set_pool (cr_pool route) p' sn1\<rparr>"
    show ?thesis
    proof (cases rule: forward_proxy_cases [of env req ?r ?u ?st])
      case h3
      with assms(2) p(4,5) show ?thesis by auto
    next
      case bad
      with assms(2) p(4,5) snap_inv_marks(1) [OF p(4)] show ?thesis by auto
    next
      case (sent uri)
      let ?c = "he_client env (outbound_of req ?u uri)"
      let ?f = "if failed_exchange ?c then mark_failure else mark_success"
      have res: "res = Ok (answer_of ?c)" "px_sent st' = px_sent st @ [outbound_of req ?u uri]"
        "px_snapshot st' = update_upstream ?f ?r (set_pool (cr_pool route) p' sn1)"
        using assms(2) p(5) sent(3) conclude_proxy_spec [of ?r ?c "?st\<lparr>px_sent := px_sent ?st @ [outbound_of req ?u uri]\<rparr>"]
        by (simp_all add: Let_def case_prod_beta)
      have "snap_inv (he_lib env) (px_snapshot st')" using res(3) snap_inv_marks [OF p(4)] by simp
      moreover have "failures_of (px_snapshot st') ?r = Some (st_passive_failures (?f ?u))"
        using failures_of_update [of "set_pool (cr_pool route) p' sn1" ?r p' ?f] p(2,3) by (simp add: res(3))
      then have "failures_of (px_snapshot st') ?r =
          Some (if failed_exchange ?c then st_passive_failures ?u + 1 else 0)"
        by (simp add: mark_failures split: if_splits)
      ultimately show ?thesis using res(1,2) Some p(1,2) sent(1) by blast
    qed
  qed
qed

text \<open>
  C21. The hyper engine books every exchange. On the snapshot of a parsed configuration the handler
  always answers and keeps the snapshot sound. Either nothing is sent and the answer is one of its
  own error texts, or exactly one request is sent: to an upstream of the matched route's pool, at
  its base path joined with the request's path, with the client's method and headers but the
  upstream's \<^verbatim>\<open>Host\<close>; its result is what the client is answered, and the upstream's failure count
  grows by one on a timeout, an error or a 5xx status and is reset by any other response.
\<close>

theorem proxy_books_every_exchange:
  assumes "snap_inv (he_lib env) (px_snapshot st)" "proxy env req st = (res, st')"
  shows "\<exists>resp. res = Ok resp \<and> snap_inv (he_lib env) (px_snapshot st') \<and>
    (px_sent st' = px_sent st \<and> (\<exists>n txt. resp = Text n txt \<and> n \<in> {404, 429, 501, 502}) \<or>
     (\<exists>route p i uri. match_route (he_lib env) (sn_routes (px_snapshot st))
          (hyper_host env (px_snapshot st) req) (hyper_path req) = Some route \<and>
        snap_pool (px_snapshot st) (cr_pool route) = Some p \<and> i < length (pl_upstreams p) \<and>
        build_uri (he_lib env) (st_uri_base (pl_upstreams p ! i)) (hyper_path req) = Some uri \<and>
        px_sent st' = px_sent st @ [outbound_of req (pl_upstreams p ! i) uri] \<and>
        resp = answer_of (he_client env (outbound_of req (pl_upstreams p ! i) uri)) \<and>
        failures_of (px_snapshot st') (cr_pool route, i) =
          Some (if failed_exchange (he_client env (outbound_of req (pl_upstreams p ! i) uri))
                then st_passive_failures (pl_upstreams p ! i) + 1 else 0)))"
  using assms by (rule proxy_outcome)


definition sample_hyper_env :: hyper_env where
  "sample_hyper_env =
     \<lparr>he_lib = sample_lib, he_to_str = Some, he_hash = (\<lambda>_. 0), he_now = 0, he_peer = V4 10 0 0 9,
      he_client = (\<lambda>_. ClientResponse \<lparr>hr_status = 503, hr_headers = [], hr_body = []\<rparr>)\<rparr>"

definition sample_hyper_request :: hyper_request where
  "sample_hyper_request = \<lparr>hq_method = ''GET'', hq_path_and_query = Some ''/x'', hq_headers = [(''host'', ''a'')]\<rparr>"

definition sample_proxy_state :: proxy_state where
  "sample_proxy_state = \<lparr>px_snapshot = sample_snapshot, px_metrics = [], px_sent = []\<rparr>"

theorem proxy_books_every_exchange_witness:
  "snap_inv sample_lib (px_snapshot (snd (proxy sample_hyper_env sample_hyper_request sample_proxy_state))) \<and>
   (\<exists>resp. fst (proxy sample_hyper_env sample_hyper_request sample_proxy_state) = Ok resp)"
proof -
  have "snap_inv (he_lib sample_hyper_env) (px_snapshot sample_proxy_state)"
    using sample_snap_inv by (simp add: sample_hyper_env_def sample_proxy_state_def)
  from proxy_books_every_exchange [OF this surjective_pairing, of sample_hyper_request] show ?thesis
    by (auto simp: sample_hyper_env_def)
qed

text \<open>
  C34. The hyper engine and the fast engine send a request to the same place: on the same snapshot,
  for the same host and target and a route without rate limit, the upstream they select is the same,
  the hyper engine's URI is parsed from the authority and path the fast engine writes, the \<^verbatim>\<open>Host\<close>
  header is the same, and apart from the book-keeping of the result both leave the same snapshot.
\<close>

theorem hyper_routes_like_fast:
  assumes "snap_inv (he_lib env) sn" "build_request (he_lib env) sn raw = (Ok (Some (m, outbound)), sn')"
    "request_line (he_lib env) raw = Ok (meth, path, http10, hs)" "mr_limiter m = None"
    "hyper_path req = path" "hyper_host env sn req = map_option str_trim (request_host sn hs)"
    "proxy env req \<lparr>px_snapshot = sn, px_metrics = ms, px_sent = []\<rparr> = (res, st)" "px_sent st = [ob]"
  shows "\<exists>p u rest.
    snap_pool sn (fst (su_ref (mr_upstream m))) = Some p \<and> u = pl_upstreams p ! snd (su_ref (mr_upstream m)) \<and>
    px_snapshot st \<in> {update_upstream mark_failure (su_ref (mr_upstream m)) sn',
                       update_upstream mark_success (su_ref (mr_upstream m)) sn'} \<and>
    outbound = outbound_head meth (path_for_upstream (ub_base_path (st_uri_base u)) path)
        (su_host_header (mr_upstream m)) @ rest \<and>
    lib_parse_uri (he_lib env) (ub_scheme (st_uri_base u) @ ''://'' @ su_authority (mr_upstream m) @
      path_for_upstream (ub_base_path (st_uri_base u)) path) = Some (ob_uri ob) \<and>
    map_of (ob_headers ob) ''host'' = Some (su_host_header (mr_upstream m))"
  using assms(1)
proof (cases rule: build_request_cases [where raw = raw])
  case (routed meth' path' http10' hs' route p i p')
  let ?u = "pl_upstreams p ! i" and ?r = "(cr_pool route, i)"
  have line: "meth' = meth" "path' = path" "http10' = http10" "hs' = hs" using routed(1) assms(3) by simp_all
  from assms(2) routed(8) have sn': "sn' = set_pool (cr_pool route) p' sn"
    and "fast_request sn' route ?r ?u (meth, path, http10, hs) = Ok (m, outbound)"
    by (auto simp: outcome_simps line)
  then obtain body where m: "mr_upstream m = select_upstream ?r ?u" "mr_limiter m = cr_limiter route"
    "outbound = outbound_head meth (path_for_upstream (ub_base_path (st_uri_base ?u)) path)
       (ub_host_header (st_uri_base ?u)) @ concat (map render_header (forwarded hs body)) @ crlf"
    by (auto simp: fast_request_Ok)
  have acq: "snap_acquire (he_hash env) (he_now env) (he_peer env) (cr_limiter route) sn = (True, sn)"
    using assms(4) m(2) by (simp add: snap_acquire_def)
  have route: "match_route (he_lib env) (sn_routes sn) (hyper_host env sn req) (hyper_path req) = Some route"
    using routed(2) assms(5,6) by (simp add: line)
  let ?st0 = "\<lparr>px_snapshot = sn, px_metrics = ms, px_sent = []\<rparr>"
  have fwd: "proxy env req ?st0 = (let (resp, st3) = forward_proxy env req ?r ?u (?st0\<lparr>px_snapshot := sn'\<rparr>) in (Ok resp, st3))"
  proof (rule proxy_routed [OF assms(1) _ route acq, of ?st0])
    fix q j q'
    assume "snap_pool sn (cr_pool route) = Some q" "select q = (Some j, q')"
      "proxy env req ?st0 = (let (resp, st3) = forward_proxy env req (cr_pool route, j) (pl_upstreams q ! j)
         (?st0\<lparr>px_snapshot := set_pool (cr_pool route) q' sn\<rparr>) in (Ok resp, st3))"
    with routed(3,4) sn' show ?thesis by simp
  qed simp
  show ?thesis
  proof (cases rule: forward_proxy_cases [of env req ?r ?u "?st0\<lparr>px_snapshot := sn'\<rparr>"])
    case h3
    with fwd assms(7,8) show ?thesis by auto
  next
    case bad
    with fwd assms(7,8) show ?thesis by auto
  next
    case (sent uri)
    let ?c = "he_client env (outbound_of req ?u uri)"
    have st: "px_sent st = [outbound_of req ?u uri]"
      "px_snapshot st = update_upstream (if failed_exchange ?c then mark_failure else mark_success) ?r sn'"
      using assms(7) fwd sent(3) conclude_proxy_spec [of ?r ?c]
      by (auto simp: Let_def case_prod_beta)
    then have "ob = outbound_of req ?u uri" using assms(8) by simp
    then have "map_of (ob_headers ob) ''host'' = Some (su_host_header (mr_upstream m))"
      "lib_parse_uri (he_lib env) (ub_scheme (st_uri_base ?u) @ ''://'' @ su_authority (mr_upstream m) @
         path_for_upstream (ub_base_path (st_uri_base ?u)) path) = Some (ob_uri ob)"
      using sent(1) by (simp_all add: m(1) select_upstream_def outbound_of_def header_insert_def build_uri_def assms(5))
    moreover have "su_ref (mr_upstream m) = ?r" "su_host_header (mr_upstream m) = ub_host_header (st_uri_base ?u)"
      by (simp_all add: m(1) select_upstream_def)
    ultimately show ?thesis using st(2) m(3) routed(3) by auto
  qed
qed (use assms(2) in auto)

lemma sample_proxy_sends:
  "\<exists>ob. px_sent (snd (proxy sample_hyper_env sample_hyper_request sample_proxy_state)) = [ob]"
proof -
  have path: "hyper_path sample_hyper_request = ''/x''" by (simp add: hyper_path_def sample_hyper_request_def)
  have "match_route sample_lib (sn_routes sample_snapshot) h ''/x'' = Some sample_route" for h
    by (simp add: match_route_def sample_snapshot_def)
  moreover have "route_select sample_snapshot sample_route = (Ok (Some ((''web'', 0), sample_upstream_state)),
      set_pool ''web'' sample_up_pool sample_snapshot)"
    by (simp add: route_select_def snap_pool_def sample_snapshot_def sample_route_def select_def sample_up_pool_def)
  moreover have "cr_limiter sample_route = None" by (simp add: sample_route_def)
  moreover have "build_uri sample_lib (st_uri_base sample_upstream_state) ''/x'' \<noteq> None" by code_simp
  moreover have "us_protocol (st_config sample_upstream_state) \<noteq> UpH3" by (simp add: sample_upstream_state_def default_upstream_def)
  ultimately show ?thesis
    by (auto simp: proxy_def sample_hyper_env_def sample_proxy_state_def path snap_acquire_def forward_proxy_def
        conclude_proxy_spec Let_def case_prod_beta)
qed

theorem hyper_routes_like_fast_witness:
  "\<exists>m sn' ob. build_request sample_lib sample_snapshot sample_request = (Ok (Some (m, sample_outbound)), sn') \<and>
     px_sent (snd (proxy sample_hyper_env sample_hyper_request sample_proxy_state)) = [ob] \<and>
     map_of (ob_headers ob) ''host'' = Some (su_host_header (mr_upstream m))"
proof -
  obtain m sn' where m: "build_request sample_lib sample_snapshot sample_request = (Ok (Some (m, sample_outbound)), sn')"
    using sample_build by blast
  have "match_route sample_lib (sn_routes sample_snapshot) h ''/x'' = Some sample_route" for h
    by (simp add: match_route_def sample_snapshot_def)
  with m have "mr_limiter m = None"
    by (auto simp: build_request_def sample_request_line outcome_simps fast_request_Ok sample_route_def
        split: prod.splits outcome.splits option.splits)
  moreover have "hyper_path sample_hyper_request = ''/x''" by (simp add: hyper_path_def sample_hyper_request_def)
  moreover have "hyper_host sample_hyper_env sample_snapshot sample_hyper_request =
      map_option str_trim (request_host sample_snapshot [(''Host'', ''h''), (''Accept'', ''y'')])"
    by (simp add: hyper_host_def request_host_def sample_snapshot_def)
  moreover obtain ob where ob: "px_sent (snd (proxy sample_hyper_env sample_hyper_request sample_proxy_state)) = [ob]"
    using sample_proxy_sends by blast
  moreover have "he_lib sample_hyper_env = sample_lib" by (simp add: sample_hyper_env_def)
  ultimately have "map_of (ob_headers ob) ''host'' = Some (su_host_header (mr_upstream m))"
    using hyper_routes_like_fast [of sample_hyper_env sample_snapshot sample_request m sample_outbound sn' "''GET''" "''/x''" False
        "[(''Host'', ''h''), (''Accept'', ''y'')]" sample_hyper_request "[]", OF _ _ _ _ _ _ surjective_pairing]
      sample_snap_inv m sample_request_line by (auto simp: sample_proxy_state_def)
  with m ob show ?thesis by blast
qed

end
