(* ===== verification/Uring_Copy.thy ===== *)
theory Uring_Copy
  imports Response_Relay
begin

text \<open>
  The byte-moving functions of \<^verbatim>\<open>src/src/proxy/h1_uring.rs\<close>: \<^verbatim>\<open>fixed_pool\<close>, \<^verbatim>\<open>read_header_block\<close>,
  \<^verbatim>\<open>copy_exact_body\<close>, \<^verbatim>\<open>copy_response_body\<close> and the response loop of \<^verbatim>\<open>serve_connection\<close>.

  How many bytes \<^verbatim>\<open>tokio_uring\<close> reads into a \<^verbatim>\<open>Vec\<close> that was shortened with \<^verbatim>\<open>resize\<close> is the
  library's choice: the parameter \<open>ur_read_max\<close> maps the vector's length to that bound. The vectors
  at rest have length and capacity \<^verbatim>\<open>READ_CHUNK_BYTES\<close>, for these both readings agree. If the bound is
  the length, as the comment in the source assumes (\<open>reads_to_length\<close>), the copier is the buffered
  copier of the fast engine. If it is the capacity, a copy can overshoot and then fails. A copy that succeeds is exact for
  every bound, because an overshot counter wraps and never gets back to zero.
\<close>

section \<open>Definitions\<close>

text \<open>The thread-local registration state of the fixed buffers.\<close>

record fixed_state =
  fx_registered :: bool
  fx_disabled :: bool

definition fixed_pool :: "bool \<Rightarrow> fixed_state \<Rightarrow> bool \<times> fixed_state" where
  "fixed_pool register_ok s =
     (if fx_disabled s then (False, s)
      else if \<not> fx_registered s then
        (if \<not> register_ok then (False, s\<lparr>fx_disabled := True\<rparr>)
         else (True, s\<lparr>fx_registered := True\<rparr>))
      else (True, s))"

text \<open>
  \<open>ur_pool\<close>: the answer of \<^verbatim>\<open>fixed_pool\<close>; \<open>ur_try_next\<close>: whether a registered buffer is free in the
  iteration with so many bytes remaining.
\<close>

record uring_env =
  ur_zero_copy :: bool
  ur_pool :: bool
  ur_try_next :: "usize \<Rightarrow> bool"
  ur_read_max :: "nat \<Rightarrow> nat"

function read_header_block_uring :: "ext_lib \<Rightarrow> xfer \<Rightarrow> nat option aresult \<times> xfer" where
  "read_header_block_uring E st =
     (case lib_memmem_find E (xf_buf st) (crlf @ crlf) of
        Some index \<Rightarrow> (AOk (Some (index + 4)), st)
      | None \<Rightarrow>
          if MAX_HEADER_BYTES \<le> length (xf_buf st) then (AErr (Parse ''headers too large''), st)
          else (case sock_read READ_CHUNK_BYTES (xf_rx st) of
             (Failed, rx) \<Rightarrow> (io_err, st\<lparr>xf_rx := rx\<rparr>)
           | (Stalled, rx) \<Rightarrow> (AStall, st\<lparr>xf_rx := rx\<rparr>)
           | (Got d, rx) \<Rightarrow>
               if d = [] then
                 (if xf_buf st = [] then (AOk None, st\<lparr>xf_rx := rx\<rparr>)
                  else (eof_err, st\<lparr>xf_rx := rx\<rparr>))
               else read_header_block_uring E (st\<lparr>xf_rx := rx, xf_buf := xf_buf st @ d\<rparr>)))"
  by pat_completeness auto
termination
  by (relation "measure (\<lambda>(E, st). rx_size (xf_rx st))") (auto dest: sock_read_less)

declare read_header_block_uring.simps [simp del]

lemma sock_read_Got_less:
  assumes "(Got d, rx') = sock_read n rx" "d \<noteq> []"
  shows "rx_size rx' < rx_size rx"
proof -
  have "0 < n" using assms by (induction n rx rule: sock_read.induct) (auto split: if_splits)
  with sock_read_Got(2) [OF assms(1) [symmetric]] assms(2) show ?thesis by simp
qed

lemma sock_read_zero: "sock_read 0 rx = (Got d, rx') \<Longrightarrow> d = []"
  by (induction "0 :: nat" rx rule: sock_read.induct) (auto split: if_splits)

text \<open>One iteration reads at most \<open>read_bound\<close> bytes. \<open>remaining -= read\<close> wraps in a release build.\<close>

definition read_bound :: "uring_env \<Rightarrow> usize \<Rightarrow> nat" where
  "read_bound env remaining =
     (let want = min READ_CHUNK_BYTES (unat remaining) in
      if ur_zero_copy env \<and> ur_pool env \<and> ur_try_next env remaining then want
      else ur_read_max env want)"

function copy_loop_uring :: "uring_env \<Rightarrow> usize \<Rightarrow> xfer \<Rightarrow> unit aresult \<times> xfer" where
  "copy_loop_uring env remaining st =
     (if remaining = 0 then (AOk (), st)
      else (case sock_read (read_bound env remaining) (xf_rx st) of
         (Failed, rx) \<Rightarrow> (io_err, st\<lparr>xf_rx := rx\<rparr>)
       | (Stalled, rx) \<Rightarrow> (AStall, st\<lparr>xf_rx := rx\<rparr>)
       | (Got d, rx) \<Rightarrow>
           if d = [] then (eof_err, st\<lparr>xf_rx := rx\<rparr>)
           else abind (xwrite d (st\<lparr>xf_rx := rx\<rparr>))
             (\<lambda>_ st'. copy_loop_uring env (remaining - of_nat (length d)) st')))"
  by pat_completeness auto
termination
  by (relation "measure (\<lambda>(env, r, st). rx_size (xf_rx st))")
     (auto dest: sock_read_Got_less dest!: xwrite_frame_eq(1))

declare copy_loop_uring.simps [simp del]

definition copy_exact_body_uring :: "uring_env \<Rightarrow> usize \<Rightarrow> xfer \<Rightarrow> unit aresult \<times> xfer" where
  "copy_exact_body_uring env remaining st =
     (let buffered = min (length (xf_buf st)) (unat remaining) in
      abind (if 0 < buffered then
               abind (xwrite (take buffered (xf_buf st)) st)
                 (\<lambda>_ st'. (AOk (), st'\<lparr>xf_buf := discard_buffer_prefix_uring (xf_buf st') buffered\<rparr>))
             else (AOk (), st))
        (\<lambda>_ st'. copy_loop_uring env (remaining - of_nat buffered) st'))"

text \<open>The close-delimited case writes the buffered bytes but keeps them in the buffer.\<close>

definition copy_response_body_uring :: "uring_env \<Rightarrow> body_framing \<Rightarrow> xfer \<Rightarrow> unit aresult \<times> xfer" where
  "copy_response_body_uring env body st =
     (case body of
        ContentLength len \<Rightarrow> copy_exact_body_uring env len st
      | CloseDelimited \<Rightarrow>
          abind (if xf_buf st \<noteq> [] then xwrite (xf_buf st) st else (AOk (), st))
            (\<lambda>_ st'. copy_stream st')
      | _ \<Rightarrow> (AOk (), st))"

text \<open>
  The loop over response heads. Only the read is under the request timeout; its expiry is an error.
\<close>

definition upstream_timeout :: "'a aresult \<times> xfer \<Rightarrow> 'a aresult \<times> xfer" where
  "upstream_timeout p =
     (case p of (AStall, st) \<Rightarrow> (AErr (Parse ''upstream response timed out''), st) | _ \<Rightarrow> p)"

lemma upstream_timeout_AOk [simp]: "upstream_timeout p = (AOk x, st) \<longleftrightarrow> p = (AOk x, st)"
  by (cases p; cases "fst p") (auto simp: upstream_timeout_def)

lemma read_header_block_uring_eq:
  "fst (read_header_block_uring E st) = fst (read_header_block E st)"
  "read_header_block_uring E st = (AOk h, st1) \<longleftrightarrow> read_header_block E st = (AOk h, st1)"
proof -
  have "fst (read_header_block_uring E st) = fst (read_header_block E st) \<and>
      (read_header_block_uring E st = (AOk h, st1) \<longleftrightarrow> read_header_block E st = (AOk h, st1))"
  proof (induction st rule: fill_induct)
    case (1 st)
    obtain r rx where r: "sock_read READ_CHUNK_BYTES (xf_rx st) = (r, rx)" by force
    show ?case
    proof (cases "\<exists>d. r = Got d \<and> d \<noteq> []")
      case True
      then obtain d where d: "r = Got d" "d \<noteq> []" by blast
      from "1.IH" [OF r [unfolded d(1)] d(2)] r d show ?thesis
        by (simp add: read_header_block_uring.simps [of E st] read_header_block.simps [of E st]
            split: option.split)
    next
      case False
      with r show ?thesis
        by (cases r)
           (simp_all add: read_header_block_uring.simps [of E st] read_header_block.simps [of E st]
            split: option.split)
    qed
  qed
  then show "fst (read_header_block_uring E st) = fst (read_header_block E st)"
    "read_header_block_uring E st = (AOk h, st1) \<longleftrightarrow> read_header_block E st = (AOk h, st1)" by simp_all
qed

function read_response_uring ::
  "ext_lib \<Rightarrow> bool \<Rightarrow> xfer \<Rightarrow> response_head option aresult \<times> xfer" where
  "read_response_uring E head_response st =
     abind (upstream_timeout (read_header_block_uring E st)) (\<lambda>h st1.
       case h of
         None \<Rightarrow> (AOk None, st1)
       | Some len \<Rightarrow>
           if length (xf_buf st1) < len then (APanic, st1)
           else (case parse_response_uring E (take len (xf_buf st1)) head_response of
              Panic _ \<Rightarrow> (APanic, st1)
            | Err e \<Rightarrow> (AErr e, st1)
            | Ok response \<Rightarrow>
                abind (xwrite (take len (xf_buf st1)) st1) (\<lambda>_ st2.
                  let st3 = st2\<lparr>xf_buf := discard_buffer_prefix_uring (xf_buf st2) len\<rparr> in
                  if informational (rs_status response)
                  then read_response_uring E head_response st3
                  else (AOk (Some response), st3))))"
  by pat_completeness auto
termination
  by (relation "measure (\<lambda>(E, h, st). in_size st)")
     (auto simp: read_header_block_uring_eq(2) not_less discard_buffer_prefix_uring_drop
        discard_buffer_prefix_drop dest: forward_interim_less)

declare read_response_uring.simps [simp del]

section \<open>Fixed buffers\<close>

text \<open>Registration is attempted until it is settled, and never again.\<close>

lemma fixed_pool_settled:
  assumes "fixed_pool ok s = (b, s')"
  shows "b \<longleftrightarrow> \<not> fx_disabled s'" "b \<longrightarrow> fx_registered s'" "fixed_pool ok' s' = (b, s')"
  using assms by (auto simp: fixed_pool_def split: if_splits)

section \<open>Copying\<close>

text \<open>Reads that stop at the length of the vector.\<close>

definition reads_to_length :: "uring_env \<Rightarrow> bool" where
  "reads_to_length env \<longleftrightarrow> (\<forall>n. ur_read_max env n = n)"

text \<open>The fast engine's environment that copies through a 16 KiB buffer.\<close>

definition buffered_env :: xfer_env where
  "buffered_env =
     \<lparr>xe_zero_copy = False, xe_splice_supported = False, xe_pipe_ok = False, xe_single_core = False\<rparr>"

lemma buffered_env_simps [simp]:
  "\<not> xe_zero_copy buffered_env" "BODY_CHUNK_BYTES (xe_single_core buffered_env) = READ_CHUNK_BYTES"
  by (simp_all add: buffered_env_def BODY_CHUNK_BYTES_def READ_CHUNK_BYTES_def)

lemma read_bound_exact:
  "reads_to_length env \<Longrightarrow> read_bound env remaining = min READ_CHUNK_BYTES (unat remaining)"
  by (simp add: read_bound_def reads_to_length_def Let_def)

lemma unat_sub_of_nat: "n \<le> unat w \<Longrightarrow> unat (w - of_nat n :: usize) = unat w - n"
  by (metis le_unat_uoi unat_sub word_le_nat_alt)

lemma copy_loop_uring_eq:
  assumes "reads_to_length env"
  shows "copy_loop_uring env remaining st = copy_loop READ_CHUNK_BYTES (unat remaining) st"
  using assms
proof (induction env remaining st rule: copy_loop_uring.induct)
  case (1 env remaining st)
  note bound = read_bound_exact [OF "1.prems", of remaining]
  obtain r rx where r: "sock_read (min READ_CHUNK_BYTES (unat remaining)) (xf_rx st) = (r, rx)" by force
  show ?case
  proof (cases "remaining \<noteq> 0 \<and> (\<exists>d. r = Got d \<and> d \<noteq> [])")
    case True
    then obtain d where d: "remaining \<noteq> 0" "r = Got d" "d \<noteq> []" by blast
    then have rem: "unat remaining \<noteq> 0" by (simp add: unat_eq_zero)
    then have pos: "0 < min READ_CHUNK_BYTES (unat remaining)" by simp
    have len: "length d \<le> unat remaining" using sock_read_Got(3) [OF r [unfolded d(2)] pos] by simp
    obtain w st1 where w: "xwrite d (st\<lparr>xf_rx := rx\<rparr>) = (w, st1)" by force
    show ?thesis
    proof (cases w)
      case (AOk u)
      from "1.IH" [OF d(1) r [symmetric, folded bound] d(2,3) w [unfolded AOk] "1.prems"]
      show ?thesis
        using d rem r w AOk len bound
        by (simp add: copy_loop_uring.simps [of env remaining st]
            copy_loop.simps [of READ_CHUNK_BYTES "unat remaining" st] unat_sub_of_nat)
    qed (use d rem r w bound in \<open>simp_all add: copy_loop_uring.simps [of env remaining st]
        copy_loop.simps [of READ_CHUNK_BYTES "unat remaining" st]\<close>)
  next
    case False
    with r bound show ?thesis
      by (cases r) (auto simp: copy_loop_uring.simps [of env remaining st]
          copy_loop.simps [of READ_CHUNK_BYTES "unat remaining" st] unat_eq_zero)
  qed
qed

lemma copy_exact_body_uring_eq:
  assumes "reads_to_length env"
  shows "copy_exact_body_uring env remaining st = copy_exact_body buffered_env (unat remaining) st"
proof -
  let ?k = "min (length (xf_buf st)) (unat remaining)"
  have "unat (remaining - of_nat ?k) = unat remaining - ?k" by (rule unat_sub_of_nat) simp
  moreover have "(if unat remaining - ?k = 0 then (AOk (), st')
      else if xe_zero_copy buffered_env \<and> xe_splice_supported buffered_env then
        (if xe_pipe_ok buffered_env then splice_exact (unat remaining - ?k) st' else (io_err, st'))
      else copy_loop (BODY_CHUNK_BYTES (xe_single_core buffered_env)) (unat remaining - ?k) st') =
    copy_loop READ_CHUNK_BYTES (unat remaining - ?k) st'" for st' by simp
  ultimately show ?thesis
    by (simp only: copy_exact_body_uring_def copy_exact_body_def copy_buffered_def Let_def
        copy_loop_uring_eq [OF assms] discard_buffer_prefix_drop discard_buffer_prefix_uring_drop)
qed

text \<open>
  If a read may fill the whole vector, a copy takes what follows the body with it: the
  next request of a pipelining client, sent in the same segment as the body, goes to the upstream,
  and the counter wraps.
\<close>

lemma copy_loop_uring_overshoots:
  assumes "\<forall>n. ur_read_max env n = READ_CHUNK_BYTES" "\<not> ur_pool env" "sk_limit (xf_tx st) = None"
    and "xf_rx st = [RxData (body @ next)]" "length body = unat n" "n \<noteq> 0" "next \<noteq> []"
    and "length (body @ next) \<le> READ_CHUNK_BYTES"
  shows "fst (copy_loop_uring env n st) = eof_err \<and> out (snd (copy_loop_uring env n st)) = out st @ body @ next"
proof -
  let ?d = "body @ next"
  have bound: "read_bound env m = READ_CHUNK_BYTES" for m
    using assms(1,2) by (simp add: read_bound_def)
  have r: "sock_read READ_CHUNK_BYTES (xf_rx st) = (Got ?d, [])" using assms(4,7,8) by simp
  let ?st = "(st\<lparr>xf_rx := []\<rparr>)\<lparr>xf_tx := (xf_tx st)\<lparr>sk_out := out st @ ?d\<rparr>\<rparr>"
  have w: "xwrite ?d (st\<lparr>xf_rx := []\<rparr>) = (AOk (), ?st)" using assms(3) by (simp add: xwrite_unlimited)
  have step: "copy_loop_uring env n st = copy_loop_uring env (n - of_nat (length ?d)) ?st"
    using assms(6,7) r w bound by (subst copy_loop_uring.simps) simp
  have "n - of_nat (length ?d) = - of_nat (length next)"
    using assms(5) by (simp add: algebra_simps)
  moreover have "unat (of_nat (length next) :: usize) = length next"
    using assms(8) by (simp add: unat_of_nat take_bit_nat_eq_self_iff READ_CHUNK_BYTES_def)
  with assms(7) have "of_nat (length next) \<noteq> (0 :: usize)" by (metis length_0_conv unat_0)
  ultimately have "n - of_nat (length ?d) \<noteq> (0 :: usize)" by simp
  then have "copy_loop_uring env (n - of_nat (length ?d)) ?st = (eof_err, ?st)"
    using bound by (subst copy_loop_uring.simps) simp
  with step show ?thesis by simp
qed

section \<open>What a successful copy has moved\<close>

text \<open>
  Whatever a read may bring, a copy that succeeds is exact: the loop ends only with a counter of zero,
  and after an overshoot it is \<open>2 ^ 64\<close> bytes away from it. So the bound on reads decides which copies
  succeed, not what a successful one has done, as long as the stream is shorter than \<open>2 ^ 64\<close> bytes.
\<close>

lemma copy_loop_uring_AOk:
  assumes "copy_loop_uring env n st = (AOk u, st')"
  shows "\<exists>d. of_nat (length d) = n \<and> rx_data (xf_rx st) = d @ rx_data (xf_rx st') \<and>
    rx_size (xf_rx st) = length d + rx_size (xf_rx st') \<and> out st' = out st @ d \<and>
    xf_buf st' = xf_buf st \<and> xf_pipe st' = xf_pipe st"
  using assms
proof (induction env n st rule: copy_loop_uring.induct)
  case (1 env n st)
  show ?case
  proof (cases "n = 0")
    case True
    with "1.prems" show ?thesis by (simp add: copy_loop_uring.simps)
  next
    case False
    obtain r rx where r: "sock_read (read_bound env n) (xf_rx st) = (r, rx)" by force
    from "1.prems" False r obtain d where d: "r = Got d" "d \<noteq> []"
      by (cases r) (auto simp: copy_loop_uring.simps [of env n st] split: if_splits)
    obtain w st1 where w: "xwrite d (st\<lparr>xf_rx := rx\<rparr>) = (w, st1)" by force
    from "1.prems" False r d w have ok: "w = AOk ()" "copy_loop_uring env (n - of_nat (length d)) st1 = (AOk u, st')"
      by (cases w; auto simp: copy_loop_uring.simps [of env n st])+
    from "1.IH" [OF False r [symmetric] d w [unfolded ok(1)] ok(2)] obtain e where
      e: "of_nat (length e) = n - of_nat (length d)" "rx_data (xf_rx st1) = e @ rx_data (xf_rx st')"
        "rx_size (xf_rx st1) = length e + rx_size (xf_rx st')"
        "out st' = out st1 @ e" "xf_buf st' = xf_buf st1" "xf_pipe st' = xf_pipe st1" by blast
    have "0 < read_bound env n" using r d by (cases "read_bound env n") (auto dest: sock_read_zero)
    note got = sock_read_Got [OF r [unfolded d(1)] this]
    note wr = xwrite_AOk [OF w [unfolded ok(1)]]
    show ?thesis
      by (rule exI [of _ "d @ e"]) (use e got(1,2) wr in \<open>simp add: algebra_simps\<close>)
  qed
qed

lemma copy_exact_body_uring_AOk:
  assumes "copy_exact_body_uring env n st = (AOk u, st')" "xf_pipe st = []" "length (rx_data (xf_rx st)) < usize_lim"
  shows "\<exists>b. length b = unat n \<and> relays b st st'"
proof -
  let ?k = "min (length (xf_buf st)) (unat n)"
  from assms(1) obtain st1 where
    b: "(if 0 < ?k then abind (xwrite (take ?k (xf_buf st)) st)
          (\<lambda>_ st'. (AOk (), st'\<lparr>xf_buf := discard_buffer_prefix_uring (xf_buf st') ?k\<rparr>)) else (AOk (), st)) = (AOk (), st1)"
    and l: "copy_loop_uring env (n - of_nat ?k) st1 = (AOk u, st')"
    by (auto simp: copy_exact_body_uring_def abind_AOk Let_def)
  have st1: "out st1 = out st @ take ?k (xf_buf st)" "xf_rx st1 = xf_rx st" "xf_buf st1 = drop ?k (xf_buf st)" "xf_pipe st1 = xf_pipe st"
    using copy_buffered_AOk [of ?k st "()" st1] b
    unfolding copy_buffered_def discard_buffer_prefix_drop discard_buffer_prefix_uring_drop by simp_all
  from copy_loop_uring_AOk [OF l] obtain d where
    d: "of_nat (length d) = n - of_nat ?k" "rx_data (xf_rx st1) = d @ rx_data (xf_rx st')"
      "rx_size (xf_rx st1) = length d + rx_size (xf_rx st')" "out st' = out st1 @ d"
      "xf_buf st' = xf_buf st1" "xf_pipe st' = xf_pipe st1" by blast
  have small: "length d < usize_lim" using assms(3) d(2) st1(2) by simp
  then have "unat (of_nat (length d) :: usize) = length d" by (simp add: unat_of_nat take_bit_nat_eq_self_iff)
  with d(1) have len: "length d = unat n - ?k" by (simp add: unat_sub_of_nat)
  have "d = []" if "drop ?k (xf_buf st) \<noteq> []"
  proof -
    have "?k = unat n" using that by (simp add: min_def split: if_splits)
    with len show ?thesis by simp
  qed
  then have "relays (take ?k (xf_buf st) @ d) st st'"
    using d st1 assms(2) by (cases "drop ?k (xf_buf st) = []") (auto simp: relays_def input_def in_size_def simp flip: append_assoc)
  moreover have "length (take ?k (xf_buf st) @ d) = unat n" using len by simp
  ultimately show ?thesis by blast
qed

text \<open>
  And an upstream that sends the body and nothing behind it is copied completely, if every read may
  bring something.
\<close>

lemma read_bound_pos: "\<forall>k > 0. 0 < ur_read_max env k \<Longrightarrow> n \<noteq> 0 \<Longrightarrow> 0 < read_bound env n"
  by (simp add: read_bound_def Let_def unat_gt_0)

lemma copy_loop_uring_complete:
  assumes "\<forall>k > 0. 0 < ur_read_max env k" "sk_limit (xf_tx st) = None" "length (rx_data (xf_rx st)) = unat n"
  shows "\<exists>st'. copy_loop_uring env n st = (AOk (), st')"
  using assms
proof (induction env n st rule: copy_loop_uring.induct)
  case (1 env n st)
  show ?case
  proof (cases "n = 0")
    case False
    then have "rx_data (xf_rx st) \<noteq> []" using "1.prems"(3) by (metis length_0_conv unat_eq_zero)
    with read_bound_pos [OF "1.prems"(1) False] obtain d rx where
      d: "sock_read (read_bound env n) (xf_rx st) = (Got d, rx)" "d \<noteq> []" by (metis sock_read_progress)
    note got = sock_read_Got [OF d(1) read_bound_pos [OF "1.prems"(1) False]]
    let ?st = "(st\<lparr>xf_rx := rx\<rparr>)\<lparr>xf_tx := (xf_tx st)\<lparr>sk_out := out st @ d\<rparr>\<rparr>"
    have w: "xwrite d (st\<lparr>xf_rx := rx\<rparr>) = (AOk (), ?st)" using "1.prems"(2) by (simp add: xwrite_unlimited)
    have "length d \<le> unat n" using got(1) "1.prems"(3) by (metis le_add1 length_append)
    then have "length (rx_data (xf_rx ?st)) = unat (n - of_nat (length d))"
      using got(1) "1.prems"(3) by (simp add: unat_sub_of_nat)
    from "1.IH" [OF False d(1) [symmetric] refl d(2) w "1.prems"(1) _ this] "1.prems"(2) False d w show ?thesis
      by (simp add: copy_loop_uring.simps [of env n st])
  qed (simp add: copy_loop_uring.simps)
qed

lemma copy_exact_body_uring_complete:
  assumes "\<forall>k > 0. 0 < ur_read_max env k" "sk_limit (xf_tx st) = None" "length (input st) = unat n"
  shows "\<exists>st'. copy_exact_body_uring env n st = (AOk (), st')"
proof -
  let ?k = "min (length (xf_buf st)) (unat n)"
  define st1 where "st1 = (if 0 < ?k then st\<lparr>xf_tx := (xf_tx st)\<lparr>sk_out := out st @ take ?k (xf_buf st)\<rparr>,
      xf_buf := drop ?k (xf_buf st)\<rparr> else st)"
  have st1: "sk_limit (xf_tx st1) = None" "xf_rx st1 = xf_rx st" using assms(2) by (simp_all add: st1_def)
  have "length (rx_data (xf_rx st1)) = unat (n - of_nat ?k)"
    using assms(3) st1(2) by (simp add: input_def unat_sub_of_nat)
  from copy_loop_uring_complete [OF assms(1) st1(1) this] obtain st' where
    "copy_loop_uring env (n - of_nat ?k) st1 = (AOk (), st')" by blast
  then show ?thesis
    using assms(2) by (auto simp: copy_exact_body_uring_def Let_def st1_def xwrite_unlimited discard_buffer_prefix_uring_drop)
qed

section \<open>Responses of the io\_uring engine\<close>

lemma read_response_uring_cases:
  assumes "read_response_uring E hr st = (AOk (Some resp), st')"
  obtains (step) k st1 r st2 where "read_header_block E st = (AOk (Some k), st1)"
      "k \<le> length (xf_buf st1)" "parse_response_uring E (take k (xf_buf st1)) hr = Ok r"
      "xwrite (take k (xf_buf st1)) st1 = (AOk (), st2)"
      "if informational (rs_status r)
       then read_response_uring E hr (st2\<lparr>xf_buf := discard_buffer_prefix (xf_buf st2) k\<rparr>) =
         (AOk (Some resp), st')
       else r = resp \<and> st' = st2\<lparr>xf_buf := discard_buffer_prefix (xf_buf st2) k\<rparr>"
proof -
  note eq = assms [unfolded read_response_uring.simps [of E hr st]]
  from eq obtain h st1 where h: "read_header_block_uring E st = (AOk h, st1)" by (auto simp: abind_AOk)
  then have up: "upstream_timeout (read_header_block_uring E st) = (AOk h, st1)" by simp
  obtain k where k: "h = Some k" using eq up by (cases h) simp_all
  from eq up k have len: "k \<le> length (xf_buf st1)" by (auto split: if_splits)
  from eq up k len obtain r where r: "parse_response_uring E (take k (xf_buf st1)) hr = Ok r"
    by (cases "parse_response_uring E (take k (xf_buf st1)) hr") auto
  from eq up k len r show thesis
    by (auto simp: abind_AOk Let_def discard_buffer_prefix_uring_drop discard_buffer_prefix_drop
        h [unfolded read_header_block_uring_eq(2) k]
        intro!: step [OF h [unfolded read_header_block_uring_eq(2) k] len r] split: if_splits)
qed

lemma read_response_uring_sound:
  assumes "read_response_uring E hr st = (AOk (Some resp), st')" "xf_pipe st = []"
  shows "\<exists>c. relays c st st' \<and> (memmem_first E \<longrightarrow>
    (\<forall>b. body_msg None (rs_body resp) b \<longrightarrow>
       response_msg (\<lambda>h. parse_response_uring E h hr) resp (c @ b)))"
  using assms
proof (induction "in_size st" arbitrary: st rule: less_induct)
  case less
  let ?parse = "\<lambda>h. parse_response_uring E h hr"
  from less.prems(1) show ?case
  proof (cases rule: read_response_uring_cases)
    case (step k st1 r st2)
    let ?h = "take k (xf_buf st1)" and ?st = "st2\<lparr>xf_buf := discard_buffer_prefix (xf_buf st2) k\<rparr>"
    have rel: "relays ?h st ?st"
      by (rule write_head_relays [OF step(1) order_refl step(2,4) less.prems(2)])
    have head: "is_head ?h" if "memmem_first E" by (rule read_header_block_is_head(1) [OF that step(1)])
    show ?thesis
    proof (cases "informational (rs_status r)")
      case True
      have "in_size ?st < in_size st" by (rule forward_interim_less [OF step(1,2,4)])
      from less.hyps [OF this _ relays_pipe [OF rel]] step(5) True obtain c where
        c: "relays c ?st st'" "memmem_first E \<longrightarrow> (\<forall>b. body_msg None (rs_body resp) b \<longrightarrow>
          response_msg ?parse resp (c @ b))" by auto
      have "response_msg ?parse resp ((?h @ c) @ b)" if "memmem_first E" "body_msg None (rs_body resp) b" for b
        using that c(2) head step(3) True by (unfold append_assoc) (auto intro: response_msg.interim)
      with relays_trans [OF rel c(1)] show ?thesis by blast
    next
      case False
      have "response_msg ?parse resp (?h @ b)" if "memmem_first E" "body_msg None (rs_body resp) b" for b
        using that step(3,5) False head by (auto intro: response_msg.final)
      with False step(5) rel show ?thesis by auto
    qed
  qed
qed

lemma copy_response_body_uring_AOk:
  assumes "copy_response_body_uring env body st = (AOk u, st')" "length (input st) < usize_lim" "xf_pipe st = []"
    "body \<noteq> Chunked"
  shows "\<exists>b. body_msg None body b \<and> out st' = out st @ b \<and>
    (if body = CloseDelimited then b = input st else relays b st st')"
proof (cases body)
  case (ContentLength n)
  with assms(1) have c: "copy_exact_body_uring env n st = (AOk u, st')" by (simp add: copy_response_body_uring_def)
  have "length (rx_data (xf_rx st)) < usize_lim" using assms(2) by (simp add: input_def)
  from copy_exact_body_uring_AOk [OF c assms(3) this] ContentLength show ?thesis by (auto simp: relays_def)
next
  case CloseDelimited
  with assms(1) obtain st1 where w: "(if xf_buf st \<noteq> [] then xwrite (xf_buf st) st else (AOk (), st)) = (AOk (), st1)"
    and c: "copy_stream st1 = (AOk u, st')" by (auto simp: copy_response_body_uring_def abind_AOk)
  have "out st1 = out st @ xf_buf st" "xf_rx st1 = xf_rx st"
    using w xwrite_AOk [of "xf_buf st" st "()" st1] by (auto split: if_splits)
  with copy_stream_AOk(2) [OF c] CloseDelimited show ?thesis by (simp add: input_def)
qed (use assms in \<open>auto simp: copy_response_body_uring_def\<close>)

lemma parse_response_uring_not_chunked:
  "parse_response_uring E raw hr = Ok r \<Longrightarrow> rs_body r \<noteq> Chunked"
  by (auto simp: parse_response_uring_def rbind_eq_Ok Let_def split: prod.splits if_splits option.splits)

lemma read_response_uring_not_chunked:
  "read_response_uring E hr st = (AOk (Some resp), st') \<Longrightarrow> rs_body resp \<noteq> Chunked"
proof (induction "in_size st" arbitrary: st rule: less_induct)
  case less
  from less.prems show ?case
  proof (cases rule: read_response_uring_cases)
    case (step k st1 r st2)
    with less.hyps [OF forward_interim_less [OF step(1,2,4)]] parse_response_uring_not_chunked [OF step(3)]
    show ?thesis by (auto split: if_splits)
  qed
qed

lemma read_response_uring_closes:
  "read_response_uring E hr st = (AOk (Some resp), st') \<Longrightarrow> rs_body resp = CloseDelimited \<Longrightarrow> rs_close_after_response resp"
proof (induction "in_size st" arbitrary: st rule: less_induct)
  case less
  from less.prems(1) show ?case
  proof (cases rule: read_response_uring_cases)
    case (step k st1 r st2)
    have "rs_close_after_response r" if "rs_body r = CloseDelimited"
      using step(3) that by (auto simp: parse_response_uring_def rbind_eq_Ok Let_def split: prod.splits if_splits)
    with step(5) less.hyps [OF forward_interim_less [OF step(1,2,4)]] less.prems(2) show ?thesis
      by (auto split: if_splits)
  qed
qed

text \<open>The whole response of the io\_uring engine.\<close>

lemma uring_response_sound:
  assumes "read_response_uring E hr st = (AOk (Some resp), st1)"
    "copy_response_body_uring env (rs_body resp) st1 = (AOk u, st')"
    "length (input st) < usize_lim" "memmem_first E" "xf_pipe st = []"
  shows "\<exists>c rest. input st = c @ rest \<and> out st' = out st @ c \<and>
    response_msg (\<lambda>h. parse_response_uring E h hr) resp c \<and>
    (if rs_body resp = CloseDelimited then rest = [] else input st' = rest)"
proof -
  obtain c where c: "relays c st st1" "\<And>b. body_msg None (rs_body resp) b \<Longrightarrow>
      response_msg (\<lambda>h. parse_response_uring E h hr) resp (c @ b)"
    using read_response_uring_sound [OF assms(1,5)] assms(4) by blast
  have "length (input st1) < usize_lim" using assms(3) c(1) by (simp add: relays_def)
  then obtain b where b: "body_msg None (rs_body resp) b" "out st' = out st1 @ b"
    "if rs_body resp = CloseDelimited then b = input st1 else relays b st1 st'"
    using copy_response_body_uring_AOk [OF assms(2) _ relays_pipe [OF c(1)]
        read_response_uring_not_chunked [OF assms(1)]] by blast
  show ?thesis
  proof (cases "rs_body resp = CloseDelimited")
    case True
    with b c(1) c(2) [OF b(1)] show ?thesis
      by - (rule exI [of _ "c @ b"], rule exI [of _ "[]"], simp add: relays_def)
  next
    case False
    with b c(1) c(2) [OF b(1)] show ?thesis
      by - (rule exI [of _ "c @ b"], rule exI [of _ "input st'"], simp add: relays_def)
  qed
qed

text \<open>A response that is all the upstream sends is relayed.\<close>

lemma read_response_uring_complete:
  assumes "response_msg (bounded_parse (\<lambda>h. parse_response_uring E h hr)) resp c" "memmem_first E"
    "ready buffered_env st" "input st = c"
  shows "\<exists>st' b. read_response_uring E hr st = (AOk (Some resp), st') \<and> body_msg None (rs_body resp) b \<and>
    input st' = b \<and> ready buffered_env st'"
  using assms
proof (induction arbitrary: st rule: response_msg.induct)
  case (interim h r resp c)
  have h: "length h \<le> MAX_HEADER_BYTES" "parse_response_uring E h hr = Ok r" using interim.hyps(2) by simp_all
  from read_head_complete [OF interim.prems(1,2) interim.hyps(1) h(1) interim.prems(3)] obtain st1 where
    st1: "read_header_block E st = (AOk (Some (length h)), st1)" "length h \<le> length (xf_buf st1)"
      "take (length h) (xf_buf st1) = h" "drop (length h) (xf_buf st1) @ rx_data (xf_rx st1) = c"
      "ready buffered_env st1" by blast
  from write_prefix_complete [OF st1(5,2)] obtain st2 where
    st2: "xwrite h st1 = (AOk (), st2)"
      "ready buffered_env (st2\<lparr>xf_buf := discard_buffer_prefix (xf_buf st2) (length h)\<rparr>)"
      "input (st2\<lparr>xf_buf := discard_buffer_prefix (xf_buf st2) (length h)\<rparr>) = c"
    by (auto simp: st1(3,4))
  from interim.IH [OF interim.prems(1) st2(2,3)] st1(1-3) h(2) interim.hyps(3) st2(1)
  show ?case
    by (simp add: read_response_uring.simps [of E hr st] not_less read_header_block_uring_eq(2) [THEN iffD2, OF st1(1)]
        upstream_timeout_def discard_buffer_prefix_drop discard_buffer_prefix_uring_drop)
next
  case (final h resp b)
  have h: "length h \<le> MAX_HEADER_BYTES" "parse_response_uring E h hr = Ok resp" using final.hyps(2) by simp_all
  from read_head_complete [OF final.prems(1,2) final.hyps(1) h(1) final.prems(3)] obtain st1 where
    st1: "read_header_block E st = (AOk (Some (length h)), st1)" "length h \<le> length (xf_buf st1)"
      "take (length h) (xf_buf st1) = h" "drop (length h) (xf_buf st1) @ rx_data (xf_rx st1) = b"
      "ready buffered_env st1" by blast
  from write_prefix_complete [OF st1(5,2)] obtain st2 where
    st2: "xwrite h st1 = (AOk (), st2)"
      "ready buffered_env (st2\<lparr>xf_buf := discard_buffer_prefix (xf_buf st2) (length h)\<rparr>)"
      "input (st2\<lparr>xf_buf := discard_buffer_prefix (xf_buf st2) (length h)\<rparr>) = b"
    by (auto simp: st1(3,4))
  with final.hyps(3,4) st1(1-3) h(2) show ?case
    by (simp add: read_response_uring.simps [of E hr st] not_less read_header_block_uring_eq(2) [THEN iffD2, OF st1(1)]
        upstream_timeout_def discard_buffer_prefix_drop discard_buffer_prefix_uring_drop)
qed

lemma uring_response_complete:
  assumes "response_msg (bounded_parse (\<lambda>h. parse_response_uring E h hr)) resp c" "memmem_first E"
    "ready buffered_env st" "input st = c" "rs_body resp \<noteq> CloseDelimited" "\<forall>k > 0. 0 < ur_read_max env k"
  shows "\<exists>st1 st'. read_response_uring E hr st = (AOk (Some resp), st1) \<and>
    copy_response_body_uring env (rs_body resp) st1 = (AOk (), st') \<and> input st' = []"
proof -
  from read_response_uring_complete [OF assms(1-4)] obtain st1 b where
    st1: "read_response_uring E hr st = (AOk (Some resp), st1)" "body_msg None (rs_body resp) b"
      "input st1 = b" "ready buffered_env st1" by blast
  have "\<exists>st'. copy_response_body_uring env (rs_body resp) st1 = (AOk (), st') \<and> input st' = []"
  proof (cases "rs_body resp")
    case (ContentLength n)
    with st1 have len: "length (input st1) = unat n" "sk_limit (xf_tx st1) = None" "xf_pipe st1 = []"
      by (simp_all add: ready_def)
    then obtain st' where c: "copy_exact_body_uring env n st1 = (AOk (), st')"
      using copy_exact_body_uring_complete [OF assms(6)] by blast
    have "length (rx_data (xf_rx st1)) \<le> unat n" using len(1) by (simp add: input_def)
    then have "length (rx_data (xf_rx st1)) < usize_lim" using unsigned_less [of n, where 'a = nat] by simp
    from copy_exact_body_uring_AOk [OF c len(3) this] len(1) have "input st' = []" by (auto simp: relays_def)
    with c ContentLength show ?thesis by (simp add: copy_response_body_uring_def)
  qed (use assms(5) st1 read_response_uring_not_chunked [OF st1(1)] in \<open>simp_all add: copy_response_body_uring_def\<close>)
  with st1(1) show ?thesis by blast
qed

section \<open>Properties\<close>

text \<open>
  The io\_uring engine moves bodies exactly like the fast engine's buffered copy, with registered
  buffers, without them, or with any mixture, provided that a read into a shortened vector stops
  at its length: same result, same bytes delivered, same bytes left. Heads are read with the same result in any case.
\<close>

theorem uring_copy_is_buffered_copy:
  assumes "reads_to_length env"
  shows "copy_exact_body_uring env n st = copy_exact_body buffered_env (unat n) st \<and>
    fst (read_header_block_uring E st') = fst (read_header_block E st')"
  using copy_exact_body_uring_eq [OF assms] read_header_block_uring_eq(1) by simp

definition sample_uring_env :: "(nat \<Rightarrow> nat) \<Rightarrow> uring_env" where
  "sample_uring_env read_max =
     \<lparr>ur_zero_copy = True, ur_pool = False, ur_try_next = (\<lambda>_. True), ur_read_max = read_max\<rparr>"

theorem uring_copy_is_buffered_copy_witness:
  "copy_exact_body_uring (sample_uring_env (\<lambda>n. n)) 5 sample_xfer = copy_exact_body buffered_env 5 sample_xfer"
proof -
  have "reads_to_length (sample_uring_env (\<lambda>n. n))" by (simp add: reads_to_length_def sample_uring_env_def)
  from uring_copy_is_buffered_copy [OF this, of 5 sample_xfer] show ?thesis by simp
qed

text \<open>
  If instead a read may fill the vector's capacity, the body copy is not exact: when body and
  following bytes arrive in one segment of at most 16 KiB, everything is sent to the upstream, the
  counter of remaining bytes wraps, and the copy fails with an unexpected end of file.
\<close>

theorem uring_copy_overshoots:
  assumes "\<forall>n. ur_read_max env n = READ_CHUNK_BYTES" "\<not> ur_pool env" "sk_limit (xf_tx st) = None"
    and "xf_buf st = []" "xf_rx st = [RxData (body @ next)]" "length body = unat n" "n \<noteq> 0" "next \<noteq> []"
    and "length (body @ next) \<le> READ_CHUNK_BYTES"
  shows "fst (copy_exact_body_uring env n st) = eof_err \<and>
    out (snd (copy_exact_body_uring env n st)) = out st @ body @ next"
  using copy_loop_uring_overshoots [OF assms(1-3,5-9)] assms(4)
  by (simp add: copy_exact_body_uring_def Let_def)

theorem uring_copy_overshoots_witness:
  "fst (copy_exact_body_uring (sample_uring_env (\<lambda>_. READ_CHUNK_BYTES)) 2
     \<lparr>xf_rx = [RxData ''abGET''], xf_buf = [], xf_tx = \<lparr>sk_out = [], sk_limit = None\<rparr>, xf_pipe = []\<rparr>) = eof_err"
  using uring_copy_overshoots [of "sample_uring_env (\<lambda>_. READ_CHUNK_BYTES)"
      "\<lparr>xf_rx = [RxData ''abGET''], xf_buf = [], xf_tx = \<lparr>sk_out = [], sk_limit = None\<rparr>, xf_pipe = []\<rparr>"
      "''ab''" "''GET''" 2]
  by (simp add: sample_uring_env_def READ_CHUNK_BYTES_def)

end
