(* ===== verification/Uring_Engine.thy ===== *)
theory Uring_Engine
  imports Fast_Engine Uring_Copy
begin

text \<open>
  \<^verbatim>\<open>serve_connection\<close> of \<^verbatim>\<open>src/src/proxy/h1_uring.rs\<close>. It differs from the fast engine in its error
  paths: a failed body copy ends the connection, an unusable response head ends it without a
  response and without being counted against the upstream, and there are no metrics and no access
  log. The pool of idle connections is the worker thread's, keyed by address.
\<close>

section \<open>Definitions\<close>

record uconn =
  un_snapshot :: config_snapshot
  un_pool :: "upstream_conn uring_pool"
  un_down :: "rx_event list"
  un_down_buf :: bytes
  un_down_tx :: sink
  un_up_buf :: bytes
  un_iter :: nat

record uring_serve_env =
  ue_lib :: ext_lib
  ue_resolve :: "string \<Rightarrow> socket_addr list option"
  ue_copy :: uring_env
  ue_peer :: ip_addr
  ue_hash :: "ip_addr \<Rightarrow> u64"
  ue_clock :: "nat \<Rightarrow> nat"
  ue_peek :: "nat \<Rightarrow> upstream_conn \<Rightarrow> recv_result"
  ue_dial :: "nat \<Rightarrow> socket_addr \<Rightarrow> (upstream_conn, io_error) outcome option"

definition uring_copy_env :: "uring_serve_env \<Rightarrow> uconn \<Rightarrow> uring_env" where
  "uring_copy_env env st =
     (ue_copy env)\<lparr>ur_zero_copy := rc_zero_copy (pc_runtime (sn_config (un_snapshot st)))\<rparr>"

definition send :: "bytes \<Rightarrow> uconn \<Rightarrow> unit aresult \<times> uconn" where
  "send bs st =
     (let (r, tx) = write_all bs (un_down_tx st) in
      (case r of WOk \<Rightarrow> AOk () | WErr \<Rightarrow> io_err | WStall \<Rightarrow> AStall, st\<lparr>un_down_tx := tx\<rparr>))"

definition umark :: "(upstream_state \<Rightarrow> upstream_state) \<Rightarrow> uring_request \<Rightarrow> uconn \<Rightarrow> uconn" where
  "umark f request st =
     st\<lparr>un_snapshot := update_upstream f (su_ref (uq_upstream request)) (un_snapshot st)\<rparr>"

definition usend_finish :: "nat \<Rightarrow> string \<Rightarrow> bytes \<Rightarrow> uconn \<Rightarrow> step \<times> uconn" where
  "usend_finish status reason body st =
     (let (r, st') = send (static_response status reason body) st in (Done r, st'))"

definition ubad_gateway :: "uring_request \<Rightarrow> uconn \<Rightarrow> step \<times> uconn" where
  "ubad_gateway request st =
     usend_finish 502 ''Bad Gateway'' (''upstream request failed'' @ [CHR 0x0A]) (umark mark_failure request st)"

definition uadmit :: "uring_serve_env \<Rightarrow> uring_request \<Rightarrow> uconn \<Rightarrow> bool \<times> uconn" where
  "uadmit env request st =
     (case uq_limiter request of
        Some k \<Rightarrow>
          (let t = sn_routes (un_snapshot st);
               (admitted, L) = acquire (ue_hash env) (ue_clock env (un_iter st)) (ue_peer env) (tb_limiters t ! k)
           in (admitted, st\<lparr>un_snapshot := (un_snapshot st)\<lparr>sn_routes :=
                 t\<lparr>tb_limiters := (tb_limiters t)[k := L]\<rparr>\<rparr>\<rparr>))
      | None \<Rightarrow> (True, st))"

definition uconclude ::
  "uring_serve_env \<Rightarrow> uring_request \<Rightarrow> response_head \<Rightarrow> upstream_conn \<Rightarrow> uconn \<Rightarrow> step \<times> uconn" where
  "uconclude env request response up st =
     (let st1 = umark (if 500 \<le> rs_status response then mark_failure else mark_success) request st in
      if uq_close_after_response request \<or> rs_close_after_response response then (Done (AOk ()), st1)
      else (Continue, st1\<lparr>un_pool :=
        checkin_uring_conn (ue_clock env (un_iter st)) (uq_connect_addr request) up (un_pool st1)\<rparr>))"

definition userve_response ::
  "uring_serve_env \<Rightarrow> uring_request \<Rightarrow> upstream_conn \<Rightarrow> uconn \<Rightarrow> step \<times> uconn" where
  "userve_response env request up st =
     (let x0 = \<lparr>xf_rx = uc_rx up, xf_buf = un_up_buf st, xf_tx = un_down_tx st, xf_pipe = []\<rparr>;
          (r, x1) = read_response_uring (ue_lib env) (uq_head_response request) x0;
          st1 = st\<lparr>un_up_buf := xf_buf x1, un_down_tx := xf_tx x1\<rparr>
      in case r of
           APanic \<Rightarrow> (Done APanic, st1)
         | AErr e \<Rightarrow> (Done (AErr e), st1)
         | AStall \<Rightarrow> (Done AStall, st1)
         | AOk None \<Rightarrow>
             (Done (AErr (Parse ''upstream closed before response'')), umark mark_failure request st1)
         | AOk (Some response) \<Rightarrow>
             (let (c, x2) = copy_response_body_uring (uring_copy_env env st1) (rs_body response) x1;
                  st2 = st1\<lparr>un_up_buf := xf_buf x2, un_down_tx := xf_tx x2\<rparr>
              in case c of
                   AOk _ \<Rightarrow> uconclude env request response (up\<lparr>uc_rx := xf_rx x2\<rparr>) st2
                 | APanic \<Rightarrow> (Done APanic, st2)
                 | _ \<Rightarrow> (Done (AOk ()), umark mark_failure request st2)))"

definition userve_upstream ::
  "uring_serve_env \<Rightarrow> uring_request \<Rightarrow> nat \<Rightarrow> upstream_conn \<Rightarrow> uconn \<Rightarrow> step \<times> uconn" where
  "userve_upstream env request header_len up st =
     (case write_all (uq_outbound request) (uc_tx up) of
        (WErr, _) \<Rightarrow> ubad_gateway request st
      | (WStall, _) \<Rightarrow> (Done AStall, st)
      | (WOk, tx) \<Rightarrow>
          (let x0 = \<lparr>xf_rx = un_down st,
                 xf_buf = discard_buffer_prefix_uring (un_down_buf st) header_len,
                 xf_tx = tx, xf_pipe = []\<rparr>;
               (r, x) = copy_exact_body_uring (uring_copy_env env st) (uq_body_len request) x0;
               st1 = st\<lparr>un_down := xf_rx x, un_down_buf := xf_buf x\<rparr>
           in case r of
                APanic \<Rightarrow> (Done APanic, st1)
              | AOk _ \<Rightarrow> userve_response env request (up\<lparr>uc_tx := xf_tx x\<rparr>) st1
              | _ \<Rightarrow> (Done (AOk ()), umark mark_failure request st1)))"

definition userve_matched :: "uring_serve_env \<Rightarrow> uring_request \<Rightarrow> nat \<Rightarrow> uconn \<Rightarrow> step \<times> uconn" where
  "userve_matched env request header_len st =
     (let (admitted, st1) = uadmit env request st in
      if \<not> admitted then
        usend_finish 429 ''Too Many Requests'' (''rate limit exceeded'' @ [CHR 0x0A]) st1
      else if su_protocol (uq_upstream request) = UpH3 then
        usend_finish 501 ''Not Implemented''
          (''HTTP/3 upstream driver is configured but not enabled in this baseline'' @ [CHR 0x0A]) st1
      else
        (let (c, pool) = get_uring_connection (ue_peek env (un_iter st1)) (ue_dial env (un_iter st1))
               (ue_clock env (un_iter st1))
               (liveness_probe_idle (pc_runtime (sn_config (un_snapshot st1))))
               (uq_connect_addr request) (un_pool st1);
             st2 = st1\<lparr>un_pool := pool\<rparr>
         in case c of
              Ok up \<Rightarrow> userve_upstream env request header_len up st2
            | Err _ \<Rightarrow> ubad_gateway request st2
            | Panic _ \<Rightarrow> (Done APanic, st2)))"

definition userve_head :: "uring_serve_env \<Rightarrow> nat \<Rightarrow> uconn \<Rightarrow> step \<times> uconn" where
  "userve_head env header_len st =
     (if length (un_down_buf st) < header_len then (Done APanic, st)
      else
        (let (res, sn) = build_request_uring (ue_lib env) (ue_resolve env) (un_snapshot st)
               (take header_len (un_down_buf st));
             st1 = st\<lparr>un_snapshot := sn\<rparr>
         in case res of
              Err e \<Rightarrow> (Done (AErr e), st1)
            | Panic _ \<Rightarrow> (Done APanic, st1)
            | Ok None \<Rightarrow> usend_finish 404 ''Not Found'' (''no matching route'' @ [CHR 0x0A]) st1
            | Ok (Some request) \<Rightarrow> userve_matched env request header_len st1))"

definition userve_one :: "uring_serve_env \<Rightarrow> uconn \<Rightarrow> step \<times> uconn" where
  "userve_one env st =
     (let (r, x) = read_header_block_uring (ue_lib env)
            \<lparr>xf_rx = un_down st, xf_buf = un_down_buf st, xf_tx = un_down_tx st, xf_pipe = []\<rparr>;
          st1 = st\<lparr>un_down := xf_rx x, un_down_buf := xf_buf x\<rparr>
      in case r of
           AStall \<Rightarrow> (Done (AErr (Parse ''downstream header read timed out'')), st1)
         | AOk (Some header_len) \<Rightarrow> userve_head env header_len st1
         | AOk None \<Rightarrow> (Done (AOk ()), st1)
         | AErr e \<Rightarrow> (Done (AErr e), st1)
         | APanic \<Rightarrow> (Done APanic, st1))"

section \<open>The loop\<close>

definition uin_size :: "uconn \<Rightarrow> nat" where
  "uin_size st = length (un_down_buf st) + rx_size (un_down st)"

lemma copy_loop_uring_shrinks:
  "rx_size (xf_rx (snd (copy_loop_uring env n st))) \<le> rx_size (xf_rx st) \<and>
   xf_buf (snd (copy_loop_uring env n st)) = xf_buf st"
proof (induction env n st rule: copy_loop_uring.induct)
  case (1 env n st)
  obtain r rx where r: "sock_read (read_bound env n) (xf_rx st) = (r, rx)" by force
  have le: "rx_size rx \<le> rx_size (xf_rx st)" using sock_read_size [of "read_bound env n" "xf_rx st"] r by simp
  show ?case
  proof (cases "n \<noteq> 0 \<and> (\<exists>d. r = Got d \<and> d \<noteq> [])")
    case True
    then obtain d where d: "n \<noteq> 0" "r = Got d" "d \<noteq> []" by blast
    obtain w st1 where w: "xwrite d (st\<lparr>xf_rx := rx\<rparr>) = (w, st1)" by force
    note fr = xwrite_frame_eq [OF w]
    show ?thesis
    proof (cases w)
      case (AOk u)
      from "1.IH" [OF d(1) r [symmetric] d(2,3) w [unfolded AOk]] fr le r w AOk d show ?thesis
        by (simp add: copy_loop_uring.simps [of env n st])
    qed (use d r w fr le in \<open>simp_all add: copy_loop_uring.simps [of env n st]\<close>)
  next
    case False
    with r le show ?thesis by (cases r) (auto simp: copy_loop_uring.simps [of env n st])
  qed
qed

lemma copy_exact_body_uring_shrinks: "in_size (snd (copy_exact_body_uring env n st)) \<le> in_size st"
proof -
  let ?k = "min (length (xf_buf st)) (unat n)"
  have "in_size (snd (if 0 < ?k then abind (xwrite (take ?k (xf_buf st)) st)
      (\<lambda>_ st'. (AOk (), st'\<lparr>xf_buf := discard_buffer_prefix_uring (xf_buf st') ?k\<rparr>)) else (AOk (), st))) \<le> in_size st"
    using copy_buffered_shrinks [of ?k st]
    unfolding copy_buffered_def discard_buffer_prefix_drop discard_buffer_prefix_uring_drop .
  then show ?thesis
    unfolding copy_exact_body_uring_def Let_def
    by (rule abind_shrinks [where m = in_size]) (use copy_loop_uring_shrinks in \<open>simp add: in_size_def\<close>)
qed

lemma send_frame [simp]:
  "un_down (snd (send bs st)) = un_down st" "un_down_buf (snd (send bs st)) = un_down_buf st"
  "un_snapshot (snd (send bs st)) = un_snapshot st" "un_pool (snd (send bs st)) = un_pool st"
  by (simp_all add: send_def Let_def case_prod_beta)

lemma usend_finish_done [simp]: "usend_finish n reason body st \<noteq> (Continue, st')"
  "ubad_gateway request st \<noteq> (Continue, st')"
  by (simp_all add: usend_finish_def ubad_gateway_def Let_def case_prod_beta)

lemma userve_response_input: "uin_size (snd (userve_response env request up st)) = uin_size st"
  by (simp add: userve_response_def uconclude_def umark_def uin_size_def Let_def case_prod_beta
      split: aresult.split option.split)

lemma userve_upstream_continues:
  assumes "userve_upstream env request k up st = (Continue, st')" "0 < k" "k \<le> length (un_down_buf st)"
  shows "uin_size st' < uin_size st"
proof -
  from assms(1) obtain tx where tx: "write_all (uq_outbound request) (uc_tx up) = (WOk, tx)"
    by (auto simp: userve_upstream_def split: prod.splits write_result.splits)
  define x0 where "x0 = \<lparr>xf_rx = un_down st, xf_buf = discard_buffer_prefix_uring (un_down_buf st) k,
      xf_tx = tx, xf_pipe = []\<rparr>"
  obtain r x where x: "copy_exact_body_uring (uring_copy_env env st) (uq_body_len request) x0 = (r, x)" by force
  have "in_size x \<le> in_size x0" using copy_exact_body_uring_shrinks x by (metis snd_conv)
  moreover have "in_size x0 < uin_size st"
    using assms(2,3) by (simp add: x0_def in_size_def uin_size_def discard_buffer_prefix_uring_drop)
  moreover have "uin_size st' = in_size x"
    using assms(1) tx x userve_response_input [of env request "up\<lparr>uc_tx := xf_tx x\<rparr>"
        "st\<lparr>un_down := xf_rx x, un_down_buf := xf_buf x\<rparr>"]
    by (auto simp: userve_upstream_def x0_def [symmetric] Let_def uin_size_def in_size_def split: aresult.splits)
  ultimately show ?thesis by simp
qed

lemma userve_matched_continues:
  assumes "userve_matched env request k st = (Continue, st')" "0 < k" "k \<le> length (un_down_buf st)"
  shows "uin_size st' < uin_size st"
proof -
  obtain a st1 where a: "uadmit env request st = (a, st1)" by force
  have same: "un_down st1 = un_down st" "un_down_buf st1 = un_down_buf st"
    using a by (auto simp: uadmit_def Let_def case_prod_beta split: option.splits)
  obtain c pool where c: "get_uring_connection (ue_peek env (un_iter st1)) (ue_dial env (un_iter st1))
      (ue_clock env (un_iter st1)) (liveness_probe_idle (pc_runtime (sn_config (un_snapshot st1))))
      (uq_connect_addr request) (un_pool st1) = (c, pool)" by force
  from assms(1) a c obtain up where up: "userve_upstream env request k up (st1\<lparr>un_pool := pool\<rparr>) = (Continue, st')"
    by (auto simp: userve_matched_def Let_def split: if_splits outcome.splits)
  from userve_upstream_continues [OF up assms(2)] same assms(3) show ?thesis by (simp add: uin_size_def)
qed

lemma userve_one_continues:
  assumes "userve_one env st = (Continue, st')"
  shows "uin_size st' < uin_size st"
proof -
  define x0 where "x0 = \<lparr>xf_rx = un_down st, xf_buf = un_down_buf st, xf_tx = un_down_tx st, xf_pipe = []\<rparr>"
  obtain r x where r: "read_header_block_uring (ue_lib env) x0 = (r, x)" by force
  define st1 where "st1 = st\<lparr>un_down := xf_rx x, un_down_buf := xf_buf x\<rparr>"
  from assms r obtain k where k: "r = AOk (Some k)" "userve_head env k st1 = (Continue, st')"
    by (auto simp: userve_one_def st1_def x0_def [symmetric] Let_def split: aresult.splits option.splits)
  note hb = r [unfolded k(1) read_header_block_uring_eq(2)]
  have "4 \<le> k" "in_size x = in_size x0"
    using read_header_block_Ok(6) [OF hb refl] read_header_block_Ok(2) [OF hb] by simp_all
  obtain res sn where b: "build_request_uring (ue_lib env) (ue_resolve env) (un_snapshot st1)
      (take k (un_down_buf st1)) = (res, sn)" by force
  from k(2) b have len: "k \<le> length (un_down_buf st1)" by (auto simp: userve_head_def split: if_splits)
  from k(2) b obtain request where m: "userve_matched env request k (st1\<lparr>un_snapshot := sn\<rparr>) = (Continue, st')"
    by (auto simp: userve_head_def Let_def split: if_splits outcome.splits option.splits)
  have "uin_size st' < uin_size (st1\<lparr>un_snapshot := sn\<rparr>)"
    by (rule userve_matched_continues [OF m]) (use \<open>4 \<le> k\<close> len in simp_all)
  also have "\<dots> = uin_size st"
    using \<open>in_size x = in_size x0\<close> by (simp add: uin_size_def in_size_def st1_def x0_def)
  finally show ?thesis .
qed

function serve_connection_uring :: "uring_serve_env \<Rightarrow> uconn \<Rightarrow> unit aresult \<times> uconn" where
  "serve_connection_uring env st =
     (case userve_one env st of
        (Continue, st') \<Rightarrow> serve_connection_uring env (st'\<lparr>un_iter := Suc (un_iter st')\<rparr>)
      | (Done r, st') \<Rightarrow> (r, st'))"
  by pat_completeness auto
termination
proof (relation "measure (\<lambda>(env, st). uin_size st)")
  fix env st x y
  assume "(x, y) = userve_one env st" "x = Continue"
  then have "uin_size y < uin_size st" by (intro userve_one_continues) simp
  then show "((env, y\<lparr>un_iter := Suc (un_iter y)\<rparr>), env, st) \<in> measure (\<lambda>(env, st). uin_size st)"
    by (simp add: uin_size_def)
qed simp

declare serve_connection_uring.simps [simp del]

section \<open>One exchange\<close>

text \<open>
  An exchange that was relayed: the bytes \<open>c\<close> at the front of what the upstream sent are one complete
  response and exactly what the client got; a status below 500 clears the upstream's failures and one
  from 500 on adds a failure; the connection ends if either side asked for it, and otherwise the
  upstream connection goes back to the pool with only \<open>rest\<close> unread.
\<close>

definition urelayed ::
  "uring_serve_env \<Rightarrow> uring_request \<Rightarrow> upstream_conn \<Rightarrow> uconn \<Rightarrow> response_head \<Rightarrow> bytes \<Rightarrow> bytes \<Rightarrow> step \<Rightarrow> uconn \<Rightarrow> bool" where
  "urelayed env request up st resp c rest s st' \<longleftrightarrow>
     un_up_buf st @ rx_data (uc_rx up) = c @ rest \<and>
     response_msg (\<lambda>h. parse_response_uring (ue_lib env) h (uq_head_response request)) resp c \<and>
     sk_out (un_down_tx st') = sk_out (un_down_tx st) @ c \<and>
     un_snapshot st' = update_upstream (if 500 \<le> rs_status resp then mark_failure else mark_success)
       (su_ref (uq_upstream request)) (un_snapshot st) \<and>
     (if uq_close_after_response request \<or> rs_close_after_response resp
      then s = Done (AOk ()) \<and> un_pool st' = un_pool st
      else s = Continue \<and> (\<exists>up'. un_up_buf st' @ rx_data (uc_rx up') = rest \<and>
        un_pool st' = checkin_uring_conn (ue_clock env (un_iter st)) (uq_connect_addr request) up' (un_pool st)))"

text \<open>The state in which \<^verbatim>\<open>serve_connection\<close> starts to read a response.\<close>

definition response_xfer :: "upstream_conn \<Rightarrow> uconn \<Rightarrow> xfer" where
  "response_xfer up st = \<lparr>xf_rx = uc_rx up, xf_buf = un_up_buf st, xf_tx = un_down_tx st, xf_pipe = []\<rparr>"

lemma response_xfer_simps [simp]:
  "input (response_xfer up st) = un_up_buf st @ rx_data (uc_rx up)" "out (response_xfer up st) = sk_out (un_down_tx st)"
  "xf_pipe (response_xfer up st) = []" "xf_tx (response_xfer up st) = un_down_tx st"
  by (simp_all add: response_xfer_def input_def)

lemma userve_response_relayed:
  assumes "memmem_first (ue_lib env)" "length (un_up_buf st @ rx_data (uc_rx up)) < usize_lim"
    "userve_response env request up st = (s, st')"
    "read_response_uring (ue_lib env) (uq_head_response request) (response_xfer up st) = (AOk (Some resp), x1)"
    "copy_response_body_uring (uring_copy_env env st) (rs_body resp) x1 = (AOk u, x2)"
  shows "\<exists>c rest. urelayed env request up st resp c rest s st' \<and>
    (rs_body resp \<noteq> CloseDelimited \<longrightarrow> rest = input x2)"
proof -
  from uring_response_sound [OF assms(4,5) _ assms(1)] assms(2) obtain c rest where
    c: "un_up_buf st @ rx_data (uc_rx up) = c @ rest" "out x2 = sk_out (un_down_tx st) @ c"
      "response_msg (\<lambda>h. parse_response_uring (ue_lib env) h (uq_head_response request)) resp c"
      "if rs_body resp = CloseDelimited then rest = [] else input x2 = rest" by auto
  define st2 where "st2 = st\<lparr>un_up_buf := xf_buf x2, un_down_tx := xf_tx x2\<rparr>"
  have copy: "uring_copy_env env (st\<lparr>un_up_buf := b, un_down_tx := t\<rparr>) = uring_copy_env env st" for b t
    by (simp add: uring_copy_env_def)
  have "(s, st') = uconclude env request resp (up\<lparr>uc_rx := xf_rx x2\<rparr>) st2"
    using assms(3,4,5) by (simp add: userve_response_def response_xfer_def [symmetric] copy Let_def st2_def)
  with c read_response_uring_closes [OF assms(4)] show ?thesis
    by - (rule exI [of _ c], rule exI [of _ rest],
       auto simp: urelayed_def uconclude_def umark_def st2_def Let_def input_def
         intro!: exI [of _ "up\<lparr>uc_rx := xf_rx x2\<rparr>"] split: if_splits)
qed

text \<open>What happens otherwise.\<close>

lemma userve_response_lost:
  assumes "userve_response env request up st = (s, st')"
    "\<And>resp x1 u x2. read_response_uring (ue_lib env) (uq_head_response request) (response_xfer up st) = (AOk (Some resp), x1) \<Longrightarrow>
      copy_response_body_uring (uring_copy_env env st) (rs_body resp) x1 \<noteq> (AOk u, x2)"
  shows "s \<noteq> Continue \<and> un_pool st' = un_pool st \<and>
    (un_snapshot st' = update_upstream mark_failure (su_ref (uq_upstream request)) (un_snapshot st) \<or>
     un_snapshot st' = un_snapshot st \<and> s \<noteq> Done (AOk ()))"
proof -
  obtain r x1 where r: "read_response_uring (ue_lib env) (uq_head_response request) (response_xfer up st) = (r, x1)" by force
  have copy: "uring_copy_env env (st\<lparr>un_up_buf := b, un_down_tx := t\<rparr>) = uring_copy_env env st" for b t
    by (simp add: uring_copy_env_def)
  show ?thesis
  proof (cases "\<exists>resp. r = AOk (Some resp)")
    case True
    then obtain resp where resp: "r = AOk (Some resp)" by blast
    obtain c x2 where c: "copy_response_body_uring (uring_copy_env env st) (rs_body resp) x1 = (c, x2)" by force
    with assms(2) [OF r [unfolded resp]] have "c \<noteq> AOk u" for u by blast
    with assms(1) r c resp show ?thesis
      by (cases c) (auto simp: userve_response_def response_xfer_def [symmetric] Let_def umark_def copy)
  next
    case False
    with assms(1) r show ?thesis
      by (cases r) (auto simp: userve_response_def response_xfer_def [symmetric] Let_def umark_def split: option.splits)
  qed
qed

section \<open>Properties\<close>


definition sample_uring_serve_env :: uring_serve_env where
  "sample_uring_serve_env =
     \<lparr>ue_lib = sample_lib, ue_resolve = (\<lambda>_. None), ue_copy = sample_uring_env (\<lambda>_. READ_CHUNK_BYTES), ue_peer = V4 1 2 3 4,
      ue_hash = (\<lambda>_. 0), ue_clock = (\<lambda>i. i), ue_peek = (\<lambda>_ _. RecvEof), ue_dial = (\<lambda>_ _. None)\<rparr>"

definition sample_uconn :: uconn where
  "sample_uconn =
     \<lparr>un_snapshot = sample_snapshot, un_pool = [], un_down = [], un_down_buf = [],
      un_down_tx = \<lparr>sk_out = [], sk_limit = None\<rparr>, un_up_buf = [], un_iter = 0\<rparr>"

definition sample_uring_request :: uring_request where
  "sample_uring_request =
     \<lparr>uq_head_response = False, uq_close_after_response = False, uq_body_len = 0, uq_outbound = sample_outbound,
      uq_connect_addr = SockV4 (V4 10 0 0 1) 80,
      uq_upstream = select_upstream (''web'', 0) sample_upstream_state, uq_limiter = None\<rparr>"

lemma sample_parse_uring: "parse_response_uring sample_lib sample_head False = Ok sample_response"
proof -
  have "\<not> named ''transfer-encoding'' (''Content-Length'', ''5'')" "named ''content-length'' (''Content-Length'', ''5'')"
    by code_simp+
  then have "response_content_length [(''Content-Length'', ''5'')] = Ok (Some 5)"
    by (simp add: response_content_length_def parse_length_sample)
  moreover have "\<not> request_wants_close False [(''Content-Length'', ''5'')]" by code_simp
  ultimately show ?thesis
    by (simp add: parse_response_uring_def sample_head_parsed sample_response_def informational_def del: sample_lib_simps)
qed

lemma sample_uring_msg:
  "response_msg (bounded_parse (\<lambda>h. parse_response_uring sample_lib h False)) sample_response (sample_head @ ''hello'')"
proof (rule response_msg.final)
  show "is_head sample_head" by (rule sample_is_head)
  have "length sample_head \<le> MAX_HEADER_BYTES" by code_simp
  then show "bounded_parse (\<lambda>h. parse_response_uring sample_lib h False) sample_head = Ok sample_response"
    by (simp add: sample_parse_uring)
qed (simp_all add: sample_response_def informational_def)


end
