(* ===== verification/Accept_Loop.thy ===== *)
theory Accept_Loop
  imports Admin Conn_Tracker Hyper_Proxy Uring_Engine
begin

text \<open>
  The tasks that accept connections: \<^verbatim>\<open>accept_loop\<close> and \<^verbatim>\<open>spawn_connection\<close> of
  \<^verbatim>\<open>src/src/proxy/mod.rs\<close>, \<^verbatim>\<open>serve_listener\<close> of \<^verbatim>\<open>src/src/proxy/h1_uring.rs\<close> and \<^verbatim>\<open>AdminRuntime::serve\<close>
  of \<^verbatim>\<open>src/src/admin/mod.rs\<close>. A run is the list of the events the tasks see, in order: results of
  \<^verbatim>\<open>accept\<close>, changes of the shutdown channel, ends of connection tasks. A connection task that
  panics is ended by the runtime without running the statements behind the panic.
\<close>

section \<open>The tokio listener\<close>

datatype conn_end = Served | Failed_End | Panicked

text \<open>How a run of an engine ends; a blocked connection does not end.\<close>

fun connection_end :: "'a aresult \<Rightarrow> conn_end option" where
  "connection_end (AOk _) = Some Served"
| "connection_end (AErr _) = Some Failed_End"
| "connection_end APanic = Some Panicked"
| "connection_end AStall = None"

datatype accept_worker = Accepting | Stopped | Broken

datatype accept_event =
    ShutdownSeen nat bool bool
  | Accepted nat bool
  | AcceptFailed nat
  | TaskBegins nat
  | ConnectionEnds nat conn_end

text \<open>
  A connection task, with the metrics flag that was read when it was spawned: it increments the gauge
  only once it begins to run. \<open>at_lost\<close> are the connection tasks that panicked.
\<close>

datatype conn_task = Spawned bool | Running bool

fun on_gauge :: "conn_task \<Rightarrow> bool" where
  "on_gauge (Spawned _) = False"
| "on_gauge (Running metrics) = metrics"

record accept_tasks =
  at_workers :: "accept_worker list"
  at_open :: "conn_task list"
  at_lost :: "conn_task list"
  at_tracker :: tracker
  at_gauge :: int

definition finished :: "tracker \<Rightarrow> tracker" where
  "finished t = (let t' = finished_sub t in if tk_active t = 1 then finished_notify t' else t')"

definition accept_start :: "nat \<Rightarrow> accept_tasks" where
  "accept_start workers =
     \<lparr>at_workers = replicate workers Accepting, at_open = [], at_lost = [], at_tracker = tracker_new, at_gauge = 0\<rparr>"

definition accepting :: "nat \<Rightarrow> accept_tasks \<Rightarrow> bool" where
  "accepting w st \<longleftrightarrow> w < length (at_workers st) \<and> at_workers st ! w = Accepting"

definition spawn_connection :: "bool \<Rightarrow> accept_tasks \<Rightarrow> accept_tasks" where
  "spawn_connection metrics st =
     st\<lparr>at_tracker := started (at_tracker st), at_open := at_open st @ [Spawned metrics]\<rparr>"

definition task_begins :: "nat \<Rightarrow> accept_tasks \<Rightarrow> accept_tasks" where
  "task_begins k st =
     (case at_open st ! k of
        Spawned metrics \<Rightarrow>
          st\<lparr>at_open := (at_open st)[k := Running metrics], at_gauge := at_gauge st + of_bool metrics\<rparr>
      | Running _ \<Rightarrow> st)"

definition remove_nth :: "nat \<Rightarrow> 'a list \<Rightarrow> 'a list" where
  "remove_nth k xs = take k xs @ drop (Suc k) xs"

definition connection_done :: "nat \<Rightarrow> conn_end \<Rightarrow> accept_tasks \<Rightarrow> accept_tasks" where
  "connection_done k e st =
     (case at_open st ! k of
        Spawned _ \<Rightarrow> st
      | Running metrics \<Rightarrow>
          (let st1 = st\<lparr>at_open := remove_nth k (at_open st)\<rparr> in
           if e = Panicked then st1\<lparr>at_lost := Running metrics # at_lost st1\<rparr>
           else st1\<lparr>at_gauge := at_gauge st1 - of_bool metrics, at_tracker := finished (at_tracker st1)\<rparr>))"

definition accept_step :: "accept_event \<Rightarrow> accept_tasks \<Rightarrow> accept_tasks" where
  "accept_step ev st =
     (case ev of
        ShutdownSeen w changed v \<Rightarrow>
          (if accepting w st \<and> changed \<and> v then st\<lparr>at_workers := (at_workers st)[w := Stopped]\<rparr> else st)
      | Accepted w metrics \<Rightarrow> (if accepting w st then spawn_connection metrics st else st)
      | AcceptFailed w \<Rightarrow> (if accepting w st then st\<lparr>at_workers := (at_workers st)[w := Broken]\<rparr> else st)
      | TaskBegins k \<Rightarrow> (if k < length (at_open st) then task_begins k st else st)
      | ConnectionEnds k e \<Rightarrow> (if k < length (at_open st) then connection_done k e st else st))"

text \<open>
  The value \<^verbatim>\<open>serve_listener\<close> has returned: a single accept loop is awaited directly, several
  workers are awaited after the shutdown.
\<close>

definition listener_result :: "bool \<Rightarrow> accept_tasks \<Rightarrow> (unit, unit) outcome option" where
  "listener_result shutdown st =
     (case at_workers st of
        [Accepting] \<Rightarrow> None
      | [Stopped] \<Rightarrow> Some (Ok ())
      | [Broken] \<Rightarrow> Some (Err ())
      | ws \<Rightarrow> if shutdown \<and> Accepting \<notin> set ws then Some (Ok ()) else None)"

section \<open>The io\_uring listener\<close>

datatype ring_probe = RingOk | RingErrno nat

datatype ring_error = RingUnsupported | RingError nat

text \<open>\<^verbatim>\<open>EPERM\<close> is 1, \<^verbatim>\<open>ENOSYS\<close> is 38.\<close>

definition preflight_io_uring :: "ring_probe \<Rightarrow> (unit, ring_error) outcome" where
  "preflight_io_uring probe =
     (case probe of
        RingOk \<Rightarrow> Ok ()
      | RingErrno n \<Rightarrow> if n = 38 \<or> n = 1 then Err RingUnsupported else Err (RingError n))"

definition uring_worker_count :: "usize option \<Rightarrow> listener_config \<Rightarrow> usize" where
  "uring_worker_count parallelism l =
     (if lc_accept_workers l = 0 then (case parallelism of None \<Rightarrow> 1 | Some n \<Rightarrow> n)
      else max (lc_accept_workers l) 1)"

text \<open>The two socket set-ups make the same calls.\<close>

definition bind_listener_socket_uring :: "listener_config \<Rightarrow> socket_call list" where
  "bind_listener_socket_uring l =
     [if is_ipv4 (lc_bind l) then NewV4 else NewV6, SetReuseAddr, SetNodelay, SetKeepalive] @
     (if lc_reuse_port l then [SetReusePort] else []) @ [Bind (lc_bind l), Listen (lc_backlog l)]"

datatype ring_event =
    RingShutdown bool
  | RingAccepted nat
  | RingAcceptFailed nat
  | RingConnectionEnds nat

text \<open>
  An open connection is the number of the worker thread whose runtime it runs on. \<open>rt_cut\<close> are the
  connection tasks that went away with their runtime.
\<close>

record ring_tasks =
  rt_stop :: bool
  rt_running :: "bool list"
  rt_open :: "nat list"
  rt_cut :: "nat list"
  rt_tracker :: tracker

text \<open>A worker that cannot bind its socket ends at once.\<close>

definition ring_start :: "bool list \<Rightarrow> ring_tasks" where
  "ring_start bound = \<lparr>rt_stop = False, rt_running = bound, rt_open = [], rt_cut = [], rt_tracker = tracker_new\<rparr>"

text \<open>
  The worker's \<^verbatim>\<open>async\<close> block returns. \<open>cancels\<close> says whether \<^verbatim>\<open>tokio_uring::start\<close> cancels the tasks
  that are still running on the thread when its main future is done.
\<close>

definition ring_exit :: "bool \<Rightarrow> nat \<Rightarrow> ring_tasks \<Rightarrow> ring_tasks" where
  "ring_exit cancels w st =
     (let st1 = st\<lparr>rt_running := (rt_running st)[w := False]\<rparr> in
      if cancels
      then st1\<lparr>rt_open := filter (\<lambda>v. v \<noteq> w) (rt_open st1), rt_cut := filter (\<lambda>v. v = w) (rt_open st1) @ rt_cut st1\<rparr>
      else st1)"

definition ring_running :: "nat \<Rightarrow> ring_tasks \<Rightarrow> bool" where
  "ring_running w st \<longleftrightarrow> w < length (rt_running st) \<and> rt_running st ! w"

definition ring_step :: "bool \<Rightarrow> ring_event \<Rightarrow> ring_tasks \<Rightarrow> ring_tasks" where
  "ring_step cancels ev st =
     (case ev of
        RingShutdown v \<Rightarrow> (if v then st\<lparr>rt_stop := True\<rparr> else st)
      | RingAccepted w \<Rightarrow>
          (if \<not> ring_running w st then st
           else if rt_stop st then ring_exit cancels w st
           else st\<lparr>rt_tracker := started (rt_tracker st), rt_open := rt_open st @ [w]\<rparr>)
      | RingAcceptFailed w \<Rightarrow> (if ring_running w st \<and> rt_stop st then ring_exit cancels w st else st)
      | RingConnectionEnds k \<Rightarrow>
          (if k < length (rt_open st)
           then st\<lparr>rt_open := remove_nth k (rt_open st), rt_tracker := finished (rt_tracker st)\<rparr> else st))"

section \<open>The admin listener\<close>

datatype admin_event = AdminShutdown bool bool | AdminAccepted | AdminAcceptFailed

text \<open>\<open>None\<close>: still serving.\<close>

fun admin_loop :: "admin_event list \<Rightarrow> (unit, unit) outcome option" where
  "admin_loop [] = None"
| "admin_loop (AdminShutdown changed v # es) = (if changed \<and> v then Some (Ok ()) else admin_loop es)"
| "admin_loop (AdminAccepted # es) = admin_loop es"
| "admin_loop (AdminAcceptFailed # es) = Some (Err ())"

definition admin_serve :: "bool \<Rightarrow> admin_event list \<Rightarrow> (unit, unit) outcome option" where
  "admin_serve bound es = (if bound then admin_loop es else Some (Err ()))"

text \<open>
  The supervisor's receiver sees the end of the channel when the admin task, which owns a sender,
  and the connections it spawned, which have clones, are gone.
\<close>

definition commands_closed :: "(unit, unit) outcome option \<Rightarrow> nat \<Rightarrow> bool" where
  "commands_closed result connections \<longleftrightarrow> result \<noteq> None \<and> connections = 0"

section \<open>Listeners that count their connections\<close>

text \<open>
  Both listeners keep this contract with the tracker: a step starts one task and counts it, ends
  one counted task, or does neither. Then the counter is exact for every run.
\<close>

locale counted_tasks =
  fixes step :: "'e \<Rightarrow> 's \<Rightarrow> 's"
    and tracker_of :: "'s \<Rightarrow> tracker"
    and tasks :: "'s \<Rightarrow> nat"
  assumes step_cases:
    "tracker_of (step e s) = tracker_of s \<and> tasks (step e s) = tasks s \<or>
     tracker_of (step e s) = started (tracker_of s) \<and> tasks (step e s) = Suc (tasks s) \<or>
     tracker_of (step e s) = finished (tracker_of s) \<and> tasks s = Suc (tasks (step e s))"
begin

lemma tasks_bounded: "tasks (fold step es s) \<le> tasks s + length es"
proof (induction es arbitrary: s)
  case (Cons e es)
  have "tasks (step e s) \<le> Suc (tasks s)" using step_cases [of e s] by auto
  with Cons [of "step e s"] show ?case by simp
qed simp

lemma step_counts:
  assumes "unat (tk_active (tracker_of s)) = tasks s" "Suc (tasks s) < usize_lim"
  shows "unat (tk_active (tracker_of (step e s))) = tasks (step e s)"
proof -
  have up: "unat (tk_active (started (tracker_of s))) = Suc (tasks s)"
    using assms by (simp add: started_def unat_word_ariths)
  have down: "unat (tk_active (finished (tracker_of s))) = n" if "tasks s = Suc n" for n
  proof -
    from that assms(1) have "tk_active (tracker_of s) \<noteq> 0" by auto
    from unat_minus_1 [OF this] assms(1) that show ?thesis
      by (auto simp: finished_def finished_sub_def finished_notify_def Let_def)
  qed
  from step_cases [of e s] up down assms(1) show ?thesis by auto
qed

lemma run_counts:
  "unat (tk_active (tracker_of s)) = tasks s \<Longrightarrow> tasks s + length es < usize_lim \<Longrightarrow>
     unat (tk_active (tracker_of (fold step es s))) = tasks (fold step es s)"
proof (induction es arbitrary: s)
  case (Cons e es)
  have "tasks (step e s) \<le> Suc (tasks s)" using tasks_bounded [of "[e]" s] by simp
  with Cons step_counts [of s e] show ?case by simp
qed simp

lemma idle_run_counts:
  assumes "tracker_of s = tracker_new" "tasks s = 0" "length es < usize_lim"
  shows "unat (tk_active (tracker_of (fold step es s))) = tasks (fold step es s)"
  using run_counts [of s es] assms by (simp add: tracker_new_def)

end

lemma length_remove_nth: "k < length xs \<Longrightarrow> length xs = Suc (length (remove_nth k xs))"
  by (simp add: remove_nth_def)

lemma filter_remove_nth:
  assumes "k < length xs"
  shows "length (filter P xs) = of_bool (P (xs ! k)) + length (filter P (remove_nth k xs))"
proof -
  have "filter P xs = filter P (take k xs @ xs ! k # drop (Suc k) xs)" using id_take_nth_drop [OF assms] by simp
  then show ?thesis by (simp add: remove_nth_def)
qed

lemmas accept_step_defs = accept_step_def spawn_connection_def task_begins_def connection_done_def Let_def

interpretation tokio: counted_tasks accept_step at_tracker "\<lambda>st. length (at_open st) + length (at_lost st)"
proof unfold_locales
  show "at_tracker (accept_step e s) = at_tracker s \<and>
      length (at_open (accept_step e s)) + length (at_lost (accept_step e s)) = length (at_open s) + length (at_lost s) \<or>
    at_tracker (accept_step e s) = started (at_tracker s) \<and>
      length (at_open (accept_step e s)) + length (at_lost (accept_step e s)) = Suc (length (at_open s) + length (at_lost s)) \<or>
    at_tracker (accept_step e s) = finished (at_tracker s) \<and>
      length (at_open s) + length (at_lost s) =
        Suc (length (at_open (accept_step e s)) + length (at_lost (accept_step e s)))" for e s
    by (cases e) (auto simp: accept_step_defs dest: length_remove_nth split: conn_task.splits)
qed

interpretation ring: counted_tasks "ring_step cancels" rt_tracker "\<lambda>st. length (rt_open st) + length (rt_cut st)"
  for cancels
proof unfold_locales
  have "length (filter (\<lambda>v. v \<noteq> w) xs) + length (filter (\<lambda>v. v = w) xs) = length xs" for w :: nat and xs
    by (induction xs) auto
  then show "rt_tracker (ring_step cancels e s) = rt_tracker s \<and>
      length (rt_open (ring_step cancels e s)) + length (rt_cut (ring_step cancels e s)) = length (rt_open s) + length (rt_cut s) \<or>
    rt_tracker (ring_step cancels e s) = started (rt_tracker s) \<and>
      length (rt_open (ring_step cancels e s)) + length (rt_cut (ring_step cancels e s)) = Suc (length (rt_open s) + length (rt_cut s)) \<or>
    rt_tracker (ring_step cancels e s) = finished (rt_tracker s) \<and>
      length (rt_open s) + length (rt_cut s) =
        Suc (length (rt_open (ring_step cancels e s)) + length (rt_cut (ring_step cancels e s)))" for e s
    by (cases e) (auto simp: ring_step_def ring_exit_def Let_def dest: length_remove_nth)
qed

section \<open>Properties of the listeners\<close>

lemma accept_step_gauge:
  assumes "at_gauge st = int (length (filter on_gauge (at_open st @ at_lost st)))"
  shows "at_gauge (accept_step e st) =
    int (length (filter on_gauge (at_open (accept_step e st) @ at_lost (accept_step e st))))"
proof -
  have ended: "int (length (filter on_gauge (at_open st))) =
      of_bool (on_gauge (at_open st ! k)) + int (length (filter on_gauge (remove_nth k (at_open st))))"
    if "k < length (at_open st)" for k using filter_remove_nth [OF that, of on_gauge] by simp
  have begun: "int (length (filter on_gauge ((at_open st)[k := Running m]))) =
      int (length (filter on_gauge (at_open st))) + of_bool m"
    if "k < length (at_open st)" "at_open st ! k = Spawned m'" for k m m'
    using length_filter_update [of k "at_open st" on_gauge "Running m"] that by simp
  show ?thesis
    using assms ended begun
    by (cases e) (auto simp: accept_step_defs split: conn_task.splits)
qed

lemma accept_run_gauge:
  "at_gauge st = int (length (filter on_gauge (at_open st @ at_lost st))) \<Longrightarrow>
   at_gauge (fold accept_step es st) =
     int (length (filter on_gauge (at_open (fold accept_step es st) @ at_lost (fold accept_step es st))))"
  by (induction es arbitrary: st) (simp_all add: accept_step_gauge del: filter_append)

lemma accept_run_no_panic:
  "\<forall>k. ConnectionEnds k Panicked \<notin> set es \<Longrightarrow> at_lost (fold accept_step es st) = at_lost st"
proof (induction es arbitrary: st)
  case (Cons e es)
  then have "at_lost (accept_step e st) = at_lost st"
    by (cases e) (auto simp: accept_step_defs split: conn_task.splits)
  with Cons show ?case by auto
qed simp

lemma wait_load_returned: "tk_wait (wait_load t) = Returned \<longleftrightarrow> unat (tk_active t) = 0"
  by (simp add: wait_load_def unat_eq_0)

text \<open>
  C9. A listener of the fast engine keeps exact books: however its workers accept, fail and stop, and
  however its connections begin and end, the tracker counts exactly the open connections and the
  gauge those of them that have begun to run and were accepted with metrics on, because the engine
  never panics. So the load with which \<^verbatim>\<open>wait\<close> starts finds zero, and \<^verbatim>\<open>wait\<close> returns at once, exactly
  when no connection is open. (A wait that already sleeps and the timeout of a drain are treated
  in \<^verbatim>\<open>Conn_Tracker\<close> and \<^verbatim>\<open>Control\<close>.)
\<close>

theorem fast_listener_counts_connections:
  assumes "length es < usize_lim" "st = fold accept_step es (accept_start n)"
    "\<forall>k e. ConnectionEnds k e \<in> set es \<longrightarrow>
       (\<exists>env c. conn_inv env c \<and> env_ok env \<and> connection_end (fst (serve_connection env c)) = Some e)"
  shows "unat (tk_active (at_tracker st)) = length (at_open st) \<and>
    at_gauge st = int (length (filter on_gauge (at_open st))) \<and>
    (tk_wait (wait_load (at_tracker st)) = Returned \<longleftrightarrow> at_open st = [])"
proof -
  have "e \<noteq> Panicked" if "ConnectionEnds k e \<in> set es" for k e
  proof -
    from assms(3) that obtain env c where run: "conn_inv env c" "env_ok env"
      "connection_end (fst (serve_connection env c)) = Some e" by blast
    from serve_connection_safe [OF run(1,2)] run(3) show ?thesis
      by (cases "fst (serve_connection env c)") auto
  qed
  then have "\<forall>k. ConnectionEnds k Panicked \<notin> set es" by blast
  from accept_run_no_panic [OF this] have "at_lost st = []" by (simp add: assms(2) accept_start_def)
  moreover have "unat (tk_active (at_tracker st)) = length (at_open st) + length (at_lost st)"
    unfolding assms(2) using assms(1) by (intro tokio.idle_run_counts) (simp_all add: accept_start_def)
  moreover have "at_gauge st = int (length (filter on_gauge (at_open st @ at_lost st)))"
    unfolding assms(2) by (rule accept_run_gauge) (simp add: accept_start_def)
  ultimately show ?thesis by (simp add: wait_load_returned)
qed

text \<open>A client that connects and closes without a request.\<close>

definition silent_conn :: conn where
  "silent_conn = sample_conn\<lparr>cn_down := [], cn_down_buf := []\<rparr>"

lemma silent_conn_served:
  "conn_inv sample_serve_env silent_conn" "connection_end (fst (serve_connection sample_serve_env silent_conn)) = Some Served"
proof -
  show "conn_inv sample_serve_env silent_conn" using sample_conn_inv by (simp add: conn_inv_def silent_conn_def)
  have "sample_find_from 0 [] (crlf @ crlf) = None" by (subst sample_find_from.simps) simp
  then have "\<exists>x. read_header_block (se_lib sample_serve_env) (down_xfer silent_conn) = (AOk None, x)"
    by (subst read_header_block.simps) (simp add: down_xfer_def silent_conn_def MAX_HEADER_BYTES_def)
  then show "connection_end (fst (serve_connection sample_serve_env silent_conn)) = Some Served"
    by (subst serve_connection.simps) (auto simp: serve_one_def)
qed

theorem fast_listener_counts_connections_witness:
  "tk_wait (wait_load (at_tracker (fold accept_step [Accepted 0 True] (accept_start 1)))) \<noteq> Returned \<and>
   tk_wait (wait_load (at_tracker (fold accept_step [Accepted 0 True, TaskBegins 0, ConnectionEnds 0 Served] (accept_start 1)))) = Returned"
proof -
  let ?st = "fold accept_step [Accepted 0 True] (accept_start 1)"
    and ?st' = "fold accept_step [Accepted 0 True, TaskBegins 0, ConnectionEnds 0 Served] (accept_start 1)"
  have "at_open ?st \<noteq> []" "at_open ?st' = []"
    by (simp_all add: accept_step_defs accept_start_def accepting_def remove_nth_def)
  moreover have "\<exists>env c. conn_inv env c \<and> env_ok env \<and> connection_end (fst (serve_connection env c)) = Some Served"
    using silent_conn_served sample_env_ok by blast
  ultimately show ?thesis
    using fast_listener_counts_connections [of "[Accepted 0 True]" ?st 1]
      fast_listener_counts_connections [of "[Accepted 0 True, TaskBegins 0, ConnectionEnds 0 Served]" ?st' 1] by simp
qed

lemma ring_cut_grows: "length (rt_cut st) \<le> length (rt_cut (fold (ring_step cancels) es st))"
proof (induction es arbitrary: st)
  case (Cons e es)
  have "length (rt_cut st) \<le> length (rt_cut (ring_step cancels e st))"
    by (cases e) (auto simp: ring_step_def ring_exit_def Let_def)
  with Cons [of "ring_step cancels e st"] show ?case by simp
qed simp

text \<open>
  When the runtime of an io\_uring worker cancels its tasks on exit, a drain that meets an open
  connection never completes: once the shutdown is announced, the next accept ends the worker and
  cuts its connections off without counting them down, so whatever happens afterwards a drain that
  looks at the tracker does not return. The tracker otherwise counts exactly: the open connections
  and those that were cut off.
\<close>

theorem ring_drain_never_completes:
  assumes "length es + length es' + 1 < usize_lim"
    "st = fold (ring_step True) es (ring_start bound)" "rt_stop st" "ring_running w st" "w \<in> set (rt_open st)"
    "st' = fold (ring_step True) es' (ring_step True (RingAccepted w) st)"
  shows "unat (tk_active (rt_tracker st)) = length (rt_open st) + length (rt_cut st) \<and>
    w \<notin> set (rt_open (ring_step True (RingAccepted w) st)) \<and>
    tk_wait (wait_load (rt_tracker st')) \<noteq> Returned"
proof -
  have count: "unat (tk_active (rt_tracker (fold (ring_step True) xs (ring_start bound)))) =
      length (rt_open (fold (ring_step True) xs (ring_start bound))) +
      length (rt_cut (fold (ring_step True) xs (ring_start bound)))" if "length xs < usize_lim" for xs
    using that by (intro ring.idle_run_counts) (simp_all add: ring_start_def)
  have exit: "ring_step True (RingAccepted w) st = ring_exit True w st" using assms(3,4) by (simp add: ring_step_def)
  then have "rt_cut (ring_step True (RingAccepted w) st) \<noteq> []"
    using assms(5) by (auto simp: ring_exit_def Let_def filter_empty_conv)
  with ring_cut_grows [of "ring_step True (RingAccepted w) st" True es'] have "rt_cut st' \<noteq> []" by (auto simp: assms(6))
  moreover have "st' = fold (ring_step True) (es @ RingAccepted w # es') (ring_start bound)" by (simp add: assms(2,6))
  ultimately have "unat (tk_active (rt_tracker st')) \<noteq> 0" using count [of "es @ RingAccepted w # es'"] assms(1) by simp
  then show ?thesis
    using count [of es] assms(1,2) exit by (auto simp: wait_load_returned ring_exit_def Let_def)
qed

theorem ring_drain_never_completes_witness:
  "tk_wait (wait_load (rt_tracker (fold (ring_step True)
     [RingAccepted 0, RingShutdown True, RingAccepted 0, RingConnectionEnds 0] (ring_start [True])))) \<noteq> Returned"
proof -
  let ?st = "fold (ring_step True) [RingAccepted 0, RingShutdown True] (ring_start [True])"
  have "rt_stop ?st" "ring_running 0 ?st" "0 \<in> set (rt_open ?st)"
    by (simp_all add: ring_step_def ring_start_def ring_running_def)
  from ring_drain_never_completes [OF _ refl this refl, of "[RingConnectionEnds 0]"] show ?thesis by simp
qed



end
