(* ===== verification/Ebpf.thy ===== *)
theory Ebpf
  imports Net_Addr
begin

text \<open>
  \<^verbatim>\<open>src/src/proxy/ebpf.rs\<close>: reading hardware addresses from the kernel's text files, choosing an
  interface, and the map from connection ids to backends that the XDP program reads. File contents
  and directory listings are parameters, and so is whether a call into \<^verbatim>\<open>aya\<close> succeeds.
\<close>

section \<open>Definitions\<close>

type_synonym mac = "8 word list"

record quic_route =
  qr_dst_ip :: u32
  qr_dst_port :: u16
  qr_dst_mac :: mac
  qr_src_mac :: mac

text \<open>\<open>entries\<close> is the listing of \<^verbatim>\<open>/sys/class/net\<close>, \<open>None\<close> when it cannot be read.\<close>

definition detect_interface :: "string list option \<Rightarrow> ip_addr \<Rightarrow> string" where
  "detect_interface entries bind_ip =
     (if is_loopback bind_ip then ''lo''
      else
        (case Option.bind entries (List.find (\<lambda>name.
            name \<noteq> ''lo'' \<and> \<not> starts_with name ''veth'' \<and> \<not> starts_with name ''br-'')) of
           Some name \<Rightarrow> name
         | None \<Rightarrow> ''eth0''))"

text \<open>The loop over the six parts; \<^verbatim>\<open>u8::from_str_radix\<close> with radix 16.\<close>

fun parse_octets :: "string list \<Rightarrow> mac option" where
  "parse_octets [] = Some []"
| "parse_octets (p # ps) =
     (case from_str_radix 256 16 p of
        None \<Rightarrow> None
      | Some v \<Rightarrow> map_option ((#) (of_nat v)) (parse_octets ps))"

definition parse_mac_address :: "string \<Rightarrow> mac option" where
  "parse_mac_address content =
     (let parts = split_on (CHR '':'') (str_trim content) in
      if length parts = 6 then parse_octets parts else None)"

fun arp_lookup :: "string \<Rightarrow> string list \<Rightarrow> mac option" where
  "arp_lookup ip_str [] = None"
| "arp_lookup ip_str (line # ls) =
     (let fields = split_whitespace line in
      if 4 \<le> length fields \<and> fields ! 0 = ip_str then
        (case parse_mac_address (fields ! 3) of Some m \<Rightarrow> Some m | None \<Rightarrow> arp_lookup ip_str ls)
      else arp_lookup ip_str ls)"

definition parse_arp_table :: "string \<Rightarrow> ip_addr \<Rightarrow> mac option" where
  "parse_arp_table content ip = arp_lookup (show_ip ip) (drop 1 (lines content))"

definition get_interface_mac :: "(string \<Rightarrow> string option) \<Rightarrow> string \<Rightarrow> mac option" where
  "get_interface_mac read_file iface =
     (if iface = ''lo'' then None
      else Option.bind (read_file (''/sys/class/net/'' @ iface @ ''/address'')) parse_mac_address)"

definition get_arp_mac :: "(string \<Rightarrow> string option) \<Rightarrow> ip_addr \<Rightarrow> mac option" where
  "get_arp_mac read_file ip =
     (if is_loopback ip then None
      else Option.bind (read_file ''/proc/net/arp'') (\<lambda>content. parse_arp_table content ip))"

text \<open>
  \<^verbatim>\<open>EBPF_STATE\<close>: the loaded program's map, or \<open>None\<close> before a successful \<^verbatim>\<open>init_ebpf\<close>. A failed attach is
  only logged.
\<close>

type_synonym cid_map = "bytes \<rightharpoonup> quic_route"

definition init_ebpf :: "bool \<Rightarrow> bool \<Rightarrow> cid_map option \<Rightarrow> (unit, string) outcome \<times> cid_map option" where
  "init_ebpf loads program_loads state =
     (case state of
        Some m \<Rightarrow> (Ok (), Some m)
      | None \<Rightarrow>
          if \<not> loads then (Err ''load'', None)
          else if \<not> program_loads then (Err ''program'', None)
          else (Ok (), Some Map.empty))"

text \<open>The map's keys have eight bytes.\<close>

definition cid_key :: "bytes \<Rightarrow> bytes" where
  "cid_key cid = (let len = min (length cid) 8 in take len cid @ replicate (8 - len) (CHR 0x00))"

text \<open>\<open>map_ok\<close> says whether the map is found and the insertion succeeds.\<close>

definition register_quic_route ::
  "bool \<Rightarrow> bytes \<Rightarrow> quic_route \<Rightarrow> cid_map option \<Rightarrow> (unit, string) outcome \<times> cid_map option" where
  "register_quic_route map_ok cid route state =
     (case state of
        None \<Rightarrow> (Ok (), None)
      | Some m \<Rightarrow>
          if map_ok then (Ok (), Some (m(cid_key cid \<mapsto> route))) else (Err ''quic_cid_map'', Some m))"

text \<open>The result of \<^verbatim>\<open>map.remove\<close> is ignored; when it fails the entry stays.\<close>

definition deregister_quic_route ::
  "bool \<Rightarrow> bool \<Rightarrow> bytes \<Rightarrow> cid_map option \<Rightarrow> (unit, string) outcome \<times> cid_map option" where
  "deregister_quic_route map_ok removed cid state =
     (case state of
        None \<Rightarrow> (Ok (), None)
      | Some m \<Rightarrow>
          if map_ok then (Ok (), Some (if removed then m(cid_key cid := None) else m))
          else (Err ''quic_cid_map'', Some m))"

section \<open>Hardware addresses\<close>

definition show_octet :: "8 word \<Rightarrow> string" where
  "show_octet w = [hex_digit (unat w div 16), hex_digit (unat w mod 16)]"

definition show_mac :: "mac \<Rightarrow> string" where
  "show_mac m = join_with '':'' (map show_octet m)"

lemma byte_hex_digit: "d < 16 \<Longrightarrow> byte (hex_digit d) = (if d < 10 then 48 + d else 87 + d)"
  by (simp add: hex_digit_def)

lemma to_digit_hex: "d < 16 \<Longrightarrow> to_digit 16 (hex_digit d) = Some d"
  by (auto simp: to_digit_def byte_hex_digit is_ascii_digit_def is_ascii_lower_def is_ascii_upper_def Let_def)

lemma unat_byte: "unat (w :: 8 word) < 256"
  using unsigned_less [of w] by simp

lemma from_str_radix_octet: "from_str_radix 256 16 (show_octet w) = Some (unat w)"
proof -
  have d: "unat w div 16 < 16" "unat w mod 16 < 16" using unat_byte [of w] by auto
  then have "hex_digit (unat w div 16) \<noteq> CHR ''+''"
    using byte_hex_digit [OF d(1)] by (auto simp: byte_def split: if_splits)
  moreover have "unat w div 16 * 16 < 256" "unat w div 16 * 16 + unat w mod 16 < 256" using unat_byte [of w] by auto
  ultimately show ?thesis
    using d by (simp add: from_str_radix_def show_octet_def to_digit_hex)
qed

lemma parse_octets_show: "parse_octets (map show_octet m) = Some m"
  by (induction m) (simp_all add: from_str_radix_octet)

text \<open>The characters of a field: visible ASCII.\<close>

definition visible :: "string \<Rightarrow> bool" where
  "visible s \<longleftrightarrow> s \<noteq> [] \<and> (\<forall>c \<in> set s. 32 < byte c \<and> byte c < 128)"

lemma hex_visible: "d < 16 \<Longrightarrow> 32 < byte (hex_digit d) \<and> byte (hex_digit d) < 128 \<and> hex_digit d \<noteq> CHR '':''"
proof -
  assume d: "d < 16"
  have "byte (CHR '':'') = 58" by (simp add: byte_def)
  moreover have "byte (hex_digit d) \<noteq> 58" using d by (simp add: byte_hex_digit)
  ultimately have "hex_digit d \<noteq> CHR '':''" by metis
  with d show ?thesis by (simp add: byte_hex_digit)
qed

lemma show_octet_chars:
  "c \<in> set (show_octet w) \<Longrightarrow> 32 < byte c \<and> byte c < 128 \<and> c \<noteq> CHR '':''"
proof -
  have "unat w div 16 < 16" "unat w mod 16 < 16" using unat_byte [of w] by auto
  then show "c \<in> set (show_octet w) \<Longrightarrow> 32 < byte c \<and> byte c < 128 \<and> c \<noteq> CHR '':''"
    using hex_visible by (auto simp: show_octet_def)
qed

lemma show_mac_visible: "m \<noteq> [] \<Longrightarrow> visible (show_mac m)"
proof -
  assume "m \<noteq> []"
  then have "show_mac m \<noteq> []" by (cases m rule: list.exhaust; cases "tl m") (auto simp: show_mac_def show_octet_def)
  moreover have "32 < byte c \<and> byte c < 128" if "c \<in> set (show_mac m)" for c
    using that set_join_with [of "'':''" "map show_octet m"] show_octet_chars
    by (auto simp: show_mac_def byte_def)
  ultimately show ?thesis by (simp add: visible_def)
qed

lemma parse_mac_show: "length m = 6 \<Longrightarrow> parse_mac_address (show_mac m) = Some m"
proof -
  assume m: "length m = 6"
  then have ne: "m \<noteq> []" by auto
  have "str_trim (show_mac m) = show_mac m"
    using show_mac_visible [OF ne] by (intro str_trim_plain) (simp add: visible_def)
  moreover have "split_on (CHR '':'') (show_mac m) = map show_octet m"
    unfolding show_mac_def using ne show_octet_chars by (intro split_on_join) auto
  ultimately show ?thesis using m by (simp add: parse_mac_address_def parse_octets_show)
qed

section \<open>The neighbour table\<close>

text \<open>An entry of \<^verbatim>\<open>/proc/net/arp\<close>: its fields and the white space the kernel pads each of them with.\<close>

record arp_entry =
  en_ip :: ip_addr
  en_mac :: mac
  en_type :: string
  en_flags :: string
  en_mask :: string
  en_device :: string
  en_pad :: "nat list"

definition pad_field :: "string \<Rightarrow> nat \<Rightarrow> string" where
  "pad_field f n = f @ replicate (Suc n) (CHR '' '')"

definition entry_fields :: "arp_entry \<Rightarrow> string list" where
  "entry_fields e = [show_ip (en_ip e), en_type e, en_flags e, show_mac (en_mac e), en_mask e]"

definition entry_line :: "arp_entry \<Rightarrow> string" where
  "entry_line e = concat (map2 pad_field (entry_fields e) (en_pad e)) @ en_device e"

definition entry_ok :: "arp_entry \<Rightarrow> bool" where
  "entry_ok e \<longleftrightarrow>
     length (en_mac e) = 6 \<and> length (en_pad e) = 5 \<and> (\<exists>p q r s. en_ip e = V4 p q r s) \<and>
     visible (en_type e) \<and> visible (en_flags e) \<and> visible (en_mask e) \<and> visible (en_device e)"

definition arp_text :: "string \<Rightarrow> arp_entry list \<Rightarrow> string" where
  "arp_text header es = concat (map (\<lambda>l. l @ [CHR 0x0A]) (header # map entry_line es))"

lemma words_visible:
  assumes "\<forall>c \<in> set f. 32 < byte c \<and> byte c < 128"
  shows "words_of (map (\<lambda>c. [c]) f @ cs) w = words_of cs (w @ f)"
  using assms by (induction f arbitrary: w) (auto simp: is_whitespace_single)

lemma words_spaces: "words_of (map (\<lambda>c. [c]) (replicate n (CHR '' '')) @ cs) [] = words_of cs []"
proof -
  have "is_whitespace '' ''" by (simp add: is_whitespace_single byte_def)
  then show ?thesis by (induction n) auto
qed

lemma words_pad_field:
  assumes "visible f"
  shows "words_of (map (\<lambda>c. [c]) (pad_field f n) @ cs) [] = f # words_of cs []"
proof -
  have "is_whitespace '' ''" by (simp add: is_whitespace_single byte_def)
  with assms words_spaces [of n cs] show ?thesis
    by (simp add: pad_field_def visible_def words_visible)
qed

lemma words_fields:
  assumes "length fs = length ns" "\<forall>f \<in> set fs. visible f" "visible d"
  shows "words_of (map (\<lambda>c. [c]) (concat (map2 pad_field fs ns) @ d)) [] = fs @ [d]"
  using assms(1,2)
proof (induction fs ns rule: list_induct2)
  case Nil
  then show ?case using words_visible [of d "[]" "[]"] assms(3) by (simp add: visible_def)
next
  case (Cons f fs n ns)
  then show ?case using words_pad_field [of f n] by simp
qed

lemma show_v4_visible: "visible (show_v4 p q r s)"
proof -
  have "32 < byte c \<and> byte c < 128" if "addr_char c" for c
    using that by (auto simp: addr_char_def is_ascii_alphanumeric_def is_ascii_digit_def is_ascii_lower_def
        is_ascii_upper_def byte_def)
  then have "\<forall>c \<in> set (show_v4 p q r s). 32 < byte c \<and> byte c < 128" using show_v4_addr_char by blast
  moreover have "show_v4 p q r s \<noteq> []" by (simp add: show_v4_def)
  ultimately show ?thesis by (simp add: visible_def)
qed

lemma entry_fields_visible: "entry_ok e \<Longrightarrow> \<forall>f \<in> set (entry_fields e). visible f"
proof -
  assume e: "entry_ok e"
  then have "en_mac e \<noteq> []" by (auto simp: entry_ok_def)
  with e show "\<forall>f \<in> set (entry_fields e). visible f"
    using show_mac_visible [of "en_mac e"] show_v4_visible by (auto simp: entry_ok_def entry_fields_def)
qed

lemma entry_line_chars: "entry_ok e \<Longrightarrow> c \<in> set (entry_line e) \<Longrightarrow> 32 \<le> byte c \<and> byte c < 128"
proof -
  assume e: "entry_ok e" and c: "c \<in> set (entry_line e)"
  have vis: "\<forall>f \<in> set (entry_fields e). visible f" "visible (en_device e)"
    using entry_fields_visible [OF e] e by (simp_all add: entry_ok_def)
  from c consider (field) f n where "f \<in> set (entry_fields e)" "c \<in> set (pad_field f n)" | (device) "c \<in> set (en_device e)"
    by (auto simp: entry_line_def dest: set_zip_leftD)
  then show ?thesis
  proof cases
    case field
    moreover have "byte (CHR '' '') = 32" by (simp add: byte_def)
    ultimately show ?thesis using vis(1) by (auto simp: pad_field_def visible_def less_imp_le)
  next
    case device
    with vis(2) show ?thesis by (auto simp: visible_def less_imp_le)
  qed
qed

lemma split_entry_line:
  assumes "entry_ok e"
  shows "split_whitespace (entry_line e) = entry_fields e @ [en_device e]"
proof -
  have "utf8_chars (entry_line e) = Some (map (\<lambda>c. [c]) (entry_line e))"
    using entry_line_chars [OF assms] by (intro utf8_chars_ascii) auto
  moreover have "words_of (map (\<lambda>c. [c]) (entry_line e)) [] = entry_fields e @ [en_device e]"
    unfolding entry_line_def
    using assms entry_fields_visible [OF assms] by (intro words_fields) (auto simp: entry_ok_def entry_fields_def)
  ultimately show ?thesis by (simp add: split_whitespace_def)
qed

lemma lines_of_lines:
  assumes "\<forall>l \<in> set ls. CHR 0x0A \<notin> set l"
  shows "lines (concat (map (\<lambda>l. l @ [CHR 0x0A]) ls)) = map strip_cr ls"
proof -
  have "split_on (CHR 0x0A) (concat (map (\<lambda>l. l @ [CHR 0x0A]) ls)) = ls @ [[]]"
    using assms by (induction ls) (auto simp: split_on_append)
  then show ?thesis by (simp add: lines_def)
qed

lemma arp_lookup_entries:
  assumes "\<forall>e \<in> set es. entry_ok e"
  shows "arp_lookup ip_str (map entry_line es) = map_option en_mac (List.find (\<lambda>e. show_ip (en_ip e) = ip_str) es)"
  using assms
proof (induction es)
  case (Cons e es)
  then have "split_whitespace (entry_line e) = entry_fields e @ [en_device e]" "length (en_mac e) = 6"
    using split_entry_line by (auto simp: entry_ok_def)
  with Cons parse_mac_show [of "en_mac e"] show ?case by (simp add: entry_fields_def)
qed simp

lemma entry_line_clean:
  assumes "entry_ok e"
  shows "CHR 0x0A \<notin> set (entry_line e)" "strip_cr (entry_line e) = entry_line e"
proof -
  have b: "byte (CHR 0x0A) = 10" "byte (CHR 0x0D) = 13" by (simp_all add: byte_def)
  then show "CHR 0x0A \<notin> set (entry_line e)" using entry_line_chars [OF assms, of "CHR 0x0A"] by auto
  have "CHR 0x0D \<notin> set (entry_line e)" using entry_line_chars [OF assms, of "CHR 0x0D"] b by auto
  then show "strip_cr (entry_line e) = entry_line e" using last_in_set by (fastforce simp: strip_cr_def)
qed

lemma arp_table_lookup:
  assumes "CHR 0x0A \<notin> set header" "\<forall>e \<in> set es. entry_ok e"
  shows "parse_arp_table (arp_text header es) (V4 p q r s) =
    map_option en_mac (List.find (\<lambda>e. en_ip e = V4 p q r s) es)"
proof -
  have "\<forall>l \<in> set (header # map entry_line es). CHR 0x0A \<notin> set l"
    using assms entry_line_clean(1) by auto
  from lines_of_lines [OF this] have "drop 1 (lines (arp_text header es)) = map strip_cr (map entry_line es)"
    by (simp add: arp_text_def)
  also have "\<dots> = map entry_line es" using assms(2) entry_line_clean(2) by simp
  finally have "parse_arp_table (arp_text header es) (V4 p q r s) =
      map_option en_mac (List.find (\<lambda>e. show_ip (en_ip e) = show_ip (V4 p q r s)) es)"
    unfolding parse_arp_table_def using arp_lookup_entries [OF assms(2)] by simp
  also have "List.find (\<lambda>e. show_ip (en_ip e) = show_ip (V4 p q r s)) es = List.find (\<lambda>e. en_ip e = V4 p q r s) es"
  proof (rule find_cong [OF refl])
    fix e
    assume "e \<in> set es"
    with assms(2) obtain p' q' r' s' where "en_ip e = V4 p' q' r' s'" by (auto simp: entry_ok_def)
    then show "show_ip (en_ip e) = show_ip (V4 p q r s) \<longleftrightarrow> en_ip e = V4 p q r s"
      using show_v4_inject [of p' q' r' s' p q r s] by auto
  qed
  finally show ?thesis .
qed

definition sample_entry :: arp_entry where
  "sample_entry =
     \<lparr>en_ip = V4 10 0 0 5, en_mac = [0x00, 0x11, 0x22, 0xAB, 0x44, 0x55], en_type = ''0x1'', en_flags = ''0x2'',
      en_mask = ''*'', en_device = ''eth0'', en_pad = [8, 9, 9, 4, 8]\<rparr>"

lemma sample_entry_ok: "entry_ok sample_entry"
  by (simp add: entry_ok_def sample_entry_def visible_def byte_def)

text \<open>
  C37. Reading the neighbour table inverts what the kernel prints: for a table with any header line
  and well-formed IPv4 entries, however they are padded, \<^verbatim>\<open>parse_arp_table\<close> returns the hardware
  address of the first entry for the address, byte for byte, and nothing if there is none.
\<close>

theorem arp_table_roundtrip:
  assumes "CHR 0x0A \<notin> set header" "\<forall>e \<in> set es. entry_ok e"
  shows "parse_arp_table (arp_text header es) (V4 p q r s) =
    map_option en_mac (List.find (\<lambda>e. en_ip e = V4 p q r s) es)"
  using assms by (rule arp_table_lookup)

theorem arp_table_roundtrip_witness:
  "parse_arp_table (arp_text ''IP address'' [sample_entry]) (V4 10 0 0 5) = Some [0x00, 0x11, 0x22, 0xAB, 0x44, 0x55]"
  using arp_table_roundtrip [of "''IP address''" "[sample_entry]" 10 0 0 5] sample_entry_ok by (simp add: sample_entry_def)

section \<open>Connection ids\<close>

lemma length_cid_key [simp]: "length (cid_key cid) = 8"
  by (simp add: cid_key_def Let_def)

text \<open>Only the first eight bytes count: ending one connection removes the route of another one.\<close>

lemma deregister_hits_other_connection:
  assumes "take 8 cid = take 8 cid'" "8 \<le> length cid" "8 \<le> length cid'"
  shows "snd (deregister_quic_route True True cid' (snd (register_quic_route True cid route (Some m)))) =
    Some (m(cid_key cid := None))"
  using assms by (simp add: deregister_quic_route_def register_quic_route_def cid_key_def min_def)

end
