(* ===== verification/H3_Proxy.thy ===== *)
theory H3_Proxy
  imports Hyper_Proxy Ebpf
begin

text \<open>
  \<^verbatim>\<open>handle_h3_request\<close> of \<^verbatim>\<open>src/src/proxy/h3_quiche.rs\<close>: one request of an HTTP/3 connection, answered
  by frames on a channel, forwarded over HTTP/1 and registered for the XDP fast path. The channel
  takes frames until it is closed; the HTTP client, the resolver, the kernel's files and the
  validity checks of the \<^verbatim>\<open>http\<close> crate are parameters. The target is little-endian, so \<^verbatim>\<open>to_be\<close> swaps bytes.
\<close>

section \<open>State and environment\<close>

datatype h3_frame = H3Headers "(string \<times> bytes) list" | H3Body bytes bool

record h3_request =
  hh_headers :: "(string \<times> bytes) list"
  hh_read_fin :: bool

record h3_outbound =
  ho_method :: string
  ho_uri :: uri
  ho_headers :: "(string \<times> bytes) list"

text \<open>The body's frames as they arrive; an error frame does not end the loop that reads them.\<close>

datatype body_frame = FrameData bytes | FrameTrailers | FrameError

datatype h3_result = H3Timeout | H3ClientError | H3Response nat "(string \<times> bytes) list" "body_frame list"

record h3_env =
  hv_lib :: ext_lib
  hv_hash :: "ip_addr \<Rightarrow> u64"
  hv_now :: nat
  hv_peer :: ip_addr
  hv_dns :: "string \<Rightarrow> u16 \<Rightarrow> socket_addr list option"
  hv_read_file :: "string \<Rightarrow> string option"
  hv_local_mac :: "mac option"
  hv_scid :: bytes
  hv_map_ok :: bool
  hv_method_ok :: "string \<Rightarrow> bool"
  hv_header_ok :: "string \<times> bytes \<Rightarrow> bool"
  hv_client :: "h3_outbound \<Rightarrow> h3_result"

record h3_state =
  hx_snapshot :: config_snapshot
  hx_metrics :: "string list"
  hx_frames :: "h3_frame list"
  hx_room :: "nat option"
  hx_cids :: "cid_map option"
  hx_sent :: "h3_outbound list"

datatype h3_error = SendClosed | BadUri | BadRequest | TimedOut | ClientFailed

section \<open>Definitions\<close>

definition h3_count :: "string \<Rightarrow> h3_state \<Rightarrow> h3_state" where
  "h3_count label st =
     (if te_prometheus (pc_telemetry (sn_config (hx_snapshot st)))
      then st\<lparr>hx_metrics := hx_metrics st @ [label]\<rparr> else st)"

definition h3_mark :: "(upstream_state \<Rightarrow> upstream_state) \<Rightarrow> upstream_ref \<Rightarrow> h3_state \<Rightarrow> h3_state" where
  "h3_mark f r st = st\<lparr>hx_snapshot := update_upstream f r (hx_snapshot st)\<rparr>"

definition h3_send :: "h3_frame \<Rightarrow> h3_state \<Rightarrow> bool \<times> h3_state" where
  "h3_send frame st =
     (if hx_room st = Some 0 then (False, st)
      else (True, st\<lparr>hx_frames := hx_frames st @ [frame], hx_room := map_option (\<lambda>n. n - 1) (hx_room st)\<rparr>))"

text \<open>Frames sent one after the other, each with \<^verbatim>\<open>?\<close>.\<close>

fun h3_send_all :: "h3_frame list \<Rightarrow> h3_state \<Rightarrow> bool \<times> h3_state" where
  "h3_send_all [] st = (True, st)"
| "h3_send_all (f # fs) st = (let (ok, st') = h3_send f st in if ok then h3_send_all fs st' else (False, st'))"

definition h3_text_frames :: "string \<Rightarrow> string \<Rightarrow> h3_frame list" where
  "h3_text_frames status txt =
     [H3Headers [('':status'', status), (''content-type'', ''text/plain'')], H3Body txt True]"

text \<open>The error responses: 413 and 429 report a closed channel, 404 and 502 ignore it.\<close>

definition h3_refuse :: "bool \<Rightarrow> string \<Rightarrow> string \<Rightarrow> h3_state \<Rightarrow> (unit, h3_error) outcome \<times> h3_state" where
  "h3_refuse strict status txt st =
     (let (ok, st') = h3_send_all (h3_text_frames status txt) st in
      (if strict \<and> \<not> ok then Err SendClosed else Ok (), st'))"

text \<open>The loop over the request's headers for the pseudo headers.\<close>

fun h3_fields ::
  "(string \<times> bytes) list \<Rightarrow> string option \<Rightarrow> string option \<Rightarrow> string \<Rightarrow> string option \<times> string option \<times> string" where
  "h3_fields [] host path meth = (host, path, meth)"
| "h3_fields ((name, v) # hs) host path meth =
     (if name = '':authority'' then h3_fields hs (from_utf8 v) path meth
      else if name = '':path'' then h3_fields hs host (from_utf8 v) meth
      else if name = '':method'' then
        h3_fields hs host path (case from_utf8 v of Some m \<Rightarrow> m | None \<Rightarrow> ''GET'')
      else h3_fields hs host path meth)"

definition h3_header_value :: "(string \<times> bytes) list \<Rightarrow> string \<Rightarrow> bytes option" where
  "h3_header_value hs name = map_option snd (List.find (\<lambda>h. eq_ignore_ascii_case (fst h) name) hs)"

definition h3_has_body :: "h3_request \<Rightarrow> bool" where
  "h3_has_body req \<longleftrightarrow>
     \<not> hh_read_fin req \<or>
     (case Option.bind (Option.bind (h3_header_value (hh_headers req) ''content-length'') from_utf8)
         (\<lambda>v. parse_usize (str_trim v)) of
        Some n \<Rightarrow> 0 < n
      | None \<Rightarrow> False)"

text \<open>\<^verbatim>\<open>str::parse::<Ipv4Addr>()\<close>: four decimal parts of up to three digits, no leading zeros.\<close>

definition parse_v4_part :: "string \<Rightarrow> 8 word option" where
  "parse_v4_part p =
     (if p = [] \<or> 3 < length p \<or> \<not> list_all is_ascii_digit p \<or> (1 < length p \<and> hd p = CHR ''0'') then None
      else map_option of_nat (from_str_radix 256 10 p))"

definition parse_v4 :: "string \<Rightarrow> ip_addr option" where
  "parse_v4 s =
     (case map parse_v4_part (split_on (CHR ''.'') s) of
        [Some a, Some b, Some c, Some d] \<Rightarrow> Some (V4 a b c d)
      | _ \<Rightarrow> None)"

definition h3_resolve :: "h3_env \<Rightarrow> string \<Rightarrow> u16 \<Rightarrow> socket_addr option" where
  "h3_resolve env host port =
     (case parse_v4 host of
        Some ip \<Rightarrow> Some (SockV4 ip port)
      | None \<Rightarrow> Option.bind (hv_dns env host port) (List.find is_ipv4))"

fun be_ip :: "ip_addr \<Rightarrow> u32" where
  "be_ip (V4 a b c d) = of_nat (unat a + 256 * unat b + 65536 * unat c + 16777216 * unat d)"
| "be_ip (V6 a b c d e f g h) = 0"

definition be_port :: "u16 \<Rightarrow> u16" where
  "be_port p = of_nat (unat p mod 256 * 256 + unat p div 256)"

text \<open>Registration for the fast path; failures are ignored.\<close>

definition register_upstream :: "h3_env \<Rightarrow> socket_addr option \<Rightarrow> cid_map option \<Rightarrow> cid_map option" where
  "register_upstream env addr cids =
     (case addr of
        Some (SockV4 ip port) \<Rightarrow>
          (case (get_arp_mac (hv_read_file env) ip, hv_local_mac env) of
             (Some dst, Some src) \<Rightarrow>
               snd (register_quic_route (hv_map_ok env) (hv_scid env)
                 \<lparr>qr_dst_ip = be_ip ip, qr_dst_port = be_port port, qr_dst_mac = dst, qr_src_mac = src\<rparr> cids)
           | _ \<Rightarrow> cids)
      | _ \<Rightarrow> cids)"

definition h3_register :: "h3_env \<Rightarrow> socket_addr option \<Rightarrow> h3_state \<Rightarrow> h3_state" where
  "h3_register env addr st = st\<lparr>hx_cids := register_upstream env addr (hx_cids st)\<rparr>"

definition h3_forward_headers :: "h3_env \<Rightarrow> (string \<times> bytes) list \<Rightarrow> (string \<times> bytes) list" where
  "h3_forward_headers env hs = filter (\<lambda>h. \<not> starts_with (fst h) '':'' \<and> hv_header_ok env h) hs"

fun data_frames :: "body_frame list \<Rightarrow> h3_frame list" where
  "data_frames [] = []"
| "data_frames (FrameData d # fs) = H3Body d False # data_frames fs"
| "data_frames (_ # fs) = data_frames fs"

definition h3_response_frames :: "nat \<Rightarrow> (string \<times> bytes) list \<Rightarrow> body_frame list \<Rightarrow> h3_frame list" where
  "h3_response_frames status headers body =
     H3Headers (('':status'', show_nat status) # headers) # data_frames body @ [H3Body [] True]"

text \<open>The client's result: a timeout leaves by \<^verbatim>\<open>?\<close> before anything is booked.\<close>

definition h3_conclude :: "upstream_ref \<Rightarrow> h3_result \<Rightarrow> h3_state \<Rightarrow> (unit, h3_error) outcome \<times> h3_state" where
  "h3_conclude r result st =
     (case result of
        H3Timeout \<Rightarrow> (Err TimedOut, st)
      | H3ClientError \<Rightarrow> (Err ClientFailed, h3_count ''upstream_error'' (h3_mark mark_failure r st))
      | H3Response status headers body \<Rightarrow>
          (let (ok, st') = h3_send_all (h3_response_frames status headers body) (h3_mark mark_success r st)
           in if ok then (Ok (), h3_count ''proxied'' st') else (Err SendClosed, st')))"

definition h3_upstream ::
  "h3_env \<Rightarrow> h3_request \<Rightarrow> string \<Rightarrow> string \<Rightarrow> upstream_ref \<Rightarrow> upstream_state \<Rightarrow> h3_state \<Rightarrow>
   (unit, h3_error) outcome \<times> h3_state" where
  "h3_upstream env req path meth r u st =
     (case lib_parse_uri (hv_lib env) (us_url (st_config u)) of
        None \<Rightarrow> (Err BadUri, st)
      | Some url \<Rightarrow>
          (let host = (case uri_authority url of Some a \<Rightarrow> auth_host a | None \<Rightarrow> ''127.0.0.1'');
               port = (case Option.bind (uri_authority url) auth_port of Some p \<Rightarrow> p | None \<Rightarrow> 80);
               st1 = h3_register env (h3_resolve env host port) st
           in case build_uri (hv_lib env) (st_uri_base u) path of
                None \<Rightarrow> (Err BadUri, st1)
              | Some uri \<Rightarrow>
                  (if \<not> hv_method_ok env meth then (Err BadRequest, st1)
                   else
                     (let outbound = \<lparr>ho_method = meth, ho_uri = uri,
                            ho_headers = h3_forward_headers env (hh_headers req)\<rparr>
                      in h3_conclude r (hv_client env outbound) (st1\<lparr>hx_sent := hx_sent st1 @ [outbound]\<rparr>)))))"

definition h3_routed ::
  "h3_env \<Rightarrow> h3_request \<Rightarrow> string \<Rightarrow> string \<Rightarrow> compiled_route \<Rightarrow> h3_state \<Rightarrow> (unit, h3_error) outcome \<times> h3_state" where
  "h3_routed env req path meth route st =
     (let (admitted, sn1) = snap_acquire (hv_hash env) (hv_now env) (hv_peer env) (cr_limiter route) (hx_snapshot st);
          st1 = st\<lparr>hx_snapshot := sn1\<rparr>
      in if \<not> admitted then h3_refuse True ''429'' (''rate limit exceeded'' @ nl) (h3_count ''rate_limited'' st1)
         else
           (case route_select sn1 route of
              (Panic p, sn2) \<Rightarrow> (Panic p, st1\<lparr>hx_snapshot := sn2\<rparr>)
            | (Err e, sn2) \<Rightarrow> (Panic ''unreachable'', st1\<lparr>hx_snapshot := sn2\<rparr>)
            | (Ok None, sn2) \<Rightarrow>
                h3_refuse False ''502'' (''no available upstream'' @ nl) (h3_count ''no_upstream'' (st1\<lparr>hx_snapshot := sn2\<rparr>))
            | (Ok (Some (r, u)), sn2) \<Rightarrow> h3_upstream env req path meth r u (st1\<lparr>hx_snapshot := sn2\<rparr>)))"

definition handle_h3_request :: "h3_env \<Rightarrow> h3_request \<Rightarrow> h3_state \<Rightarrow> (unit, h3_error) outcome \<times> h3_state" where
  "handle_h3_request env req st =
     (let (host, path, meth) = h3_fields (hh_headers req) None None ''GET'' in
      if h3_has_body req then
        h3_refuse True ''413'' (''HTTP/3 request bodies are not supported'' @ nl) st
      else
        (let path_str = (case path of Some p \<Rightarrow> p | None \<Rightarrow> ''/'') in
         case match_route (hv_lib env) (sn_routes (hx_snapshot st)) (map_option str_trim host) path_str of
           None \<Rightarrow> h3_refuse False ''404'' (''no matching route'' @ nl) (h3_count ''no_route'' st)
         | Some route \<Rightarrow> h3_routed env req path_str meth route st))"

section \<open>Frames\<close>

lemma h3_send_all_open:
  "hx_room st = None \<Longrightarrow>
     h3_send_all fs st = (True, st\<lparr>hx_frames := hx_frames st @ fs\<rparr>)"
  by (induction fs arbitrary: st) (simp_all add: h3_send_def)

lemma h3_send_all_snapshot [simp]:
  "hx_snapshot (snd (h3_send_all fs st)) = hx_snapshot st" "hx_sent (snd (h3_send_all fs st)) = hx_sent st"
  by (induction fs arbitrary: st) (simp_all add: h3_send_def Let_def)

lemma h3_frames [simp]:
  "hx_snapshot (h3_count l st) = hx_snapshot st" "hx_sent (h3_count l st) = hx_sent st"
  "hx_frames (h3_count l st) = hx_frames st" "hx_room (h3_count l st) = hx_room st"
  "hx_snapshot (h3_mark f r st) = update_upstream f r (hx_snapshot st)" "hx_sent (h3_mark f r st) = hx_sent st"
  "hx_frames (h3_mark f r st) = hx_frames st" "hx_room (h3_mark f r st) = hx_room st"
  "hx_snapshot (h3_register env a st) = hx_snapshot st" "hx_sent (h3_register env a st) = hx_sent st"
  "hx_frames (h3_register env a st) = hx_frames st" "hx_room (h3_register env a st) = hx_room st"
  by (simp_all add: h3_count_def h3_mark_def h3_register_def)

lemma data_frames_bytes:
  "concat (map (\<lambda>f. case f of H3Body d _ \<Rightarrow> d | _ \<Rightarrow> []) (data_frames body)) =
     concat (map (\<lambda>f. case f of FrameData d \<Rightarrow> d | _ \<Rightarrow> []) body)"
  by (induction body rule: data_frames.induct) simp_all

section \<open>Outcomes\<close>

text \<open>A request answered by the proxy itself: one error response, nothing sent upstream.\<close>

definition h3_answered :: "string \<Rightarrow> string \<Rightarrow> h3_state \<Rightarrow> (unit, h3_error) outcome \<Rightarrow> h3_state \<Rightarrow> bool" where
  "h3_answered status txt st res st' \<longleftrightarrow>
     res = Ok () \<and> hx_sent st' = hx_sent st \<and> hx_frames st' = hx_frames st @ h3_text_frames status txt"

text \<open>A request given up before anything was sent, upstream or to the client.\<close>

definition h3_unanswered :: "h3_error \<Rightarrow> h3_state \<Rightarrow> (unit, h3_error) outcome \<Rightarrow> h3_state \<Rightarrow> bool" where
  "h3_unanswered e st res st' \<longleftrightarrow> res = Err e \<and> hx_sent st' = hx_sent st \<and> hx_frames st' = hx_frames st"

text \<open>The route's limiter has no token for the peer.\<close>

definition h3_limited :: "h3_env \<Rightarrow> compiled_route \<Rightarrow> config_snapshot \<Rightarrow> bool" where
  "h3_limited env route sn \<longleftrightarrow>
     (case cr_limiter route of
        None \<Rightarrow> False
      | Some k \<Rightarrow> \<not> fst (acquire (hv_hash env) (hv_now env) (hv_peer env) (tb_limiters (sn_routes sn) ! k)))"

lemma h3_limited_acquire:
  "snap_acquire (hv_hash env) (hv_now env) (hv_peer env) (cr_limiter route) sn = (a, sn') \<Longrightarrow> h3_limited env route sn \<longleftrightarrow> \<not> a"
  by (auto simp: h3_limited_def snap_acquire_def Let_def case_prod_beta split: option.splits)

text \<open>A request that was sent to upstream \<open>r\<close>, which had \<open>n\<close> failures, with the result \<open>c\<close>.\<close>

definition h3_exchanged ::
  "h3_result \<Rightarrow> upstream_ref \<Rightarrow> usize \<Rightarrow> h3_state \<Rightarrow> (unit, h3_error) outcome \<Rightarrow> h3_state \<Rightarrow> bool" where
  "h3_exchanged c r n st res st' \<longleftrightarrow>
     (case c of
        H3Timeout \<Rightarrow>
          res = Err TimedOut \<and> hx_frames st' = hx_frames st \<and> failures_of (hx_snapshot st') r = Some n
      | H3ClientError \<Rightarrow>
          res = Err ClientFailed \<and> hx_frames st' = hx_frames st \<and> failures_of (hx_snapshot st') r = Some (n + 1)
      | H3Response status headers body \<Rightarrow>
          res = Ok () \<and> hx_frames st' = hx_frames st @ h3_response_frames status headers body \<and>
          failures_of (hx_snapshot st') r = Some 0)"

text \<open>What becomes of a routed request for upstream \<open>u\<close> at \<open>r\<close>.\<close>

definition h3_forwarded ::
  "h3_env \<Rightarrow> h3_request \<Rightarrow> string \<Rightarrow> string \<Rightarrow> upstream_ref \<Rightarrow> upstream_state \<Rightarrow>
   h3_state \<Rightarrow> (unit, h3_error) outcome \<Rightarrow> h3_state \<Rightarrow> bool" where
  "h3_forwarded env req target meth r u st res st' \<longleftrightarrow>
     (case build_uri (hv_lib env) (st_uri_base u) target of
        None \<Rightarrow> h3_unanswered BadUri st res st'
      | Some uri \<Rightarrow>
          if lib_parse_uri (hv_lib env) (us_url (st_config u)) = None then h3_unanswered BadUri st res st'
          else if \<not> hv_method_ok env meth then h3_unanswered BadRequest st res st'
          else
            (\<exists>ob. ob = \<lparr>ho_method = meth, ho_uri = uri,
                 ho_headers = filter (\<lambda>h. \<not> starts_with (fst h) '':'' \<and> hv_header_ok env h) (hh_headers req)\<rparr> \<and>
               hx_sent st' = hx_sent st @ [ob] \<and>
               h3_exchanged (hv_client env ob) r (st_passive_failures u) st res st'))"

lemma outcome_frames [simp]:
  "h3_answered status txt (st\<lparr>hx_snapshot := sn\<rparr>) = h3_answered status txt st"
  "h3_unanswered e (st\<lparr>hx_snapshot := sn\<rparr>) = h3_unanswered e st"
  "h3_exchanged c r n (st\<lparr>hx_snapshot := sn\<rparr>) = h3_exchanged c r n st"
  "h3_answered status txt (h3_count l st) = h3_answered status txt st"
  by (simp_all add: fun_eq_iff h3_answered_def h3_unanswered_def h3_exchanged_def split: h3_result.split)

lemma h3_forwarded_frame [simp]:
  "h3_forwarded env req target meth r u (st\<lparr>hx_snapshot := sn\<rparr>) = h3_forwarded env req target meth r u st"
  by (simp add: fun_eq_iff h3_forwarded_def cong: option.case_cong)

lemma outcome_no_panic [simp]:
  "\<not> h3_answered status txt st (Panic msg) st'" "\<not> h3_forwarded env req target meth r u st (Panic msg) st'"
proof -
  have "\<not> h3_exchanged c r n st (Panic msg) st'" for c n by (cases c) (simp_all add: h3_exchanged_def)
  then show "\<not> h3_answered status txt st (Panic msg) st'" "\<not> h3_forwarded env req target meth r u st (Panic msg) st'"
    by (auto simp: h3_answered_def h3_forwarded_def h3_unanswered_def split: option.splits if_splits)
qed

lemma h3_refuse_open:
  assumes "hx_room st = None" "h3_refuse strict status txt st = (res, st')"
  shows "h3_answered status txt st res st' \<and> hx_snapshot st' = hx_snapshot st"
  using assms by (auto simp: h3_refuse_def h3_send_all_open h3_answered_def)

lemma h3_conclude_open:
  assumes "hx_room st = None" "snap_inv E (hx_snapshot st)" "h3_conclude r c st = (res, st')"
    "snap_pool (hx_snapshot st) (fst r) = Some p" "snd r < length (pl_upstreams p)"
    "n = st_passive_failures (pl_upstreams p ! snd r)"
  shows "h3_exchanged c r n st res st' \<and> snap_inv E (hx_snapshot st') \<and> hx_sent st' = hx_sent st"
proof -
  have "failures_of (hx_snapshot st) r = Some n" using assms(4,6) by (simp add: failures_of_def)
  with assms(1-3,6) failures_of_update [OF assms(4,5)] snap_inv_marks [OF assms(2)] show ?thesis
    by (cases r) (auto simp: h3_conclude_def h3_exchanged_def h3_send_all_open mark_failures split: h3_result.splits)
qed

lemma h3_upstream_open:
  assumes "hx_room st = None" "snap_inv E (hx_snapshot st)" "h3_upstream env req path meth r u st = (res, st')"
    "snap_pool (hx_snapshot st) (fst r) = Some p" "snd r < length (pl_upstreams p)" "u = pl_upstreams p ! snd r"
  shows "snap_inv E (hx_snapshot st') \<and> h3_forwarded env req path meth r u st res st'"
proof (cases "lib_parse_uri (hv_lib env) (us_url (st_config u))")
  case None
  with assms(2,3) show ?thesis by (auto simp: h3_upstream_def h3_forwarded_def h3_unanswered_def split: option.split)
next
  case url: (Some url)
  define host where "host = (case uri_authority url of Some a \<Rightarrow> auth_host a | None \<Rightarrow> ''127.0.0.1'')"
  define port where "port = (case Option.bind (uri_authority url) auth_port of Some q \<Rightarrow> q | None \<Rightarrow> 80)"
  define st1 where "st1 = h3_register env (h3_resolve env host port) st"
  have st1: "hx_snapshot st1 = hx_snapshot st" "hx_sent st1 = hx_sent st" "hx_frames st1 = hx_frames st" "hx_room st1 = None"
    by (simp_all add: st1_def assms(1))
  note simps = h3_upstream_def url host_def [symmetric] port_def [symmetric] st1_def [symmetric] Let_def
  show ?thesis
  proof (cases "\<exists>uri. build_uri (hv_lib env) (st_uri_base u) path = Some uri \<and> hv_method_ok env meth")
    case True
    then obtain uri where uri: "build_uri (hv_lib env) (st_uri_base u) path = Some uri" "hv_method_ok env meth" by blast
    let ?ob = "\<lparr>ho_method = meth, ho_uri = uri, ho_headers = h3_forward_headers env (hh_headers req)\<rparr>"
    let ?st = "st1\<lparr>hx_sent := hx_sent st1 @ [?ob]\<rparr>"
    from uri assms(3) have c: "h3_conclude r (hv_client env ?ob) ?st = (res, st')" by (simp add: simps st1(2))
    have "h3_exchanged (hv_client env ?ob) r (st_passive_failures u) ?st res st' \<and>
        snap_inv E (hx_snapshot st') \<and> hx_sent st' = hx_sent ?st"
      by (rule h3_conclude_open [OF _ _ c]) (use st1 assms in simp_all)
    with uri st1 url show ?thesis
      by (auto simp: h3_forwarded_def h3_forward_headers_def h3_exchanged_def split: h3_result.splits)
  next
    case False
    with assms(2,3) st1 url show ?thesis
      by (auto simp: simps h3_forwarded_def h3_unanswered_def split: option.splits if_splits)
  qed
qed

text \<open>
  The outcome of a request, by the first condition that applies. There is no case for \<^verbatim>\<open>502\<close>: a pool of a
  sound snapshot always yields an upstream.
\<close>

definition h3_outcome :: "h3_env \<Rightarrow> h3_request \<Rightarrow> h3_state \<Rightarrow> (unit, h3_error) outcome \<Rightarrow> h3_state \<Rightarrow> bool" where
  "h3_outcome env req st res st' \<longleftrightarrow>
     (case h3_fields (hh_headers req) None None ''GET'' of
        (host, path, meth) \<Rightarrow>
          let target = (case path of Some p \<Rightarrow> p | None \<Rightarrow> ''/'')
          in if h3_has_body req then h3_answered ''413'' (''HTTP/3 request bodies are not supported'' @ nl) st res st'
             else (case match_route (hv_lib env) (sn_routes (hx_snapshot st)) (map_option str_trim host) target of
               None \<Rightarrow> h3_answered ''404'' (''no matching route'' @ nl) st res st'
             | Some route \<Rightarrow>
                 if h3_limited env route (hx_snapshot st) then h3_answered ''429'' (''rate limit exceeded'' @ nl) st res st'
                 else
                   (\<exists>p i. snap_pool (hx_snapshot st) (cr_pool route) = Some p \<and> i < length (pl_upstreams p) \<and>
                      (unat (pl_cursor p) + length (pl_expanded p) \<le> usize_lim \<and> (\<exists>u. usable_member p u) \<longrightarrow>
                         is_available (pl_upstreams p ! i) (pl_threshold p)) \<and>
                      h3_forwarded env req target meth (cr_pool route, i) (pl_upstreams p ! i) st res st')))"

lemma h3_routed_outcome:
  assumes "snap_inv (hv_lib env) (hx_snapshot st)" "hx_room st = None"
    "h3_routed env req target meth route st = (res, st')" "route \<in> set (tb_routes (sn_routes (hx_snapshot st)))"
    "\<not> h3_limited env route (hx_snapshot st)"
  shows "snap_inv (hv_lib env) (hx_snapshot st') \<and>
    (\<exists>p i. snap_pool (hx_snapshot st) (cr_pool route) = Some p \<and> i < length (pl_upstreams p) \<and>
       (unat (pl_cursor p) + length (pl_expanded p) \<le> usize_lim \<and> (\<exists>u. usable_member p u) \<longrightarrow>
          is_available (pl_upstreams p ! i) (pl_threshold p)) \<and>
       h3_forwarded env req target meth (cr_pool route, i) (pl_upstreams p ! i) st res st')"
proof -
  obtain a sn1 where a: "snap_acquire (hv_hash env) (hv_now env) (hv_peer env) (cr_limiter route) (hx_snapshot st) = (a, sn1)"
    by force
  note fr = snap_acquire_frame [OF a]
  have "a" using h3_limited_acquire [OF a] assms(5) by simp
  have mem: "route \<in> set (tb_routes (sn_routes sn1))" using assms(4) fr(4) by simp
  from route_select_Ok [OF fr(3) [OF assms(1)] mem] obtain p i p' where
    p: "snap_pool sn1 (cr_pool route) = Some p" "i < length (pl_upstreams p)" "pl_upstreams p' = pl_upstreams p"
      "snap_inv (hv_lib env) (set_pool (cr_pool route) p' sn1)" "select p = (Some i, p')"
      "route_select sn1 route = (Ok (Some ((cr_pool route, i), pl_upstreams p ! i)), set_pool (cr_pool route) p' sn1)"
    by blast
  let ?st = "st\<lparr>hx_snapshot := set_pool (cr_pool route) p' sn1\<rparr>"
  from assms(3) a \<open>a\<close> p(6) have u: "h3_upstream env req target meth (cr_pool route, i) (pl_upstreams p ! i) ?st = (res, st')"
    by (simp add: h3_routed_def)
  have "snap_inv (hv_lib env) (hx_snapshot st') \<and>
      h3_forwarded env req target meth (cr_pool route, i) (pl_upstreams p ! i) ?st res st'"
    by (rule h3_upstream_open [OF _ _ u, where p = p']) (use assms(2) p(2-4) in simp_all)
  moreover have "pool_inv p" using fr(3) [OF assms(1)] mem p(1) by (auto simp: snap_inv_def)
  note select_prefers_available [OF this p(5)]
  moreover have "snap_pool (hx_snapshot st) (cr_pool route) = Some p" using p(1) fr(2) by simp
  ultimately show ?thesis using p(2) by (metis h3_forwarded_frame)
qed

lemma handle_h3_request_outcome:
  assumes "snap_inv (hv_lib env) (hx_snapshot st)" "hx_room st = None" "handle_h3_request env req st = (res, st')"
  shows "snap_inv (hv_lib env) (hx_snapshot st') \<and> h3_outcome env req st res st'"
proof -
  obtain host path meth where f: "h3_fields (hh_headers req) None None ''GET'' = (host, path, meth)" by (metis prod_cases3)
  define target where "target = (case path of Some p \<Rightarrow> p | None \<Rightarrow> ''/'')"
  note simps = handle_h3_request_def h3_outcome_def f target_def [symmetric] Let_def
  show ?thesis
  proof (cases "match_route (hv_lib env) (sn_routes (hx_snapshot st)) (map_option str_trim host) target")
    case None
    with assms(3) h3_refuse_open [of st] h3_refuse_open [of "h3_count ''no_route'' st"] assms(1,2) show ?thesis
      by (auto simp: simps split: if_splits)
  next
    case (Some route)
    have mem: "route \<in> set (tb_routes (sn_routes (hx_snapshot st)))"
      using assms(1) Some match_route_mem unfolding snap_inv_def by metis
    show ?thesis
    proof (cases "h3_has_body req \<or> h3_limited env route (hx_snapshot st)")
      case True
      obtain a sn1 where a: "snap_acquire (hv_hash env) (hv_now env) (hv_peer env) (cr_limiter route) (hx_snapshot st) = (a, sn1)"
        by force
      have "snap_inv (hv_lib env) sn1" using snap_acquire_frame(3) [OF a] assms(1) by simp
      with True Some assms h3_limited_acquire [OF a] a h3_refuse_open [of st]
        h3_refuse_open [of "h3_count ''rate_limited'' (st\<lparr>hx_snapshot := sn1\<rparr>)"]
      show ?thesis by (auto simp: simps h3_routed_def split: if_splits)
    next
      case False
      with assms(3) Some have "h3_routed env req target meth route st = (res, st')" by (simp add: simps)
      from h3_routed_outcome [OF assms(1,2) this mem] False Some show ?thesis by (simp add: simps)
    qed
  qed
qed

text \<open>
  C22. The outcome of every HTTP/3 request, on a sound snapshot and while the connection's frame
  channel is open and takes every frame (\<open>hx_room st = None\<close>); the snapshot stays sound and nothing
  panics. By the first condition that applies: a request with a body is answered 413, one that no
  route matches 404, one whose route has no token for the peer 429, each as one response with
  nothing sent upstream. Any other request is for a member of the matched route's pool, an available
  one if a member with a positive weight is available and the cursor does not wrap. If the joined
  target is no URI or the method no method, the request is given up: nothing is sent and the client gets no
  answer at all. Otherwise exactly one request goes to that upstream, at the joined target, with the
  client's method and its non-pseudo headers. A response is relayed completely (status and headers,
  the data of all body frames in order, the end marker) and clears the upstream's failures whatever
  its status. A client error counts as a failure, a timeout is counted as nothing, and neither of
  the two is answered.
\<close>

theorem h3_request_outcome:
  assumes "snap_inv (hv_lib env) (hx_snapshot st)" "hx_room st = None" "handle_h3_request env req st = (res, st')"
  shows "snap_inv (hv_lib env) (hx_snapshot st') \<and> (\<forall>msg. res \<noteq> Panic msg) \<and>
    (\<exists>host path meth target.
       h3_fields (hh_headers req) None None ''GET'' = (host, path, meth) \<and>
       target = (case path of Some p \<Rightarrow> p | None \<Rightarrow> ''/'') \<and>
       (if h3_has_body req then h3_answered ''413'' (''HTTP/3 request bodies are not supported'' @ nl) st res st'
        else (case match_route (hv_lib env) (sn_routes (hx_snapshot st)) (map_option str_trim host) target of
          None \<Rightarrow> h3_answered ''404'' (''no matching route'' @ nl) st res st'
        | Some route \<Rightarrow>
            if h3_limited env route (hx_snapshot st) then h3_answered ''429'' (''rate limit exceeded'' @ nl) st res st'
            else
              (\<exists>p i. snap_pool (hx_snapshot st) (cr_pool route) = Some p \<and> i < length (pl_upstreams p) \<and>
                 (unat (pl_cursor p) + length (pl_expanded p) \<le> usize_lim \<and> (\<exists>u. usable_member p u) \<longrightarrow>
                    is_available (pl_upstreams p ! i) (pl_threshold p)) \<and>
                 h3_forwarded env req target meth (cr_pool route, i) (pl_upstreams p ! i) st res st'))))"
proof -
  note o = handle_h3_request_outcome [OF assms]
  obtain host path meth where f: "h3_fields (hh_headers req) None None ''GET'' = (host, path, meth)" by (metis prod_cases3)
  from o have "\<forall>msg. res \<noteq> Panic msg" by (auto simp: h3_outcome_def f Let_def split: if_splits option.splits)
  moreover from o have "h3_outcome env req st res st'" by simp
  note this [unfolded h3_outcome_def f prod.case Let_def]
  ultimately show ?thesis using o f by blast
qed

definition sample_h3_env :: h3_env where
  "sample_h3_env =
     \<lparr>hv_lib = sample_lib, hv_hash = (\<lambda>_. 0), hv_now = 0, hv_peer = V4 10 0 0 9, hv_dns = (\<lambda>_ _. None),
      hv_read_file = (\<lambda>_. None), hv_local_mac = None, hv_scid = ''abcdefgh'', hv_map_ok = True,
      hv_method_ok = (\<lambda>_. True), hv_header_ok = (\<lambda>_. True), hv_client = (\<lambda>_. H3Timeout)\<rparr>"

definition sample_h3_request :: h3_request where
  "sample_h3_request = \<lparr>hh_headers = [], hh_read_fin = True\<rparr>"

definition sample_h3_state :: h3_state where
  "sample_h3_state = \<lparr>hx_snapshot = sample_snapshot, hx_metrics = [], hx_frames = [], hx_room = None,
     hx_cids = None, hx_sent = []\<rparr>"

lemma sample_h3_sends:
  "\<exists>ob. hx_sent (snd (handle_h3_request sample_h3_env sample_h3_request sample_h3_state)) = [ob]"
proof -
  have fields: "h3_fields (hh_headers sample_h3_request) None None ''GET'' = (None, None, ''GET'')"
    "\<not> h3_has_body sample_h3_request"
    by (simp_all add: sample_h3_request_def h3_has_body_def h3_header_value_def)
  have "match_route sample_lib (sn_routes sample_snapshot) None ''/'' = Some sample_route"
    by (simp add: match_route_def sample_snapshot_def)
  moreover have "route_select sample_snapshot sample_route = (Ok (Some ((''web'', 0), sample_upstream_state)),
      set_pool ''web'' sample_up_pool sample_snapshot)"
    by (simp add: route_select_def snap_pool_def sample_snapshot_def sample_route_def select_def sample_up_pool_def)
  moreover have "cr_limiter sample_route = None" by (simp add: sample_route_def)
  moreover have "build_uri sample_lib (st_uri_base sample_upstream_state) ''/'' \<noteq> None" by code_simp
  moreover have "lib_parse_uri sample_lib (us_url (st_config sample_upstream_state)) \<noteq> None" by code_simp
  ultimately show ?thesis
    by (auto simp: handle_h3_request_def fields h3_routed_def h3_upstream_def sample_h3_env_def sample_h3_state_def
        snap_acquire_def h3_conclude_def Let_def)
qed

theorem h3_request_outcome_witness:
  "\<exists>res st'. handle_h3_request sample_h3_env sample_h3_request sample_h3_state = (res, st') \<and>
     res = Err TimedOut \<and> hx_frames st' = [] \<and> length (hx_sent st') = 1 \<and> snap_inv sample_lib (hx_snapshot st')"
proof -
  obtain res st' where h: "handle_h3_request sample_h3_env sample_h3_request sample_h3_state = (res, st')" by force
  obtain ob where ob: "hx_sent st' = [ob]" using sample_h3_sends h by auto
  have lib: "hv_lib sample_h3_env = sample_lib" "hx_room sample_h3_state = None" "hx_snapshot sample_h3_state = sample_snapshot"
    "hx_sent sample_h3_state = []" "hx_frames sample_h3_state = []" "hv_client sample_h3_env = (\<lambda>_. H3Timeout)"
    by (simp_all add: sample_h3_env_def sample_h3_state_def)
  have "h3_fields (hh_headers sample_h3_request) None None ''GET'' = (None, None, ''GET'')"
    by (simp add: sample_h3_request_def)
  with h3_request_outcome [OF _ _ h] sample_snap_inv ob
  have "res = Err TimedOut \<and> hx_frames st' = [] \<and> snap_inv sample_lib (hx_snapshot st')"
    by (auto simp: lib h3_answered_def h3_forwarded_def h3_unanswered_def h3_exchanged_def split: if_splits option.splits)
  with h ob show ?thesis by simp
qed

end
