(* ===== verification/H3_Conn.thy ===== *)
theory H3_Conn
  imports H3_Proxy
begin

text \<open>
  \<^verbatim>\<open>serve_listener\<close> of \<^verbatim>\<open>src/src/proxy/h3_quiche.rs\<close>: the set-up of an HTTP/3 listener, its accept
  loop, and the life of its connections. Every request runs as a task of its own, which may outlive
  the connection; all of them and the connections share the connection-id map of the XDP program.
  A request touches the map once, so running a request's handler is one step of the interleaving.
\<close>

section \<open>Definitions\<close>

datatype h3_setup = H3NoCertificate | H3SocketFailed | H3Listening string "mac option" string string

definition h3_interface :: "string list option \<Rightarrow> listener_config \<Rightarrow> string" where
  "h3_interface entries l =
     (case lc_interface l of Some name \<Rightarrow> name | None \<Rightarrow> detect_interface entries (sock_ip (lc_bind l)))"

text \<open>
  The parameters: the entries of \<^verbatim>\<open>/sys/class/net\<close>, the files, whether the program loads, and
  whether the UDP socket and the QUIC listener come up.
\<close>

definition h3_listen ::
  "string list option \<Rightarrow> (string \<Rightarrow> string option) \<Rightarrow> bool \<Rightarrow> bool \<Rightarrow> bool \<Rightarrow> config_snapshot \<Rightarrow> listener_config \<Rightarrow>
   cid_map option \<Rightarrow> h3_setup \<times> cid_map option" where
  "h3_listen entries read_file loads program_loads socket_ok sn l cids =
     (let iface = h3_interface entries l;
          cids1 = snd (init_ebpf loads program_loads cids);
          local_mac = get_interface_mac read_file iface
      in case tls_certs (pc_tls (sn_config sn)) of
           [] \<Rightarrow> (H3NoCertificate, cids1)
         | c # _ \<Rightarrow>
             if socket_ok then (H3Listening iface local_mac (cc_cert_path c) (cc_key_path c), cids1)
             else (H3SocketFailed, cids1))"

text \<open>
  A connection: its id, the metrics flag read when it was accepted, the requests whose task has not
  run yet, whether its event channel is open, whether a request ran after it had been closed, and
  whether the removal of its route failed when it was closed.
\<close>

record h3_conn =
  qc_scid :: bytes
  qc_metrics :: bool
  qc_tasks :: "h3_request list"
  qc_open :: bool
  qc_late :: bool
  qc_kept :: bool

record h3_listener =
  ql_cids :: "cid_map option"
  ql_conns :: "h3_conn list"
  ql_gauge :: int
  ql_running :: bool
  ql_local_mac :: "mac option"

definition h3_accept :: "bytes \<Rightarrow> h3_listener \<Rightarrow> bool \<Rightarrow> h3_listener" where
  "h3_accept scid s metrics =
     s\<lparr>ql_conns := ql_conns s @ [\<lparr>qc_scid = scid, qc_metrics = metrics, qc_tasks = [], qc_open = True, qc_late = False, qc_kept = False\<rparr>],
       ql_gauge := ql_gauge s + of_bool metrics\<rparr>"

definition h3_headers :: "nat \<Rightarrow> h3_request \<Rightarrow> h3_listener \<Rightarrow> h3_listener" where
  "h3_headers i req s =
     (let c = ql_conns s ! i in s\<lparr>ql_conns := (ql_conns s)[i := c\<lparr>qc_tasks := qc_tasks c @ [req]\<rparr>]\<rparr>)"

text \<open>
  The task of request \<open>k\<close> of connection \<open>i\<close> runs, with the map the listener shares and the hardware
  address it found at its start.
\<close>

definition h3_serve :: "h3_env \<Rightarrow> h3_state \<Rightarrow> nat \<Rightarrow> nat \<Rightarrow> h3_listener \<Rightarrow> h3_listener" where
  "h3_serve env st i k s =
     (let c = ql_conns s ! i;
          st' = snd (handle_h3_request (env\<lparr>hv_scid := qc_scid c, hv_local_mac := ql_local_mac s\<rparr>) (qc_tasks c ! k) (st\<lparr>hx_cids := ql_cids s\<rparr>))
      in s\<lparr>ql_cids := hx_cids st',
           ql_conns := (ql_conns s)[i := c\<lparr>qc_tasks := take k (qc_tasks c) @ drop (Suc k) (qc_tasks c),
             qc_late := qc_late c \<or> \<not> qc_open c\<rparr>]\<rparr>)"

text \<open>
  The event channel ends: the connection removes its route, ignoring whether that worked, and leaves
  the gauge.
\<close>

definition h3_close :: "bool \<Rightarrow> bool \<Rightarrow> nat \<Rightarrow> h3_listener \<Rightarrow> h3_listener" where
  "h3_close map_ok removed i s =
     (let c = ql_conns s ! i in
      s\<lparr>ql_cids := snd (deregister_quic_route map_ok removed (qc_scid c) (ql_cids s)),
        ql_conns := (ql_conns s)[i := c\<lparr>qc_open := False, qc_kept := \<not> (map_ok \<and> removed)\<rparr>],
        ql_gauge := ql_gauge s - of_bool (qc_metrics c)\<rparr>)"

inductive h3_step :: "h3_listener \<Rightarrow> h3_listener \<Rightarrow> bool" where
  accept: "ql_running s \<Longrightarrow> h3_step s (h3_accept scid s metrics)"
| shutdown: "ql_running s \<Longrightarrow> h3_step s (s\<lparr>ql_running := False\<rparr>)"
| headers: "i < length (ql_conns s) \<Longrightarrow> qc_open (ql_conns s ! i) \<Longrightarrow> h3_step s (h3_headers i req s)"
| serve: "i < length (ql_conns s) \<Longrightarrow> k < length (qc_tasks (ql_conns s ! i)) \<Longrightarrow> h3_step s (h3_serve env st i k s)"
| close: "i < length (ql_conns s) \<Longrightarrow> qc_open (ql_conns s ! i) \<Longrightarrow> 
    h3_step s (h3_close map_ok removed i s)"

inductive_cases h3_stepE: "h3_step s s'"

definition h3_start :: "cid_map option \<Rightarrow> mac option \<Rightarrow> h3_listener" where
  "h3_start cids local_mac =
     \<lparr>ql_cids = cids, ql_conns = [], ql_gauge = 0, ql_running = True, ql_local_mac = local_mac\<rparr>"

section \<open>The map\<close>

definition keys :: "cid_map option \<Rightarrow> bytes set" where
  "keys cids = (case cids of None \<Rightarrow> {} | Some m \<Rightarrow> dom m)"

lemma keys_simps [simp]: "keys None = {}" "keys (Some m) = dom m"
  by (simp_all add: keys_def)

lemma register_upstream_keys: "keys (register_upstream env addr cids) \<subseteq> insert (cid_key (hv_scid env)) (keys cids)"
  by (auto simp: register_upstream_def register_quic_route_def keys_def split: option.splits socket_addr.splits if_splits)

lemma deregister_keys:
  "keys (snd (deregister_quic_route map_ok removed cid cids)) = keys cids - (if map_ok \<and> removed then {cid_key cid} else {})"
  by (auto simp: deregister_quic_route_def keys_def split: option.splits if_splits)

lemma h3_send_all_cids [simp]: "hx_cids (snd (h3_send_all fs st)) = hx_cids st"
  by (induction fs arbitrary: st) (simp_all add: h3_send_def Let_def)

lemma h3_frame_cids [simp]:
  "hx_cids (h3_count l st) = hx_cids st" "hx_cids (h3_mark f r st) = hx_cids st"
  "hx_cids (snd (h3_refuse b s t st)) = hx_cids st" "hx_cids (snd (h3_conclude r c st)) = hx_cids st"
  by (simp_all add: h3_count_def h3_mark_def h3_refuse_def h3_conclude_def Let_def case_prod_beta split: h3_result.split)

text \<open>One request registers at most one upstream, under its own connection's id.\<close>

definition registers_once :: "h3_env \<Rightarrow> cid_map option \<Rightarrow> cid_map option \<Rightarrow> bool" where
  "registers_once env cids cids' \<longleftrightarrow> cids' = cids \<or> (\<exists>addr. cids' = register_upstream env addr cids)"

lemma h3_upstream_cids: "registers_once env (hx_cids st) (hx_cids (snd (h3_upstream env req path meth r u st)))"
  by (auto simp: registers_once_def h3_upstream_def h3_register_def Let_def split: option.split)

lemma h3_routed_cids: "registers_once env (hx_cids st) (hx_cids (snd (h3_routed env req path meth route st)))"
proof -
  obtain a sn1 where a: "snap_acquire (hv_hash env) (hv_now env) (hv_peer env) (cr_limiter route) (hx_snapshot st) = (a, sn1)"
    by force
  obtain o2 sn2 where o2: "route_select sn1 route = (o2, sn2)" by force
  show ?thesis
  proof (cases "\<exists>r u. a \<and> o2 = Ok (Some (r, u))")
    case True
    then obtain r u where "a" "o2 = Ok (Some (r, u))" by blast
    with a o2 h3_upstream_cids [of env "st\<lparr>hx_snapshot := sn2\<rparr>" req path meth r u] show ?thesis
      by (simp add: h3_routed_def)
  next
    case False
    then show ?thesis
      using a o2 by (auto simp: registers_once_def h3_routed_def Let_def split: outcome.split option.split)
  qed
qed

lemma handle_h3_request_cids: "registers_once env (hx_cids st) (hx_cids (snd (handle_h3_request env req st)))"
proof -
  obtain host path meth where f: "h3_fields (hh_headers req) None None ''GET'' = (host, path, meth)" by (metis prod_cases3)
  have none: "registers_once env cids cids" for cids by (simp add: registers_once_def)
  from f none h3_routed_cids show ?thesis
    by (auto simp: handle_h3_request_def Let_def split: option.split)
qed

lemma handle_h3_request_keys:
  "keys (hx_cids (snd (handle_h3_request env req st))) \<subseteq> insert (cid_key (hv_scid env)) (keys (hx_cids st))"
  using handle_h3_request_cids [of env st req] register_upstream_keys unfolding registers_once_def
  by (elim disjE exE) (simp_all only: subset_insertI)

section \<open>Properties\<close>

text \<open>
  Every route in the map has a connection that owns it: an open one, one whose request came late, or
  one whose route could not be removed.
\<close>

definition owner :: "h3_conn \<Rightarrow> bool" where
  "owner c \<longleftrightarrow> qc_open c \<or> qc_late c \<or> qc_kept c"

definition owned :: "h3_listener \<Rightarrow> bool" where
  "owned s \<longleftrightarrow> (\<forall>key \<in> keys (ql_cids s). \<exists>c \<in> set (ql_conns s). cid_key (qc_scid c) = key \<and> owner c)"

definition gauge_exact :: "h3_listener \<Rightarrow> bool" where
  "gauge_exact s \<longleftrightarrow> ql_gauge s = int (length (filter (\<lambda>c. qc_open c \<and> qc_metrics c) (ql_conns s)))"

text \<open>Replacing a connection by one that still owns its route keeps the map owned.\<close>

lemma owned_update:
  assumes "owned s" "i < length (ql_conns s)" "qc_scid c = qc_scid (ql_conns s ! i)"
    "keys cids \<subseteq> keys (ql_cids s) \<union> {cid_key (qc_scid c)}"
    "cid_key (qc_scid c) \<in> keys cids \<Longrightarrow> owner c"
  shows "owned (s\<lparr>ql_cids := cids, ql_conns := (ql_conns s)[i := c]\<rparr>)"
  unfolding owned_def
proof (simp, intro ballI)
  fix key
  assume key: "key \<in> keys cids"
  show "\<exists>d \<in> set ((ql_conns s)[i := c]). cid_key (qc_scid d) = key \<and> owner d"
  proof (cases "key = cid_key (qc_scid c)")
    case True
    with key assms(2,5) show ?thesis by (intro bexI [of _ c]) (auto simp: set_update_memI)
  next
    case False
    with key assms(4) have "key \<in> keys (ql_cids s)" by auto
    with assms(1) obtain d where "d \<in> set (ql_conns s)" "cid_key (qc_scid d) = key" "owner d"
      unfolding owned_def by blast
    then obtain j where j: "j < length (ql_conns s)" "cid_key (qc_scid (ql_conns s ! j)) = key"
      "owner (ql_conns s ! j)" by (auto simp: in_set_conv_nth)
    with False assms(3) have "i \<noteq> j" by auto
    with j have "ql_conns s ! j \<in> set ((ql_conns s)[i := c])"
      by (metis length_list_update nth_list_update_neq nth_mem)
    with j show ?thesis by blast
  qed
qed

lemma gauge_update:
  assumes "gauge_exact s" "i < length (ql_conns s)"
    "g + of_bool (qc_open (ql_conns s ! i) \<and> qc_metrics (ql_conns s ! i)) = ql_gauge s + of_bool (qc_open c \<and> qc_metrics c)"
  shows "gauge_exact (s\<lparr>ql_cids := cids, ql_conns := (ql_conns s)[i := c], ql_gauge := g\<rparr>)"
  using assms length_filter_update [OF assms(2), of "\<lambda>c. qc_open c \<and> qc_metrics c" c]
  by (auto simp: gauge_exact_def of_bool_def split: if_splits)

lemma h3_step_inv: "h3_step s s' \<Longrightarrow> owned s \<and> gauge_exact s \<Longrightarrow> owned s' \<and> gauge_exact s'"
proof (induction rule: h3_step.induct)
  case (accept s scid metrics)
  then show ?case by (auto simp: owned_def gauge_exact_def h3_accept_def owner_def)
next
  case (shutdown s)
  then show ?case by (simp add: owned_def gauge_exact_def)
next
  case (headers i s req)
  let ?c = "ql_conns s ! i"
  let ?c' = "?c\<lparr>qc_tasks := qc_tasks ?c @ [req]\<rparr>"
  have "h3_headers i req s = s\<lparr>ql_cids := ql_cids s, ql_conns := (ql_conns s)[i := ?c'], ql_gauge := ql_gauge s\<rparr>"
    by (simp add: h3_headers_def Let_def)
  moreover have "owned (s\<lparr>ql_cids := ql_cids s, ql_conns := (ql_conns s)[i := ?c']\<rparr>)"
    by (rule owned_update) (use headers in \<open>auto simp: owner_def\<close>)
  moreover have "gauge_exact (s\<lparr>ql_cids := ql_cids s, ql_conns := (ql_conns s)[i := ?c'], ql_gauge := ql_gauge s\<rparr>)"
    by (rule gauge_update) (use headers in auto)
  ultimately show ?case by (simp add: owned_def)
next
  case (serve i s k env st)
  let ?c = "ql_conns s ! i"
  let ?c' = "?c\<lparr>qc_tasks := take k (qc_tasks ?c) @ drop (Suc k) (qc_tasks ?c), qc_late := qc_late ?c \<or> \<not> qc_open ?c\<rparr>"
  let ?cids = "hx_cids (snd (handle_h3_request (env\<lparr>hv_scid := qc_scid ?c, hv_local_mac := ql_local_mac s\<rparr>) (qc_tasks ?c ! k) (st\<lparr>hx_cids := ql_cids s\<rparr>)))"
  have "h3_serve env st i k s = s\<lparr>ql_cids := ?cids, ql_conns := (ql_conns s)[i := ?c'], ql_gauge := ql_gauge s\<rparr>"
    by (simp add: h3_serve_def Let_def)
  moreover have "owned (s\<lparr>ql_cids := ?cids, ql_conns := (ql_conns s)[i := ?c']\<rparr>)"
    by (rule owned_update)
       (use serve handle_h3_request_keys [of "env\<lparr>hv_scid := qc_scid ?c, hv_local_mac := ql_local_mac s\<rparr>" "qc_tasks ?c ! k" "st\<lparr>hx_cids := ql_cids s\<rparr>"] in \<open>auto simp: owner_def\<close>)
  moreover have "gauge_exact (s\<lparr>ql_cids := ?cids, ql_conns := (ql_conns s)[i := ?c'], ql_gauge := ql_gauge s\<rparr>)"
    by (rule gauge_update) (use serve in auto)
  ultimately show ?case by (simp add: owned_def)
next
  case (close i s map_ok removed)
  let ?c = "ql_conns s ! i"
  let ?c' = "?c\<lparr>qc_open := False, qc_kept := \<not> (map_ok \<and> removed)\<rparr>" and ?g = "ql_gauge s - of_bool (qc_metrics ?c)"
  let ?cids = "snd (deregister_quic_route map_ok removed (qc_scid ?c) (ql_cids s))"
  have "h3_close map_ok removed i s = s\<lparr>ql_cids := ?cids, ql_conns := (ql_conns s)[i := ?c'], ql_gauge := ?g\<rparr>"
    by (simp add: h3_close_def Let_def)
  moreover have "owned (s\<lparr>ql_cids := ?cids, ql_conns := (ql_conns s)[i := ?c']\<rparr>)"
    by (rule owned_update) (use close in \<open>auto simp: owner_def deregister_keys\<close>)
  moreover have "gauge_exact (s\<lparr>ql_cids := ?cids, ql_conns := (ql_conns s)[i := ?c'], ql_gauge := ?g\<rparr>)"
    by (rule gauge_update) (use close in auto)
  ultimately show ?case by (simp add: owned_def)
qed

text \<open>
  C20. The fast path's map and the connection gauge follow the connections, for every interleaving
  of accepted connections, requests, their tasks and closes: every connection id in the map belongs
  to a connection that is open, or one of whose requests ran only after the close, or whose
  removal from the map failed at the close (which the code ignores); and the gauge is the number of
  open connections that were accepted with metrics on. In particular, if no request is late and
  every removal works, the map is empty once all connections are closed.
\<close>

theorem h3_routes_have_owners:
  assumes "h3_step\<^sup>*\<^sup>* (h3_start (Some Map.empty) local_mac) s"
  shows "(\<forall>key \<in> keys (ql_cids s). \<exists>c \<in> set (ql_conns s). cid_key (qc_scid c) = key \<and>
      (qc_open c \<or> qc_late c \<or> qc_kept c)) \<and>
    ql_gauge s = int (length (filter (\<lambda>c. qc_open c \<and> qc_metrics c) (ql_conns s))) \<and>
    ((\<forall>c \<in> set (ql_conns s). \<not> qc_open c \<and> \<not> qc_late c \<and> \<not> qc_kept c) \<longrightarrow> keys (ql_cids s) = {} \<and> ql_gauge s = 0)"
proof -
  from assms have "owned s \<and> gauge_exact s"
    by (induction rule: rtranclp_induct) (auto simp: owned_def gauge_exact_def h3_start_def dest: h3_step_inv)
  then show ?thesis by (auto simp: owned_def owner_def gauge_exact_def filter_empty_conv)
qed

text \<open>A connection that is closed before any request.\<close>

theorem h3_routes_have_owners_witness:
  "\<exists>s. h3_step\<^sup>*\<^sup>* (h3_start (Some Map.empty) None) s \<and> length (ql_conns s) = 1 \<and> keys (ql_cids s) = {} \<and> ql_gauge s = 0"
proof -
  let ?s0 = "h3_start (Some Map.empty) None"
  let ?s1 = "h3_accept ''abcdefgh'' ?s0 True"
  let ?s2 = "h3_close True True 0 ?s1"
  have "h3_step ?s0 ?s1" by (rule h3_step.accept) (simp add: h3_start_def)
  moreover have "h3_step ?s1 ?s2" by (rule h3_step.close) (simp_all add: h3_accept_def h3_start_def)
  ultimately have run: "h3_step\<^sup>*\<^sup>* ?s0 ?s2" by auto
  have "ql_conns ?s2 = [\<lparr>qc_scid = ''abcdefgh'', qc_metrics = True, qc_tasks = [], qc_open = False, qc_late = False, qc_kept = False\<rparr>]"
    by (simp add: h3_close_def h3_accept_def h3_start_def)
  with h3_routes_have_owners [OF run] run show ?thesis by (intro exI [of _ ?s2]) simp
qed

section \<open>The shape of what is registered\<close>

text \<open>
  The XDP program reads keys of eight bytes and values with two hardware addresses of six; the
  arrays of the source are lists here, so that their lengths are a property.
\<close>

definition route_typed :: "bytes \<Rightarrow> quic_route \<Rightarrow> bool" where
  "route_typed key route \<longleftrightarrow> length key = 8 \<and> length (qr_dst_mac route) = 6 \<and> length (qr_src_mac route) = 6"

definition cids_typed :: "cid_map option \<Rightarrow> bool" where
  "cids_typed cids \<longleftrightarrow> (\<forall>m key route. cids = Some m \<longrightarrow> m key = Some route \<longrightarrow> route_typed key route)"

lemma parse_octets_length: "parse_octets ps = Some m \<Longrightarrow> length m = length ps"
  by (induction ps arbitrary: m) (auto split: option.splits)

lemma parse_mac_length: "parse_mac_address text = Some m \<Longrightarrow> length m = 6"
  by (auto simp: parse_mac_address_def Let_def dest: parse_octets_length split: if_splits)

lemma arp_lookup_length: "arp_lookup ip ls = Some m \<Longrightarrow> length m = 6"
  by (induction ip ls rule: arp_lookup.induct) (auto simp: Let_def dest: parse_mac_length split: if_splits option.splits)

lemma get_arp_mac_length: "get_arp_mac read_file ip = Some m \<Longrightarrow> length m = 6"
  by (auto simp: get_arp_mac_def parse_arp_table_def bind_eq_Some_conv dest: arp_lookup_length split: if_splits)

lemma get_interface_mac_length: "get_interface_mac read_file iface = Some m \<Longrightarrow> length m = 6"
  by (auto simp: get_interface_mac_def bind_eq_Some_conv dest: parse_mac_length split: if_splits)

lemma cid_key_length: "length (cid_key cid) = 8"
  by (simp add: cid_key_def Let_def)

lemma register_upstream_typed:
  assumes "cids_typed cids" "\<forall>m. hv_local_mac env = Some m \<longrightarrow> length m = 6"
  shows "cids_typed (register_upstream env addr cids)"
  using assms
  by (auto simp: cids_typed_def register_upstream_def register_quic_route_def route_typed_def cid_key_length
      dest: get_arp_mac_length split: option.splits socket_addr.splits if_splits)

lemma deregister_typed: "cids_typed cids \<Longrightarrow> cids_typed (snd (deregister_quic_route map_ok removed cid cids))"
  by (auto simp: cids_typed_def deregister_quic_route_def split: option.splits if_splits)

lemma handle_h3_request_typed:
  assumes "cids_typed (hx_cids st)" "\<forall>m. hv_local_mac env = Some m \<longrightarrow> length m = 6"
  shows "cids_typed (hx_cids (snd (handle_h3_request env req st)))"
  using handle_h3_request_cids [of env st req] register_upstream_typed [OF assms] assms(1)
  by (auto simp: registers_once_def)

definition listener_typed :: "h3_listener \<Rightarrow> bool" where
  "listener_typed s \<longleftrightarrow> cids_typed (ql_cids s) \<and> (\<forall>m. ql_local_mac s = Some m \<longrightarrow> length m = 6)"

lemma h3_step_typed: "h3_step s s' \<Longrightarrow> listener_typed s \<Longrightarrow> listener_typed s'"
  by (induction rule: h3_step.induct)
     (auto simp: listener_typed_def h3_accept_def h3_headers_def h3_serve_def h3_close_def Let_def
       intro: handle_h3_request_typed deregister_typed)

text \<open>
  The lists have the lengths of the arrays. From the start of an HTTP/3 listener, with
  the hardware address read from \<^verbatim>\<open>/sys\<close> whatever that file holds, through every interleaving of
  connections, requests and closes, and whatever \<^verbatim>\<open>/proc/net/arp\<close> holds, every key of the map is eight
  bytes long (connection ids of any length are cut or padded), and both hardware addresses of every
  route are six bytes long.
\<close>

lemma registered_routes_are_well_typed:
  assumes "h3_step\<^sup>*\<^sup>* (h3_start (Some Map.empty) (get_interface_mac read_file iface)) s"
    and "ql_cids s = Some m" "m key = Some route"
  shows "length key = 8 \<and> length (qr_dst_mac route) = 6 \<and> length (qr_src_mac route) = 6"
proof -
  have "listener_typed (h3_start (Some Map.empty) (get_interface_mac read_file iface))"
    by (simp add: listener_typed_def h3_start_def cids_typed_def get_interface_mac_length)
  with assms(1) have "listener_typed s" by (induction rule: rtranclp_induct) (auto dest: h3_step_typed)
  with assms(2,3) show ?thesis by (simp add: listener_typed_def cids_typed_def route_typed_def)
qed

section \<open>A late request\<close>

definition remote_upstream :: upstream_state where
  "remote_upstream = sample_upstream_state\<lparr>st_config := default_upstream\<lparr>us_url := ''http://10.0.0.5:80''\<rparr>\<rparr>"

definition remote_pool :: upstream_pool where
  "remote_pool = sample_up_pool\<lparr>pl_upstreams := [remote_upstream]\<rparr>"

definition remote_state :: h3_state where
  "remote_state = sample_h3_state\<lparr>hx_snapshot := set_pool ''web'' remote_pool sample_snapshot\<rparr>"

definition remote_env :: h3_env where
  "remote_env = sample_h3_env\<lparr>hv_read_file := (\<lambda>_. Some (arp_text ''IP address'' [sample_entry]))\<rparr>"

lemma remote_arp: "get_arp_mac (hv_read_file remote_env) (V4 10 0 0 5) \<noteq> None"
  using arp_table_lookup [of "''IP address''" "[sample_entry]" 10 0 0 5] sample_entry_ok
  by (simp add: get_arp_mac_def remote_env_def sample_entry_def)

lemma remote_resolves: "h3_resolve env ''10.0.0.5'' 80 = Some (SockV4 (V4 10 0 0 5) 80)"
proof -
  have "parse_v4 ''10.0.0.5'' = Some (V4 10 0 0 5)" by code_simp
  then show ?thesis by (simp add: h3_resolve_def)
qed

lemma remote_registers:
  "cid_key cid \<in> keys (hx_cids (snd (handle_h3_request (remote_env\<lparr>hv_scid := cid, hv_local_mac := Some mac\<rparr>) sample_h3_request
     (remote_state\<lparr>hx_cids := Some m\<rparr>))))"
proof -
  let ?env = "remote_env\<lparr>hv_scid := cid, hv_local_mac := Some mac\<rparr>" and ?st = "remote_state\<lparr>hx_cids := Some m\<rparr>"
  have fields: "h3_fields (hh_headers sample_h3_request) None None ''GET'' = (None, None, ''GET'')"
    "\<not> h3_has_body sample_h3_request"
    by (simp_all add: sample_h3_request_def h3_has_body_def h3_header_value_def)
  have lib: "hv_lib ?env = sample_lib" "hx_snapshot ?st = set_pool ''web'' remote_pool sample_snapshot"
    by (simp_all add: remote_env_def sample_h3_env_def remote_state_def)
  have "match_route sample_lib (sn_routes (set_pool ''web'' remote_pool sample_snapshot)) None ''/'' = Some sample_route"
    by (simp add: match_route_def sample_snapshot_def set_pool_def)
  moreover have "cr_limiter sample_route = None" by (simp add: sample_route_def)
  moreover have "\<exists>sn. route_select (set_pool ''web'' remote_pool sample_snapshot) sample_route =
      (Ok (Some ((''web'', 0), remote_upstream)), sn)"
    by (simp add: route_select_def snap_pool_def set_pool_def sample_snapshot_def sample_route_def select_def remote_pool_def sample_up_pool_def)
  moreover have "map_option uri_authority (lib_parse_uri sample_lib (us_url (st_config remote_upstream))) =
      Some (Some (sample_authority ''10.0.0.5:80''))" by code_simp
  moreover have "auth_host (sample_authority ''10.0.0.5:80'') = ''10.0.0.5''" "auth_port (sample_authority ''10.0.0.5:80'') = Some 80"
    by code_simp+
  ultimately have "hx_cids (snd (handle_h3_request ?env sample_h3_request ?st)) =
      register_upstream ?env (h3_resolve ?env ''10.0.0.5'' 80) (Some m)"
    by (auto simp: handle_h3_request_def fields lib h3_routed_def h3_upstream_def h3_register_def snap_acquire_def Let_def
        split: option.split)
  moreover have "h3_resolve ?env ''10.0.0.5'' 80 = Some (SockV4 (V4 10 0 0 5) 80)"
    by (rule remote_resolves)
  moreover obtain dst where "get_arp_mac (hv_read_file remote_env) (V4 10 0 0 5) = Some dst" using remote_arp by auto
  moreover have "hv_map_ok remote_env" by (simp add: remote_env_def sample_h3_env_def)
  ultimately show ?thesis by (simp add: register_upstream_def register_quic_route_def)
qed

text \<open>
  A request can outlive its connection and leave its route behind: there is a run in which the
  connection is closed (which removes its route) before the task of its request registers the
  route. Afterwards nothing is open, no task is left and the listener has stopped, but the map still
  sends packets with that connection id to the upstream, and no step can remove the entry.
\<close>

theorem late_request_leaks_route:
  "\<exists>s. h3_step\<^sup>*\<^sup>* (h3_start (Some Map.empty) (Some [2, 0, 0, 0, 0, 1])) s \<and> keys (ql_cids s) \<noteq> {} \<and> \<not> ql_running s \<and>
     (\<forall>c \<in> set (ql_conns s). \<not> qc_open c \<and> qc_tasks c = []) \<and> (\<nexists>s'. h3_step s s')"
proof -
  let ?s0 = "h3_start (Some Map.empty) (Some [2, 0, 0, 0, 0, 1])"
  let ?s1 = "h3_accept ''abcdefgh'' ?s0 True"
  let ?s2 = "h3_headers 0 sample_h3_request ?s1"
  let ?s3 = "h3_close True True 0 ?s2"
  let ?s4 = "h3_serve remote_env remote_state 0 0 ?s3"
  let ?s5 = "?s4\<lparr>ql_running := False\<rparr>"
  note defs = h3_start_def h3_accept_def h3_headers_def h3_close_def Let_def
  have s3: "ql_conns ?s3 = [\<lparr>qc_scid = ''abcdefgh'', qc_metrics = True, qc_tasks = [sample_h3_request], qc_open = False, qc_late = False, qc_kept = False\<rparr>]"
    "ql_running ?s3" "ql_local_mac ?s3 = Some [2, 0, 0, 0, 0, 1]" by (simp_all add: defs)
  obtain m where m: "ql_cids ?s3 = Some m" by (simp add: defs deregister_quic_route_def)
  have "h3_step ?s0 ?s1" by (rule h3_step.accept) (simp add: defs)
  moreover have "h3_step ?s1 ?s2" by (rule h3_step.headers) (simp_all add: defs)
  moreover have "h3_step ?s2 ?s3" by (rule h3_step.close) (simp_all add: defs)
  moreover have "h3_step ?s3 ?s4" by (rule h3_step.serve) (simp_all add: s3)
  moreover have "h3_step ?s4 ?s5" by (rule h3_step.shutdown) (simp add: h3_serve_def Let_def s3)
  ultimately have run: "h3_step\<^sup>*\<^sup>* ?s0 ?s5" by (meson converse_rtranclp_into_rtranclp rtranclp.rtrancl_refl)
  have "cid_key ''abcdefgh'' \<in> keys (ql_cids ?s4)"
    using remote_registers [of "''abcdefgh''" "[2, 0, 0, 0, 0, 1]" m] by (simp add: h3_serve_def Let_def s3 m)
  moreover have "ql_conns ?s5 = [\<lparr>qc_scid = ''abcdefgh'', qc_metrics = True, qc_tasks = [], qc_open = False, qc_late = True, qc_kept = False\<rparr>]"
    by (simp add: h3_serve_def Let_def s3)
  moreover from this have "\<nexists>s'. h3_step ?s5 s'" by (auto elim!: h3_stepE)
  ultimately show ?thesis using run by (intro exI [of _ ?s5]) auto
qed

end
