(* ===== verification/Process.thy ===== *)
theory Process
  imports Control
begin

text \<open>
  The process around the supervisor: the command line of \<^verbatim>\<open>src/src/main.rs\<close>, the installation of
  the subscriber and the metrics recorder (\<^verbatim>\<open>src/src/telemetry/mod.rs\<close>) and the ACME state (\<^verbatim>\<open>src/src/acme/mod.rs\<close>).
  What is written to standard output is a string, the serialisation to TOML is a parameter.
\<close>

section \<open>Definitions\<close>

record acme_state =
  as_enabled :: bool
  as_storage_dir :: string
  as_directory_url :: string
  as_http_01_ready :: bool
  as_tls_alpn_01_ready :: bool

definition acme_from_config :: "acme_config \<Rightarrow> acme_state" where
  "acme_from_config config =
     \<lparr>as_enabled = ac_enabled config, as_storage_dir = ac_storage_dir config,
      as_directory_url = ac_directory_url config, as_http_01_ready = ac_enabled config,
      as_tls_alpn_01_ready = ac_enabled config\<rparr>"

text \<open>The recorder is installed once; \<open>recorder\<close> is what the exporter's builder returns.\<close>

definition install_prometheus :: "'h option \<Rightarrow> 'h option \<Rightarrow> ('h, unit) outcome \<times> 'h option" where
  "install_prometheus recorder installed_handle =
     (case installed_handle of
        Some handle \<Rightarrow> (Ok handle, installed_handle)
      | None \<Rightarrow>
          (case recorder of
             None \<Rightarrow> (Err (), None)
           | Some handle \<Rightarrow> (Ok handle, Some handle)))"

definition prometheus_handle :: "'h option \<Rightarrow> 'h option" where
  "prometheus_handle installed_handle = installed_handle"

text \<open>
  \<^verbatim>\<open>init_tracing\<close>: \<open>env_filter\<close> is the filter of the environment, if it has a valid one; only the first
  call of a process sets the global subscriber.
\<close>

record subscriber =
  tr_filter :: string
  tr_json :: bool

definition init_tracing :: "string option \<Rightarrow> bool \<Rightarrow> subscriber option \<Rightarrow> subscriber option" where
  "init_tracing env_filter json global_subscriber =
     (let filter = (case env_filter of Some f \<Rightarrow> f | None \<Rightarrow> ''info'') in
      case global_subscriber of
        Some s \<Rightarrow> Some s
      | None \<Rightarrow> Some \<lparr>tr_filter = filter, tr_json = json\<rparr>)"

datatype cli_command = Serve string | Check string | PrintEffectiveConfig string | PrintL4Plan string

definition default_config_path :: string where
  "default_config_path = ''/etc/yxorp/yxorp.toml''"

datatype cli_error = LoadFailed config_error | StartFailed start_error | SerializeFailed | SignalError

text \<open>\<open>None\<close>: still running. Only a failing signal handler makes \<^verbatim>\<open>Supervisor::run\<close> return an error.\<close>

fun run_result ::
  "'s control_env \<Rightarrow> string \<Rightarrow> control_event list \<Rightarrow> 's supervisor \<Rightarrow> (unit, cli_error) outcome option" where
  "run_result env path [] st = (if sp_running st then None else Some (Ok ()))"
| "run_result env path (e # es) st =
     (if \<not> sp_running st then Some (Ok ())
      else case e of
             SignalFailed \<Rightarrow> Some (Err SignalError)
           | _ \<Rightarrow> run_result env path es (snd (run_event env path e st)))"

text \<open>
  The outcome with the text on standard output, the tracing format that was set up, the state of the
  supervisor and the kernel's table.
\<close>

record 's process =
  pr_result :: "(unit, cli_error) outcome option"
  pr_stdout :: string
  pr_json :: "bool option"
  pr_supervisor :: "'s supervisor option"
  pr_table :: 's

definition exited :: "(unit, cli_error) outcome \<Rightarrow> string \<Rightarrow> bool option \<Rightarrow> 's \<Rightarrow> 's process" where
  "exited r out json t = \<lparr>pr_result = Some r, pr_stdout = out, pr_json = json, pr_supervisor = None, pr_table = t\<rparr>"

definition run_command ::
  "'s control_env \<Rightarrow> (proxy_config \<Rightarrow> string option) \<Rightarrow> control_event list \<Rightarrow> cli_command \<Rightarrow> string \<Rightarrow>
   config_snapshot \<Rightarrow> usize \<Rightarrow> 's \<Rightarrow> 's process" where
  "run_command env to_toml events command path sn next_id t =
     (let json = Some (te_json_tracing (pc_telemetry (sn_config sn))) in
      case command of
        Serve _ \<Rightarrow>
          (case supervisor_start env sn next_id t of
             (Ok st, t') \<Rightarrow>
               (let st' = run_events env path events st in
                \<lparr>pr_result = run_result env path events st, pr_stdout = [], pr_json = json,
                 pr_supervisor = Some st', pr_table = sp_table st'\<rparr>)
           | (Err e, t') \<Rightarrow> exited (Err (StartFailed e)) [] json t'
           | (Panic p, t') \<Rightarrow> exited (Panic p) [] json t')
      | Check _ \<Rightarrow> exited (Ok ()) (''ok'' @ [CHR 0x0A]) json t
      | PrintEffectiveConfig _ \<Rightarrow>
          (case to_toml (sn_config sn) of
             Some text \<Rightarrow> exited (Ok ()) (text @ [CHR 0x0A]) json t
           | None \<Rightarrow> exited (Err SerializeFailed) [] json t)
      | PrintL4Plan _ \<Rightarrow> exited (Ok ()) (render_config_plan (sn_config sn)) json t)"

fun config_path :: "cli_command \<Rightarrow> string" where
  "config_path (Serve path) = path"
| "config_path (Check path) = path"
| "config_path (PrintEffectiveConfig path) = path"
| "config_path (PrintL4Plan path) = path"

definition main ::
  "'s control_env \<Rightarrow> (proxy_config \<Rightarrow> string option) \<Rightarrow> (string \<Rightarrow> string + string) \<Rightarrow> control_event list \<Rightarrow>
   cli_command \<Rightarrow> 's \<Rightarrow> 's process" where
  "main env to_toml files events command t =
     (let path = config_path command in
      case snapshot_load (ce_lib env) (ce_from_str env) 0 path (files path) of
        Ok (sn, next_id) \<Rightarrow> run_command env to_toml events command path sn next_id t
      | Err e \<Rightarrow> exited (Err (LoadFailed e)) [] None t
      | Panic p \<Rightarrow> exited (Panic p) [] None t)"

section \<open>Global state of the process\<close>

text \<open>Both are set once: a later call changes nothing and, for the recorder, gives the same handle.\<close>

lemma init_tracing_once:
  "init_tracing f json None = Some s \<Longrightarrow> init_tracing f' json' (Some s) = Some s \<and> tr_json s = json"
  by (auto simp: init_tracing_def Let_def)

lemma install_prometheus_once:
  "install_prometheus r h = (Ok x, h') \<Longrightarrow> install_prometheus r' h' = (Ok x, h') \<and> prometheus_handle h' = Some x"
  by (auto simp: install_prometheus_def prometheus_handle_def split: option.splits)

section \<open>Properties\<close>

text \<open>A runner that also records the argument vectors it was given.\<close>

definition recording ::
  "(string list \<Rightarrow> 's \<Rightarrow> run_result \<times> 's) \<Rightarrow> string list \<Rightarrow> string list list \<times> 's \<Rightarrow> run_result \<times> string list list \<times> 's" where
  "recording run args ls = (let (r, s') = run args (snd ls) in (r, fst ls @ [args], s'))"

lemma recording_apply: "run args s = (r, s1) \<Longrightarrow> recording run args (l, s) = (r, l @ [args], s1)"
  by (simp add: recording_def)

lemma recording_run_all:
  "run_all (recording run) cs (l, s) = (Inr (), (l', s')) \<Longrightarrow> l' = l @ map ic_args cs"
proof (induction cs arbitrary: l s)
  case (Cons c cs)
  obtain r s1 where r: "run (ic_args c) s = (r, s1)" by force
  with Cons.prems recording_apply [of run "ic_args c" s r s1 l] have "run_all (recording run) cs (l @ [ic_args c], s1) = (Inr (), (l', s'))"
    by (auto simp: run_ipvsadm_def split: run_result.splits if_splits)
  from Cons.IH [OF this] show ?case by simp
qed simp

text \<open>Recording does not change what happens.\<close>

lemma recording_same:
  "\<exists>l'. run_all (recording run) cs (l, s) = (fst (run_all run cs s), (l', snd (run_all run cs s)))"
proof (induction cs arbitrary: l s)
  case (Cons c cs)
  obtain r s1 where r: "run (ic_args c) s = (r, s1)" by force
  with recording_apply [of run "ic_args c" s r s1 l] Cons.IH [of "l @ [ic_args c]" s1] show ?case
    by (auto simp: run_ipvsadm_def split: run_result.split)
qed simp

lemma recording_preflight:
  assumes "run_preflight (recording run) config (l, s) = (Inr (), (l', s'))" "pc_l4_services config \<noteq> []"
  shows "l' = l @ [[''--version''], [''-Ln'']]"
proof -
  obtain r s1 where r: "run [''--version''] s = (r, s1)" by force
  obtain q s2 where q: "run [''-Ln''] s1 = (q, s2)" by force
  from assms r q recording_apply [of run "[''--version'']" s r s1 l] recording_apply [of run "[''-Ln'']" s1 q s2] show ?thesis
    by (auto simp: run_preflight_def preflight_def split: if_splits)
qed

text \<open>
  C23. The plan that \<^verbatim>\<open>print-l4-plan\<close> prints is the plan that \<^verbatim>\<open>serve\<close> runs: for the same
  configuration file with layer-4 services, when \<^verbatim>\<open>serve\<close> comes up it has run the two queries of the
  preflight and then exactly the argument vectors that the printed text reads back to, in that order.
\<close>

theorem printed_plan_is_executed:
  assumes "ce_run env = recording run" "plan = main env to_toml files [] (PrintL4Plan path) t"
    "served = main env to_toml files [] (Serve path) ([], t0)" "pr_supervisor served = Some st"
    "pc_l4_services (sn_config (sp_snapshot st)) \<noteq> []"
  shows "pr_result plan = Some (Ok ()) \<and>
    fst (pr_table served) = [''--version''] # [''-Ln''] # map tl (map shell_words (shell_lines (pr_stdout plan))) \<and>
    (\<forall>ws \<in> set (map shell_words (shell_lines (pr_stdout plan))). hd ws = IPVSADM)"
proof -
  from assms(3,4) obtain sn j where sn: "snapshot_load (ce_lib env) (ce_from_str env) 0 path (files path) = Ok (sn, j)"
    by (auto simp: main_def exited_def split: outcome.splits)
  with assms(3,4) obtain t' where start: "supervisor_start env sn j ([], t0) = (Ok st, t')" "pr_table served = sp_table st"
    by (auto simp: main_def run_command_def exited_def Let_def split: prod.splits outcome.splits)
  let ?svcs = "pc_l4_services (sn_config sn)"
  from start(1) obtain t1 t2 where run: "run_preflight (recording run) (sn_config sn) ([], t0) = (Inr (), t1)"
    "run_all (recording run) (reconcile [] ?svcs) t1 = (Inr (), t2)" "sp_table st = t2" "sp_snapshot st = sn"
    by (auto simp: supervisor_start_def apply_plan_def assms(1) split: prod.splits sum.splits if_splits)
  obtain l1 s1 l2 s2 where t: "t1 = (l1, s1)" "t2 = (l2, s2)" by force
  have "l1 = [[''--version''], [''-Ln'']]"
    using recording_preflight run(1) t(1) assms(5) run(4) by fastforce
  moreover have "l2 = l1 @ map ic_args (reconcile [] ?svcs)" using recording_run_all run(2) t by fastforce
  moreover have "pr_stdout plan = render_plan [] ?svcs" "pr_result plan = Some (Ok ())"
    using sn by (simp_all add: assms(2) main_def run_command_def exited_def render_config_plan_def Let_def)
  ultimately show ?thesis using start(2) run(3) t(2) by (simp add: plan_text_words comp_def)
qed

text \<open>
  C24. \<^verbatim>\<open>check\<close> tells what \<^verbatim>\<open>serve\<close> will do: on a file that parses, it succeeds exactly when the
  configuration is valid, and then \<^verbatim>\<open>serve\<close> comes up with this configuration or fails in starting
  the layer-4 services or the metrics recorder, never for the configuration and never by a panic.
\<close>

theorem check_predicts_serve:
  assumes "parser_ok env" "files path = Inr contents" "ce_from_str env contents = Inr c"
    "served = main env to_toml files events (Serve path) t"
  shows "(pr_result (main env to_toml files events (Check path) t) = Some (Ok ()) \<longleftrightarrow> validate (ce_lib env) c = Ok ()) \<and>
    (validate (ce_lib env) c = Ok () \<longrightarrow>
       (\<exists>sn next_id st t'. sn_config sn = c \<and> supervisor_start env sn next_id t = (Ok st, t') \<and>
          pr_supervisor served = Some (run_events env path events st)) \<or>
       (\<exists>e. pr_result served = Some (Err (StartFailed e))))"
proof -
  have fit: "authority_is_header (ce_lib env)" "pools_fit c" using assms(1,3) by (auto simp: parser_ok_def)
  have load: "\<exists>sn j. snapshot_load (ce_lib env) (ce_from_str env) 0 path (files path) = Ok (sn, j) \<and> sn_config sn = c"
    if v: "validate (ce_lib env) c = Ok ()"
  proof -
    from v fit(2) have "config_ok (ce_lib env) c" using validate_Ok by blast
    from route_table_new_total [OF fit(1) this, of 0] obtain tb j where "route_table_new (ce_lib env) 0 c = Ok (tb, j)" by blast
    with v assms(2,3) show ?thesis by (simp add: snapshot_load_def snapshot_parse_def)
  qed
  have invalid: "validate (ce_lib env) c = Ok ()"
    if "snapshot_load (ce_lib env) (ce_from_str env) 0 path (files path) = Ok (sn, j)" for sn j
    using that assms(2,3) by (auto simp: snapshot_load_def snapshot_parse_def outcome_simps split: outcome.splits)
  have "pr_result (main env to_toml files events (Check path) t) = Some (Ok ()) \<longleftrightarrow> validate (ce_lib env) c = Ok ()"
    using load invalid by (fastforce simp: main_def run_command_def exited_def Let_def split: outcome.splits prod.splits)
  moreover have "(\<exists>sn next_id st t'. sn_config sn = c \<and> supervisor_start env sn next_id t = (Ok st, t') \<and>
        pr_supervisor served = Some (run_events env path events st)) \<or>
      (\<exists>e. pr_result served = Some (Err (StartFailed e)))" if "validate (ce_lib env) c = Ok ()"
  proof -
    from load [OF that] obtain sn j where sn: "snapshot_load (ce_lib env) (ce_from_str env) 0 path (files path) = Ok (sn, j)"
      "sn_config sn = c" by blast
    obtain r t' where r: "supervisor_start env sn j t = (r, t')" by force
    moreover from r have "r \<noteq> Panic p" for p
      by (auto simp: supervisor_start_def split: prod.splits sum.splits if_splits)
    ultimately show ?thesis using sn
      by (cases r) (auto simp: assms(4) main_def run_command_def exited_def Let_def)
  qed
  ultimately show ?thesis by blast
qed

section \<open>A concrete process\<close>

definition plan_env :: "(string list list \<times> ipvs_view) control_env" where
  "plan_env = \<lparr>ce_lib = sample_lib, ce_from_str = (\<lambda>_. Inr second_config), ce_addr = unat,
     ce_run = recording sample_run, ce_recorder_ok = True\<rparr>"

lemma plan_env_parser_ok: "parser_ok plan_env"
  using sample_authority_is_header sample_fit by (simp add: parser_ok_def plan_env_def)

lemma plan_env_starts:
  assumes "sn_config sn = second_config"
  shows "\<exists>st t'. supervisor_start plan_env sn j ([], Map.empty) = (Ok st, t') \<and> sp_snapshot st = sn"
proof -
  obtain q t where t: "apply_plan sample_run [] [sample_service] Map.empty = (q, t)" by force
  have "q = Inr ()"
    using installed_replaced [OF sample_run_laws(1) _ _ _ t] sample_service_ready by simp
  with t recording_same [of sample_run "reconcile [] [sample_service]" "[[''--version''], [''-Ln'']]" Map.empty]
  obtain l' where run: "apply_plan (recording sample_run) [] [sample_service] ([[''--version''], [''-Ln'']], Map.empty) =
      (Inr (), (l', t))" by (auto simp: apply_plan_def)
  have "run_preflight (recording sample_run) second_config ([], Map.empty) =
      (Inr (), ([[''--version''], [''-Ln'']], Map.empty))"
    by (simp add: run_preflight_def recording_def sample_run_def preflight_def sample_services)
  with run assms show ?thesis
    by (auto simp: supervisor_start_def plan_env_def sample_services split: prod.split)
qed

lemma plan_serves:
  assumes "files = (\<lambda>_. Inr ''2'')"
  shows "\<exists>st. pr_supervisor (main plan_env to_toml files [] (Serve ''f'') ([], Map.empty)) = Some st \<and>
      sn_config (sp_snapshot st) = second_config"
    "pr_stdout (main plan_env to_toml files [] (PrintL4Plan ''f'') t) = render_plan [] [sample_service]"
proof -
  have fit: "config_ok sample_lib second_config" using second_config_validates sample_fit validate_Ok by blast
  from route_table_new_total [OF sample_authority_is_header this, of 0] obtain tb j where
    "route_table_new sample_lib 0 second_config = Ok (tb, j)" by blast
  then have load: "snapshot_load (ce_lib plan_env) (ce_from_str plan_env) 0 ''f'' (files ''f'') =
      Ok (\<lparr>sn_config = second_config, sn_routes = tb\<rparr>, j)"
    using second_config_validates assms by (simp add: snapshot_load_def snapshot_parse_def plan_env_def)
  with plan_env_starts [of "\<lparr>sn_config = second_config, sn_routes = tb\<rparr>" j]
  show "\<exists>st. pr_supervisor (main plan_env to_toml files [] (Serve ''f'') ([], Map.empty)) = Some st \<and>
      sn_config (sp_snapshot st) = second_config"
    by (auto simp: main_def run_command_def Let_def)
  from load show "pr_stdout (main plan_env to_toml files [] (PrintL4Plan ''f'') t) = render_plan [] [sample_service]"
    by (simp add: main_def run_command_def exited_def render_config_plan_def sample_services)
qed

theorem printed_plan_is_executed_witness:
  "\<exists>words. words \<noteq> [] \<and>
     words = map shell_words (shell_lines (pr_stdout (main plan_env (\<lambda>_. None) (\<lambda>_. Inr ''2'') [] (PrintL4Plan ''f'') ([], Map.empty)))) \<and>
     fst (pr_table (main plan_env (\<lambda>_. None) (\<lambda>_. Inr ''2'') [] (Serve ''f'') ([], Map.empty))) =
       [''--version''] # [''-Ln''] # map tl words"
proof -
  let ?plan = "main plan_env (\<lambda>_. None) (\<lambda>_. Inr ''2'') [] (PrintL4Plan ''f'') ([], Map.empty)"
  obtain st where st: "pr_supervisor (main plan_env (\<lambda>_. None) (\<lambda>_. Inr ''2'') [] (Serve ''f'') ([], Map.empty)) = Some st"
    "sn_config (sp_snapshot st) = second_config" using plan_serves(1) [OF refl] by blast
  have run: "ce_run plan_env = recording sample_run" by (simp add: plan_env_def)
  have svcs: "pc_l4_services (sn_config (sp_snapshot st)) \<noteq> []" by (simp add: st(2) sample_services)
  from printed_plan_is_executed [OF run refl refl st(1) svcs, of "([], Map.empty)"] have table:
    "fst (pr_table (main plan_env (\<lambda>_. None) (\<lambda>_. Inr ''2'') [] (Serve ''f'') ([], Map.empty))) =
       [''--version''] # [''-Ln''] # map tl (map shell_words (shell_lines (pr_stdout ?plan)))" by simp
  moreover have "map shell_words (shell_lines (pr_stdout ?plan)) \<noteq> []"
    by (simp add: plan_serves(2) plan_text_words reconcile_def add_commands_def)
  ultimately show ?thesis by blast
qed

theorem check_predicts_serve_witness:
  "pr_result (main plan_env (\<lambda>_. None) (\<lambda>_. Inr ''2'') [] (Check ''f'') ([], Map.empty)) = Some (Ok ()) \<and>
   validate sample_lib second_config = Ok ()"
  using check_predicts_serve [OF plan_env_parser_ok, of "\<lambda>_. Inr ''2''" "''f''" "''2''" second_config, OF _ _ refl]
    second_config_validates by (simp add: plan_env_def)

end
