(* ===== verification/Engine_Phases.thy ===== *)
theory Engine_Phases
  imports Fast_Engine
begin

text \<open>
  The fast engine as a state machine. A task of \<^verbatim>\<open>serve_connection\<close> (\<^verbatim>\<open>src/src/proxy/h1_fast.rs\<close>) gives
  up control at its \<^verbatim>\<open>await\<close>s, and other tasks run in between. \<open>phase_step\<close> runs a task to the next
  point where state shared between tasks is touched: a request is built (an upstream is selected), a
  token is taken from the limiter, an upstream connection is taken from the pool, the bodies are
  copied (only the task's own sockets and buffers), the result is booked and the connection returned.
  Every task has a splice pipe of its own here; what happens when transfers of one thread share it is
  the subject of \<^verbatim>\<open>Splice_Pipe\<close>.
  Running the phases of one task with nothing in between is \<open>serve_connection\<close>.
\<close>

section \<open>The phases of a request\<close>

datatype phase =
    AwaitHead
  | BuildRequest nat
  | AcquireToken matched_request bytes nat
  | GetConnection matched_request bytes nat
  | SendRequest matched_request bytes nat upstream_conn
  | ForwardResponse matched_request upstream_conn
  | Conclude matched_request response_head upstream_conn
  | Ended "unit aresult"

text \<open>The loop around the request: go on with the next one or end the connection.\<close>

definition next_request :: "step \<times> conn \<Rightarrow> phase \<times> conn" where
  "next_request p =
     (case p of
        (Continue, st) \<Rightarrow> (AwaitHead, st\<lparr>cn_iter := Suc (cn_iter st)\<rparr>)
      | (Done r, st) \<Rightarrow> (Ended r, st))"

definition await_head :: "serve_env \<Rightarrow> conn \<Rightarrow> phase \<times> conn" where
  "await_head env st =
     (let (r, x) = read_header_block (se_lib env) (down_xfer st);
          st1 = st\<lparr>cn_down := xf_rx x, cn_down_buf := xf_buf x\<rparr>
      in case r of
           AStall \<Rightarrow> (Ended (AErr (Parse ''downstream header read timed out'')), st1)
         | AOk (Some header_end) \<Rightarrow> (BuildRequest header_end, st1)
         | AOk None \<Rightarrow> (Ended (AOk ()), st1)
         | AErr (Io UnexpectedEof) \<Rightarrow> (Ended (AOk ()), st1)
         | AErr e \<Rightarrow> (Ended (AErr e), st1)
         | APanic \<Rightarrow> (Ended APanic, st1))"

definition build_phase :: "serve_env \<Rightarrow> nat \<Rightarrow> conn \<Rightarrow> phase \<times> conn" where
  "build_phase env header_end st =
     (if length (cn_down_buf st) < header_end then (Ended APanic, st)
      else
        (let (res, sn) = build_request (se_lib env) (cn_snapshot st) (take header_end (cn_down_buf st));
             st1 = st\<lparr>cn_snapshot := sn\<rparr>
         in case res of
              Err e \<Rightarrow> (Ended (AErr e), st1)
            | Panic _ \<Rightarrow> (Ended APanic, st1)
            | Ok None \<Rightarrow>
                (case write_static_response 404 ''Not Found'' (''no matching route'' @ [CHR 0x0A]) st1 of
                   (AOk _, st2) \<Rightarrow> (Ended (AOk ()), count_metric ''no_route'' st2)
                 | (e, st2) \<Rightarrow> (Ended e, st2))
            | Ok (Some (request, outbound)) \<Rightarrow> (AcquireToken request outbound header_end, st1)))"

definition token_phase :: "serve_env \<Rightarrow> matched_request \<Rightarrow> bytes \<Rightarrow> nat \<Rightarrow> conn \<Rightarrow> phase \<times> conn" where
  "token_phase env request outbound header_end st =
     (let (admitted, st1) = admit env request st in
      if \<not> admitted then
        next_request (finish (write_static_response 429 ''Too Many Requests'' (''rate limit exceeded'' @ [CHR 0x0A])
          (emit_access_log request 429 (count_metric ''rate_limited'' st1))))
      else if su_protocol (mr_upstream request) = UpH3 then
        (case write_static_response 501 ''Not Implemented''
             (''HTTP/3 upstream driver is configured but not enabled in this baseline'' @ [CHR 0x0A]) st1 of
           (AOk _, st2) \<Rightarrow>
             (Ended (AOk ()), emit_access_log request 501 (count_metric ''h3_not_enabled'' st2))
         | (e, st2) \<Rightarrow> (Ended e, st2))
      else (GetConnection request outbound header_end, st1))"

definition connect_phase :: "serve_env \<Rightarrow> matched_request \<Rightarrow> bytes \<Rightarrow> nat \<Rightarrow> conn \<Rightarrow> phase \<times> conn" where
  "connect_phase env request outbound header_end st =
     (let (c, pool) = get_connection (se_peek env (cn_iter st)) (se_dial env (cn_iter st))
            (se_clock env (cn_iter st))
            (liveness_probe_idle (pc_runtime (sn_config (cn_snapshot st))))
            (su_id (mr_upstream request)) (su_authority (mr_upstream request)) (cn_pool st);
          st1 = st\<lparr>cn_pool := pool\<rparr>
      in case c of
           Ok up \<Rightarrow> (SendRequest request outbound header_end up, st1)
         | Err _ \<Rightarrow> next_request (finish (bad_gateway (upstream_failed request st1)))
         | Panic _ \<Rightarrow> (Ended APanic, st1))"

definition send_phase ::
  "serve_env \<Rightarrow> matched_request \<Rightarrow> bytes \<Rightarrow> nat \<Rightarrow> upstream_conn \<Rightarrow> conn \<Rightarrow> phase \<times> conn" where
  "send_phase env request outbound header_end up st =
     (case write_all outbound (uc_tx up) of
        (WErr, tx) \<Rightarrow>
          next_request (finish (bad_gateway (upstream_failed request (drop_upstream (up\<lparr>uc_tx := tx\<rparr>) st))))
      | (WStall, _) \<Rightarrow> (Ended AStall, st)
      | (WOk, tx) \<Rightarrow>
          (let st1 = st\<lparr>cn_down_buf := discard_buffer_prefix (cn_down_buf st) header_end\<rparr>;
               (r, x) = copy_body (se_lib env) (copy_env env st1) (rq_body (mr_head request))
                 (Some MAX_REQUEST_BODY_BYTES) (client_to_upstream st1 (up\<lparr>uc_tx := tx\<rparr>));
               st2 = after_request x st1;
               failed = next_request
                 (if rq_close_after_response (mr_head request) then Done (AOk ()) else Continue,
                  upstream_failed request (drop_upstream (up\<lparr>uc_tx := xf_tx x\<rparr>) st2))
           in case r of
                APanic \<Rightarrow> (Ended APanic, st2)
              | AOk _ \<Rightarrow>
                  if \<not> se_flush env (cn_iter st) then failed
                  else (ForwardResponse request (up\<lparr>uc_tx := xf_tx x\<rparr>), st2)
              | _ \<Rightarrow> failed))"

definition forward_phase :: "serve_env \<Rightarrow> matched_request \<Rightarrow> upstream_conn \<Rightarrow> conn \<Rightarrow> phase \<times> conn" where
  "forward_phase env request up st =
     (let (r, x) = read_and_forward_response (se_lib env) (copy_env env st)
            (rq_head_response (mr_head request)) (upstream_to_client st up);
          st1 = after_response x st
      in case r of
           APanic \<Rightarrow> (Ended APanic, st1)
         | AOk response \<Rightarrow> (Conclude request response (up\<lparr>uc_rx := xf_rx x\<rparr>), st1)
         | _ \<Rightarrow>
             (case bad_gateway (upstream_failed request (drop_upstream (up\<lparr>uc_rx := xf_rx x\<rparr>) st1)) of
                (AOk _, st2) \<Rightarrow>
                  next_request (if rq_close_after_response (mr_head request) then Done (AOk ()) else Continue, st2)
              | (e, st2) \<Rightarrow> (Ended e, st2)))"

text \<open>One step of a task on the shared state it sees in \<open>st\<close>.\<close>

definition phase_step :: "serve_env \<Rightarrow> phase \<Rightarrow> conn \<Rightarrow> phase \<times> conn" where
  "phase_step env ph st =
     (case ph of
        AwaitHead \<Rightarrow> await_head env st
      | BuildRequest k \<Rightarrow> build_phase env k st
      | AcquireToken request outbound k \<Rightarrow> token_phase env request outbound k st
      | GetConnection request outbound k \<Rightarrow> connect_phase env request outbound k st
      | SendRequest request outbound k up \<Rightarrow> send_phase env request outbound k up st
      | ForwardResponse request up \<Rightarrow> forward_phase env request up st
      | Conclude request response up \<Rightarrow> next_request (conclude env request response up st)
      | Ended r \<Rightarrow> (Ended r, st))"

section \<open>A task alone\<close>

text \<open>Each phase is the front of the engine's function for the rest of the request.\<close>

fun run_phases :: "nat \<Rightarrow> serve_env \<Rightarrow> phase \<times> conn \<Rightarrow> phase \<times> conn" where
  "run_phases 0 env p = p"
| "run_phases (Suc n) env (ph, st) = run_phases n env (phase_step env ph st)"

lemma run_phases_ended [simp]: "run_phases n env (Ended r, st) = (Ended r, st)"
  by (induction n) (simp_all add: phase_step_def)

lemma next_request_simps [simp]:
  "next_request (Continue, st) = (AwaitHead, st\<lparr>cn_iter := Suc (cn_iter st)\<rparr>)"
  "next_request (Done r, st) = (Ended r, st)" "next_request (finish p) = (Ended (fst p), snd p)"
  by (simp_all add: next_request_def finish_def)

text \<open>\<open>reaches n\<close>: at most \<open>n\<close> further steps lead there.\<close>

definition reaches :: "nat \<Rightarrow> serve_env \<Rightarrow> phase \<times> conn \<Rightarrow> phase \<times> conn \<Rightarrow> bool" where
  "reaches n env p q \<longleftrightarrow> (\<exists>m \<le> n. run_phases m env p = q)"

lemma reaches_refl: "reaches n env p p"
  unfolding reaches_def by (rule exI [of _ 0]) simp

lemma reaches_step: "reaches m env (phase_step env ph st) q \<Longrightarrow> Suc m = n \<Longrightarrow> reaches n env (ph, st) q"
  unfolding reaches_def by (metis Suc_le_mono run_phases.simps(2))

lemma run_phases_add: "run_phases (m + n) env p = run_phases n env (run_phases m env p)"
  by (induction m env p rule: run_phases.induct) simp_all

lemma reaches_trans: "reaches m env p q \<Longrightarrow> reaches n env q r \<Longrightarrow> reaches (m + n) env p r"
  unfolding reaches_def by (metis add_mono run_phases_add)

lemma reaches_mono: "reaches m env p q \<Longrightarrow> m \<le> n \<Longrightarrow> reaches n env p q"
  unfolding reaches_def using le_trans by blast

lemma reaches_ended:
  assumes "reaches n env p (Ended r, st)" "n \<le> k"
  shows "run_phases k env p = (Ended r, st)"
proof -
  from assms obtain m where "m \<le> k" "run_phases m env p = (Ended r, st)"
    unfolding reaches_def using le_trans by blast
  then show ?thesis using run_phases_add [of m "k - m" env p] by simp
qed

lemma conclude_reaches: "reaches (Suc 0) env (Conclude request response up, st) (next_request (conclude env request response up st))"
  by (rule reaches_step [where m = 0]) (simp_all add: phase_step_def reaches_refl)

lemma forward_reaches:
  "reaches 2 env (ForwardResponse request up, st) (next_request (serve_response env request up st))"
proof (rule reaches_step)
  obtain r x where r: "read_and_forward_response (se_lib env) (copy_env env st)
      (rq_head_response (mr_head request)) (upstream_to_client st up) = (r, x)" by force
  obtain g st2 where g: "bad_gateway (upstream_failed request
      (drop_upstream (up\<lparr>uc_rx := xf_rx x\<rparr>) (after_response x st))) = (g, st2)" by force
  show "reaches 1 env (phase_step env (ForwardResponse request up) st) (next_request (serve_response env request up st))"
    unfolding phase_step_def phase.case forward_phase_def serve_response_def r prod.case Let_def
    by (cases r; cases g) (simp_all add: conclude_reaches reaches_refl g)
qed simp

lemma send_reaches:
  "reaches 3 env (SendRequest request outbound k up, st) (next_request (serve_upstream env request outbound k up st))"
proof (rule reaches_step)
  obtain w tx where w: "write_all outbound (uc_tx up) = (w, tx)" by force
  define st1 where "st1 = st\<lparr>cn_down_buf := discard_buffer_prefix (cn_down_buf st) k\<rparr>"
  obtain r x where x: "copy_body (se_lib env) (copy_env env st1) (rq_body (mr_head request))
      (Some MAX_REQUEST_BODY_BYTES) (client_to_upstream st1 (up\<lparr>uc_tx := tx\<rparr>)) = (r, x)" by force
  show "reaches 2 env (phase_step env (SendRequest request outbound k up) st)
      (next_request (serve_upstream env request outbound k up st))"
    unfolding phase_step_def phase.case send_phase_def serve_upstream_def w prod.case Let_def st1_def [symmetric] x
    by (cases w; cases r) (simp_all add: forward_reaches reaches_refl)
qed simp

lemma connect_reaches:
  assumes "admit env request st0 = (True, st)" "su_protocol (mr_upstream request) \<noteq> UpH3"
  shows "reaches 4 env (GetConnection request outbound k, st) (next_request (serve_matched env request outbound k st0))"
proof (rule reaches_step)
  obtain c pool where c: "get_connection (se_peek env (cn_iter st)) (se_dial env (cn_iter st))
      (se_clock env (cn_iter st)) (liveness_probe_idle (pc_runtime (sn_config (cn_snapshot st))))
      (su_id (mr_upstream request)) (su_authority (mr_upstream request)) (cn_pool st) = (c, pool)" by force
  show "reaches 3 env (phase_step env (GetConnection request outbound k) st)
      (next_request (serve_matched env request outbound k st0))"
    unfolding phase_step_def phase.case connect_phase_def serve_matched_def assms(1) prod.case Let_def c
    using assms(2) by (cases c) (simp_all add: send_reaches reaches_refl)
qed simp

lemma token_reaches:
  "reaches 5 env (AcquireToken request outbound k, st) (next_request (serve_matched env request outbound k st))"
proof (rule reaches_step)
  obtain a st1 where a: "admit env request st = (a, st1)" by force
  obtain g st2 where g: "write_static_response 501 ''Not Implemented''
      (''HTTP/3 upstream driver is configured but not enabled in this baseline'' @ [CHR 0x0A]) st1 = (g, st2)"
    by force
  show "reaches 4 env (phase_step env (AcquireToken request outbound k) st)
      (next_request (serve_matched env request outbound k st))"
  proof (cases "a \<and> su_protocol (mr_upstream request) \<noteq> UpH3")
    case True
    then have "phase_step env (AcquireToken request outbound k) st = (GetConnection request outbound k, st1)"
      using a by (simp add: phase_step_def token_phase_def)
    with connect_reaches [of env request st st1 outbound k] a True show ?thesis by simp
  next
    case False
    have "phase_step env (AcquireToken request outbound k) st = next_request (serve_matched env request outbound k st)"
      unfolding phase_step_def phase.case token_phase_def serve_matched_def a prod.case Let_def g
      using False by (cases g) (simp_all split: if_split)
    then show ?thesis by (simp add: reaches_refl)
  qed
qed simp

lemma build_reaches: "reaches 6 env (BuildRequest k, st) (next_request (serve_head env k st))"
proof (rule reaches_step)
  obtain res sn where b: "build_request (se_lib env) (cn_snapshot st) (take k (cn_down_buf st)) = (res, sn)" by force
  obtain g st2 where g: "write_static_response 404 ''Not Found'' (''no matching route'' @ [CHR 0x0A])
      (st\<lparr>cn_snapshot := sn\<rparr>) = (g, st2)" by force
  show "reaches 5 env (phase_step env (BuildRequest k) st) (next_request (serve_head env k st))"
    unfolding phase_step_def phase.case build_phase_def serve_head_def b prod.case Let_def g
    by (cases g; cases res) (auto simp: reaches_refl token_reaches split: option.split)
qed simp

lemma request_reaches: "reaches 7 env (AwaitHead, st) (next_request (serve_one env st))"
proof (rule reaches_step)
  obtain r x where r: "read_header_block (se_lib env) (down_xfer st) = (r, x)" by force
  show "reaches 6 env (phase_step env AwaitHead st) (next_request (serve_one env st))"
    unfolding phase_step_def phase.case await_head_def serve_one_def r prod.case Let_def
    by (cases r) (auto simp: reaches_refl build_reaches split: option.split h1_error.split io_error.split)
qed simp

text \<open>The phases a connection needs: seven for each request, and each request but the last uses four bytes.\<close>

definition phase_bound :: "conn \<Rightarrow> nat" where
  "phase_bound st = 7 * Suc (conn_cost st div 4)"

lemma connection_reaches:
  "reaches (phase_bound st) env (AwaitHead, st)
     (Ended (fst (serve_connection env st)), snd (serve_connection env st))"
proof (induction env st rule: serve_connection.induct)
  case (1 env st)
  obtain p st' where p: "serve_one env st = (p, st')" by force
  show ?case
  proof (cases p)
    case Continue
    let ?st = "st'\<lparr>cn_iter := Suc (cn_iter st')\<rparr>"
    have "conn_cost ?st + 4 \<le> conn_cost st"
      using serve_one_continues [OF p [unfolded Continue]] by (simp add: spends_def conn_cost_def)
    then have "Suc (conn_cost ?st div 4) \<le> conn_cost st div 4" by linarith
    then have bound: "7 + phase_bound ?st \<le> phase_bound st" by (simp add: phase_bound_def)
    have "reaches (7 + phase_bound ?st) env (AwaitHead, st)
        (Ended (fst (serve_connection env ?st)), snd (serve_connection env ?st))"
      by (rule reaches_trans [OF _ "1.IH" [OF p [symmetric] Continue]])
         (use request_reaches [of env st] p Continue in simp)
    from reaches_mono [OF this bound] p Continue show ?thesis by (simp add: serve_connection.simps [of env st])
  next
    case (Done r)
    have "7 \<le> phase_bound st" by (simp add: phase_bound_def)
    from reaches_mono [OF request_reaches [of env st] this] Done p show ?thesis by (simp add: serve_connection.simps [of env st])
  qed
qed

section \<open>Properties\<close>



end
