(* ===== verification/Shared_State.thy ===== *)
theory Shared_State
  imports Engine_Phases Control
begin

text \<open>
  Connections of the fast engine that run at the same time. A listener's \<^verbatim>\<open>ProxyRuntime\<close> spawns one task per accepted
  connection (\<^verbatim>\<open>spawn_connection\<close>, \<^verbatim>\<open>src/src/proxy/mod.rs\<close>); the tasks share the snapshot they
  loaded from the \<^verbatim>\<open>ArcSwap\<close> and the runtime's pool of upstream connections, while health workers
  update the upstreams of a snapshot and the supervisor publishes new snapshots.

  The world keeps every published snapshot, as the \<^verbatim>\<open>Arc\<close>s held by the tasks do; a task refers to
  its snapshot by position. Accepting stands for the start of the spawned task, which loads the
  snapshot. One phase of a task is one step: between two phases anything may happen, within one the
  several atomics that \<^verbatim>\<open>select_arc\<close> reads are read at once. Requests of the hyper engine and of HTTP/3
  are not tasks here: they load the current snapshot anew for every request.
\<close>

section \<open>The world\<close>

text \<open>
  A task: its phase, the position of its snapshot, and its connection, whose fields for the snapshot
  and the pool are filled in from the world when it runs.
\<close>

record serve_task =
  sv_phase :: phase
  sv_snapshot :: nat
  sv_conn :: conn

text \<open>
  The supervisor, the published snapshots with the position of the current one, and one listener's
  runtime: its connection tracker, its pool and its tasks.
\<close>

record 's world =
  wd_sup :: "'s supervisor"
  wd_snapshots :: "config_snapshot list"
  wd_current :: nat
  wd_tracker :: nat
  wd_pool :: "upstream_conn fast_pool"
  wd_tasks :: "serve_task list"

definition supervisor_view :: "'s world \<Rightarrow> 's supervisor" where
  "supervisor_view w = (wd_sup w)\<lparr>sp_snapshot := wd_snapshots w ! wd_current w\<rparr>"

text \<open>The runtime's accept loop runs as long as the supervisor has not stopped or replaced it.\<close>

definition runtime_accepting :: "'s world \<Rightarrow> bool" where
  "runtime_accepting w \<longleftrightarrow> ls_tasks (sp_listeners (wd_sup w)) \<noteq> [] \<and>
     wd_tracker w \<in> set (ls_trackers (sp_listeners (wd_sup w)))"

text \<open>\<^verbatim>\<open>spawn_connection\<close>: the task loads the current snapshot and starts with empty buffers.\<close>

definition spawn_task :: "rx_event list \<Rightarrow> sink \<Rightarrow> 's world \<Rightarrow> 's world" where
  "spawn_task down down_tx w =
     w\<lparr>wd_tasks := wd_tasks w @ [\<lparr>sv_phase = AwaitHead, sv_snapshot = wd_current w,
        sv_conn = \<lparr>cn_snapshot = wd_snapshots w ! wd_current w, cn_pool = wd_pool w, cn_down = down,
          cn_down_buf = [], cn_down_tx = down_tx, cn_up_buf = [], cn_pipe = [], cn_iter = 0,
          cn_metrics = [], cn_log = [], cn_closed = []\<rparr>\<rparr>]\<rparr>"

definition run_task :: "serve_env \<Rightarrow> nat \<Rightarrow> 's world \<Rightarrow> 's world" where
  "run_task env i w =
     (let tk = wd_tasks w ! i;
          (ph, c) = phase_step env (sv_phase tk)
            ((sv_conn tk)\<lparr>cn_snapshot := wd_snapshots w ! sv_snapshot tk, cn_pool := wd_pool w\<rparr>)
      in w\<lparr>wd_snapshots := (wd_snapshots w)[sv_snapshot tk := cn_snapshot c], wd_pool := cn_pool c,
           wd_tasks := (wd_tasks w)[i := tk\<lparr>sv_phase := ph, sv_conn := c\<rparr>]\<rparr>)"

text \<open>One check of a health worker, on an upstream of any snapshot that is still referenced.\<close>

definition run_check ::
  "(string \<Rightarrow> socket_addr list option) \<Rightarrow> (socket_addr \<Rightarrow> bytes \<Rightarrow> probe_result) \<Rightarrow> nat \<Rightarrow> upstream_ref \<Rightarrow>
   's world \<Rightarrow> 's world" where
  "run_check resolve probe k r w =
     w\<lparr>wd_snapshots := (wd_snapshots w)[k := update_upstream (check_upstream resolve probe) r (wd_snapshots w ! k)]\<rparr>"

text \<open>A command of the supervisor; a reload that succeeds stores the new snapshot.\<close>

definition apply_command :: "'s control_env \<Rightarrow> string \<Rightarrow> control_event \<Rightarrow> 's world \<Rightarrow> 's world" where
  "apply_command cenv path ev w =
     (let (res, sp) = run_event cenv path ev (supervisor_view w) in
      case (ev, res) of
        (ReloadCommand _, Some (Ok _)) \<Rightarrow>
          w\<lparr>wd_sup := sp, wd_snapshots := wd_snapshots w @ [sp_snapshot sp],
            wd_current := length (wd_snapshots w)\<rparr>
      | _ \<Rightarrow> w\<lparr>wd_sup := sp\<rparr>)"

text \<open>
  The counter of upstream ids is a \<^verbatim>\<open>usize\<close> that is never reset; \<open>ids_left\<close> says that the upstreams of
  the file about to be loaded still fit.
\<close>

definition upstream_count :: "proxy_config \<Rightarrow> nat" where
  "upstream_count config = sum_list (map (\<lambda>p. length (up_upstreams (snd p))) (pc_upstream_pools config))"

definition ids_left :: "'s control_env \<Rightarrow> string \<Rightarrow> control_event \<Rightarrow> 's world \<Rightarrow> bool" where
  "ids_left cenv path ev w \<longleftrightarrow>
     (case ev of
        ReloadCommand f \<Rightarrow>
          (case snapshot_load (ce_lib cenv) (ce_from_str cenv) (sp_next_id (wd_sup w)) path f of
             Ok (sn, _) \<Rightarrow> unat (sp_next_id (wd_sup w)) + upstream_count (sn_config sn) < 2 ^ 64
           | _ \<Rightarrow> True)
      | _ \<Rightarrow> True)"

text \<open>A new connection to an authority is a connection to that authority.\<close>

definition dials_peer :: "serve_env \<Rightarrow> bool" where
  "dials_peer env \<longleftrightarrow> (\<forall>i a c. se_dial env i a = Some (Ok c) \<longrightarrow> uc_peer c = a)"

text \<open>Every interleaving of tasks, health checks and commands.\<close>

inductive world_step :: "'s control_env \<Rightarrow> string \<Rightarrow> 's world \<Rightarrow> 's world \<Rightarrow> bool"
  for cenv :: "'s control_env" and path :: string where
  accept: "runtime_accepting w \<Longrightarrow> world_step cenv path w (spawn_task down down_tx w)"
| serve: "i < length (wd_tasks w) \<Longrightarrow> env_ok env \<Longrightarrow> dials_peer env \<Longrightarrow> se_lib env = ce_lib cenv \<Longrightarrow>
    world_step cenv path w (run_task env i w)"
| check: "k < length (wd_snapshots w) \<Longrightarrow> world_step cenv path w (run_check resolve probe k r w)"
| command: "sp_running (wd_sup w) \<Longrightarrow> ids_left cenv path ev w \<Longrightarrow>
    world_step cenv path w (apply_command cenv path ev w)"

inductive_cases world_stepE: "world_step cenv path w w'"

text \<open>The world right after start-up, for the runtime with the given tracker.\<close>

definition world_start :: "'s supervisor \<Rightarrow> nat \<Rightarrow> 's world" where
  "world_start sp tracker =
     \<lparr>wd_sup = sp, wd_snapshots = [sp_snapshot sp], wd_current = 0, wd_tracker = tracker,
      wd_pool = fast_pool_new, wd_tasks = []\<rparr>"

section \<open>What of a snapshot never changes\<close>

text \<open>
  The configuration, the routes and the identity of every upstream. What does change are the
  round-robin cursors, the counters and flags of the upstreams, and the limiters.
\<close>

definition up_view :: "upstream_state \<Rightarrow> usize \<times> upstream_config \<times> upstream_uri_base" where
  "up_view u = (st_id u, st_config u, st_uri_base u)"

definition snap_view ::
  "config_snapshot \<Rightarrow> proxy_config \<times> compiled_route list \<times>
   (string \<times> (usize \<times> upstream_config \<times> upstream_uri_base) list) list" where
  "snap_view sn =
     (sn_config sn, tb_routes (sn_routes sn),
      map (\<lambda>(n, p). (n, map up_view (pl_upstreams p))) (tb_pools (sn_routes sn)))"

text \<open>The upstreams of a snapshot: id and authority.\<close>

definition peers :: "config_snapshot \<Rightarrow> (usize \<times> string) list" where
  "peers sn =
     concat (map (\<lambda>np. map (\<lambda>u. (st_id u, auth_text (ub_authority (st_uri_base u)))) (pl_upstreams (snd np)))
       (tb_pools (sn_routes sn)))"

lemma peers_view: "snap_view sn = snap_view sn' \<Longrightarrow> peers sn = peers sn'"
proof -
  have "peers sn = concat (map (\<lambda>(n, us). map (\<lambda>(i, c, b). (i, auth_text (ub_authority b))) us) (snd (snd (snap_view sn))))"
    for sn by (simp add: peers_def snap_view_def up_view_def comp_def case_prod_beta)
  then show "snap_view sn = snap_view sn' \<Longrightarrow> peers sn = peers sn'" by simp
qed

lemma map_update_same:
  assumes "map_of ps n = Some p" "g p' = g p"
  shows "map (\<lambda>(n, p). (n, g p)) (AList.update n p' ps) = map (\<lambda>(n, p). (n, g p)) ps"
  using assms by (induction ps) (auto split: if_splits)

lemma snap_view_set_pool:
  assumes "snap_pool sn n = Some p" "map up_view (pl_upstreams p') = map up_view (pl_upstreams p)"
  shows "snap_view (set_pool n p' sn) = snap_view sn"
  using map_update_same [of "tb_pools (sn_routes sn)" n p "\<lambda>p. map up_view (pl_upstreams p)" p'] assms
  by (simp add: snap_view_def snap_pool_def set_pool_def)

lemma snap_view_update_upstream:
  assumes "\<And>u. up_view (f u) = up_view u"
  shows "snap_view (update_upstream f r sn) = snap_view sn"
proof (cases "snap_pool sn (fst r)")
  case (Some p)
  have "map up_view (pl_upstreams (pool_update f (snd r) p)) = map up_view (pl_upstreams p)"
    using assms by (simp add: pool_update_def map_update list_update_same_conv)
  from snap_view_set_pool [OF Some this] Some show ?thesis by (simp add: update_upstream_def)
qed (simp add: update_upstream_def)

lemma up_view_marks [simp]:
  "up_view (mark_failure u) = up_view u" "up_view (mark_success u) = up_view u"
  "up_view (set_active_healthy u b) = up_view u"
  by (simp_all add: up_view_def mark_failure_def mark_success_def set_active_healthy_def)

lemma up_view_check [simp]: "up_view (check_upstream resolve probe u) = up_view u"
proof -
  obtain a u1 where a: "connect_addr resolve u = (a, u1)" by force
  have "up_view u1 = up_view u" using connect_addr_frame [of resolve u] a by (simp add: up_view_def)
  with a show ?thesis by (auto simp: check_upstream_def Let_def split: option.split)
qed

lemma build_request_view:
  assumes "snap_inv E sn" "build_request E sn raw = (res, sn')"
  shows "snap_view sn' = snap_view sn"
  using assms(1)
proof (cases rule: build_request_cases [where raw = raw])
  case (routed meth path http10 hs route p i p')
  have "pl_upstreams p' = pl_upstreams p" using select_frame [of p] routed(4) by simp
  with snap_view_set_pool [OF routed(3), of p'] routed(8) assms(2) show ?thesis by simp
qed (use assms(2) in simp_all)

text \<open>A built request names an upstream of the snapshot.\<close>

lemma build_request_peer:
  assumes "snap_inv E sn" "build_request E sn raw = (Ok (Some (m, outb)), sn')"
  shows "(su_id (mr_upstream m), su_authority (mr_upstream m)) \<in> set (peers sn)"
proof -
  from build_request_Some [OF assms] obtain meth path http10 hs route p i where
    p: "snap_pool sn (cr_pool route) = Some p" "i < length (pl_upstreams p)"
      "fast_request sn' route (cr_pool route, i) (pl_upstreams p ! i) (meth, path, http10, hs) = Ok (m, outb)"
    by blast
  have "mr_upstream m = select_upstream (cr_pool route, i) (pl_upstreams p ! i)"
    using p(3) by (auto simp: fast_request_Ok)
  moreover have "(cr_pool route, p) \<in> set (tb_pools (sn_routes sn))"
    using p(1) by (auto simp: snap_pool_def dest: map_of_SomeD)
  ultimately show ?thesis
    using p(2) by (force simp: peers_def select_upstream_def)
qed

section \<open>What one step keeps\<close>

text \<open>
  \<open>P\<close> holds the upstreams of all published snapshots. An idle connection stored under an id is a
  connection to the authority of the upstream with that id.
\<close>

definition idle_to_peers :: "(usize \<times> string) set \<Rightarrow> upstream_conn fast_pool \<Rightarrow> bool" where
  "idle_to_peers P pool \<longleftrightarrow> (\<forall>k c t. (c, t) \<in> set (fast_idle pool k) \<longrightarrow> (k, uc_peer c) \<in> P)"

definition shared_ok :: "ext_lib \<Rightarrow> (usize \<times> string) set \<Rightarrow> conn \<Rightarrow> bool" where
  "shared_ok E P st \<longleftrightarrow>
     snap_inv E (cn_snapshot st) \<and> set (peers (cn_snapshot st)) \<subseteq> P \<and> fast_inv (cn_pool st) \<and> idle_to_peers P (cn_pool st)"

definition to_peer :: "config_snapshot \<Rightarrow> matched_request \<Rightarrow> bool" where
  "to_peer sn request \<longleftrightarrow> (su_id (mr_upstream request), su_authority (mr_upstream request)) \<in> set (peers sn)"

text \<open>In every phase that has an upstream connection, it is one to the request's upstream.\<close>

definition phase_ok :: "config_snapshot \<Rightarrow> bytes \<Rightarrow> phase \<Rightarrow> bool" where
  "phase_ok sn buf ph =
     (case ph of
        AwaitHead \<Rightarrow> True
      | BuildRequest k \<Rightarrow> k \<le> length buf
      | AcquireToken request _ _ \<Rightarrow> to_peer sn request
      | GetConnection request _ _ \<Rightarrow> to_peer sn request
      | SendRequest request _ _ up \<Rightarrow> to_peer sn request \<and> uc_peer up = su_authority (mr_upstream request)
      | ForwardResponse request up \<Rightarrow> to_peer sn request \<and> uc_peer up = su_authority (mr_upstream request)
      | Conclude request _ up \<Rightarrow> to_peer sn request \<and> uc_peer up = su_authority (mr_upstream request)
      | Ended r \<Rightarrow> r \<noteq> APanic)"

definition keeps :: "ext_lib \<Rightarrow> (usize \<times> string) set \<Rightarrow> conn \<Rightarrow> phase \<times> conn \<Rightarrow> bool" where
  "keeps E P st p \<longleftrightarrow>
     shared_ok E P (snd p) \<and> snap_view (cn_snapshot (snd p)) = snap_view (cn_snapshot st) \<and>
     phase_ok (cn_snapshot (snd p)) (cn_down_buf (snd p)) (fst p)"

text \<open>Effects that leave the pool alone and the snapshot sound, with the same view.\<close>

definition quiet :: "ext_lib \<Rightarrow> conn \<Rightarrow> conn \<Rightarrow> bool" where
  "quiet E st st' \<longleftrightarrow>
     (snap_inv E (cn_snapshot st) \<longrightarrow> snap_inv E (cn_snapshot st')) \<and>
     snap_view (cn_snapshot st') = snap_view (cn_snapshot st) \<and> cn_pool st' = cn_pool st"

lemma quiet_refl [simp]: "quiet E st st"
  by (simp add: quiet_def)

lemma quiet_trans: "quiet E st st1 \<Longrightarrow> quiet E st1 st2 \<Longrightarrow> quiet E st st2"
  by (simp add: quiet_def)

lemma quiet_effects [simp]:
  "quiet E st (count_metric l st)" "quiet E st (emit_access_log request n st)"
  "quiet E st (upstream_failed request st)" "quiet E st (snd (write_static_response n reason body st))"
  "quiet E st (snd (bad_gateway st))" "quiet E st (mark mark_failure request st)"
  "quiet E st (mark mark_success request st)" "quiet E st (after_request x st)" "quiet E st (after_response x st)"
  "quiet E st (st\<lparr>cn_iter := i\<rparr>)" "quiet E st (st\<lparr>cn_down_buf := buf\<rparr>)"
  "quiet E st (st\<lparr>cn_down := d, cn_down_buf := buf\<rparr>)" "quiet E st (drop_upstream up st)"
  by (simp_all add: quiet_def snap_view_update_upstream snap_inv_marks mark_def after_request_def after_response_def)

lemma quiet_admit [simp]: "quiet E st (snd (admit env request st))"
  using snap_inv_limiters [of E "cn_snapshot st"]
  by (auto simp: quiet_def admit_def Let_def case_prod_beta snap_view_def split: option.split)

lemma quiet_ok:
  assumes "shared_ok E P st" "quiet E st st'"
  shows "shared_ok E P st'" "snap_view (cn_snapshot st') = snap_view (cn_snapshot st)"
    "to_peer (cn_snapshot st') = to_peer (cn_snapshot st)"
proof -
  show v: "snap_view (cn_snapshot st') = snap_view (cn_snapshot st)" using assms(2) by (simp add: quiet_def)
  from peers_view [OF v] assms show "shared_ok E P st'" by (simp add: shared_ok_def quiet_def)
  from peers_view [OF v] show "to_peer (cn_snapshot st') = to_peer (cn_snapshot st)"
    by (simp add: to_peer_def fun_eq_iff)
qed

lemma quiet_keeps:
  assumes "shared_ok E P st" "quiet E st st'" "phase_ok (cn_snapshot st) (cn_down_buf st') ph"
  shows "keeps E P st (ph, st')"
  using quiet_ok [OF assms(1,2)] assms(3) by (simp add: keeps_def phase_ok_def split: phase.splits)

lemma keeps_next:
  assumes "shared_ok E P st" "quiet E st st'" "s \<noteq> Done APanic"
  shows "keeps E P st (next_request (s, st'))"
proof (cases s)
  case Continue
  show ?thesis unfolding Continue next_request_simps
    by (rule quiet_keeps [OF assms(1) quiet_trans [OF assms(2) quiet_effects(10)]]) (simp add: phase_ok_def)
next
  case (Done r)
  with assms(3) show ?thesis by (auto intro!: quiet_keeps [OF assms(1,2)] simp: phase_ok_def)
qed

lemma await_keeps:
  assumes "shared_ok (se_lib env) P st" "env_ok env"
  shows "keeps (se_lib env) P st (await_head env st)"
proof -
  obtain r x where r: "read_header_block (se_lib env) (down_xfer st) = (r, x)" by force
  define st1 where "st1 = st\<lparr>cn_down := xf_rx x, cn_down_buf := xf_buf x\<rparr>"
  have np: "r \<noteq> APanic" using calm_read_header_block [of "se_lib env" "down_xfer st"] r by (simp add: calm_def)
  have head: "k \<le> length (cn_down_buf st1)" if "r = AOk (Some k)" for k
    using read_header_block_is_head(2) [of "se_lib env"] assms(2) r that by (simp add: env_ok_def st1_def)
  have K: "keeps (se_lib env) P st (ph, st1)" if "phase_ok (cn_snapshot st) (cn_down_buf st1) ph" for ph
    using that unfolding st1_def by (intro quiet_keeps [OF assms(1)]) simp_all
  show ?thesis
    unfolding await_head_def r prod.case Let_def st1_def [symmetric]
    using np head by (cases r) (auto intro!: K simp: phase_ok_def split: option.split h1_error.split io_error.split)
qed

lemma build_keeps:
  assumes "shared_ok (se_lib env) P st" "env_ok env" "k \<le> length (cn_down_buf st)"
  shows "keeps (se_lib env) P st (build_phase env k st)"
proof -
  obtain res sn where b: "build_request (se_lib env) (cn_snapshot st) (take k (cn_down_buf st)) = (res, sn)" by force
  have inv: "snap_inv (se_lib env) (cn_snapshot st)" using assms(1) by (simp add: shared_ok_def)
  have np: "res \<noteq> Panic p" for p using build_request_inv(3) [OF inv b] .
  define st1 where "st1 = st\<lparr>cn_snapshot := sn\<rparr>"
  have q: "quiet (se_lib env) st st1"
    using build_request_inv(1) [OF inv b] build_request_view [OF inv b] by (simp add: quiet_def st1_def)
  have peer: "to_peer (cn_snapshot st) request" if "res = Ok (Some (request, outbound))" for request outbound
    using build_request_peer [OF inv b [unfolded that]] by (simp add: to_peer_def)
  obtain g st2 where g: "write_static_response 404 ''Not Found'' (''no matching route'' @ [CHR 0x0A]) st1 = (g, st2)"
    by force
  have g': "g \<noteq> APanic" using canned_calm(1) [of "''Not Found''" st1] unfolding g by (simp only: fst_conv not_False_eq_True)
  have q2: "quiet (se_lib env) st st2"
    using quiet_trans [OF q quiet_effects(4) [of _ st1 404 "''Not Found''"]] g by (metis snd_conv)
  have q3: "quiet (se_lib env) st (count_metric l st2)" for l by (rule quiet_trans [OF q2]) simp
  show ?thesis
    unfolding build_phase_def b prod.case Let_def st1_def [symmetric] g
    using np peer g' assms(3) q q2 q3
    by (cases g; cases res) (auto intro!: quiet_keeps [OF assms(1)] simp: phase_ok_def split: option.split)
qed

lemma token_keeps:
  assumes "shared_ok E P st" "to_peer (cn_snapshot st) request"
  shows "keeps E P st (token_phase env request outbound k st)"
proof -
  obtain a st1 where a: "admit env request st = (a, st1)" by force
  have q: "quiet E st st1" using quiet_admit [of E st env request] a by simp
  obtain g st2 where g: "write_static_response 501 ''Not Implemented''
      (''HTTP/3 upstream driver is configured but not enabled in this baseline'' @ [CHR 0x0A]) st1 = (g, st2)"
    by force
  have h3: "g \<noteq> APanic" using canned_calm(3) [of "''Not Implemented''" st1] unfolding g by (simp only: fst_conv not_False_eq_True)
  have q2: "quiet E st st2"
    using quiet_trans [OF q quiet_effects(4) [of _ st1 501 "''Not Implemented''"]] g by (metis snd_conv)
  have q3: "quiet E st (emit_access_log request n (count_metric l st2))" for n l
    by (rule quiet_trans [OF quiet_trans [OF q2 quiet_effects(1)] quiet_effects(2)])
  have q4: "quiet E st (snd (write_static_response n reason body (emit_access_log request 429 (count_metric l st1))))"
    for n reason body l
    by (rule quiet_trans [OF quiet_trans [OF quiet_trans [OF q quiet_effects(1)] quiet_effects(2)] quiet_effects(4)])
  have A: "keeps E P st (next_request (finish (write_static_response 429 reason (''rate limit exceeded'' @ [CHR 0x0A])
      (emit_access_log request 429 (count_metric l st1)))))" for reason l
    unfolding finish_def by (rule keeps_next [OF assms(1) q4]) (use canned_calm(2) in blast)
  have B: "keeps E P st (case (g, st2) of
      (AOk _, st2) \<Rightarrow> (Ended (AOk ()), emit_access_log request 501 (count_metric l st2))
    | (e, st2) \<Rightarrow> (Ended e, st2))" for l
    using h3 q2 q3 by (cases g) (auto intro!: quiet_keeps [OF assms(1)] simp: phase_ok_def)
  have C: "keeps E P st (GetConnection request outbound k, st1)"
    by (rule quiet_keeps [OF assms(1) q]) (simp add: phase_ok_def assms(2))
  show ?thesis
    unfolding token_phase_def a prod.case(1) [of _ a st1] Let_def g
    using A B C by (simp only: split: if_split) simp
qed

text \<open>A checkout hands out connections stored under the key and stores nothing new.\<close>

lemma checkout_to_peers:
  assumes "idle_to_peers P pool" "fast_inv pool" "checkout peek now thr k pool = (c, pool')"
  shows "idle_to_peers P pool'" "c = Some up \<Longrightarrow> (k, uc_peer up) \<in> P"
  using fast.take_all [where Q = "\<lambda>k c. (k, uc_peer c) \<in> P", OF assms(2) _ assms(3)] assms(1)
  by (simp_all add: idle_to_peers_def)

lemma checkin_to_peers:
  assumes "idle_to_peers P pool" "fast_inv pool" "(k, uc_peer up) \<in> P"
  shows "idle_to_peers P (checkin now k up pool)"
  using fast.put_all [where Q = "\<lambda>k c. (k, uc_peer c) \<in> P", OF assms(2) _ assms(3)] assms(1)
  by (simp add: idle_to_peers_def)

lemma connect_keeps:
  assumes "shared_ok (se_lib env) P st" "env_ok env" "dials_peer env" "to_peer (cn_snapshot st) request"
    and fn: "single_valued P"
  shows "keeps (se_lib env) P st (connect_phase env request outbound k st)"
proof -
  let ?id = "su_id (mr_upstream request)" and ?auth = "su_authority (mr_upstream request)"
  obtain c pool where c: "get_connection (se_peek env (cn_iter st)) (se_dial env (cn_iter st))
      (se_clock env (cn_iter st)) (liveness_probe_idle (pc_runtime (sn_config (cn_snapshot st))))
      ?id ?auth (cn_pool st) = (c, pool)" by force
  obtain o' where o': "checkout (se_peek env (cn_iter st)) (se_clock env (cn_iter st))
      (liveness_probe_idle (pc_runtime (sn_config (cn_snapshot st)))) ?id (cn_pool st) = (o', pool)"
    using c by (auto simp: get_connection_def split: prod.splits option.splits)
  have P: "idle_to_peers P (cn_pool st)" "fast_inv (cn_pool st)" "(?id, ?auth) \<in> P"
    using assms(1,4) by (auto simp: shared_ok_def to_peer_def)
  note checked = checkout_to_peers [OF P(1,2) o']
  have pool: "fast_inv pool" using fast.tak_inv [OF P(2)] o' by (metis snd_conv)
  define st1 where "st1 = st\<lparr>cn_pool := pool\<rparr>"
  have st1: "shared_ok (se_lib env) P st1" "cn_snapshot st1 = cn_snapshot st"
    using assms(1) checked(1) pool by (simp_all add: shared_ok_def st1_def)
  have np: "c \<noteq> Panic p" for p
    using c assms(2) unfolding get_connection_def open_connection_def env_ok_def
    by (auto split: prod.splits option.splits)
  have peer: "uc_peer up = ?auth" if "c = Ok up" for up
  proof (cases o')
    case None
    with c o' that assms(3) show ?thesis
      by (auto simp: get_connection_def open_connection_def dials_peer_def split: option.splits)
  next
    case (Some u)
    with c o' that have "u = up" by (simp add: get_connection_def)
    from single_valuedD [OF fn checked(2) [OF Some [unfolded this]] P(3)] show ?thesis .
  qed
  have A: "keeps (se_lib env) P st (next_request (finish (bad_gateway (upstream_failed request st1))))"
    unfolding finish_def
    using keeps_next [OF st1(1) quiet_trans [OF quiet_effects(3) quiet_effects(5)], of "Done (fst (bad_gateway (upstream_failed request st1)))"]
      bad_gateway_calm st1(2) by (simp add: keeps_def)
  show ?thesis
    unfolding connect_phase_def c prod.case Let_def st1_def [symmetric]
    using A np peer st1 assms(4) by (cases c) (auto simp: keeps_def phase_ok_def)
qed

lemma send_keeps:
  assumes "shared_ok (se_lib env) P st" "env_ok env" "to_peer (cn_snapshot st) request"
    "uc_peer up = su_authority (mr_upstream request)"
  shows "keeps (se_lib env) P st (send_phase env request outbound k up st)"
proof -
  let ?E = "se_lib env"
  obtain w tx where w: "write_all outbound (uc_tx up) = (w, tx)" by force
  define st1 where "st1 = st\<lparr>cn_down_buf := discard_buffer_prefix (cn_down_buf st) k\<rparr>"
  obtain r x where x: "copy_body ?E (copy_env env st1) (rq_body (mr_head request))
      (Some MAX_REQUEST_BODY_BYTES) (client_to_upstream st1 (up\<lparr>uc_tx := tx\<rparr>)) = (r, x)" by force
  have "r \<noteq> APanic"
    using calm_copy_body [of ?E "copy_env env st1"] assms(2) x unfolding calm_def env_ok_def by (metis fst_conv)
  have q: "quiet ?E st (after_request x st1)" unfolding st1_def by (rule quiet_trans [OF quiet_effects(11) quiet_effects(8)])
  have lost: "keeps ?E P st (next_request (if b then Done (AOk ()) else Continue, 
      upstream_failed request (drop_upstream up' (after_request x st1))))" for b up'
    by (rule keeps_next [OF assms(1) quiet_trans [OF quiet_trans [OF q quiet_effects(13)] quiet_effects(3)]]) simp
  have gate: "keeps ?E P st (next_request (finish (bad_gateway (upstream_failed request (drop_upstream up' st)))))" for up'
    unfolding finish_def
    by (rule keeps_next [OF assms(1) quiet_trans [OF quiet_trans [OF quiet_effects(13) quiet_effects(3)] quiet_effects(5)]])
       (use bad_gateway_calm in simp)
  have sent: "keeps ?E P st (ForwardResponse request (up\<lparr>uc_tx := tx'\<rparr>), after_request x st1)" for tx'
    by (rule quiet_keeps [OF assms(1) q]) (simp add: phase_ok_def assms(3,4))
  have stall: "keeps ?E P st (Ended AStall, st)" by (rule quiet_keeps [OF assms(1)]) (simp_all add: phase_ok_def)
  show ?thesis
    unfolding send_phase_def w prod.case Let_def st1_def [symmetric] x
    using \<open>r \<noteq> APanic\<close> lost gate sent stall by (cases w; cases r) auto
qed

lemma forward_keeps:
  assumes "shared_ok (se_lib env) P st" "env_ok env" "to_peer (cn_snapshot st) request"
    "uc_peer up = su_authority (mr_upstream request)"
  shows "keeps (se_lib env) P st (forward_phase env request up st)"
proof -
  let ?E = "se_lib env"
  obtain r x where r: "read_and_forward_response ?E (copy_env env st)
      (rq_head_response (mr_head request)) (upstream_to_client st up) = (r, x)" by force
  have "r \<noteq> APanic"
    using calm_forward_response [of ?E "copy_env env st" "rq_head_response (mr_head request)"
        "upstream_to_client st up"] assms(2) r by (simp add: calm_def env_ok_def)
  define st1 where "st1 = drop_upstream (up\<lparr>uc_rx := xf_rx x\<rparr>) (after_response x st)"
  obtain g st2 where g: "bad_gateway (upstream_failed request st1) = (g, st2)" by force
  have "g \<noteq> APanic" using bad_gateway_calm [of "upstream_failed request st1"] g by simp
  have "quiet ?E st st1" unfolding st1_def by (rule quiet_trans [OF quiet_effects(9) quiet_effects(13)])
  from quiet_trans [OF quiet_trans [OF this quiet_effects(3)] quiet_effects(5)] g have q: "quiet ?E st st2" by (metis snd_conv)
  have lost: "keeps ?E P st (next_request (if b then Done (AOk ()) else Continue, st2))" for b
    by (rule keeps_next [OF assms(1) q]) simp
  have ended: "keeps ?E P st (Ended g, st2)" by (rule quiet_keeps [OF assms(1) q]) (simp add: phase_ok_def \<open>g \<noteq> APanic\<close>)
  have relayed: "keeps ?E P st (Conclude request response (up\<lparr>uc_rx := rx\<rparr>), after_response x st)" for response rx
    by (rule quiet_keeps [OF assms(1)]) (simp_all add: phase_ok_def assms(3,4))
  show ?thesis
    unfolding forward_phase_def r prod.case Let_def st1_def [symmetric] g
    using \<open>r \<noteq> APanic\<close> lost ended relayed by (cases r; cases g) auto
qed

lemma conclude_keeps:
  assumes "shared_ok E P st" "to_peer (cn_snapshot st) request" "uc_peer up = su_authority (mr_upstream request)"
  shows "keeps E P st (next_request (conclude env request response up st))"
proof -
  define st2 where "st2 = emit_access_log request (rs_status response) (count_metric ''proxied''
      (mark (if 500 \<le> rs_status response then mark_failure else mark_success) request st))"
  have q: "quiet E st st2"
    unfolding st2_def
    by (rule quiet_trans [OF quiet_trans [OF _ quiet_effects(1)] quiet_effects(2)]) (simp split: if_split)
  note st2 = quiet_ok [OF assms(1) q]
  have P: "(su_id (mr_upstream request), uc_peer up) \<in> P"
    using assms by (auto simp: shared_ok_def to_peer_def)
  define st3 where "st3 = st2\<lparr>cn_pool := checkin (se_clock env (cn_iter st)) (su_id (mr_upstream request)) up (cn_pool st2)\<rparr>"
  have "idle_to_peers P (cn_pool st3)"
    using st2(1) P by (simp add: st3_def shared_ok_def checkin_to_peers)
  then have st3: "shared_ok E P st3"
    using st2(1) fast.put_inv [of "cn_pool st2"] by (simp add: st3_def shared_ok_def)
  have "keeps E P st (Ended (AOk ()), drop_upstream up st2)"
    by (rule quiet_keeps [OF assms(1) quiet_trans [OF q quiet_effects(13)]]) (simp add: phase_ok_def)
  moreover have "keeps E P st (AwaitHead, st3\<lparr>cn_iter := i\<rparr>)" for i
    using st3 st2(2) by (simp add: keeps_def phase_ok_def shared_ok_def st3_def)
  ultimately show ?thesis
    by (simp add: conclude_def Let_def st2_def [symmetric] st3_def [symmetric])
qed

lemmas phases_keep = await_keeps build_keeps token_keeps connect_keeps send_keeps forward_keeps conclude_keeps

lemma phase_step_keeps:
  assumes "shared_ok (se_lib env) P st" "env_ok env" "dials_peer env"
    and "phase_ok (cn_snapshot st) (cn_down_buf st) ph"
    and fn: "single_valued P"
  shows "keeps (se_lib env) P st (phase_step env ph st)"
  using assms(4)
proof (cases ph)
  case (GetConnection request outbound k)
  with assms(4) connect_keeps [OF assms(1-3) _ fn] show ?thesis by (simp add: phase_step_def phase_ok_def)
next
  case (Ended r)
  with assms(1,4) show ?thesis by (simp add: phase_step_def keeps_def)
qed (simp_all add: phase_step_def phase_ok_def phases_keep(1-3,5-7) assms(1-3))

section \<open>The invariant of the world\<close>

definition all_peers :: "'s world \<Rightarrow> (usize \<times> string) list" where
  "all_peers w = concat (map peers (wd_snapshots w))"

definition task_ok :: "'s world \<Rightarrow> serve_task \<Rightarrow> bool" where
  "task_ok w tk \<longleftrightarrow> sv_snapshot tk < length (wd_snapshots w) \<and>
     phase_ok (wd_snapshots w ! sv_snapshot tk) (cn_down_buf (sv_conn tk)) (sv_phase tk)"

definition world_inv :: "'s control_env \<Rightarrow> 's world \<Rightarrow> bool" where
  "world_inv cenv w \<longleftrightarrow>
     wd_current w < length (wd_snapshots w) \<and>
     (\<forall>sn \<in> set (wd_snapshots w). snap_inv (ce_lib cenv) sn) \<and>
     distinct (map fst (all_peers w)) \<and>
     (\<forall>(i, _) \<in> set (all_peers w). i < sp_next_id (wd_sup w)) \<and>
     fast_inv (wd_pool w) \<and> idle_to_peers (set (all_peers w)) (wd_pool w) \<and>
     (\<forall>tk \<in> set (wd_tasks w). task_ok w tk) \<and>
     supervisor_inv cenv (supervisor_view w)"

section \<open>The ids of a loaded snapshot\<close>

lemma pools_new_counter:
  assumes "pools_new E i ps = Ok (qs, j)" "authority_is_header E" "\<forall>p \<in> snd ` set ps. pool_ok E p"
  shows "j = i + of_nat (sum_list (map (\<lambda>p. length (up_upstreams (snd p))) ps))"
  using assms(1,3)
proof (induction ps arbitrary: i qs)
  case (Cons np ps)
  obtain n cfg where np: "np = (n, cfg)" by force
  have "pool_ok E cfg" using Cons.prems(2) np by auto
  from pool_new_Ok [OF assms(2) this, of i] obtain p where
    p: "pool_new E i cfg = Ok (p, i + of_nat (length (up_upstreams cfg)))" by blast
  from Cons.prems(1) p(1) obtain rs where
    rs: "pools_new E (i + of_nat (length (up_upstreams cfg))) ps = Ok (rs, j)"
    by (auto simp: np outcome_simps)
  from Cons.IH [OF this] Cons.prems(2) show ?case by (simp add: np add.assoc)
qed simp

lemma fresh_words:
  fixes i :: usize
  assumes "unat i + n < 2 ^ 64"
  shows "unat (i + of_nat n) = unat i + n" "distinct (map (\<lambda>k. i + of_nat k) [0..<n])"
    "x \<in> set (map (\<lambda>k. i + of_nat k) [0..<n]) \<Longrightarrow> i \<le> x \<and> x < i + of_nat n"
proof -
  have u: "unat (i + of_nat k) = unat i + k" if "k \<le> n" for k
    using assms that by (simp add: unat_word_ariths unat_of_nat)
  then show "unat (i + of_nat n) = unat i + n" by simp
  have "inj_on (\<lambda>k. i + of_nat k) {0..<n}"
    by (rule inj_onI) (metis add_left_cancel atLeastLessThan_iff less_imp_le u)
  then show "distinct (map (\<lambda>k. i + of_nat k) [0..<n])" by (simp add: distinct_map)
  show "i \<le> x \<and> x < i + of_nat n" if "x \<in> set (map (\<lambda>k. i + of_nat k) [0..<n])"
    using that u by (auto simp: word_le_nat_alt word_less_nat_alt)
qed

lemma map_fst_peers: "map fst (peers sn) = concat (map (\<lambda>q. map st_id (pl_upstreams (snd q))) (tb_pools (sn_routes sn)))"
  by (simp add: peers_def map_concat comp_def)

lemma loaded_ids:
  assumes "parser_ok cenv" "snapshot_load (ce_lib cenv) (ce_from_str cenv) i path contents = Ok (sn, j)"
  shows "map fst (peers sn) = map (\<lambda>k. i + of_nat k) [0..<upstream_count (sn_config sn)]"
    "j = i + of_nat (upstream_count (sn_config sn))"
proof -
  from assms(2) obtain input where p: "snapshot_parse (ce_lib cenv) (ce_from_str cenv) i input path = Ok (sn, j)"
    by (auto simp: snapshot_load_def split: sum.splits)
  then have t: "route_table_new (ce_lib cenv) i (sn_config sn) = Ok (sn_routes sn, j)"
    by (auto simp: snapshot_parse_def outcome_simps split: sum.splits)
  have lib: "authority_is_header (ce_lib cenv)" using assms(1) by (simp add: parser_ok_def)
  have "config_ok (ce_lib cenv) (sn_config sn)"
    using snapshot_parse_inv [of "ce_lib cenv" "ce_from_str cenv" input i path] assms(1) p
    by (simp add: parser_ok_def)
  then have pools: "\<forall>p \<in> snd ` set (pc_upstream_pools (sn_config sn)). pool_ok (ce_lib cenv) p"
    by (simp add: config_ok_def)
  obtain compiled where ps: "pools_new (ce_lib cenv) i (pc_upstream_pools (sn_config sn)) = Ok (tb_pools (sn_routes sn), j)"
    using t by (rule route_table_new_inv)
  show "map fst (peers sn) = map (\<lambda>k. i + of_nat k) [0..<upstream_count (sn_config sn)]"
    using pools_new_Ok [OF ps lib pools] by (simp add: map_fst_peers upstream_count_def)
  show "j = i + of_nat (upstream_count (sn_config sn))"
    using pools_new_counter [OF ps lib pools] by (simp add: upstream_count_def)
qed

section \<open>Every step keeps the invariant\<close>

text \<open>Replacing a snapshot by one with the same view.\<close>

lemma map_same_view:
  assumes "k < length sns" "f sn = f (sns ! k)"
  shows "map f (sns[k := sn]) = map f sns"
  using assms by (simp add: map_update list_update_same_conv)

lemma all_peers_update:
  assumes "k < length (wd_snapshots w)" "snap_view sn = snap_view (wd_snapshots w ! k)"
    "wd_snapshots w' = (wd_snapshots w)[k := sn]"
  shows "all_peers w' = all_peers w"
  using map_same_view [OF assms(1), of peers sn] peers_view [OF assms(2)] assms(3) by (simp add: all_peers_def)

lemma task_ok_update:
  assumes "k < length (wd_snapshots w)" "snap_view sn = snap_view (wd_snapshots w ! k)"
    "wd_snapshots w' = (wd_snapshots w)[k := sn]"
  shows "task_ok w' tk = task_ok w tk"
proof -
  have "peers (wd_snapshots w' ! j) = peers (wd_snapshots w ! j)" if "j < length (wd_snapshots w)" for j
    using peers_view [OF assms(2)] that by (cases "j = k") (simp_all add: assms(3))
  then show ?thesis by (auto simp: task_ok_def phase_ok_def to_peer_def assms(3) split: phase.splits)
qed

text \<open>The supervisor's own invariant looks at nothing but the view of the current snapshot.\<close>

lemma insort_key_map:
  "(\<And>x. f x = f' (g x)) \<Longrightarrow> map g (insort_key f x xs) = insort_key f' (g x) (map g xs)"
  by (induction xs) auto

lemma sort_key_map:
  "(\<And>x. f x = f' (g x)) \<Longrightarrow> map g (sort_key f xs) = sort_key f' (map g xs)"
  unfolding sort_key_def by (induction xs) (simp_all add: insort_key_map)

lemma dedup_by_key_map:
  "(\<And>x. f x = f' (g x)) \<Longrightarrow> map g (dedup_by_key f xs) = dedup_by_key f' (map g xs)"
  by (induction f xs rule: dedup_by_key.induct) auto

lemma map_of_view: "map_of (map (\<lambda>(n, p). (n, g p)) ps) n = map_option g (map_of ps n)"
  by (induction ps) auto

lemma wanted_workers_view:
  assumes "snap_view sn = snap_view sn'"
  shows "wanted_workers addr sn = wanted_workers addr sn'"
proof -
  define workers :: "proxy_config \<times> compiled_route list \<times>
      (string \<times> (usize \<times> upstream_config \<times> upstream_uri_base) list) list \<Rightarrow> usize list"
    where "workers = (\<lambda>(cfg, routes, pools).
    map fst (filter (\<lambda>(i, c, b). hc_enabled (us_health_check c))
      (dedup_by_key (\<lambda>(i, c, b). addr i) (sort_key (\<lambda>(i, c, b). addr i)
        (concat (map (\<lambda>c. case map_of pools (cr_pool c) of Some us \<Rightarrow> us | None \<Rightarrow> []) routes))))))"
  have "wanted_workers addr sn = workers (snap_view sn)" for sn
  proof -
    let ?us = "concat (map (\<lambda>c. case map_of (tb_pools (sn_routes sn)) (cr_pool c) of
        Some p \<Rightarrow> pl_upstreams p | None \<Rightarrow> []) (tb_routes (sn_routes sn)))"
    have us: "concat (map (\<lambda>c. case map_of (map (\<lambda>(n, p). (n, map up_view (pl_upstreams p)))
        (tb_pools (sn_routes sn))) (cr_pool c) of Some us \<Rightarrow> us | None \<Rightarrow> []) (tb_routes (sn_routes sn))) =
        map up_view ?us"
      unfolding map_of_view map_concat map_map
      by (intro arg_cong [of _ _ concat] map_cong refl) (simp split: option.split)
    have "map up_view (all_upstreams addr (sn_routes sn)) =
        dedup_by_key (\<lambda>(i, c, b). addr i) (sort_key (\<lambda>(i, c, b). addr i) (map up_view ?us))"
      unfolding all_upstreams_def
      by (subst dedup_by_key_map [where f' = "\<lambda>(i, c, b). addr i"], simp add: up_view_def)
         (subst sort_key_map [where f' = "\<lambda>(i, c, b). addr i"], simp_all add: up_view_def)
    then have "workers (snap_view sn) = map fst (filter (\<lambda>(i, c, b). hc_enabled (us_health_check c))
        (map up_view (all_upstreams addr (sn_routes sn))))"
      by (simp add: workers_def snap_view_def us)
    then show ?thesis
      by (simp add: wanted_workers_def filter_map comp_def up_view_def)
  qed
  with assms show ?thesis by simp
qed

lemma supervisor_inv_view:
  assumes "snap_view sn = snap_view sn'" "snap_inv (ce_lib cenv) sn"
    "supervisor_inv cenv (sp\<lparr>sp_snapshot := sn'\<rparr>)"
  shows "supervisor_inv cenv (sp\<lparr>sp_snapshot := sn\<rparr>)"
proof -
  have "sn_config sn = sn_config sn'" using assms(1) by (simp add: snap_view_def)
  with assms wanted_workers_view [OF assms(1), of "ce_addr cenv"] show ?thesis
    by (auto simp: supervisor_inv_def Let_def)
qed

text \<open>Replacing one snapshot by a sound one with the same view, whatever else stays.\<close>

lemma world_inv_update:
  assumes "world_inv cenv w" "k < length (wd_snapshots w)" "snap_inv (ce_lib cenv) sn"
    and view: "snap_view sn = snap_view (wd_snapshots w ! k)"
    and w': "wd_snapshots w' = (wd_snapshots w)[k := sn]" "wd_sup w' = wd_sup w" "wd_current w' = wd_current w"
    and pool: "fast_inv (wd_pool w')" "idle_to_peers (set (all_peers w)) (wd_pool w')"
    and tasks: "\<forall>tk \<in> set (wd_tasks w'). task_ok w tk"
  shows "world_inv cenv w'"
proof -
  have inv: "snap_inv (ce_lib cenv) s" if "s \<in> set (wd_snapshots w')" for s
    using assms(1,3) that set_update_subset_insert [of "wd_snapshots w" k sn] unfolding world_inv_def w'(1) by blast
  have v: "snap_view (wd_snapshots w' ! wd_current w) = snap_view (wd_snapshots w ! wd_current w)"
    using view assms(2) by (cases "wd_current w = k") (simp_all add: w'(1))
  have cur: "wd_current w < length (wd_snapshots w')" using assms(1) by (simp add: world_inv_def w'(1))
  have "supervisor_inv cenv ((wd_sup w)\<lparr>sp_snapshot := wd_snapshots w ! wd_current w\<rparr>)"
    using assms(1) by (simp add: world_inv_def supervisor_view_def)
  from supervisor_inv_view [OF v inv [OF nth_mem [OF cur]] this]
  have "supervisor_inv cenv (supervisor_view w')" by (simp add: supervisor_view_def w'(2,3))
  with assms(1) cur inv pool tasks show ?thesis
    unfolding world_inv_def all_peers_update [OF assms(2) view w'(1)] task_ok_update [OF assms(2) view w'(1)] w'(2,3)
    by blast
qed

lemma peers_functional: "world_inv cenv w \<Longrightarrow> single_valued (set (all_peers w))"
  by (auto simp: world_inv_def intro!: single_valuedI eq_key_imp_eq_value [of "all_peers w"])

text \<open>What a task sees and leaves behind.\<close>

definition task_view :: "'s world \<Rightarrow> serve_task \<Rightarrow> conn" where
  "task_view w tk = (sv_conn tk)\<lparr>cn_snapshot := wd_snapshots w ! sv_snapshot tk, cn_pool := wd_pool w\<rparr>"

lemma task_view_simps [simp]:
  "cn_snapshot (task_view w tk) = wd_snapshots w ! sv_snapshot tk" "cn_pool (task_view w tk) = wd_pool w"
  "cn_down_buf (task_view w tk) = cn_down_buf (sv_conn tk)"
  by (simp_all add: task_view_def)

lemma run_task_keeps:
  assumes "world_inv cenv w" "i < length (wd_tasks w)" "env_ok env" "dials_peer env" "se_lib env = ce_lib cenv"
  shows "keeps (ce_lib cenv) (set (all_peers w)) (task_view w (wd_tasks w ! i))
    (phase_step env (sv_phase (wd_tasks w ! i)) (task_view w (wd_tasks w ! i)))"
proof -
  have tk: "task_ok w (wd_tasks w ! i)" using assms(1,2) by (auto simp: world_inv_def)
  then have "wd_snapshots w ! sv_snapshot (wd_tasks w ! i) \<in> set (wd_snapshots w)" by (simp add: task_ok_def)
  then have "shared_ok (se_lib env) (set (all_peers w)) (task_view w (wd_tasks w ! i))"
    using assms(1) unfolding assms(5) by (auto simp: world_inv_def shared_ok_def all_peers_def)
  moreover have "phase_ok (cn_snapshot (task_view w (wd_tasks w ! i))) (cn_down_buf (task_view w (wd_tasks w ! i)))
      (sv_phase (wd_tasks w ! i))" using tk by (simp add: task_ok_def)
  ultimately show ?thesis
    using phase_step_keeps [OF _ assms(3,4) _ peers_functional [OF assms(1)]] unfolding assms(5) by simp
qed

lemma run_task_eq:
  assumes "phase_step env (sv_phase (wd_tasks w ! i)) (task_view w (wd_tasks w ! i)) = (ph, c)"
  shows "run_task env i w =
    w\<lparr>wd_snapshots := (wd_snapshots w)[sv_snapshot (wd_tasks w ! i) := cn_snapshot c], wd_pool := cn_pool c,
      wd_tasks := (wd_tasks w)[i := (wd_tasks w ! i)\<lparr>sv_phase := ph, sv_conn := c\<rparr>]\<rparr>"
  using assms by (simp add: run_task_def task_view_def Let_def)

lemma run_task_inv:
  assumes "world_inv cenv w" "i < length (wd_tasks w)" "env_ok env" "dials_peer env" "se_lib env = ce_lib cenv"
  shows "world_inv cenv (run_task env i w)"
proof -
  let ?tk = "wd_tasks w ! i"
  obtain ph c where p: "phase_step env (sv_phase ?tk) (task_view w ?tk) = (ph, c)" by force
  from run_task_keeps [OF assms] have
    k: "shared_ok (ce_lib cenv) (set (all_peers w)) c" "snap_view (cn_snapshot c) = snap_view (wd_snapshots w ! sv_snapshot ?tk)"
      "phase_ok (cn_snapshot c) (cn_down_buf c) ph"
    by (simp_all add: p keeps_def)
  have tk: "sv_snapshot ?tk < length (wd_snapshots w)" using assms(1,2) by (auto simp: world_inv_def task_ok_def)
  have "task_ok w (?tk\<lparr>sv_phase := ph, sv_conn := c\<rparr>)"
    using tk k(3) peers_view [OF k(2)] by (simp add: task_ok_def phase_ok_def to_peer_def split: phase.splits)
  then have tasks: "\<forall>t \<in> set ((wd_tasks w)[i := ?tk\<lparr>sv_phase := ph, sv_conn := c\<rparr>]). task_ok w t"
    using assms(1) set_update_subset_insert [of "wd_tasks w" i] unfolding world_inv_def by blast
  have sn: "snap_inv (ce_lib cenv) (cn_snapshot c)" "fast_inv (cn_pool c)" "idle_to_peers (set (all_peers w)) (cn_pool c)"
    using k(1) by (simp_all add: shared_ok_def)
  show ?thesis
    unfolding run_task_eq [OF p]
    by (rule world_inv_update [OF assms(1) tk sn(1) k(2)]) (use sn tasks in simp_all)
qed

lemma run_check_inv:
  assumes "world_inv cenv w" "k < length (wd_snapshots w)"
  shows "world_inv cenv (run_check resolve probe k r w)"
proof -
  have "snap_inv (ce_lib cenv) (update_upstream (check_upstream resolve probe) r (wd_snapshots w ! k))"
    using assms by (intro snap_inv_update_upstream) (auto simp: world_inv_def)
  from assms(1) show ?thesis
    unfolding run_check_def
    by (intro world_inv_update [OF assms \<open>snap_inv _ _\<close> snap_view_update_upstream]) (simp_all add: world_inv_def)
qed

lemma spawn_inv:
  assumes "world_inv cenv w"
  shows "world_inv cenv (spawn_task down down_tx w)"
  using assms
  by (auto simp: world_inv_def spawn_task_def supervisor_view_def all_peers_def task_ok_def phase_ok_def)

text \<open>A published snapshot has new ids.\<close>

lemma publish_inv:
  assumes "world_inv cenv w" "parser_ok cenv"
    "snapshot_load (ce_lib cenv) (ce_from_str cenv) (sp_next_id (wd_sup w)) path contents = Ok (sn, j)"
    "unat (sp_next_id (wd_sup w)) + upstream_count (sn_config sn) < 2 ^ 64"
    "supervisor_inv cenv sp" "sp_snapshot sp = sn" "sp_next_id sp = j"
  shows "world_inv cenv (w\<lparr>wd_sup := sp, wd_snapshots := wd_snapshots w @ [sn], wd_current := length (wd_snapshots w)\<rparr>)"
    (is "world_inv cenv ?w")
proof -
  let ?i = "sp_next_id (wd_sup w)"
  note ids = loaded_ids [OF assms(2,3)]
  note fresh = fresh_words [OF assms(4), folded ids]
  have peers: "all_peers ?w = all_peers w @ peers sn" by (simp add: all_peers_def)
  have old: "i < ?i" if "i \<in> set (map fst (all_peers w))" for i using assms(1) that by (auto simp: world_inv_def)
  then have "set (map fst (all_peers w)) \<inter> set (map fst (peers sn)) = {}"
    using fresh(3) by fastforce
  with assms(1) fresh(2) have "distinct (map fst (all_peers ?w))" by (simp add: peers world_inv_def)
  moreover have "?i \<le> j" using fresh(1) by (simp add: word_le_nat_alt)
  then have "i < j" if "i \<in> set (map fst (all_peers ?w))" for i
    using that less_le_trans [OF old, of i j] fresh(3) [of i] by (auto simp: peers)
  then have "\<forall>(i, _) \<in> set (all_peers ?w). i < sp_next_id (wd_sup ?w)" using assms(7) by force
  moreover have "idle_to_peers (set (all_peers ?w)) (wd_pool w)"
    using assms(1) by (auto simp: idle_to_peers_def peers world_inv_def)
  moreover have "task_ok ?w tk" if "task_ok w tk" for tk
    using that by (simp add: task_ok_def nth_append)
  moreover have "supervisor_view ?w = sp" using assms(6) by (simp add: supervisor_view_def)
  moreover have "snap_inv (ce_lib cenv) sn" by (rule loaded_snapshot [OF assms(2,3)])
  ultimately show ?thesis using assms(1,5) by (simp add: world_inv_def)
qed

lemma resup_inv:
  assumes "world_inv cenv w" "supervisor_inv cenv sp" "sp_snapshot sp = wd_snapshots w ! wd_current w"
    "sp_next_id (wd_sup w) \<le> sp_next_id sp"
  shows "world_inv cenv (w\<lparr>wd_sup := sp\<rparr>)"
proof -
  have "supervisor_view (w\<lparr>wd_sup := sp\<rparr>) = sp" using assms(3) by (simp add: supervisor_view_def)
  moreover have "all_peers (w\<lparr>wd_sup := sp\<rparr>) = all_peers w" "task_ok (w\<lparr>wd_sup := sp\<rparr>) = task_ok w"
    by (simp_all add: all_peers_def task_ok_def fun_eq_iff)
  ultimately show ?thesis
    using assms(1,2,4) unfolding world_inv_def by (auto intro: less_le_trans)
qed

lemma reload_next_id:
  assumes "reload env path contents st = (Ok v, st')"
    "snapshot_load (ce_lib env) (ce_from_str env) (sp_next_id st) path contents = Ok (sn, j)"
  shows "sp_next_id st' = j"
  using assms by (auto simp: reload_def Let_def listeners_replace_def split: prod.splits sum.splits if_splits)

lemma supervisor_view_simps [simp]:
  "sp_snapshot (supervisor_view w) = wd_snapshots w ! wd_current w" "sp_next_id (supervisor_view w) = sp_next_id (wd_sup w)"
  "sp_running (supervisor_view w) = sp_running (wd_sup w)"
  by (simp_all add: supervisor_view_def)

text \<open>The two ways a command ends: the snapshots stay, or a new one is stored.\<close>

lemma apply_command_cases:
  assumes "parser_ok cenv"
  obtains
    (same) sp where "apply_command cenv path ev w = w\<lparr>wd_sup := sp\<rparr>" "sp = snd (run_event cenv path ev (supervisor_view w))"
      "sp_snapshot sp = wd_snapshots w ! wd_current w"
      "sp_next_id sp = sp_next_id (wd_sup w) \<or> (\<exists>contents sn. ev = ReloadCommand contents \<and>
         snapshot_load (ce_lib cenv) (ce_from_str cenv) (sp_next_id (wd_sup w)) path contents = Ok (sn, sp_next_id sp))"
  | (stored) sp contents sn where "apply_command cenv path ev w =
        w\<lparr>wd_sup := sp, wd_snapshots := wd_snapshots w @ [sn], wd_current := length (wd_snapshots w)\<rparr>"
      "ev = ReloadCommand contents" "sp = snd (run_event cenv path ev (supervisor_view w))" "sp_snapshot sp = sn"
      "snapshot_load (ce_lib cenv) (ce_from_str cenv) (sp_next_id (wd_sup w)) path contents = Ok (sn, sp_next_id sp)"
proof (cases ev)
  case (ReloadCommand contents)
  obtain r st' where r: "reload cenv path contents (supervisor_view w) = (r, st')" by force
  have np: "r \<noteq> Panic p" for p using r reload_no_panic [OF assms(1), of path contents "supervisor_view w"] by simp
  have ev: "run_event cenv path ev (supervisor_view w) = (Some r, st')"
    using r ReloadCommand np by (auto simp: run_event_def split: outcome.split)
  from r np show thesis
  proof (cases rule: reload_cases)
    case (config e)
    with ev ReloadCommand show thesis by (intro same [of st']) (simp_all add: apply_command_def)
  next
    case (l4 e t new next_id t1)
    with ev ReloadCommand show thesis by (intro same [of st']) (auto simp: apply_command_def)
  next
    case (ok new next_id t1 t2)
    have "sp_next_id st' = next_id" by (rule reload_next_id [OF r [unfolded ok(1)] ok(2)])
    with ok ev ReloadCommand show thesis by (intro stored [of new st' contents]) (simp_all add: apply_command_def)
  qed
qed (use same in \<open>simp_all add: apply_command_def run_event_def shut_down_def Let_def\<close>)

lemma apply_command_inv:
  assumes "world_inv cenv w" "parser_ok cenv" "ids_left cenv path ev w"
  shows "world_inv cenv (apply_command cenv path ev w)"
  using assms(2)
proof (cases rule: apply_command_cases [where path = path and ev = ev and w = w])
  case (same sp)
  have sup: "supervisor_inv cenv sp"
    unfolding same(2) using assms(1) by (intro run_event_inv [OF assms(2)]) (simp add: world_inv_def)
  from same(4) have "sp_next_id (wd_sup w) \<le> sp_next_id sp"
  proof
    assume "\<exists>contents sn. ev = ReloadCommand contents \<and>
      snapshot_load (ce_lib cenv) (ce_from_str cenv) (sp_next_id (wd_sup w)) path contents = Ok (sn, sp_next_id sp)"
    then obtain contents sn where l: "ev = ReloadCommand contents"
      "snapshot_load (ce_lib cenv) (ce_from_str cenv) (sp_next_id (wd_sup w)) path contents = Ok (sn, sp_next_id sp)"
      by blast
    then have "unat (sp_next_id (wd_sup w)) + upstream_count (sn_config sn) < 2 ^ 64"
      using assms(3) by (simp add: ids_left_def)
    from fresh_words(1) [OF this] loaded_ids(2) [OF assms(2) l(2)] show ?thesis
      by (simp add: word_le_nat_alt)
  qed simp
  with same(1,3) resup_inv [OF assms(1) sup] show ?thesis by simp
next
  case (stored sp contents sn)
  have "supervisor_inv cenv sp"
    unfolding stored(3) using assms(1) by (intro run_event_inv [OF assms(2)]) (simp add: world_inv_def)
  moreover have "unat (sp_next_id (wd_sup w)) + upstream_count (sn_config sn) < 2 ^ 64"
    using assms(3) stored(2,5) by (simp add: ids_left_def)
  ultimately show ?thesis
    unfolding stored(1) by (intro publish_inv [OF assms(1,2) stored(5)]) (simp_all add: stored(4))
qed

lemma world_step_inv:
  assumes "world_step cenv path w w'" "parser_ok cenv" "world_inv cenv w"
  shows "world_inv cenv w'"
  using assms
  by (induction rule: world_step.induct) (auto intro: spawn_inv run_task_inv run_check_inv apply_command_inv)

text \<open>What later worlds have in common with earlier ones.\<close>

definition settled :: "'s world \<Rightarrow> 's world \<Rightarrow> bool" where
  "settled w w' \<longleftrightarrow>
     (\<exists>new. map snap_view (wd_snapshots w') = map snap_view (wd_snapshots w) @ new) \<and>
     (\<exists>new. map sv_snapshot (wd_tasks w') = map sv_snapshot (wd_tasks w) @ new)"

lemma settled_refl: "settled w w"
  by (simp add: settled_def)

lemma settled_trans: "settled w w1 \<Longrightarrow> settled w1 w2 \<Longrightarrow> settled w w2"
  by (auto simp: settled_def)

lemma world_step_settled:
  assumes "world_step cenv path w w'" "parser_ok cenv" "world_inv cenv w"
  shows "settled w w'"
  using assms(1)
proof (cases rule: world_step.cases)
  case (serve i env)
  obtain ph c where p: "phase_step env (sv_phase (wd_tasks w ! i)) (task_view w (wd_tasks w ! i)) = (ph, c)" by force
  have "snap_view (cn_snapshot c) = snap_view (wd_snapshots w ! sv_snapshot (wd_tasks w ! i))"
    using run_task_keeps [OF assms(3) serve(2-5)] by (simp add: p keeps_def)
  moreover have "sv_snapshot (wd_tasks w ! i) < length (wd_snapshots w)"
    using assms(3) serve(2) by (auto simp: world_inv_def task_ok_def)
  ultimately show ?thesis
    using serve(1,2) by (simp add: settled_def run_task_eq [OF p] map_same_view)
next
  case (check k resolve probe r)
  then show ?thesis by (simp add: settled_def run_check_def map_same_view snap_view_update_upstream)
next
  case (command ev)
  from assms(2) show ?thesis
    by (cases rule: apply_command_cases [where path = path and ev = ev and w = w])
       (simp_all add: command(1) settled_def)
qed (simp add: settled_def spawn_task_def)

lemma world_run:
  assumes "(world_step cenv path)\<^sup>*\<^sup>* w w'" "parser_ok cenv" "world_inv cenv w"
  shows "world_inv cenv w' \<and> settled w w'"
  using assms(1)
proof (induction rule: rtranclp_induct)
  case base
  show ?case using assms(3) settled_refl by blast
next
  case (step y z)
  then show ?case using world_step_inv [OF step(2) assms(2)] world_step_settled [OF step(2) assms(2)] settled_trans by blast
qed

lemma world_start_inv:
  assumes "parser_ok cenv" "snapshot_load (ce_lib cenv) (ce_from_str cenv) i path contents = Ok (initial, next_id)"
    "unat i + upstream_count (sn_config initial) < 2 ^ 64" "supervisor_start cenv initial next_id table = (Ok sp, t)"
  shows "world_inv cenv (world_start sp tracker)"
proof -
  have sp: "sp_snapshot sp = initial" "sp_next_id sp = next_id"
    using assms(4) by (auto simp: supervisor_start_def split: prod.splits sum.splits if_splits)
  note ids = loaded_ids [OF assms(1,2)]
  note fresh = fresh_words [OF assms(3), folded ids]
  have "supervisor_view (world_start sp tracker) = sp" by (simp add: supervisor_view_def world_start_def)
  moreover have "all_peers (world_start sp tracker) = peers initial" by (simp add: all_peers_def world_start_def sp)
  moreover have "\<forall>(i, _) \<in> set (peers initial). i < next_id" using fresh(3) by force
  moreover have "idle_to_peers P fast_pool_new" for P
    by (simp add: idle_to_peers_def fast.none_idle)
  ultimately show ?thesis
    using supervisor_start_inv [OF assms(1,2,4)] loaded_snapshot(2) [OF assms(1,2)] fresh(2) fast.none_inv
    by (simp add: world_inv_def) (simp add: world_start_def sp)
qed

section \<open>A sample run\<close>

text \<open>A connection is accepted, its task waits for a head, and another configuration is loaded.\<close>

lemma sample_count: "upstream_count sample_config < 10" "upstream_count second_config < 10"
  by code_simp+

lemma sample_dials: "dials_peer sample_serve_env"
  by (simp add: dials_peer_def sample_serve_env_def)

lemma sample_world:
  obtains initial next_id sp tracker w where
    "snapshot_load (ce_lib sample_control) (ce_from_str sample_control) 0 ''f'' (Inr ''1'') = Ok (initial, next_id)"
    "unat (0 :: usize) + upstream_count (sn_config initial) < 2 ^ 64"
    "supervisor_start sample_control initial next_id Map.empty = (Ok sp, Map.empty)"
    "(world_step sample_control ''f'')\<^sup>*\<^sup>* (world_start sp tracker) w"
    "length (wd_snapshots w) = 2" "length (wd_tasks w) = 1" "sn_config (wd_snapshots w ! 1) = second_config"
proof -
  obtain sn j where l: "snapshot_load (ce_lib sample_control) (ce_from_str sample_control) 0 ''f'' (Inr ''1'') = Ok (sn, j)"
    "sn_config sn = sample_config" using sample_load [of 0 "''f''" "''1''"] by auto
  have n: "unat (0 :: usize) + upstream_count (sn_config sn) < 2 ^ 64" using sample_count(1) by (simp add: l(2))
  obtain sp where sp: "supervisor_start sample_control sn j Map.empty = (Ok sp, Map.empty)" "sp_running sp"
    "sp_table sp = Map.empty" "sp_l4 sp = []" "sp_snapshot sp = sn" using sample_start [OF l(2)] by blast
  have inv: "supervisor_inv sample_control sp" using supervisor_start_inv [OF sample_control_ok(1) l(1) sp(1)] by simp
  define tracker where "tracker = ls_trackers (sp_listeners sp) ! 0"
  define w0 where "w0 = world_start sp tracker"
  have "pc_listeners sample_config \<noteq> []" by code_simp
  with inv sp(2,5) l(2) have "runtime_accepting w0"
    by (auto simp: runtime_accepting_def w0_def world_start_def supervisor_inv_def Let_def tracker_def
        intro!: nth_mem length_greater_0_conv [THEN iffD2])
  define w1 where "w1 = spawn_task [RxData sample_request] \<lparr>sk_out = [], sk_limit = None\<rparr> w0"
  have s1: "world_step sample_control ''f'' w0 w1" unfolding w1_def by (rule world_step.accept) fact
  define w2 where "w2 = run_task sample_serve_env 0 w1"
  have s2: "world_step sample_control ''f'' w1 w2" unfolding w2_def
    by (rule world_step.serve) (simp_all add: w1_def w0_def world_start_def spawn_task_def sample_env_ok sample_dials sample_control_def)
  have w2: "wd_sup w2 = sp" "length (wd_tasks w2) = 1" "length (wd_snapshots w2) = 1" "wd_current w2 = 0"
    by (simp_all add: w2_def w1_def w0_def run_task_def spawn_task_def world_start_def Let_def case_prod_beta)
  obtain sp' where r: "reload sample_control ''f'' (Inr ''2'') (supervisor_view w2) = (Ok ''reloaded'', sp')"
    "sn_config (sp_snapshot sp') = second_config"
    using sample_reload [of "supervisor_view w2"] sp(3,4) by (auto simp: supervisor_view_def w2)
  define w3 where "w3 = apply_command sample_control ''f'' (ReloadCommand (Inr ''2'')) w2"
  have w3: "w3 = w2\<lparr>wd_sup := sp', wd_snapshots := wd_snapshots w2 @ [sp_snapshot sp'], wd_current := length (wd_snapshots w2)\<rparr>"
    by (simp add: w3_def apply_command_def run_event_def r)
  obtain sn2 j2 where l2: "snapshot_load (ce_lib sample_control) (ce_from_str sample_control) j ''f'' (Inr ''2'') = Ok (sn2, j2)"
    "sn_config sn2 = second_config" using sample_load [of j "''f''" "''2''"] by auto
  have nid: "sp_next_id sp = j"
    using sp(1) by (auto simp: supervisor_start_def split: prod.splits sum.splits if_splits)
  have "unat j < 10" using loaded_ids(2) [OF sample_control_ok(1) l(1)] sample_count(1) fresh_words(1) [OF n] by (simp add: l(2))
  then have "ids_left sample_control ''f'' (ReloadCommand (Inr ''2'')) w2"
    using sample_count(2) by (simp add: ids_left_def w2 nid l2)
  then have s3: "world_step sample_control ''f'' w2 w3"
    unfolding w3_def by (intro world_step.command) (simp_all add: w2 sp)
  have "(world_step sample_control ''f'')\<^sup>*\<^sup>* w0 w3" using s1 s2 s3 by (meson converse_rtranclp_into_rtranclp rtranclp.rtrancl_refl)
  moreover have "length (wd_snapshots w3) = 2" "length (wd_tasks w3) = 1" "sn_config (wd_snapshots w3 ! 1) = second_config"
    using r(2) w2 by (simp_all add: w3 nth_append)
  ultimately show thesis using that [OF l(1) n sp(1)] unfolding w0_def by blast
qed

section \<open>Properties\<close>

text \<open>The request a task has in hand and the upstream connection it uses for it.\<close>

definition phase_upstream :: "phase \<Rightarrow> (matched_request \<times> upstream_conn) option" where
  "phase_upstream ph =
     (case ph of
        SendRequest request _ _ up \<Rightarrow> Some (request, up)
      | ForwardResponse request up \<Rightarrow> Some (request, up)
      | Conclude request _ up \<Rightarrow> Some (request, up)
      | _ \<Rightarrow> None)"

text \<open>
  C10. No request goes to the wrong server. Start the proxy and let any number of connections of the
  fast engine run interleaved with each other, with health checks, reloads and shutdown (as long as
  the 64-bit counter of upstream ids does not wrap): no connection panics; the upstream connection
  a request is written to, and whose response answers it, is a connection to the authority of the
  upstream that was selected for it in the connection's own configuration, whether it was opened
  or came from the shared pool; and an idle connection in the pool belongs to exactly one upstream of
  exactly one configuration.
\<close>

theorem requests_reach_their_upstream:
  assumes "parser_ok cenv" "snapshot_load (ce_lib cenv) (ce_from_str cenv) i path contents = Ok (initial, next_id)"
    "unat i + upstream_count (sn_config initial) < 2 ^ 64" "supervisor_start cenv initial next_id table = (Ok sp, t)"
    and "(world_step cenv path)\<^sup>*\<^sup>* (world_start sp tracker) w"
  shows "(\<forall>tk \<in> set (wd_tasks w). sv_phase tk \<noteq> Ended APanic \<and>
      (\<forall>request up. phase_upstream (sv_phase tk) = Some (request, up) \<longrightarrow>
         uc_peer up = su_authority (mr_upstream request) \<and>
         (su_id (mr_upstream request), uc_peer up) \<in> set (peers (wd_snapshots w ! sv_snapshot tk)))) \<and>
    (\<forall>k c t. (c, t) \<in> set (fast_idle (wd_pool w) k) \<longrightarrow> (k, uc_peer c) \<in> set (concat (map peers (wd_snapshots w)))) \<and>
    distinct (map fst (concat (map peers (wd_snapshots w))))"
proof -
  have inv: "world_inv cenv w" using world_run [OF assms(5,1) world_start_inv [OF assms(1-4)]] by blast
  have "sv_phase tk \<noteq> Ended APanic \<and>
      (\<forall>request up. phase_upstream (sv_phase tk) = Some (request, up) \<longrightarrow>
         uc_peer up = su_authority (mr_upstream request) \<and>
         (su_id (mr_upstream request), uc_peer up) \<in> set (peers (wd_snapshots w ! sv_snapshot tk)))"
    if "tk \<in> set (wd_tasks w)" for tk
  proof -
    have "task_ok w tk" using inv that by (simp add: world_inv_def)
    then show ?thesis
      by (auto simp: task_ok_def phase_ok_def to_peer_def phase_upstream_def split: phase.splits)
  qed
  moreover have "(k, uc_peer c) \<in> set (concat (map peers (wd_snapshots w)))"
    if "(c, t) \<in> set (fast_idle (wd_pool w) k)" for k c t
    using inv that unfolding world_inv_def idle_to_peers_def all_peers_def by blast
  moreover have "distinct (map fst (concat (map peers (wd_snapshots w))))"
    using inv by (simp add: world_inv_def all_peers_def)
  ultimately show ?thesis by blast
qed

theorem requests_reach_their_upstream_witness:
  "\<exists>w :: ipvs_view world. length (wd_snapshots w) = 2 \<and> length (wd_tasks w) = 1 \<and> sv_phase (wd_tasks w ! 0) \<noteq> Ended APanic \<and>
     distinct (map fst (concat (map peers (wd_snapshots w))))"
proof -
  obtain initial next_id sp tracker w where s:
    "snapshot_load (ce_lib sample_control) (ce_from_str sample_control) 0 ''f'' (Inr ''1'') = Ok (initial, next_id)"
    "unat (0 :: usize) + upstream_count (sn_config initial) < 2 ^ 64"
    "supervisor_start sample_control initial next_id Map.empty = (Ok sp, Map.empty)"
    "(world_step sample_control ''f'')\<^sup>*\<^sup>* (world_start sp tracker) w"
    "length (wd_snapshots w) = 2" "length (wd_tasks w) = 1"
    by (rule sample_world)
  from requests_reach_their_upstream [OF sample_control_ok(1) s(1-4)] s(5,6) show ?thesis
    by (intro exI [of _ w]) simp
qed

text \<open>
  C11. A connection of the fast engine keeps its configuration. Its task loads the snapshot once, when
  it starts; whatever happens afterwards (reloads, health checks, other connections), it is served by
  the configuration, the routes and the upstreams of that snapshot, and no published configuration is
  ever changed or dropped from under it; only cursors, counters, health flags and token buckets move.
  The hyper engine and HTTP/3 are different: they load the current snapshot for every request, so
  their connections see a reload, and they are not tasks of this relation.
\<close>

theorem fast_connections_keep_configuration:
  assumes "parser_ok cenv" "snapshot_load (ce_lib cenv) (ce_from_str cenv) i path contents = Ok (initial, next_id)"
    "unat i + upstream_count (sn_config initial) < 2 ^ 64" "supervisor_start cenv initial next_id table = (Ok sp, t)"
    and "(world_step cenv path)\<^sup>*\<^sup>* (world_start sp tracker) w" "(world_step cenv path)\<^sup>*\<^sup>* w w'"
    and "n < length (wd_tasks w)"
  shows "n < length (wd_tasks w') \<and>
    snap_view (wd_snapshots w' ! sv_snapshot (wd_tasks w' ! n)) = snap_view (wd_snapshots w ! sv_snapshot (wd_tasks w ! n)) \<and>
    snap_inv (ce_lib cenv) (wd_snapshots w' ! sv_snapshot (wd_tasks w' ! n))"
proof -
  have inv: "world_inv cenv w" using world_run [OF assms(5,1) world_start_inv [OF assms(1-4)]] by blast
  have inv': "world_inv cenv w'" and st: "settled w w'" using world_run [OF assms(6,1) inv] by blast+
  from st obtain sns tks where st: "map snap_view (wd_snapshots w') = map snap_view (wd_snapshots w) @ sns"
    "map sv_snapshot (wd_tasks w') = map sv_snapshot (wd_tasks w) @ tks" by (auto simp: settled_def)
  have n: "n < length (wd_tasks w')" using arg_cong [OF st(2), of length] assms(7) by simp
  have k: "sv_snapshot (wd_tasks w' ! n) = sv_snapshot (wd_tasks w ! n)"
    using arg_cong [OF st(2), of "\<lambda>xs. xs ! n"] n assms(7) by (simp add: nth_append)
  have "sv_snapshot (wd_tasks w ! n) < length (wd_snapshots w)" using inv assms(7) by (auto simp: world_inv_def task_ok_def)
  moreover from this have "sv_snapshot (wd_tasks w ! n) < length (wd_snapshots w')"
    using arg_cong [OF st(1), of length] by simp
  ultimately have "snap_view (wd_snapshots w' ! sv_snapshot (wd_tasks w ! n)) = snap_view (wd_snapshots w ! sv_snapshot (wd_tasks w ! n))"
    "snap_inv (ce_lib cenv) (wd_snapshots w' ! sv_snapshot (wd_tasks w ! n))"
    using arg_cong [OF st(1), of "\<lambda>xs. xs ! sv_snapshot (wd_tasks w ! n)"] inv' by (simp_all add: nth_append world_inv_def)
  with n k show ?thesis by simp
qed

theorem fast_connections_keep_configuration_witness:
  "\<exists>w :: ipvs_view world. length (wd_snapshots w) = 2 \<and> sn_config (wd_snapshots w ! 1) = second_config \<and>
     snap_inv sample_lib (wd_snapshots w ! sv_snapshot (wd_tasks w ! 0))"
proof -
  obtain initial next_id sp tracker w where s:
    "snapshot_load (ce_lib sample_control) (ce_from_str sample_control) 0 ''f'' (Inr ''1'') = Ok (initial, next_id)"
    "unat (0 :: usize) + upstream_count (sn_config initial) < 2 ^ 64"
    "supervisor_start sample_control initial next_id Map.empty = (Ok sp, Map.empty)"
    "(world_step sample_control ''f'')\<^sup>*\<^sup>* (world_start sp tracker) w"
    "length (wd_snapshots w) = 2" "length (wd_tasks w) = 1" "sn_config (wd_snapshots w ! 1) = second_config"
    by (rule sample_world)
  have "ce_lib sample_control = sample_lib" by (simp add: sample_control_def)
  with fast_connections_keep_configuration [OF sample_control_ok(1) s(1-4) rtranclp.rtrancl_refl, of 0] s(5-7)
  show ?thesis by auto
qed

end
