(* ===== verification/Listener_Setup.thy ===== *)
theory Listener_Setup
  imports Hyper_Proxy Conn_Tracker
begin

text \<open>
  What \<^verbatim>\<open>src/src/proxy/mod.rs\<close> sets up before it accepts: the runtime shared by the tasks of a
  listener (\<^verbatim>\<open>ProxyRuntime::new\<close>), the TLS configuration (\<^verbatim>\<open>load_tls_config\<close> and the part of
  \<^verbatim>\<open>serve_listener\<close> that calls it), and the stream that is either plain or TLS (\<^verbatim>\<open>MaybeTlsStream\<close>).
  Reading PEM files and building the \<^verbatim>\<open>rustls\<close> configuration are parameters.
\<close>

section \<open>Definitions\<close>

text \<open>
  \<open>tl_certs\<close>: \<^verbatim>\<open>CertificateDer::pem_file_iter\<close>, an error for the file or one result per section;
  \<open>tl_key\<close>: \<^verbatim>\<open>PrivateKeyDer::from_pem_file\<close>; \<open>tl_rejects\<close>: the error of \<^verbatim>\<open>with_single_cert\<close>, if any.
\<close>

record tls_lib =
  tl_certs :: "string \<Rightarrow> string + (string + bytes) list"
  tl_key :: "string \<Rightarrow> string + bytes"
  tl_rejects :: "bytes list \<Rightarrow> bytes \<Rightarrow> string option"

record server_config =
  sc_certs :: "bytes list"
  sc_key :: bytes
  sc_alpn :: "string list"

text \<open>Collecting into a \<^verbatim>\<open>Result\<close> stops at the first error.\<close>

fun collect_certs :: "('e + 'a) list \<Rightarrow> 'e + 'a list" where
  "collect_certs [] = Inr []"
| "collect_certs (Inl e # rs) = Inl e"
| "collect_certs (Inr x # rs) = (case collect_certs rs of Inl e \<Rightarrow> Inl e | Inr xs \<Rightarrow> Inr (x # xs))"

definition load_tls_config ::
  "tls_lib \<Rightarrow> string \<Rightarrow> string \<Rightarrow> listener_protocol list \<Rightarrow> string + server_config" where
  "load_tls_config lib cert_path key_path protocols =
     (case tl_certs lib cert_path of
        Inl e \<Rightarrow> Inl e
      | Inr sections \<Rightarrow>
          (case collect_certs sections of
             Inl e \<Rightarrow> Inl e
           | Inr certs \<Rightarrow>
               (case tl_key lib key_path of
                  Inl e \<Rightarrow> Inl e
                | Inr key \<Rightarrow>
                    (case tl_rejects lib certs key of
                       Some e \<Rightarrow> Inl e
                     | None \<Rightarrow> Inr \<lparr>sc_certs = certs, sc_key = key, sc_alpn = alpn_protocols protocols\<rparr>))))"

datatype setup_error = NotFound string | InvalidData string

definition listener_tls ::
  "tls_lib \<Rightarrow> config_snapshot \<Rightarrow> listener_config \<Rightarrow> setup_error + server_config option" where
  "listener_tls lib sn l =
     (if lc_tls l then
        (case tls_certs (pc_tls (sn_config sn)) of
           [] \<Rightarrow> Inl (NotFound ''TLS enabled on listener but no certificates configured in global tls config'')
         | cert # _ \<Rightarrow>
             (case load_tls_config lib (cc_cert_path cert) (cc_key_path cert) (lc_protocols l) of
                Inl e \<Rightarrow> Inl (InvalidData e)
              | Inr cfg \<Rightarrow> Inr (Some cfg)))
      else Inr None)"

text \<open>The operations of a stream, and the stream that is one of two.\<close>

record 's stream_ops =
  so_read :: "nat \<Rightarrow> 's \<Rightarrow> read_result \<times> 's"
  so_write :: "bytes \<Rightarrow> 's \<Rightarrow> nat option \<times> 's"
  so_flush :: "'s \<Rightarrow> bool \<times> 's"
  so_shutdown :: "'s \<Rightarrow> bool \<times> 's"

datatype ('p, 't) maybe_tls_stream = Plain 'p | Tls 't

definition delegate ::
  "('p \<Rightarrow> 'r \<times> 'p) \<Rightarrow> ('t \<Rightarrow> 'r \<times> 't) \<Rightarrow> ('p, 't) maybe_tls_stream \<Rightarrow> 'r \<times> ('p, 't) maybe_tls_stream" where
  "delegate f g s = (case s of Plain p \<Rightarrow> map_prod id Plain (f p) | Tls t \<Rightarrow> map_prod id Tls (g t))"

definition maybe_tls_ops :: "'p stream_ops \<Rightarrow> 't stream_ops \<Rightarrow> ('p, 't) maybe_tls_stream stream_ops" where
  "maybe_tls_ops P T =
     \<lparr>so_read = (\<lambda>n. delegate (so_read P n) (so_read T n)),
      so_write = (\<lambda>bs. delegate (so_write P bs) (so_write T bs)),
      so_flush = delegate (so_flush P) (so_flush T),
      so_shutdown = delegate (so_shutdown P) (so_shutdown T)\<rparr>"

text \<open>
  The runtime of a listener. The crypto provider of the process can be installed once; a second
  attempt fails and is ignored. The client's settings are those given to its builder.
\<close>

record client_settings =
  cs_enforce_http :: bool
  cs_nodelay :: bool
  cs_max_idle_per_host :: nat
  cs_idle_timeout_secs :: nat
  cs_http1_writev :: bool

record proxy_runtime =
  rt_client :: client_settings
  rt_fast_pool :: "upstream_conn fast_pool"
  rt_connections :: tracker

definition install_default :: "bool \<Rightarrow> (unit, unit) outcome \<times> bool" where
  "install_default installed = (if installed then Err () else Ok (), True)"

definition proxy_runtime_new :: "bool \<Rightarrow> proxy_runtime \<times> bool" where
  "proxy_runtime_new installed =
     (let (_, installed') = install_default installed in
      (\<lparr>rt_client = \<lparr>cs_enforce_http = False, cs_nodelay = True, cs_max_idle_per_host = 1024,
          cs_idle_timeout_secs = 90, cs_http1_writev = True\<rparr>,
        rt_fast_pool = fast_pool_new, rt_connections = tracker_new\<rparr>, installed'))"

section \<open>TLS\<close>

lemma collect_certs_map [simp]: "collect_certs (map Inr xs) = Inr xs"
  by (induction xs) simp_all

lemma collect_certs_Inr: "collect_certs rs = Inr xs \<longleftrightarrow> rs = map Inr xs"
proof
  show "collect_certs rs = Inr xs \<Longrightarrow> rs = map Inr xs"
    by (induction rs arbitrary: xs rule: collect_certs.induct) (auto split: sum.splits)
qed simp

lemma collect_certs_Inl:
  "collect_certs rs = Inl e \<longleftrightarrow> (\<exists>xs rest. rs = map Inr xs @ Inl e # rest)"
proof (induction rs rule: collect_certs.induct)
  case (3 x rs)
  show ?case
  proof
    assume "collect_certs (Inr x # rs) = Inl e"
    with 3 obtain xs rest where "rs = map Inr xs @ Inl e # rest" by (auto split: sum.splits)
    then show "\<exists>xs rest. Inr x # rs = map Inr xs @ Inl e # rest" by (intro exI [of _ "x # xs"]) auto
  next
    assume "\<exists>xs rest. Inr x # rs = map Inr xs @ Inl e # rest"
    then obtain xs rest where "Inr x # rs = map Inr xs @ Inl e # rest" by blast
    then have "\<exists>xs rest. rs = map Inr xs @ Inl e # rest" by (cases xs) auto
    with 3 show "collect_certs (Inr x # rs) = Inl e" by simp
  qed
qed (auto simp: Cons_eq_append_conv)

text \<open>A configuration is loaded exactly if every section and the key can be read and they fit.\<close>

lemma load_tls_config_Inr:
  "load_tls_config lib c k ps = Inr cfg \<longleftrightarrow>
     tl_certs lib c = Inr (map Inr (sc_certs cfg)) \<and> tl_key lib k = Inr (sc_key cfg) \<and>
     tl_rejects lib (sc_certs cfg) (sc_key cfg) = None \<and> sc_alpn cfg = alpn_protocols ps"
  by (cases cfg) (auto simp: load_tls_config_def collect_certs_Inr split: sum.splits option.splits)

text \<open>Only the protocols that run over TCP are offered, and HTTP/2 is preferred.\<close>

lemma alpn_offers:
  "x \<in> set (alpn_protocols ps) \<longleftrightarrow> x = ''h2'' \<and> H2 \<in> set ps \<or> x = ''http/1.1'' \<and> H1 \<in> set ps"
  "distinct (alpn_protocols ps)" "H2 \<in> set ps \<Longrightarrow> hd (alpn_protocols ps) = ''h2''"
  by (auto simp: alpn_protocols_def)

text \<open>
  The decision of \<^verbatim>\<open>serve_listener\<close>, with the certificate loader of this theory: the two set-up errors
  are those of \<open>listener_tls\<close>, and the protocols handed to the connections are those of the loaded
  configuration.
\<close>

definition loads :: "tls_lib \<Rightarrow> listener_config \<Rightarrow> string \<Rightarrow> string \<Rightarrow> bool" where
  "loads lib l c k \<longleftrightarrow> (\<exists>cfg. load_tls_config lib c k (lc_protocols l) = Inr cfg)"

lemma serve_listener_tls:
  "listener_tls lib sn l = Inl (NotFound m) \<Longrightarrow> serve_listener h3 (loads lib l) par sn l = NoCertificate"
  "listener_tls lib sn l = Inl (InvalidData e) \<Longrightarrow> serve_listener h3 (loads lib l) par sn l = BadCertificate"
  "listener_tls lib sn l = Inr tls \<Longrightarrow> serve_listener h3 (loads lib l) par sn l \<notin> {NoCertificate, BadCertificate}"
  by (auto simp: serve_listener_def listener_tls_def loads_def Let_def split: if_splits list.splits sum.splits)

lemma serve_listener_alpn:
  assumes "listener_tls lib sn l = Inr tls"
    "serve_listener h3 (loads lib l) par sn l = Accept n h1 fast alpn"
  shows "alpn = map_option sc_alpn tls"
  using assms
  by (auto simp: serve_listener_def listener_tls_def loads_def load_tls_config_Inr Let_def split: if_splits list.splits sum.splits)

section \<open>The wrapped stream\<close>

text \<open>Any sequence of calls on the wrapper is that sequence on the stream inside.\<close>

datatype stream_call = CallRead nat | CallWrite bytes | CallFlush | CallShutdown

datatype stream_reply = ReplyRead read_result | ReplyWrite "nat option" | ReplyUnit bool

definition call_stream :: "'s stream_ops \<Rightarrow> stream_call \<Rightarrow> 's \<Rightarrow> stream_reply \<times> 's" where
  "call_stream S c s =
     (case c of
        CallRead n \<Rightarrow> map_prod ReplyRead id (so_read S n s)
      | CallWrite bs \<Rightarrow> map_prod ReplyWrite id (so_write S bs s)
      | CallFlush \<Rightarrow> map_prod ReplyUnit id (so_flush S s)
      | CallShutdown \<Rightarrow> map_prod ReplyUnit id (so_shutdown S s))"

fun call_all :: "'s stream_ops \<Rightarrow> stream_call list \<Rightarrow> 's \<Rightarrow> stream_reply list \<times> 's" where
  "call_all S [] s = ([], s)"
| "call_all S (c # cs) s =
     (let (r, s') = call_stream S c s; (rs, s'') = call_all S cs s' in (r # rs, s''))"

lemma call_maybe_tls:
  "call_stream (maybe_tls_ops P T) c (Plain p) = map_prod id Plain (call_stream P c p)"
  "call_stream (maybe_tls_ops P T) c (Tls t) = map_prod id Tls (call_stream T c t)"
  by (simp_all add: call_stream_def maybe_tls_ops_def delegate_def map_prod_def case_prod_beta split: stream_call.split)

lemma call_all_maybe_tls:
  "call_all (maybe_tls_ops P T) cs (Plain p) = map_prod id Plain (call_all P cs p)"
  "call_all (maybe_tls_ops P T) cs (Tls t) = map_prod id Tls (call_all T cs t)"
  by (induction cs arbitrary: p t) (simp_all add: call_maybe_tls map_prod_def case_prod_beta Let_def)

section \<open>The runtime\<close>

text \<open>Starting a runtime never fails, and it starts with an empty pool and no connection.\<close>

lemma proxy_runtime_new_fresh:
  "fast_inv (rt_fast_pool (fst (proxy_runtime_new b)))" "fast_idle (rt_fast_pool (fst (proxy_runtime_new b))) k = []"
  "rt_connections (fst (proxy_runtime_new b)) = tracker_new" "snd (proxy_runtime_new b)"
  using fast.none_inv fast.none_idle by (simp_all add: proxy_runtime_new_def install_default_def)

end
