(* ===== verification/Unit_Tests.thy ===== *)
theory Unit_Tests
  imports Admin Accept_Loop
begin

text \<open>
  The repository's own unit tests, run on the model. Each \<^verbatim>\<open>#[test]\<close> function below is a
  definition of the same assertions over the model's functions, and a lemma that it holds. TOML texts
  are the configurations they deserialize to, with the defaults of the omitted fields; the crates that
  the tested functions call are small executable parsers (\<open>test_lib\<close>).
\<close>

section \<open>Parsers for the tests\<close>

text \<open>Authorities with an optional decimal port, whose value no test looks at; URIs of the two HTTP schemes.\<close>

definition test_authority :: "string \<Rightarrow> authority option" where
  "test_authority s =
     (if s = [] \<or> CHR ''/'' \<in> set s \<or> CHR '' '' \<in> set s then None
      else let rest = dropWhile (\<lambda>c. c \<noteq> CHR '':'') s in
        Some \<lparr>auth_text = s, auth_host = takeWhile (\<lambda>c. c \<noteq> CHR '':'') s,
              auth_port = (if rest \<noteq> [] \<and> tl rest \<noteq> [] \<and> list_all is_ascii_digit (tl rest) then Some 80 else None)\<rparr>)"

definition test_uri :: "string \<Rightarrow> uri option" where
  "test_uri s =
     (let after = (\<lambda>scheme rest. Some \<lparr>uri_scheme = Some scheme,
            uri_authority = test_authority (takeWhile (\<lambda>c. c \<noteq> CHR ''/'') rest),
            uri_path = dropWhile (\<lambda>c. c \<noteq> CHR ''/'') rest\<rparr>)
      in case strip_prefix s ''http://'' of
           Some rest \<Rightarrow> after ''http'' rest
         | None \<Rightarrow> (case strip_prefix s ''https://'' of Some rest \<Rightarrow> after ''https'' rest | None \<Rightarrow> None))"

definition test_lib :: ext_lib where
  "test_lib = sample_lib\<lparr>lib_parse_uri := test_uri, lib_parse_authority := test_authority\<rparr>"

definition show_uri :: "uri \<Rightarrow> string" where
  "show_uri u = (case (uri_scheme u, uri_authority u) of
      (Some s, Some a) \<Rightarrow> s @ ''://'' @ auth_text a @ uri_path u | _ \<Rightarrow> uri_path u)"

text \<open>\<^verbatim>\<open>ConfigSnapshot::parse(text, "inline")\<close> for a text that deserializes to the given configuration.\<close>

definition parse_inline :: "proxy_config \<Rightarrow> (config_snapshot \<times> usize, config_error) outcome" where
  "parse_inline config = snapshot_parse test_lib (\<lambda>_. Inr config) 0 [] ''inline''"

definition parses :: "proxy_config \<Rightarrow> (config_snapshot \<Rightarrow> bool) \<Rightarrow> bool" where
  "parses config P = (case parse_inline config of Ok (sn, _) \<Rightarrow> P sn | _ \<Rightarrow> False)"

definition rejected :: "proxy_config \<Rightarrow> bool" where
  "rejected config = (case parse_inline config of Err _ \<Rightarrow> True | _ \<Rightarrow> False)"

section \<open>Configuration\<close>

definition one_upstream :: "upstream_config \<Rightarrow> proxy_config" where
  "one_upstream u = (default_proxy_config False)
     \<lparr>pc_routes := [default_route\<lparr>rt_name := ''root'', rt_upstream_pool := ''web''\<rparr>],
      pc_upstream_pools := [(''web'', default_upstream_pool\<lparr>up_upstreams := [u]\<rparr>)]\<rparr>"

definition web_a :: upstream_config where
  "web_a = default_upstream\<lparr>us_name := ''web-a'', us_url := ''http://127.0.0.1:9002''\<rparr>"

definition test_upstream_states_have_unique_ids :: bool where
  "test_upstream_states_have_unique_ids =
     parses ((one_upstream default_upstream)\<lparr>pc_routes := [default_route\<lparr>rt_name := ''r'', rt_upstream_pool := ''web''\<rparr>],
        pc_upstream_pools := [(''web'', default_upstream_pool\<lparr>up_upstreams :=
        [default_upstream\<lparr>us_name := ''a'', us_url := ''http://127.0.0.1:9000''\<rparr>,
         default_upstream\<lparr>us_name := ''b'', us_url := ''http://127.0.0.1:9001''\<rparr>]\<rparr>)]\<rparr>)
       (\<lambda>sn. let ups = all_upstreams unat (sn_routes sn) in length ups = 2 \<and> st_id (ups ! 0) \<noteq> st_id (ups ! 1))"

definition test_runtime_defaults_match_build_profile :: "bool \<Rightarrow> bool" where
  "test_runtime_defaults_match_build_profile single_core =
     (let cfg = default_runtime single_core in
      rc_zero_copy cfg = (\<not> single_core) \<and> rc_liveness_probe_idle_ms cfg = 250 \<and>
      liveness_probe_idle cfg div 1000000 = 250)"

definition test_runtime_omitted_fields_use_defaults :: "bool \<Rightarrow> bool" where
  "test_runtime_omitted_fields_use_defaults single_core =
     parses ((one_upstream (default_upstream\<lparr>us_name := ''a'', us_url := ''http://127.0.0.1:9000''\<rparr>))
        \<lparr>pc_routes := [default_route\<lparr>rt_name := ''r'', rt_upstream_pool := ''web''\<rparr>],
         pc_runtime := default_runtime single_core\<rparr>)
       (\<lambda>sn. rc_zero_copy (pc_runtime (sn_config sn)) = (\<not> single_core))"

text \<open>The fixture \<^verbatim>\<open>sample()\<close>.\<close>

definition test_sample :: proxy_config where
  "test_sample = (default_proxy_config False)
     \<lparr>pc_routes :=
        [default_route\<lparr>rt_name := ''api'', rt_host := ''example.com'', rt_path_prefix := ''/api'', rt_upstream_pool := ''api''\<rparr>,
         default_route\<lparr>rt_name := ''root'', rt_upstream_pool := ''web''\<rparr>],
      pc_upstream_pools :=
        [(''api'', default_upstream_pool\<lparr>up_upstreams :=
            [default_upstream\<lparr>us_name := ''api-a'', us_url := ''http://127.0.0.1:9001'', us_weight := 2\<rparr>]\<rparr>),
         (''web'', default_upstream_pool\<lparr>up_upstreams := [web_a\<lparr>us_protocol := UpH2\<rparr>]\<rparr>)]\<rparr>"

definition matches_name :: "string \<Rightarrow> string \<Rightarrow> string \<Rightarrow> config_snapshot \<Rightarrow> bool" where
  "matches_name host path name sn =
     (map_option (rt_name \<circ> cr_route) (match_route test_lib (sn_routes sn) (Some host) path) = Some name)"

definition test_parses_and_matches_longest_route :: bool where
  "test_parses_and_matches_longest_route =
     parses test_sample (matches_name ''example.com:443'' ''/api/users'' ''api'')"

definition test_route_prefixes_require_segment_boundaries :: bool where
  "test_route_prefixes_require_segment_boundaries =
     parses test_sample (\<lambda>sn. matches_name ''example.com'' ''/apiary'' ''root'' sn \<and>
       matches_name ''example.com'' ''/api?x=1'' ''api'' sn)"

definition test_rejects_malformed_host_authority :: bool where
  "test_rejects_malformed_host_authority =
     parses test_sample (\<lambda>sn. match_route test_lib (sn_routes sn) (Some ''example.com:bad'') ''/api'' = None)"

definition test_rejects_unsupported_https_upstream_scheme :: bool where
  "test_rejects_unsupported_https_upstream_scheme =
     rejected (one_upstream (web_a\<lparr>us_url := ''https://127.0.0.1:9002''\<rparr>))"

definition test_rejects_excessive_upstream_weight :: bool where
  "test_rejects_excessive_upstream_weight = rejected (one_upstream (web_a\<lparr>us_weight := 10001\<rparr>))"

definition test_rejects_h3_without_explicit_opt_in :: bool where
  "test_rejects_h3_without_explicit_opt_in =
     rejected (one_upstream (default_upstream\<lparr>us_name := ''web-h3'', us_url := ''https://127.0.0.1:9443'', us_protocol := UpH3\<rparr>))"

definition test_weighted_selection_marks_passive_failures :: bool where
  "test_weighted_selection_marks_passive_failures =
     parses test_sample (\<lambda>sn.
       case match_route test_lib (sn_routes sn) (Some ''example.com'') ''/api'' of
         None \<Rightarrow> False
       | Some route \<Rightarrow>
           (case route_upstream sn route of
              (Ok (Some (r, u)), _) \<Rightarrow>
                st_passive_failures (mark_failure u) = 1 \<and> st_passive_failures (mark_success (mark_failure u)) = 0
            | _ \<Rightarrow> False))"

definition engine_listener :: "string \<Rightarrow> listener_protocol list \<Rightarrow> http1_engine \<Rightarrow> proxy_config" where
  "engine_listener name protocols engine = (one_upstream web_a)
     \<lparr>pc_listeners := [default_listener\<lparr>lc_name := name, lc_protocols := protocols, lc_http1_engine := engine\<rparr>]\<rparr>"

definition test_validates_fast_http1_engine_shape :: bool where
  "test_validates_fast_http1_engine_shape =
     parses (engine_listener ''fast'' [H1] Fast) (\<lambda>sn. lc_http1_engine (pc_listeners (sn_config sn) ! 0) = Fast)"

definition test_rejects_fast_http1_engine_for_mixed_protocols :: bool where
  "test_rejects_fast_http1_engine_for_mixed_protocols = rejected (engine_listener ''fast'' [H1, H2] Fast)"

definition test_validates_uring_http1_engine_shape :: bool where
  "test_validates_uring_http1_engine_shape =
     parses (engine_listener ''uring'' [H1] Uring) (\<lambda>sn. lc_http1_engine (pc_listeners (sn_config sn) ! 0) = Uring)"

definition edge_web :: "l4_service_config" where
  "edge_web = default_l4_service\<lparr>sv_name := ''edge-web'', sv_domains := [''example.com'', ''www.example.com''],
     sv_vip := V4 192 0 2 10, sv_port := 443,
     sv_real_servers := [default_l4_real_server\<lparr>rs_address := V4 10 0 0 11, rs_port := 443, rs_weight := 2\<rparr>]\<rparr>"

definition test_parses_l4_only_service :: bool where
  "test_parses_l4_only_service =
     parses ((default_proxy_config False)\<lparr>pc_listeners := [], pc_l4_services := [edge_web]\<rparr>) (\<lambda>sn.
       pc_listeners (sn_config sn) = [] \<and>
       sv_domains (pc_l4_services (sn_config sn) ! 0) = [''example.com'', ''www.example.com''] \<and>
       rs_weight (sv_real_servers (pc_l4_services (sn_config sn) ! 0) ! 0) = 2)"

definition test_rejects_l4_listener_bind_conflict :: bool where
  "test_rejects_l4_listener_bind_conflict =
     rejected ((one_upstream web_a)
       \<lparr>pc_listeners := [default_listener\<lparr>lc_bind := SockV4 (V4 192 0 2 10) 443, lc_protocols := [H1]\<rparr>],
        pc_l4_services := [edge_web\<lparr>sv_domains := [''example.com''],
          sv_real_servers := [default_l4_real_server\<lparr>rs_address := V4 10 0 0 11, rs_port := 443\<rparr>]\<rparr>]\<rparr>)"

lemma unit_upstream_states_have_unique_ids: test_upstream_states_have_unique_ids by code_simp
lemma unit_runtime_defaults_match_build_profile: "test_runtime_defaults_match_build_profile b"
  by (simp add: test_runtime_defaults_match_build_profile_def default_runtime_def liveness_probe_idle_def duration_from_millis_def)
lemma unit_runtime_omitted_fields_use_defaults: "test_runtime_omitted_fields_use_defaults b" by (cases b; code_simp)
lemma unit_parses_and_matches_longest_route: test_parses_and_matches_longest_route by code_simp
lemma unit_route_prefixes_require_segment_boundaries: test_route_prefixes_require_segment_boundaries by code_simp
lemma unit_rejects_malformed_host_authority: test_rejects_malformed_host_authority by code_simp
lemma unit_rejects_unsupported_https_upstream_scheme: test_rejects_unsupported_https_upstream_scheme by code_simp
lemma invalid_rejected:
  assumes "pools_fit config" "\<not> config_ok test_lib config"
  shows "rejected config"
proof -
  obtain e where "validate test_lib config = Err e"
    using validate_Ok [OF assms(1), of test_lib] assms(2) validate_reports [of test_lib config]
    by (cases "validate test_lib config") (auto simp: reports_def)
  then show ?thesis by (simp add: rejected_def parse_inline_def snapshot_parse_def)
qed

lemma unit_rejects_excessive_upstream_weight: test_rejects_excessive_upstream_weight
  unfolding test_rejects_excessive_upstream_weight_def
  by (rule invalid_rejected)
     (simp_all add: pools_fit_def one_upstream_def config_ok_def pool_ok_def upstream_ok_def MAX_UPSTREAM_WEIGHT_def
       web_a_def default_upstream_def default_upstream_pool_def)

lemma unit_rejects_h3_without_explicit_opt_in: test_rejects_h3_without_explicit_opt_in by code_simp
lemma unit_weighted_selection_marks_passive_failures: test_weighted_selection_marks_passive_failures by code_simp
lemma unit_validates_fast_http1_engine_shape: test_validates_fast_http1_engine_shape by code_simp
lemma unit_rejects_fast_http1_engine_for_mixed_protocols: test_rejects_fast_http1_engine_for_mixed_protocols by code_simp
lemma unit_validates_uring_http1_engine_shape: test_validates_uring_http1_engine_shape by code_simp
lemma unit_parses_l4_only_service: test_parses_l4_only_service by code_simp
lemma unit_rejects_l4_listener_bind_conflict: test_rejects_l4_listener_bind_conflict by code_simp

section \<open>Transfers, pools and paths\<close>

definition has_part :: "string \<Rightarrow> string \<Rightarrow> bool" where
  "has_part s part = (sample_find_from 0 s part \<noteq> None)"

definition test_chunk_sizes_match_build_profile :: "bool \<Rightarrow> bool" where
  "test_chunk_sizes_match_build_profile single_core \<longleftrightarrow>
     READ_CHUNK_BYTES = 16 * 1024 \<and> BODY_CHUNK_BYTES single_core = (if single_core then 64 * 1024 else 16 * 1024)"

definition test_pool_checkout_is_idle_gated_and_id_keyed :: bool where
  "test_pool_checkout_is_idle_gated_and_id_keyed =
     (let pool = checkin 0 7 (1 :: nat) fast_pool_new;
          (a, pool1) = checkout (\<lambda>_. RecvEof) 1 250000000 9 pool;
          (b, pool2) = checkout (\<lambda>_. RecvEof) 1 250000000 7 pool1
      in a = None \<and> b \<noteq> None)"

definition test_joins_upstream_base_path :: bool where
  "test_joins_upstream_base_path =
     parses (one_upstream (web_a\<lparr>us_url := ''http://127.0.0.1:9000/base''\<rparr>)) (\<lambda>sn.
       case match_route test_lib (sn_routes sn) None ''/api?q=1'' of
         None \<Rightarrow> False
       | Some route \<Rightarrow>
           (case route_upstream sn route of
              (Ok (Some (_, u)), _) \<Rightarrow>
                map_option show_uri (build_uri test_lib (st_uri_base u) ''/api?q=1'') = Some ''http://127.0.0.1:9000/base/api?q=1''
            | _ \<Rightarrow> False))"

lemma unit_chunk_sizes_match_build_profile: "test_chunk_sizes_match_build_profile b"
  by (simp add: test_chunk_sizes_match_build_profile_def READ_CHUNK_BYTES_def BODY_CHUNK_BYTES_def)

lemma unit_pool_checkout_is_idle_gated_and_id_keyed: test_pool_checkout_is_idle_gated_and_id_keyed
proof -
  have "fst (checkout (\<lambda>_. RecvEof) 1 250000000 9 (checkin 0 7 (1 :: nat) fast_pool_new)) = None"
    "fast_idle (snd (checkout (\<lambda>_. RecvEof) 1 250000000 9 (checkin 0 7 (1 :: nat) fast_pool_new))) 7 = [(1, 0)]"
    by (simp_all add: fast.tak_result fast.tak_idle fast.put_inv fast.none_inv fast.put_idle fast.none_idle)
  then show ?thesis
    using pop_alive_snoc [of "\<lambda>_. RecvEof" 1 250000000 "[]" "(1 :: nat, 0)"]
    by (simp add: test_pool_checkout_is_idle_gated_and_id_keyed_def Let_def case_prod_beta fast.tak_result fast.tak_inv
        fast.put_inv fast.none_inv usable_def)
qed

lemma unit_joins_upstream_base_path: test_joins_upstream_base_path by code_simp

section \<open>Layer 4, listeners, administration\<close>

definition test_service :: l4_service_config where
  "test_service = edge_web\<lparr>sv_real_servers :=
     [default_l4_real_server\<lparr>rs_address := V4 10 0 0 11, rs_port := 443, rs_weight := 2\<rparr>,
      default_l4_real_server\<lparr>rs_address := V4 10 0 0 12, rs_port := 443, rs_weight := 1\<rparr>]\<rparr>"

definition test_renders_ipvs_dsr_plan :: bool where
  "test_renders_ipvs_dsr_plan \<longleftrightarrow>
     map show_command (reconcile [] [test_service]) =
       [''/usr/sbin/ipvsadm -D -t 192.0.2.10:443  # ignore failure'',
        ''/usr/sbin/ipvsadm -A -t 192.0.2.10:443 -s wrr'',
        ''/usr/sbin/ipvsadm -a -t 192.0.2.10:443 -r 10.0.0.11:443 -g -w 2'',
        ''/usr/sbin/ipvsadm -a -t 192.0.2.10:443 -r 10.0.0.12:443 -g -w 1'']"

definition test_deletes_previous_service_on_reconcile :: bool where
  "test_deletes_previous_service_on_reconcile =
     (let rendered = render_plan [test_service\<lparr>sv_vip := V4 192 0 2 20\<rparr>] [test_service] in
      has_part rendered ''ipvsadm -D -t 192.0.2.20:443'' \<and> has_part rendered ''ipvsadm -A -t 192.0.2.10:443 -s wrr'')"

definition test_detects_listener_shape_changes :: bool where
  "test_detects_listener_shape_changes =
     (let base = default_listener;
          changed = base\<lparr>lc_protocols := [H1, H2, H3]\<rparr>;
          changed_socket_options = base\<lparr>lc_reuse_port := True, lc_accept_workers := 2\<rparr>;
          changed_engine = base\<lparr>lc_protocols := [H1], lc_http1_engine := Fast\<rparr>
      in same_listener_shape [base] [base] \<and> \<not> same_listener_shape [base] [changed] \<and>
         \<not> same_listener_shape [base] [changed_socket_options] \<and> \<not> same_listener_shape [base] [changed_engine])"

definition test_extracts_bearer_admin_token :: bool where
  "test_extracts_bearer_admin_token \<longleftrightarrow>
     admin_token_from_headers (sample_admin\<lparr>ae_to_str := Some\<rparr>) [(''authorization'', ''Bearer secret'')] = Some ''secret''"

definition test_marks_only_liveness_and_ui_as_public :: bool where
  "test_marks_only_liveness_and_ui_as_public \<longleftrightarrow>
     is_public_endpoint GET ''/'' \<and> is_public_endpoint GET ''/healthz'' \<and>
     \<not> is_public_endpoint GET ''/metrics'' \<and> \<not> is_public_endpoint POST ''/reload''"

lemma unit_renders_ipvs_dsr_plan: test_renders_ipvs_dsr_plan by code_simp
lemma unit_deletes_previous_service_on_reconcile: test_deletes_previous_service_on_reconcile by code_simp
lemma unit_detects_listener_shape_changes: test_detects_listener_shape_changes by code_simp
lemma unit_extracts_bearer_admin_token: test_extracts_bearer_admin_token
  by (simp add: test_extracts_bearer_admin_token_def admin_token_from_headers_def strip_prefix_def starts_with_iff)
lemma unit_marks_only_liveness_and_ui_as_public: test_marks_only_liveness_and_ui_as_public by code_simp

end
