(* ===== verification/Spec2Isabelle.thy ===== *)
theory Spec2Isabelle
  imports Splice_Fds Accept_Loop H3_Conn Process Shared_State Listener_Setup Unit_Tests
begin

text \<open>
  yxorp is an edge reverse proxy. A TOML file names listeners, routes, pools of upstreams and
  layer-4 services; the supervisor loads it, starts one task per listener and one health worker per
  checked upstream, installs the layer-4 services in the kernel, and on a reload replaces what has
  changed. A connection is served by one of four engines (fast HTTP/1, io\_uring HTTP/1, hyper,
  HTTP/3), which match each request to a route, admit it at the route's rate limiter, select an
  upstream of the route's pool and relay request and response.

  \<^bold>\<open>Conventions.\<close> \<^verbatim>\<open>Result\<close> with possible panics is \<open>outcome\<close> (\<^verbatim>\<open>Prelude\<close>); Rust integers are words of
  their width; bytes and text are strings of 8-bit characters; shared state behind \<^verbatim>\<open>Arc\<close>, \<^verbatim>\<open>Mutex\<close> and
  atomics is passed explicitly. Third-party crates are parameters: the record \<open>ext_lib\<close> (\<^verbatim>\<open>External\<close>)
  for \<^verbatim>\<open>http\<close>, \<^verbatim>\<open>memchr\<close> and \<^verbatim>\<open>httparse\<close>, and one environment record per component for sockets,
  clocks, DNS, files and child processes. What a theorem needs of them is a named hypothesis
  (\<open>memmem_first\<close>, \<open>authority_is_header\<close>, \<open>ipvs_laws\<close>, \<open>query_law\<close>, \<open>ct_eq_is_equality\<close>,
  \<open>parser_ok\<close>, \<open>env_ok\<close>), what it needs of the input is another (\<open>ipvs_ready\<close>, \<open>file_ready\<close>,
  \<open>cleans_up\<close>, \<open>open_sinks\<close>, \<open>dials_open\<close>), and its witness instantiates them (\<^verbatim>\<open>Sample_Lib\<close> and
  the samples at the end of each theory). A socket is a script of the events its reader sees and a
  limit on what its writer accepts, so segmentation, errors, ends of file and stalls are inputs. No
  fuel is used: the loops end because every iteration consumes input, which their termination
  proofs show; an operation that waits for ever is the value \<open>AStall\<close>, and a theorem that code
  returns says when this value is excluded. Arithmetic is that of the release profile, in which
  \<^verbatim>\<open>+\<close> and \<^verbatim>\<open>-\<close> on integers wrap; a debug build panics instead, for instance at \<^verbatim>\<open>size + 2\<close> in
  \<^verbatim>\<open>copy_chunked_body\<close>.

  \<^bold>\<open>Foundations.\<close> \<^verbatim>\<open>Prelude\<close> (outcomes, words, lemma collections), \<^verbatim>\<open>Rust_Std\<close> (the string functions
  of the standard library), \<^verbatim>\<open>External\<close>, \<^verbatim>\<open>Sample_Lib\<close>, \<^verbatim>\<open>F32\<close> (binary32 arithmetic), \<^verbatim>\<open>Net_Addr\<close>
  (addresses and their text), \<^verbatim>\<open>Streams\<close> and \<^verbatim>\<open>Transfer_Progress\<close> (socket scripts, reading and its
  progress; the locale \<open>stream_progress\<close> is interpreted for termination, for the cost of the bytes
  read and for sinks that keep accepting).

  \<^bold>\<open>Configuration\<close> (\<^verbatim>\<open>src/src/config/mod.rs\<close>).
  \<^item> \<^verbatim>\<open>Config\<close>: all configuration types with their defaults and \<^verbatim>\<open>ProxyConfig::validate\<close>; it decides a
    declarative specification.
  \<^item> \<^verbatim>\<open>Upstream\<close>: \<^verbatim>\<open>UpstreamState\<close>, \<^verbatim>\<open>UriBase\<close>, \<^verbatim>\<open>UpstreamPool\<close>; weighted round robin is exact, an
    available upstream is found, passive failures take an upstream out of rotation.
  \<^item> \<^verbatim>\<open>Routes\<close>: \<^verbatim>\<open>RouteTable\<close> and \<^verbatim>\<open>ConfigSnapshot\<close>; matching refines longest-prefix matching with
    hosts before wildcards, and parsing a configuration never panics.

  \<^bold>\<open>Rate limiting\<close> (\<^verbatim>\<open>src/src/proxy/rate_limit.rs\<close>). \<^verbatim>\<open>Rate_Limit\<close>: the sharded limiter keeps its
  invariant and answers like an unbounded map of buckets as long as no shard overflows.

  \<^bold>\<open>HTTP/1\<close> (\<^verbatim>\<open>src/src/proxy/h1_fast.rs\<close>, \<^verbatim>\<open>h1_uring.rs\<close>, \<^verbatim>\<open>zerocopy.rs\<close>).
  \<^item> \<^verbatim>\<open>Http1_Framing\<close>: heads, framing and header filtering of both engines; framing is unambiguous and
    survives forwarding, and exactly the end-to-end headers are forwarded.
  \<^item> \<^verbatim>\<open>Conn_Pool\<close>: both connection pools behind one locale.
  \<^item> \<^verbatim>\<open>Body_Copy\<close>, \<^verbatim>\<open>Response_Relay\<close>, \<^verbatim>\<open>Uring_Copy\<close>, \<^verbatim>\<open>Splice_Pipe\<close>: the copying helpers deliver exactly
    the body for every segmentation, with \<^verbatim>\<open>splice\<close> or buffers, as sequential code and as
    interleaved tasks on one pipe. Chunked bodies have a strict grammar, that of RFC 9112, all of
    whose bodies are copied, and a loose one, which describes exactly what is copied: the end of a
    chunk's data is not checked. An io\_uring copy that succeeds is exact, whatever a read may bring.
    \<^verbatim>\<open>Splice_Fds\<close>: the capability probe, the per-thread pipes and
    \<^verbatim>\<open>splice_raw\<close> on the table of open descriptors, of which none is leaked.
  \<^item> \<^verbatim>\<open>Requests\<close>: building the outbound request in both engines; it follows longest-prefix matching,
    prefers available upstreams and moves one cursor. The engines' requests differ in an explicit
    Content-Length of zero only.
  \<^item> \<^verbatim>\<open>Fast_Engine\<close>, \<^verbatim>\<open>Uring_Engine\<close>: \<^verbatim>\<open>serve_connection\<close> over a whole connection; it does not
    panic, returns unless a socket blocks it for ever, and relays faithfully or accounts for the
    failure.
  \<^item> \<^verbatim>\<open>Engine_Phases\<close>: the fast engine as a state machine over the points where it touches shared state,
    equal to \<^verbatim>\<open>serve_connection\<close> when it runs alone, with a bound on the number of phases.

  \<^bold>\<open>The other engines\<close> (\<^verbatim>\<open>src/src/proxy/mod.rs\<close>, \<^verbatim>\<open>h3_quiche.rs\<close>, \<^verbatim>\<open>ebpf.rs\<close>).
  \<^item> \<^verbatim>\<open>Hyper_Proxy\<close>: \<^verbatim>\<open>ProxyRuntime::proxy\<close>, the choice of the engine and the socket set-up; it sends a
    request where the fast engine would and books every exchange.
  \<^item> \<^verbatim>\<open>Listener_Setup\<close>: \<^verbatim>\<open>load_tls_config\<close>, \<^verbatim>\<open>MaybeTlsStream\<close> and \<^verbatim>\<open>ProxyRuntime::new\<close>; a listener loads
    exactly when its certificates fit, and the wrapped stream behaves like the stream inside.
  \<^item> \<^verbatim>\<open>Ebpf\<close>: interface and neighbour discovery, the connection-id map; reading the neighbour table
    inverts its printed form.
  \<^item> \<^verbatim>\<open>H3_Proxy\<close>: \<^verbatim>\<open>handle_h3_request\<close>; \<^verbatim>\<open>H3_Conn\<close>: the HTTP/3 listener as a step relation over
    connections, request tasks and closes, with an invariant of the shared map that covers
    deregistrations which fail.

  \<^bold>\<open>Control\<close> (\<^verbatim>\<open>src/src/control\<close>, \<^verbatim>\<open>src/src/admin/mod.rs\<close>, \<^verbatim>\<open>src/src/l4/mod.rs\<close>, \<^verbatim>\<open>src/src/main.rs\<close>).
  \<^item> \<^verbatim>\<open>L4\<close>: planning, running and printing \<^verbatim>\<open>ipvsadm\<close> commands; a plan installs exactly the services that
    \<^verbatim>\<open>ipvsadm\<close> can express, and one that fails leaves the previous ones deleted.
  \<^item> \<^verbatim>\<open>Health\<close>: the probe and its workers; the last probe decides.
  \<^item> \<^verbatim>\<open>Conn_Tracker\<close>: the atomic steps of \<^verbatim>\<open>ConnectionTracker\<close> interleaved with a drain.
  \<^item> \<^verbatim>\<open>Control\<close>: the supervisor as a run over events; it always serves one validated configuration,
    and the kernel's table follows it while \<^verbatim>\<open>ipvsadm\<close> works and the files loaded can be expressed in
    it; a reload that fails in \<^verbatim>\<open>apply\<close> loses the previous services.
  \<^item> \<^verbatim>\<open>Shared_State\<close>: the connections of a fast listener, the health workers and the supervisor as one
    step relation over the published snapshots and the shared pool; a request reaches the upstream
    selected for it, and a connection keeps its configuration while others are loaded. (Hyper and
    HTTP/3 load the current snapshot for every request and are not part of this relation.)
  \<^item> \<^verbatim>\<open>Admin\<close>: the admin endpoints; only token holders control the proxy, and a reload request is
    followed end to end, its failures included.
  \<^item> \<^verbatim>\<open>Accept_Loop\<close>: the accept loops of the tokio, io\_uring and admin listeners; the locale
    \<open>counted_tasks\<close> is their contract with the tracker, interpreted for both listeners.
  \<^item> \<^verbatim>\<open>Process\<close>: the commands of \<^verbatim>\<open>main\<close>, telemetry set-up and the ACME state; the printed plan is
    the executed plan, and \<^verbatim>\<open>check\<close> predicts \<^verbatim>\<open>serve\<close>.

  \<^bold>\<open>Unit tests.\<close> \<^verbatim>\<open>Unit_Tests\<close> states the assertions of 23 of the repository's unit tests over the model and
  evaluates them, which checks the model against what the code is tested for.

  \<^bold>\<open>Bounds.\<close> A run is shorter than \<open>2 ^ 64\<close> events where a \<^verbatim>\<open>usize\<close> counts them. The refinement of
  the rate limiter assumes that no shard overflows its 2048 entries, the point at which the code
  starts to forget buckets. Token counts are exact up to a capacity of \<open>2 ^ 24\<close>.

  \<^bold>\<open>Simplifications.\<close> The theories of the HTTP/1 engines follow one connection on its own copy of the
  snapshot and the pool. \<^verbatim>\<open>Shared_State\<close> lets the connections of the fast engine share both, at the
  granularity of phases: between two phases anything may happen, within one the several atomics of a
  selection are read at once, and every task has a splice pipe of its own. Finer interleaving is
  modelled where the code depends on it: the splice pipe of a thread, the connection tracker, the
  connection-id map, the accept loops. Histograms and log messages are left out; counters and gauges
  are kept. JSON bodies are values, not text.

  \<^bold>\<open>Not modelled.\<close> The empty actix actors, serde's mapping of TOML to the configuration types, the HTTP
  and QUIC machinery of hyper and tokio-quiche behind the calls the engines make, the XDP program
  \<^verbatim>\<open>src/src/ebpf/quic_route.c\<close> (C), the admin page, the benchmarks, and the unit tests that move bodies
  through real sockets.
\<close>

section \<open>From the configuration to the engines\<close>

lemma handle_h3_request_no_panic:
  assumes "snap_inv (hv_lib env) (hx_snapshot st)" "hx_room st = None"
  shows "fst (handle_h3_request env req st) \<noteq> Panic msg"
  using handle_h3_request_outcome [OF assms surjective_pairing, of req] outcome_no_panic
  by (auto simp: h3_outcome_def Let_def split: prod.splits if_splits option.splits)

text \<open>
  C17. Whatever the history of reloads, drains and signals, the engines can serve from the snapshot
  the supervisor then publishes: for a configuration that was loaded from a file and any events
  since, a connection of the fast engine, a request of the hyper engine and an HTTP/3 request on the
  current snapshot all end without a panic, whatever the client and the upstreams send.
\<close>

theorem engines_serve_running_configuration:
  assumes "parser_ok env" "snapshot_load (ce_lib env) (ce_from_str env) i path contents = Ok (initial, next_id)"
    "supervisor_start env initial next_id table = (Ok st, t)" "sn = sp_snapshot (run_events env path events st)"
    and "se_lib senv = ce_lib env" "env_ok senv" "cn_snapshot c = sn" "fast_inv (cn_pool c)"
    and "he_lib henv = ce_lib env" "px_snapshot p = sn"
    and "hv_lib qenv = ce_lib env" "hx_snapshot q = sn" "hx_room q = None"
  shows "fst (serve_connection senv c) \<noteq> APanic \<and> (\<exists>resp. fst (proxy henv req p) = Ok resp) \<and>
    fst (handle_h3_request qenv req3 q) \<noteq> Panic msg"
proof -
  have "supervisor_inv env (run_events env path events st)"
    using run_events_inv [OF assms(1) conjunct1 [OF supervisor_start_inv [OF assms(1-3)]]] .
  then have inv: "snap_inv (ce_lib env) sn" by (simp add: supervisor_inv_def assms(4) Let_def)
  then have "conn_inv senv c" using assms(5,7,8) by (simp add: conn_inv_def)
  from serve_connection_safe [OF this assms(6)] have "fst (serve_connection senv c) \<noteq> APanic" by blast
  moreover have "\<exists>resp. fst (proxy henv req p) = Ok resp"
    using proxy_outcome [OF _ surjective_pairing, of henv p req] inv assms(9,10) by auto
  moreover have "fst (handle_h3_request qenv req3 q) \<noteq> Panic msg"
    by (rule handle_h3_request_no_panic) (use inv assms(11-13) in simp_all)
  ultimately show ?thesis by blast
qed

theorem engines_serve_running_configuration_witness:
  "\<exists>st :: ipvs_view supervisor.
     sn_config (sp_snapshot (run_events sample_control ''f'' [ReloadCommand (Inr ''2'')] st)) = second_config \<and>
     fst (serve_connection sample_serve_env
       (sample_conn\<lparr>cn_snapshot := sp_snapshot (run_events sample_control ''f'' [ReloadCommand (Inr ''2'')] st)\<rparr>)) \<noteq> APanic"
proof -
  obtain sn j st st' where s: "snapshot_load (ce_lib sample_control) (ce_from_str sample_control) 0 ''f'' (Inr ''1'') = Ok (sn, j)"
    "supervisor_start sample_control sn j Map.empty = (Ok st, Map.empty)" "sp_running st"
    "sn_config (sp_snapshot st) = sample_config"
    "reload sample_control ''f'' (Inr ''2'') st = (Ok ''reloaded'', st')"
    "sn_config (sp_snapshot st') = second_config" "sp_running st'" by (rule sample_session)
  let ?sn = "sp_snapshot (run_events sample_control ''f'' [ReloadCommand (Inr ''2'')] st)"
  have lib: "se_lib sample_serve_env = ce_lib sample_control" "he_lib sample_hyper_env = ce_lib sample_control"
    "hv_lib sample_h3_env = ce_lib sample_control"
    by (simp_all add: sample_control_def sample_hyper_env_def sample_h3_env_def)
  have "fast_inv (cn_pool (sample_conn\<lparr>cn_snapshot := ?sn\<rparr>))" using sample_conn_inv by (simp add: conn_inv_def)
  from engines_serve_running_configuration [OF sample_control_ok(1) s(1,2) refl lib(1) sample_env_ok _ this lib(2) _ lib(3),
      of "[ReloadCommand (Inr ''2'')]" "sample_proxy_state\<lparr>px_snapshot := ?sn\<rparr>" "sample_h3_state\<lparr>hx_snapshot := ?sn\<rparr>"]
  have "fst (serve_connection sample_serve_env (sample_conn\<lparr>cn_snapshot := ?sn\<rparr>)) \<noteq> APanic"
    by (simp add: sample_h3_state_def)
  moreover have "?sn = sp_snapshot st'" using s by (simp add: run_event_def)
  ultimately show ?thesis using s(6) by metis
qed

end
